(* ===== verification/Prelude.thy ===== *)
theory Prelude
  imports Main "HOL-Library.Word" "HOL-Library.Product_Lexorder" "HOL-Library.Multiset"
begin

text \<open>
  Shared vocabulary of the development. The program is built for Windows x64, so
  \<open>uint64_t\<close> and \<open>size_t\<close> are 64-bit words (unsigned order, wrapping arithmetic),
  \<open>int64_t\<close> and \<open>int32_t\<close> are words read through \<open>sint\<close>, and a byte vector is a list
  of 8-bit words. \<open>std::string\<close> is a list of characters. The theory also holds the generic
  facts on lists and words that more than one component uses.
\<close>

type_synonym u8 = "8 word"
type_synonym u32 = "32 word"
type_synonym u64 = "64 word"
type_synonym i32 = "32 word"
type_synonym i64 = "64 word"
type_synonym usize = "64 word"
type_synonym bytes = "8 word list"

text \<open>Collections: branch equations of operations, and frame facts of state updates.\<close>

named_theorems op_defs \<open>definitions unfolded when an operation is analysed branch by branch\<close>
named_theorems frame_simps \<open>fields an operation leaves alone\<close>

definition max_u64 :: u64 where
  "max_u64 = - 1"

definition vsize :: "'a list \<Rightarrow> usize" where
  "vsize xs = word_of_nat (length xs)"

subsection \<open>Words\<close>

lemma max_u64_ge [simp]: "x \<le> max_u64"
  by (simp add: max_u64_def)

lemma unat_max_u64: "unat max_u64 = 2 ^ 64 - 1"
  by (simp add: max_u64_def unsigned_minus_1_eq_mask mask_eq_exp_minus_1)

lemma unat_bound: "unat x < 2 ^ 64"
  for x :: u64
  using unsigned_less [of x] by simp

lemma unat_vsize: "length xs < 2 ^ 64 \<Longrightarrow> unat (vsize xs) = length xs"
  by (simp add: vsize_def unat_of_nat)

lemma word_of_nat_zero_iff: "n < 2 ^ 64 \<Longrightarrow> word_of_nat n = (0 :: u64) \<longleftrightarrow> n = 0"
  by (auto simp: word_of_nat_eq_0_iff dest: dvd_imp_le)

lemma unat_succ: "x \<noteq> max_u64 \<Longrightarrow> unat (x + 1) = unat x + 1"
  for x :: u64
  unfolding max_u64_def
  by (metis Suc_eq_plus1 add.commute add.left_inverse add_left_cancel unatSuc)

end
