(* ===== verification/MasterTimeline.thy ===== *)
theory MasterTimeline
  imports Prelude
begin

text \<open>
  \<open>src/timeline\<close>: the identity issuer \<open>MasterFrameTimeline\<close>, the retained OBS frame
  interval \<open>MasterFrameTimingConfiguration\<close>, and \<open>MasterFrameCoordinator\<close>, which observes
  one libobs tick, asks the issuer for a frame and hands it to the frame sink. What libobs
  answers during one callback is a record of readings; the sink is a parameter that says
  whether it threw; log lines are values of \<open>timeline_log\<close>.
\<close>

subsection \<open>Data\<close>

record MasterFrame =
  frame_id :: u64
  pts_ns :: u64

datatype MasterFrameObservationResult = Accepted | NonMonotonicPts | FrameIdExhausted

datatype MasterFrameTimingConfigurationResult =
  Initialized | Unchanged | Changed | InvalidInterval

record MasterFrameTimeline =
  next_frame_id :: u64
  last_pts_ns :: "u64 option"
  frame_id_exhausted :: bool

record MasterFrameTimingConfiguration =
  frame_interval_ns :: "u64 option"

subsection \<open>The identity issuer\<close>

definition timeline_Reset :: "MasterFrameTimeline \<Rightarrow> MasterFrameTimeline" where
  "timeline_Reset t = t\<lparr>next_frame_id := 0, last_pts_ns := None, frame_id_exhausted := False\<rparr>"

definition new_timeline :: MasterFrameTimeline where
  "new_timeline = \<lparr>next_frame_id = 0, last_pts_ns = None, frame_id_exhausted = False\<rparr>"

definition Observe :: "u64 \<Rightarrow> MasterFrameTimeline \<Rightarrow>
    MasterFrameObservationResult \<times> MasterFrame option \<times> MasterFrameTimeline" where
  "Observe pts t =
     (if frame_id_exhausted t then (FrameIdExhausted, None, t)
      else if (case last_pts_ns t of Some l \<Rightarrow> pts \<le> l | None \<Rightarrow> False)
      then (NonMonotonicPts, None, t)
      else (Accepted, Some \<lparr>frame_id = next_frame_id t, pts_ns = pts\<rparr>,
            if next_frame_id t = max_u64
            then t\<lparr>last_pts_ns := Some pts, frame_id_exhausted := True\<rparr>
            else t\<lparr>last_pts_ns := Some pts, next_frame_id := next_frame_id t + 1\<rparr>))"

definition ObserveFrameInterval :: "u64 \<Rightarrow> MasterFrameTimingConfiguration \<Rightarrow>
    MasterFrameTimingConfigurationResult \<times> MasterFrameTimingConfiguration" where
  "ObserveFrameInterval ival c =
     (if ival = 0 then (InvalidInterval, c)
      else case frame_interval_ns c of
        None \<Rightarrow> (Initialized, c\<lparr>frame_interval_ns := Some ival\<rparr>)
      | Some old \<Rightarrow>
          (if old = ival then (Unchanged, c)
           else (Changed, c\<lparr>frame_interval_ns := Some ival\<rparr>)))"

definition timing_Reset :: "MasterFrameTimingConfiguration \<Rightarrow> MasterFrameTimingConfiguration" where
  "timing_Reset c = c\<lparr>frame_interval_ns := None\<rparr>"

text \<open>A run of observations: the frames issued, and the issuer afterwards.\<close>

fun observe_all :: "MasterFrameTimeline \<Rightarrow> u64 list \<Rightarrow> MasterFrame list \<times> MasterFrameTimeline" where
  "observe_all t [] = ([], t)"
| "observe_all t (p # ps) =
     (let (_, f, t') = Observe p t; (fs, t'') = observe_all t' ps
      in (case f of Some g \<Rightarrow> g # fs | None \<Rightarrow> fs, t''))"

text \<open>
  What the issuer promises: the frames are the strict records of the observed PTS values
  (every value above all earlier ones), numbered from zero.
\<close>

fun strict_records :: "u64 option \<Rightarrow> u64 list \<Rightarrow> u64 list" where
  "strict_records l [] = []"
| "strict_records l (p # ps) =
     (if (case l of Some x \<Rightarrow> x < p | None \<Rightarrow> True) then p # strict_records (Some p) ps
      else strict_records l ps)"

definition numbered :: "nat \<Rightarrow> u64 list \<Rightarrow> MasterFrame list" where
  "numbered n ps = map (\<lambda>(i, p). \<lparr>frame_id = word_of_nat i, pts_ns = p\<rparr>) (enumerate n ps)"

subsection \<open>The coordinator\<close>

datatype timeline_log =
    StartIgnored
  | CoordinatorStarted
  | CoordinatorStopped
  | RejectedPts u64 MasterFrameObservationResult
  | CadenceDiscontinuity u64 u64 u64 u64 u32
  | LagChanged u32 u32 MasterFrame
  | FrameInfo MasterFrame
  | FrameDebug MasterFrame
  | FrameSinkFailed MasterFrame
  | InvalidTimingConfiguration
  | TimingChanged u64 u64
  | TimingInitialized u64

record obs_readings =
  rd_video_frame_time :: u64
  rd_frame_interval_ns :: u64
  rd_lagged_at_discontinuity :: u32
  rd_lagged_frames :: u32

record MasterFrameCoordinator =
  timeline :: MasterFrameTimeline
  timing_configuration :: MasterFrameTimingConfiguration
  last_observed_pts_ns :: "u64 option"
  lagged_frames :: u32
  invalid_timing_configuration_logged :: bool
  mc_running :: bool
  tick_registered :: bool

definition new_coordinator :: MasterFrameCoordinator where
  "new_coordinator = \<lparr>timeline = new_timeline,
     timing_configuration = \<lparr>frame_interval_ns = None\<rparr>, last_observed_pts_ns = None,
     lagged_frames = 0, invalid_timing_configuration_logged = False, mc_running = False,
     tick_registered = False\<rparr>"

definition RefreshTimingConfiguration :: "obs_readings \<Rightarrow> MasterFrameCoordinator \<Rightarrow>
    MasterFrameTimingConfigurationResult \<times> timeline_log list \<times> MasterFrameCoordinator" where
  "RefreshTimingConfiguration rd c =
     (let previous = frame_interval_ns (timing_configuration c);
          (result, tc) = ObserveFrameInterval (rd_frame_interval_ns rd) (timing_configuration c);
          c = c\<lparr>timing_configuration := tc\<rparr>
      in if result = InvalidInterval then
           (if invalid_timing_configuration_logged c then (result, [], c)
            else (result, [InvalidTimingConfiguration],
                  c\<lparr>invalid_timing_configuration_logged := True\<rparr>))
         else
           (let c = c\<lparr>invalid_timing_configuration_logged := False\<rparr>
            in if result = Unchanged then (result, [], c)
               else (case frame_interval_ns tc of
                   None \<Rightarrow> (result, [], c) \<comment> \<open>never: the interval was just stored\<close>
                 | Some ival \<Rightarrow>
                     (case (result, previous) of
                        (Changed, Some old) \<Rightarrow> (result, [TimingChanged old ival], c)
                      | _ \<Rightarrow> (result, [TimingInitialized ival], c)))))"

definition coordinator_Start :: "obs_readings \<Rightarrow> MasterFrameCoordinator \<Rightarrow>
    timeline_log list \<times> MasterFrameCoordinator" where
  "coordinator_Start rd c =
     (if mc_running c then ([StartIgnored], c)
      else
        (let c = c\<lparr>timeline := timeline_Reset (timeline c),
                   timing_configuration := timing_Reset (timing_configuration c),
                   last_observed_pts_ns := None,
                   lagged_frames := rd_lagged_frames rd,
                   invalid_timing_configuration_logged := False,
                   mc_running := True\<rparr>;
             (_, logs, c) = RefreshTimingConfiguration rd c
         in (logs @ [CoordinatorStarted], c\<lparr>tick_registered := True\<rparr>)))"

definition coordinator_Stop :: "MasterFrameCoordinator \<Rightarrow>
    timeline_log list \<times> MasterFrameCoordinator" where
  "coordinator_Stop c =
     (if \<not> mc_running c then ([], c)
      else ([CoordinatorStopped],
            c\<lparr>tick_registered := False, mc_running := False,
              timeline := timeline_Reset (timeline c),
              timing_configuration := timing_Reset (timing_configuration c),
              last_observed_pts_ns := None\<rparr>))"

text \<open>The cadence check compares with the configured interval only while it is unchanged.\<close>

definition cadence_logs :: "MasterFrameTimingConfigurationResult \<Rightarrow> obs_readings \<Rightarrow>
    MasterFrameCoordinator \<Rightarrow> timeline_log list" where
  "cadence_logs timing_result rd c =
     (case (last_observed_pts_ns c, frame_interval_ns (timing_configuration c)) of
        (Some prev, Some ival) \<Rightarrow>
          (let pts = rd_video_frame_time rd; delta = pts - prev
           in if timing_result = Unchanged \<and> delta \<noteq> ival
              then [CadenceDiscontinuity prev pts delta ival (rd_lagged_at_discontinuity rd)]
              else [])
      | _ \<Rightarrow> [])"

definition ObserveObsTick :: "(MasterFrame \<Rightarrow> 'e \<Rightarrow> bool \<times> 'e) \<Rightarrow> obs_readings \<Rightarrow>
    MasterFrameCoordinator \<times> 'e \<Rightarrow> timeline_log list \<times> MasterFrameCoordinator \<times> 'e" where
  "ObserveObsTick frame_sink rd = (\<lambda>(c, e).
     if \<not> mc_running c then ([], c, e)
     else
       (let (timing_result, logs, c) = RefreshTimingConfiguration rd c;
            pts = rd_video_frame_time rd;
            (result, observed, tl) = Observe pts (timeline c);
            c = c\<lparr>timeline := tl\<rparr>
        in case observed of
             None \<Rightarrow> (logs @ [RejectedPts pts result], c, e)
           | Some frame \<Rightarrow>
               (let logs = logs @ cadence_logs timing_result rd c;
                    c = c\<lparr>last_observed_pts_ns := Some pts\<rparr>;
                    (logs, c) =
                      (if rd_lagged_frames rd \<noteq> lagged_frames c
                       then (logs @ [LagChanged (lagged_frames c) (rd_lagged_frames rd) frame],
                             c\<lparr>lagged_frames := rd_lagged_frames rd\<rparr>)
                       else (logs, c));
                    logs = logs @
                      [if frame_id frame < 3 \<or> frame_id frame mod 300 = 0
                       then FrameInfo frame else FrameDebug frame];
                    (threw, e) = frame_sink frame e
                in (if threw then logs @ [FrameSinkFailed frame] else logs, c, e))))"

datatype coordinator_event = StartEvent obs_readings | TickEvent obs_readings | StopEvent

definition coordinator_step :: "(MasterFrame \<Rightarrow> 'e \<Rightarrow> bool \<times> 'e) \<Rightarrow> coordinator_event \<Rightarrow>
    MasterFrameCoordinator \<times> 'e \<Rightarrow> MasterFrameCoordinator \<times> 'e" where
  "coordinator_step frame_sink ev = (\<lambda>(c, e).
     case ev of
       StartEvent rd \<Rightarrow> (snd (coordinator_Start rd c), e)
     | TickEvent rd \<Rightarrow> snd (ObserveObsTick frame_sink rd (c, e))
     | StopEvent \<Rightarrow> (snd (coordinator_Stop c), e))"

fun coordinator_run :: "(MasterFrame \<Rightarrow> 'e \<Rightarrow> bool \<times> 'e) \<Rightarrow> coordinator_event list \<Rightarrow>
    MasterFrameCoordinator \<times> 'e \<Rightarrow> MasterFrameCoordinator \<times> 'e" where
  "coordinator_run frame_sink [] s = s"
| "coordinator_run frame_sink (ev # evs) s =
     coordinator_run frame_sink evs (coordinator_step frame_sink ev s)"

subsection \<open>The issuer numbers the strict records\<close>

definition timeline_inv :: "nat \<Rightarrow> MasterFrameTimeline \<Rightarrow> bool" where
  "timeline_inv n t \<longleftrightarrow>
     (case last_pts_ns t of None \<Rightarrow> n = 0 | Some l \<Rightarrow> 0 < n \<and> n \<le> Suc (unat l)) \<and>
     (if frame_id_exhausted t then n = 2 ^ 64
      else next_frame_id t = word_of_nat n \<and> n < 2 ^ 64)"

lemma timeline_inv_Reset: "timeline_inv 0 (timeline_Reset t)"
  by (simp add: timeline_inv_def timeline_Reset_def)

lemma timeline_inv_new: "timeline_inv 0 new_timeline"
  by (simp add: timeline_inv_def new_timeline_def)

lemma numbered_Nil [simp]: "numbered n [] = []"
  by (simp add: numbered_def)

lemma numbered_Cons [simp]:
  "numbered n (p # ps) = \<lparr>frame_id = word_of_nat n, pts_ns = p\<rparr> # numbered (Suc n) ps"
  by (simp add: numbered_def)

text \<open>An exhausted issuer has seen the greatest PTS, so nothing it refuses is a record.\<close>

lemma exhausted_no_record:
  assumes "timeline_inv n t" and "frame_id_exhausted t"
  shows "\<exists>l. last_pts_ns t = Some l \<and> p \<le> l"
proof -
  from assms obtain l where l: "last_pts_ns t = Some l" "2 ^ 64 \<le> Suc (unat l)"
    by (auto simp: timeline_inv_def split: option.splits)
  then have "unat p \<le> unat l"
    using unat_bound [of p] by simp
  with l show ?thesis
    by (simp add: word_le_nat_alt)
qed

lemma Observe_accepts:
  assumes inv: "timeline_inv n t"
    and new: "case last_pts_ns t of Some x \<Rightarrow> x < p | None \<Rightarrow> True"
  shows "\<exists>t'. Observe p t = (Accepted, Some \<lparr>frame_id = word_of_nat n, pts_ns = p\<rparr>, t') \<and>
           last_pts_ns t' = Some p \<and> timeline_inv (Suc n) t'"
proof -
  have live: "\<not> frame_id_exhausted t"
    using exhausted_no_record [OF inv, of p] new by (auto simp: not_le [symmetric])
  with inv have n: "next_frame_id t = word_of_nat n" "n < 2 ^ 64"
    by (auto simp: timeline_inv_def)
  have fits: "n \<le> unat p"
    using inv new by (auto simp: timeline_inv_def word_less_nat_alt split: option.splits)
  have top: "next_frame_id t = max_u64 \<longleftrightarrow> Suc n = 2 ^ 64"
    using n by (auto simp: word_unat_eq_iff unat_max_u64 unat_of_nat)
  show ?thesis
    using new live n fits top
    by (auto simp: Observe_def timeline_inv_def add.commute not_le split: option.splits)
qed

lemma Observe_refuses:
  assumes "timeline_inv n t" and "\<not> (case last_pts_ns t of Some x \<Rightarrow> x < p | None \<Rightarrow> True)"
  shows "\<exists>r. Observe p t = (r, None, t) \<and> r \<noteq> Accepted"
  using assms by (auto simp: Observe_def not_less split: option.splits)

lemma observe_all_records:
  "timeline_inv n t \<Longrightarrow> fst (observe_all t ps) = numbered n (strict_records (last_pts_ns t) ps)"
proof (induction ps arbitrary: n t)
  case (Cons p ps)
  show ?case
  proof (cases "case last_pts_ns t of Some x \<Rightarrow> x < p | None \<Rightarrow> True")
    case True
    from Observe_accepts [OF Cons.prems True] obtain t' where
      t': "Observe p t = (Accepted, Some \<lparr>frame_id = word_of_nat n, pts_ns = p\<rparr>, t')"
        "last_pts_ns t' = Some p" "timeline_inv (Suc n) t'" by blast
    from Cons.IH [OF t'(3)] t' True show ?thesis by (simp add: case_prod_beta)
  next
    case False
    from Observe_refuses [OF Cons.prems False] Cons.IH [OF Cons.prems] False
    show ?thesis by (auto simp: case_prod_beta)
  qed
qed simp

lemma strict_records_increasing:
  "sorted_wrt (<) (strict_records l ps) \<and>
   (\<forall>q \<in> set (strict_records l ps). \<forall>x. l = Some x \<longrightarrow> x < q)"
proof (induction ps arbitrary: l)
  case (Cons p ps)
  from Cons.IH [of "Some p"] Cons.IH [of l] show ?case
    by (cases l) (auto intro: less_trans)
qed simp

text \<open>C22. From a reset issuer, whatever PTS sequence OBS reports, the frames issued are exactly
  the strictly increasing record values of that sequence, numbered 0, 1, 2, ... without gap or
  reuse; rejecting a frame because the 64-bit identity space is exhausted never loses a frame
  that the PTS rule would have accepted.\<close>

theorem issued_frames_are_numbered_records:
  "fst (observe_all (timeline_Reset t) ps) = numbered 0 (strict_records None ps)"
  using observe_all_records [OF timeline_inv_Reset, of t ps] by (simp add: timeline_Reset_def)

subsection \<open>The coordinator dispatches what the issuer issues\<close>

lemma Refresh_frame [frame_simps]:
  "RefreshTimingConfiguration rd c = (r, logs, c') \<Longrightarrow>
     timeline c' = timeline c \<and> mc_running c' = mc_running c \<and>
     last_observed_pts_ns c' = last_observed_pts_ns c \<and> tick_registered c' = tick_registered c"
  by (auto simp: RefreshTimingConfiguration_def Let_def split: prod.splits if_splits option.splits
      MasterFrameTimingConfigurationResult.splits)

lemma tick_accepts:
  assumes "mc_running c" and "Observe (rd_video_frame_time rd) (timeline c) = (r, Some f, t)"
  shows "\<exists>c'. snd (ObserveObsTick snk rd (c, e)) = (c', snd (snk f e)) \<and>
           mc_running c' \<and> timeline c' = t"
proof -
  obtain res logs c1 where ref: "RefreshTimingConfiguration rd c = (res, logs, c1)"
    by (cases "RefreshTimingConfiguration rd c") auto
  with assms Refresh_frame [OF ref] show ?thesis
    by (auto simp: ObserveObsTick_def Let_def split: prod.splits)
qed

lemma tick_refuses:
  assumes "mc_running c" and "Observe (rd_video_frame_time rd) (timeline c) = (r, None, t)"
  shows "\<exists>c'. snd (ObserveObsTick snk rd (c, e)) = (c', e) \<and> mc_running c' \<and> timeline c' = t"
proof -
  obtain res logs c1 where ref: "RefreshTimingConfiguration rd c = (res, logs, c1)"
    by (cases "RefreshTimingConfiguration rd c") auto
  with assms Refresh_frame [OF ref] show ?thesis
    by (auto simp: ObserveObsTick_def Let_def split: prod.splits)
qed

lemma ticks_dispatch:
  assumes "mc_running c" and "timeline_inv n (timeline c)"
  shows "snd (coordinator_run snk (map TickEvent rds) (c, e)) =
    fold (\<lambda>f e. snd (snk f e))
      (numbered n (strict_records (last_pts_ns (timeline c)) (map rd_video_frame_time rds))) e"
  using assms
proof (induction rds arbitrary: c e n)
  case (Cons rd rds)
  let ?p = "rd_video_frame_time rd"
  show ?case
  proof (cases "case last_pts_ns (timeline c) of Some x \<Rightarrow> x < ?p | None \<Rightarrow> True")
    case True
    from Observe_accepts [OF Cons.prems(2) True] obtain t' where
      t': "Observe ?p (timeline c) = (Accepted, Some \<lparr>frame_id = word_of_nat n, pts_ns = ?p\<rparr>, t')"
        "last_pts_ns t' = Some ?p" "timeline_inv (Suc n) t'" by blast
    from tick_accepts [OF Cons.prems(1) t'(1), of snk e] obtain c' where
      c': "snd (ObserveObsTick snk rd (c, e)) =
         (c', snd (snk \<lparr>frame_id = word_of_nat n, pts_ns = ?p\<rparr> e))"
      "mc_running c'" "timeline c' = t'" by blast
    from c'(3) t'(3) have "timeline_inv (Suc n) (timeline c')" by simp
    note ih = Cons.IH [OF c'(2) this]
    have "coordinator_run snk (map TickEvent (rd # rds)) (c, e) =
        coordinator_run snk (map TickEvent rds)
          (c', snd (snk \<lparr>frame_id = word_of_nat n, pts_ns = ?p\<rparr> e))"
      using c'(1) by (simp add: coordinator_step_def)
    moreover have "strict_records (last_pts_ns (timeline c)) (map rd_video_frame_time (rd # rds)) =
        ?p # strict_records (Some ?p) (map rd_video_frame_time rds)"
      using True by simp
    ultimately show ?thesis
      by (simp only: ih c'(3) t'(2) numbered_Cons fold_Cons comp_apply)
  next
    case False
    from Observe_refuses [OF Cons.prems(2) False] obtain r where
      r: "Observe ?p (timeline c) = (r, None, timeline c)" by blast
    from tick_refuses [OF Cons.prems(1) r, of snk e] obtain c' where
      c': "snd (ObserveObsTick snk rd (c, e)) = (c', e)" "mc_running c'" "timeline c' = timeline c"
      by blast
    from c'(3) Cons.prems(2) have "timeline_inv n (timeline c')" by simp
    note ih = Cons.IH [OF c'(2) this]
    have "coordinator_run snk (map TickEvent (rd # rds)) (c, e) =
        coordinator_run snk (map TickEvent rds) (c', e)"
      using c'(1) by (simp add: coordinator_step_def)
    moreover have "strict_records (last_pts_ns (timeline c)) (map rd_video_frame_time (rd # rds)) =
        strict_records (last_pts_ns (timeline c)) (map rd_video_frame_time rds)"
      using False by simp
    ultimately show ?thesis
      by (simp only: ih c'(3))
  qed
qed simp

lemma Start_runs:
  assumes "\<not> mc_running c"
  shows "\<exists>c'. coordinator_step snk (StartEvent rd) (c, e) = (c', e) \<and> mc_running c' \<and>
           timeline c' = timeline_Reset (timeline c) \<and> tick_registered c'"
  using assms
  by (auto simp: coordinator_step_def coordinator_Start_def Let_def split: prod.splits
      dest!: Refresh_frame)

text \<open>C23. After Start, the frame sink is called on exactly the numbered records of the tick PTS
  values, in order and once each, whatever the frame interval and lag readings were during the
  ticks and whether or not the sink threw: a live FPS change or a failing sink never rebases,
  skips or repeats a master frame.\<close>

theorem coordinator_dispatches_numbered_records:
  assumes "\<not> mc_running c"
  shows "snd (coordinator_run snk (StartEvent rd # map TickEvent rds) (c, e)) =
    fold (\<lambda>f e. snd (snk f e)) (numbered 0 (strict_records None (map rd_video_frame_time rds))) e"
proof -
  from Start_runs [OF assms, of snk rd e] obtain c' where
    c': "coordinator_step snk (StartEvent rd) (c, e) = (c', e)" "mc_running c'"
    "timeline c' = timeline_Reset (timeline c)" by blast
  have "timeline_inv 0 (timeline c')" by (simp add: c'(3) timeline_inv_Reset)
  from ticks_dispatch [OF c'(2) this, of snk rds e] c' show ?thesis
    by (simp add: timeline_Reset_def)
qed

text \<open>Four ticks, one of them late, through a sink that records the frames and always throws.\<close>

theorem coordinator_dispatches_numbered_records_witness:
  "snd (coordinator_run (\<lambda>f e. (True, e @ [f]))
      (StartEvent (obs_readings.make 5 20 0 0) #
       map TickEvent [obs_readings.make 10 20 0 0, obs_readings.make 30 20 0 1,
                      obs_readings.make 25 0 1 1, obs_readings.make 41 33 1 1])
      (new_coordinator, [])) =
   [\<lparr>frame_id = 0, pts_ns = 10\<rparr>, \<lparr>frame_id = 1, pts_ns = 30\<rparr>, \<lparr>frame_id = 2, pts_ns = 41\<rparr>]"
  by (subst coordinator_dispatches_numbered_records)
    (simp_all add: new_coordinator_def obs_readings.make_def)

lemma Tick_flags:
  "snd (ObserveObsTick snk rd (c, e)) = (c', e') \<Longrightarrow>
     mc_running c' = mc_running c \<and> tick_registered c' = tick_registered c"
  by (auto simp: ObserveObsTick_def Let_def split: prod.splits option.splits if_splits
      dest!: Refresh_frame)

lemma step_registered:
  "coordinator_step snk ev (c, e) = (c', e') \<Longrightarrow> tick_registered c = mc_running c \<Longrightarrow>
     tick_registered c' = mc_running c'"
  by (cases ev) (auto simp: coordinator_step_def coordinator_Start_def coordinator_Stop_def Let_def
      split: prod.splits if_splits dest!: Refresh_frame Tick_flags)

lemma run_registered:
  "coordinator_run snk evs (c, e) = (c', e') \<Longrightarrow> tick_registered c = mc_running c \<Longrightarrow>
     tick_registered c' = mc_running c'"
proof (induction evs arbitrary: c e)
  case (Cons ev evs)
  obtain c1 e1 where "coordinator_step snk ev (c, e) = (c1, e1)" by fastforce
  with Cons show ?case by (auto dest: step_registered)
qed simp

end
