(* ===== verification/OrderedMap.thy ===== *)
theory OrderedMap
  imports Prelude
begin

text \<open>
  The part of \<open>std::map\<close> the program relies on, as an association list in ascending key
  order: iteration visits the list from left to right, \<open>begin()\<close> is its head and
  \<open>rbegin()\<close> its last element. The locale \<open>ordered_map\<close> states the laws a client may use;
  \<open>keyed_store\<close> adds that every value is filed under its own key, which the packet
  containers of the program maintain. Both are interpreted on the list model below.
\<close>

type_synonym ('k, 'v) omap = "('k \<times> 'v) list"

subsection \<open>Operations\<close>

text \<open>\<open>emplace\<close> leaves the map alone when the key is already there.\<close>

fun om_emplace :: "'k::linorder \<Rightarrow> 'v \<Rightarrow> ('k, 'v) omap \<Rightarrow> ('k, 'v) omap" where
  "om_emplace k v [] = [(k, v)]"
| "om_emplace k v ((k', v') # m) =
     (if k < k' then (k, v) # (k', v') # m
      else if k = k' then (k', v') # m
      else (k', v') # om_emplace k v m)"

fun om_erase :: "'k::linorder \<Rightarrow> ('k, 'v) omap \<Rightarrow> ('k, 'v) omap" where
  "om_erase k [] = []"
| "om_erase k ((k', v') # m) = (if k = k' then m else (k', v') # om_erase k m)"

text \<open>\<open>erase(begin(), lower_bound(k))\<close>, and the iterator range that starts there.\<close>

definition om_drop_below :: "'k::linorder \<Rightarrow> ('k, 'v) omap \<Rightarrow> ('k, 'v) omap" where
  "om_drop_below k m = dropWhile (\<lambda>e. fst e < k) m"

definition om_find :: "('k::linorder, 'v) omap \<Rightarrow> 'k \<Rightarrow> 'v option" where
  "om_find m = map_of m"

definition om_keys :: "('k::linorder, 'v) omap \<Rightarrow> 'k list" where
  "om_keys m = map fst m"

definition om_values :: "('k::linorder, 'v) omap \<Rightarrow> 'v list" where
  "om_values m = map snd m"

definition om_wf :: "('k::linorder, 'v) omap \<Rightarrow> bool" where
  "om_wf m \<longleftrightarrow> sorted_wrt (<) (map fst m)"

definition om_filed :: "('v \<Rightarrow> 'k::linorder) \<Rightarrow> ('k, 'v) omap \<Rightarrow> bool" where
  "om_filed key_of m \<longleftrightarrow> om_wf m \<and> (\<forall>k v. om_find m k = Some v \<longrightarrow> key_of v = k)"

subsection \<open>The list model\<close>

lemma om_wf_Nil [simp]: "om_wf []"
  by (simp add: om_wf_def)

lemma om_wf_Cons: "om_wf (e # m) \<longleftrightarrow> om_wf m \<and> (\<forall>k \<in> fst ` set m. fst e < k)"
  by (auto simp: om_wf_def)

lemma om_wf_distinct: "om_wf m \<Longrightarrow> distinct (map fst m)"
  by (simp add: om_wf_def strict_sorted_iff)

lemma om_wf_mono: "om_wf m \<Longrightarrow> suffix_of = dropWhile P m \<Longrightarrow> om_wf suffix_of"
  by (induction m) (auto simp: om_wf_Cons split: if_splits)

lemma keys_om_emplace: "fst ` set (om_emplace k v m) = insert k (fst ` set m)"
  by (induction k v m rule: om_emplace.induct) (simp_all add: insert_commute)

lemma om_wf_emplace: "om_wf m \<Longrightarrow> om_wf (om_emplace k v m)"
proof (induction k v m rule: om_emplace.induct)
  case (2 k v k' v' m)
  then show ?case
    by (cases k k' rule: linorder_cases) (force simp: om_wf_Cons keys_om_emplace)+
qed (simp add: om_wf_Cons)

lemma set_om_emplace:
  "k \<notin> fst ` set m \<Longrightarrow> set (om_emplace k v m) = insert (k, v) (set m)"
  by (induction k v m rule: om_emplace.induct) (auto simp: insert_commute split: if_split_asm)

lemma mset_om_emplace:
  "k \<notin> fst ` set m \<Longrightarrow> mset (om_emplace k v m) = add_mset (k, v) (mset m)"
  by (induction m) auto

lemma om_emplace_present: "om_wf m \<Longrightarrow> k \<in> fst ` set m \<Longrightarrow> om_emplace k v m = m"
proof (induction k v m rule: om_emplace.induct)
  case (2 k v k' v' m)
  then show ?case
    by (cases k k' rule: linorder_cases) (force simp: om_wf_Cons)+
qed simp

lemma find_om_emplace:
  "om_wf m \<Longrightarrow> map_of (om_emplace k v m) k' =
     (if k' = k \<and> map_of m k = None then Some v else map_of m k')"
proof (induction k v m rule: om_emplace.induct)
  case (2 k v l w m)
  then have absent: "k < l \<Longrightarrow> map_of m k = None"
    by (force simp: om_wf_Cons map_of_eq_None_iff)
  from 2 absent show ?case
    by (cases k l rule: linorder_cases) (auto simp: om_wf_Cons)
qed simp

lemma om_erase_filter: "om_wf m \<Longrightarrow> om_erase k m = filter (\<lambda>e. fst e \<noteq> k) m"
proof (induction m)
  case (Cons e m)
  then have "k = fst e \<Longrightarrow> filter (\<lambda>e. fst e \<noteq> k) m = m"
    by (intro filter_True) (auto simp: om_wf_Cons)
  with Cons show ?case by (cases e) (auto simp: om_wf_Cons)
qed simp

lemma om_drop_below_filter: "om_wf m \<Longrightarrow> om_drop_below k m = filter (\<lambda>e. k \<le> fst e) m"
proof (induction m)
  case (Cons e m)
  then have "k \<le> fst e \<Longrightarrow> filter (\<lambda>e. k \<le> fst e) m = m"
    by (intro filter_True) (force simp: om_wf_Cons)
  with Cons show ?case by (auto simp: om_wf_Cons om_drop_below_def not_less)
qed (simp add: om_drop_below_def)

lemma om_wf_filter: "om_wf m \<Longrightarrow> om_wf (filter P m)"
  by (induction m) (auto simp: om_wf_Cons)

lemma map_of_filter_key:
  "map_of (filter (\<lambda>e. P (fst e)) m) k = (if P k then map_of m k else None)"
  by (induction m) auto

subsection \<open>The interface\<close>

locale ordered_map =
  fixes find :: "'m \<Rightarrow> 'k::linorder \<Rightarrow> 'v option"
    and emplace :: "'k \<Rightarrow> 'v \<Rightarrow> 'm \<Rightarrow> 'm"
    and erase :: "'k \<Rightarrow> 'm \<Rightarrow> 'm"
    and drop_below :: "'k \<Rightarrow> 'm \<Rightarrow> 'm"
    and keys :: "'m \<Rightarrow> 'k list"
    and wf :: "'m \<Rightarrow> bool"
  assumes find_emplace: "wf m \<Longrightarrow> find (emplace k v m) k' =
            (if k' = k \<and> find m k = None then Some v else find m k')"
    and find_erase: "wf m \<Longrightarrow> find (erase k m) k' = (if k' = k then None else find m k')"
    and find_drop_below: "wf m \<Longrightarrow> find (drop_below k m) k' = (if k \<le> k' then find m k' else None)"
    and keys_find: "wf m \<Longrightarrow> k \<in> set (keys m) \<longleftrightarrow> find m k \<noteq> None"
    and keys_sorted: "wf m \<Longrightarrow> sorted_wrt (<) (keys m)"
    and wf_emplace: "wf m \<Longrightarrow> wf (emplace k v m)"
    and wf_erase: "wf m \<Longrightarrow> wf (erase k m)"
    and wf_drop_below: "wf m \<Longrightarrow> wf (drop_below k m)"
begin

lemma keys_emplace: "wf m \<Longrightarrow> set (keys (emplace k v m)) = insert k (set (keys m))"
  by (auto simp: keys_find find_emplace wf_emplace split: if_splits)

lemma keys_erase: "wf m \<Longrightarrow> set (keys (erase k m)) = set (keys m) - {k}"
  by (auto simp: keys_find find_erase wf_erase split: if_splits)

lemma keys_drop_below: "wf m \<Longrightarrow> set (keys (drop_below k m)) = {k' \<in> set (keys m). k \<le> k'}"
  by (auto simp: keys_find find_drop_below wf_drop_below split: if_splits)

text \<open>Two maps with the same key set are iterated through the same key sequence.\<close>

lemma keys_unique: "wf m \<Longrightarrow> wf m' \<Longrightarrow> set (keys m) = set (keys m') \<Longrightarrow> keys m = keys m'"
  by (metis keys_sorted strict_sorted_equal)

lemma drop_below_monotone:
  "wf m \<Longrightarrow> k \<le> k' \<Longrightarrow> find (drop_below k' (drop_below k m)) = find (drop_below k' m)"
  by (auto simp: fun_eq_iff find_drop_below wf_drop_below)

end

locale keyed_store = ordered_map find emplace erase drop_below keys wf
  for find :: "'m \<Rightarrow> 'k::linorder \<Rightarrow> 'v option"
    and emplace :: "'k \<Rightarrow> 'v \<Rightarrow> 'm \<Rightarrow> 'm"
    and erase :: "'k \<Rightarrow> 'm \<Rightarrow> 'm"
    and drop_below :: "'k \<Rightarrow> 'm \<Rightarrow> 'm"
    and keys :: "'m \<Rightarrow> 'k list"
    and wf :: "'m \<Rightarrow> bool" +
  fixes key_of :: "'v \<Rightarrow> 'k"
    and filed :: "'m \<Rightarrow> bool"
  assumes filed_def: "filed m \<longleftrightarrow> wf m \<and> (\<forall>k v. find m k = Some v \<longrightarrow> key_of v = k)"
begin

lemma filed_wf: "filed m \<Longrightarrow> wf m"
  by (simp add: filed_def)

lemma filed_find: "filed m \<Longrightarrow> find m k = Some v \<Longrightarrow> key_of v = k"
  by (simp add: filed_def)

lemma filed_emplace: "filed m \<Longrightarrow> filed (emplace (key_of v) v m)"
  by (auto simp: filed_def find_emplace wf_emplace)

lemma filed_erase: "filed m \<Longrightarrow> filed (erase k m)"
  by (auto simp: filed_def find_erase wf_erase split: if_splits)

lemma filed_drop_below: "filed m \<Longrightarrow> filed (drop_below k m)"
  by (auto simp: filed_def find_drop_below wf_drop_below split: if_splits)

lemmas filed_ops = filed_emplace filed_erase filed_drop_below

end

interpretation om: ordered_map om_find om_emplace om_erase om_drop_below om_keys om_wf
proof unfold_locales
  fix m :: "('a::linorder, 'b) omap" and k k' :: 'a and v :: 'b
  assume wf: "om_wf m"
  show "om_find (om_emplace k v m) k' =
      (if k' = k \<and> om_find m k = None then Some v else om_find m k')"
    using wf by (simp add: om_find_def find_om_emplace)
  show "om_find (om_erase k m) k' = (if k' = k then None else om_find m k')"
    using wf by (simp add: om_find_def om_erase_filter map_of_filter_key [of "\<lambda>x. x \<noteq> k"])
  show "om_find (om_drop_below k m) k' = (if k \<le> k' then om_find m k' else None)"
    using wf by (simp add: om_find_def om_drop_below_filter map_of_filter_key)
  show "k \<in> set (om_keys m) \<longleftrightarrow> om_find m k \<noteq> None"
    by (simp add: om_keys_def om_find_def map_of_eq_None_iff)
  show "sorted_wrt (<) (om_keys m)"
    using wf by (simp add: om_keys_def om_wf_def)
  show "om_wf (om_emplace k v m)"
    using wf by (rule om_wf_emplace)
  show "om_wf (om_erase k m)"
    using wf by (simp add: om_erase_filter om_wf_filter)
  show "om_wf (om_drop_below k m)"
    using wf by (simp add: om_drop_below_filter om_wf_filter)
qed

text \<open>The store of values filed under a key of their own, for any key function.\<close>

interpretation oms: keyed_store om_find om_emplace om_erase om_drop_below om_keys om_wf
  key_of "om_filed key_of" for key_of :: "'v \<Rightarrow> 'k::linorder"
  by unfold_locales (rule om_filed_def)

lemma om_filed_entries:
  "om_filed key_of m \<longleftrightarrow> om_wf m \<and> (\<forall>e \<in> set m. key_of (snd e) = fst e)"
proof (cases "om_wf m")
  case True
  then have "map_of m k = Some v \<longleftrightarrow> (k, v) \<in> set m" for k v
    by (simp add: om_wf_distinct)
  with True show ?thesis
    by (fastforce simp: om_filed_def om_find_def)
qed (simp add: om_filed_def)

lemma om_filed_keys: "om_filed key_of m \<Longrightarrow> map fst m = map key_of (om_values m)"
  by (induction m) (auto simp: om_filed_entries om_values_def om_wf_Cons)

lemma om_filed_Nil [simp]: "om_filed key_of []"
  by (simp add: om_filed_entries)

end
