(* ===== verification/PacketBuffer.thy ===== *)
theory PacketBuffer
  imports OrderedMap
begin

text \<open>
  \<open>src/recording/encoded-packet-buffer\<close>: \<open>EncodedPacket\<close> and \<open>EncodedPacketBuffer\<close>, the
  byte-bounded container of compressed packets ordered by source CTS. Sizes are \<open>size_t\<close>
  words with the code's wrap-around; \<open>buffer_inv\<close> is what makes the wrap-around harmless.
\<close>

subsection \<open>Data\<close>

record EncodedPacket =
  source_cts :: u64
  pts :: i64
  dts :: i64
  timebase_num :: i32
  timebase_den :: i32
  keyframe :: bool
  payload :: bytes

datatype EncodedPacketBufferResult = Retained | MissingTiming | DuplicateSourceCts | Capacity

record EncodedPacketBuffer =
  capacity_bytes :: usize
  buffered_bytes :: usize
  peak_bytes :: usize
  packets :: "(u64, EncodedPacket) omap"

definition new_buffer :: "usize \<Rightarrow> EncodedPacketBuffer" where
  "new_buffer cap = \<lparr>capacity_bytes = cap, buffered_bytes = 0, peak_bytes = 0, packets = []\<rparr>"

subsection \<open>Operations\<close>

definition has_timing :: "EncodedPacket \<Rightarrow> bool" where
  "has_timing p \<longleftrightarrow> \<not> (sint (timebase_num p) \<le> 0 \<or> sint (timebase_den p) \<le> 0)"

definition Push :: "EncodedPacket \<Rightarrow> EncodedPacketBuffer \<Rightarrow>
    EncodedPacketBufferResult \<times> EncodedPacketBuffer" where
  "Push p b =
     (if sint (timebase_num p) \<le> 0 \<or> sint (timebase_den p) \<le> 0 then (MissingTiming, b)
      else if om_find (packets b) (source_cts p) \<noteq> None then (DuplicateSourceCts, b)
      else if vsize (payload p) >
          capacity_bytes b - (if buffered_bytes b \<le> capacity_bytes b then buffered_bytes b
                              else capacity_bytes b)
      then (Capacity, b)
      else
        (let total = buffered_bytes b + vsize (payload p)
         in (Retained,
             b\<lparr>buffered_bytes := total,
               peak_bytes := (if total > peak_bytes b then total else peak_bytes b),
               packets := om_emplace (source_cts p) p (packets b)\<rparr>)))"

definition Clear :: "EncodedPacketBuffer \<Rightarrow> EncodedPacketBuffer" where
  "Clear b = b\<lparr>packets := [], buffered_bytes := 0\<rparr>"

text \<open>The erasing loop of \<open>DiscardBefore\<close>, over the map and the byte count.\<close>

fun discard_loop :: "u64 \<Rightarrow> (u64, EncodedPacket) omap \<Rightarrow> usize \<Rightarrow>
    (u64, EncodedPacket) omap \<times> usize" where
  "discard_loop cts [] n = ([], n)"
| "discard_loop cts ((k, p) # m) n =
     (if k < cts then discard_loop cts m (n - vsize (payload p)) else ((k, p) # m, n))"

definition DiscardBefore :: "u64 \<Rightarrow> EncodedPacketBuffer \<Rightarrow> EncodedPacketBuffer" where
  "DiscardBefore cts b =
     (let (m, n) = discard_loop cts (packets b) (buffered_bytes b)
      in b\<lparr>packets := m, buffered_bytes := n\<rparr>)"

definition Contains :: "EncodedPacketBuffer \<Rightarrow> u64 \<Rightarrow> bool" where
  "Contains b cts \<longleftrightarrow> om_find (packets b) cts \<noteq> None"

definition Find :: "EncodedPacketBuffer \<Rightarrow> u64 \<Rightarrow> EncodedPacket option" where
  "Find b cts = om_find (packets b) cts"

definition Snapshot :: "EncodedPacketBuffer \<Rightarrow> EncodedPacket list" where
  "Snapshot b = om_values (packets b)"

definition SnapshotThrough :: "EncodedPacketBuffer \<Rightarrow> u64 \<Rightarrow> EncodedPacket list" where
  "SnapshotThrough b cts = om_values (takeWhile (\<lambda>e. \<not> fst e > cts) (packets b))"

definition buffer_size :: "EncodedPacketBuffer \<Rightarrow> usize" where
  "buffer_size b = vsize (packets b)"

definition SetCapacityBytes :: "usize \<Rightarrow> EncodedPacketBuffer \<Rightarrow> bool \<times> EncodedPacketBuffer" where
  "SetCapacityBytes cap b =
     (if cap < buffered_bytes b then (False, b) else (True, b\<lparr>capacity_bytes := cap\<rparr>))"

subsection \<open>What a buffer keeps true\<close>

definition payload_total :: "(u64, EncodedPacket) omap \<Rightarrow> nat" where
  "payload_total m = (\<Sum>e\<leftarrow>m. length (payload (snd e)))"

definition packet_store :: "(u64, EncodedPacket) omap \<Rightarrow> bool" where
  "packet_store m \<longleftrightarrow> om_filed source_cts m"

text \<open>Packets under their own CTS, every one with a positive timebase, and a byte count that is
  the exact sum of the retained payloads and never above the capacity.\<close>

definition buffer_inv :: "EncodedPacketBuffer \<Rightarrow> bool" where
  "buffer_inv b \<longleftrightarrow> packet_store (packets b) \<and> (\<forall>e \<in> set (packets b). has_timing (snd e)) \<and>
     unat (buffered_bytes b) = payload_total (packets b) \<and>
     buffered_bytes b \<le> capacity_bytes b \<and> buffered_bytes b \<le> peak_bytes b"

datatype buffer_op = OpPush EncodedPacket | OpClear | OpDiscardBefore u64 | OpSetCapacity usize

definition buffer_step :: "buffer_op \<Rightarrow> EncodedPacketBuffer \<Rightarrow> EncodedPacketBuffer" where
  "buffer_step op b = (case op of
       OpPush p \<Rightarrow> snd (Push p b)
     | OpClear \<Rightarrow> Clear b
     | OpDiscardBefore cts \<Rightarrow> DiscardBefore cts b
     | OpSetCapacity cap \<Rightarrow> snd (SetCapacityBytes cap b))"

text \<open>A payload is a \<open>std::vector\<close>, so its length is a \<open>size_t\<close>.\<close>

definition payload_fits :: "EncodedPacket \<Rightarrow> bool" where
  "payload_fits p \<longleftrightarrow> length (payload p) < 2 ^ 64"

lemma packet_store_wf: "packet_store m \<Longrightarrow> om_wf m"
  unfolding packet_store_def by (rule oms.filed_wf)

lemma packet_store_key: "packet_store m \<Longrightarrow> (k, p) \<in> set m \<Longrightarrow> source_cts p = k"
  by (auto simp: packet_store_def om_filed_entries)

lemma buffer_inv_new: "buffer_inv (new_buffer cap)"
  by (simp add: buffer_inv_def new_buffer_def packet_store_def payload_total_def)

lemma payload_total_Nil [simp]: "payload_total [] = 0"
  by (simp add: payload_total_def)

lemma payload_total_Cons [simp]:
  "payload_total (e # m) = length (payload (snd e)) + payload_total m"
  by (simp add: payload_total_def)

lemma payload_total_emplace:
  "k \<notin> fst ` set m \<Longrightarrow> payload_total (om_emplace k p m) = length (payload p) + payload_total m"
  by (induction k p m rule: om_emplace.induct) auto

subsection \<open>Push, branch by branch\<close>

lemma Push_retained_iff:
  assumes "buffer_inv b" and "payload_fits p"
  shows "fst (Push p b) = Retained \<longleftrightarrow> has_timing p \<and> \<not> Contains b (source_cts p) \<and>
     payload_total (packets b) + length (payload p) \<le> unat (capacity_bytes b)"
proof -
  have le: "buffered_bytes b \<le> capacity_bytes b" and
    sum: "unat (buffered_bytes b) = payload_total (packets b)"
    using assms(1) by (auto simp: buffer_inv_def)
  have len: "unat (vsize (payload p)) = length (payload p)"
    using assms(2) by (simp add: payload_fits_def unat_vsize)
  have "vsize (payload p) > capacity_bytes b - buffered_bytes b \<longleftrightarrow>
      unat (capacity_bytes b) < payload_total (packets b) + length (payload p)"
    using le len sum by (auto simp: word_less_nat_alt word_le_nat_alt unat_sub)
  with le show ?thesis
    by (auto simp: Push_def has_timing_def Contains_def Let_def)
qed

lemma Push_packets:
  "Push p b = (Retained, b') \<Longrightarrow> packets b' = om_emplace (source_cts p) p (packets b) \<and>
     capacity_bytes b' = capacity_bytes b \<and> has_timing p \<and> om_find (packets b) (source_cts p) = None"
  by (auto simp: Push_def has_timing_def Let_def split: if_splits)

lemma Push_rejected: "Push p b = (r, b') \<Longrightarrow> r \<noteq> Retained \<Longrightarrow> b' = b"
  by (auto simp: Push_def Let_def split: if_splits)

lemma buffer_inv_Push:
  assumes inv: "buffer_inv b" and fits: "payload_fits p" and push: "Push p b = (r, b')"
  shows "buffer_inv b'"
proof (cases "r = Retained")
  case True
  with push have pk: "packets b' = om_emplace (source_cts p) p (packets b)"
    "capacity_bytes b' = capacity_bytes b" "has_timing p" "source_cts p \<notin> fst ` set (packets b)"
    using Push_packets by (auto simp: om_find_def map_of_eq_None_iff)
  have room: "payload_total (packets b) + length (payload p) \<le> unat (capacity_bytes b)"
    using Push_retained_iff [OF inv fits] True push by auto
  have bytes: "buffered_bytes b' = buffered_bytes b + vsize (payload p)" "buffered_bytes b' \<le> peak_bytes b'"
    using True push by (auto simp: Push_def Let_def split: if_splits)
  have "unat (buffered_bytes b') = payload_total (packets b')"
    using inv fits room unat_bound [of "capacity_bytes b"]
    by (simp add: bytes(1) pk(1) payload_total_emplace [OF pk(4)] unat_word_ariths buffer_inv_def
        payload_fits_def unat_vsize)
  with inv pk room bytes(2) show ?thesis
    using oms.filed_emplace [of source_cts "packets b" p]
    by (auto simp: buffer_inv_def packet_store_def payload_total_emplace set_om_emplace word_le_nat_alt)
next
  case False
  with push inv Push_rejected show ?thesis by metis
qed

subsection \<open>DiscardBefore\<close>

lemma discard_loop_packets: "fst (discard_loop cts m n) = om_drop_below cts m"
  by (induction cts m n rule: discard_loop.induct) (auto simp: om_drop_below_def)

lemma discard_loop_bytes:
  "unat n = payload_total m \<Longrightarrow> unat (snd (discard_loop cts m n)) = payload_total (om_drop_below cts m)"
proof (induction cts m n rule: discard_loop.induct)
  case (2 cts k p m n)
  have "length (payload p) < 2 ^ 64" and "vsize (payload p) \<le> n"
    using 2(2) unat_bound [of n] by (auto simp: word_le_nat_alt unat_vsize)
  with 2 show ?case
    by (auto simp: om_drop_below_def unat_sub unat_vsize)
qed (simp add: om_drop_below_def)

lemma discard_loop_le: "unat n = payload_total m \<Longrightarrow> snd (discard_loop cts m n) \<le> n"
proof (induction cts m n rule: discard_loop.induct)
  case (2 cts k p m n)
  have le: "length (payload p) < 2 ^ 64" "vsize (payload p) \<le> n"
    using 2(2) unat_bound [of n] by (auto simp: word_le_nat_alt unat_vsize)
  then have "n - vsize (payload p) \<le> n" by (simp add: word_le_nat_alt unat_sub)
  with 2 le show ?case by (auto simp: unat_sub unat_vsize intro: order_trans)
qed simp

lemma DiscardBefore_packets [simp]:
  "packets (DiscardBefore cts b) = om_drop_below cts (packets b)"
  by (simp add: DiscardBefore_def case_prod_beta discard_loop_packets)

lemma DiscardBefore_capacity [simp]: "capacity_bytes (DiscardBefore cts b) = capacity_bytes b"
  by (simp add: DiscardBefore_def case_prod_beta)

lemma set_om_drop_below: "set (om_drop_below cts m) \<subseteq> set m"
  by (auto simp: om_drop_below_def dest: set_dropWhileD)

lemma buffer_inv_DiscardBefore:
  assumes "buffer_inv b" shows "buffer_inv (DiscardBefore cts b)"
proof -
  let ?b = "DiscardBefore cts b"
  have "unat (buffered_bytes ?b) = payload_total (packets ?b)" "buffered_bytes ?b \<le> buffered_bytes b"
    "peak_bytes ?b = peak_bytes b"
    using assms discard_loop_bytes discard_loop_le discard_loop_packets
    by (auto simp: DiscardBefore_def case_prod_beta buffer_inv_def)
  moreover have "packet_store (packets ?b)"
    using assms oms.filed_drop_below [of source_cts "packets b" cts]
    by (simp add: buffer_inv_def packet_store_def)
  ultimately show ?thesis
    using assms set_om_drop_below [of cts "packets b"] by (auto simp: buffer_inv_def)
qed

lemma buffer_inv_Clear: "buffer_inv b \<Longrightarrow> buffer_inv (Clear b)"
  by (simp add: buffer_inv_def Clear_def packet_store_def)

lemma buffer_inv_SetCapacity: "buffer_inv b \<Longrightarrow> buffer_inv (snd (SetCapacityBytes cap b))"
  by (auto simp: buffer_inv_def SetCapacityBytes_def)

subsection \<open>Snapshots\<close>

lemma Snapshot_ascending:
  "packet_store (packets b) \<Longrightarrow> sorted_wrt (<) (map source_cts (Snapshot b))"
  by (metis Snapshot_def om_filed_keys om_wf_def packet_store_def packet_store_wf)

lemma Snapshot_keys:
  "packet_store (packets b) \<Longrightarrow> map source_cts (Snapshot b) = om_keys (packets b)"
  by (simp add: Snapshot_def om_keys_def om_filed_keys packet_store_def)

lemma takeWhile_below:
  "om_wf m \<Longrightarrow> takeWhile (\<lambda>e. \<not> fst e > cts) m = filter (\<lambda>e. fst e \<le> cts) m"
proof (induction m)
  case (Cons e m)
  then have "cts < fst e \<Longrightarrow> filter (\<lambda>e. fst e \<le> cts) m = []"
    by (force simp: om_wf_Cons filter_empty_conv)
  with Cons show ?case by (auto simp: om_wf_Cons not_less)
qed simp

lemma SnapshotThrough_eq:
  assumes "packet_store (packets b)"
  shows "SnapshotThrough b cts = filter (\<lambda>p. source_cts p \<le> cts) (Snapshot b)"
proof -
  have "e \<in> set (packets b) \<Longrightarrow> fst e = source_cts (snd e)" for e
    using assms packet_store_key by (metis prod.collapse)
  then have "filter (\<lambda>e. fst e \<le> cts) (packets b) = filter (\<lambda>e. source_cts (snd e) \<le> cts) (packets b)"
    by (intro filter_cong) auto
  then show ?thesis
    using takeWhile_below [OF packet_store_wf [OF assms]]
    by (simp add: SnapshotThrough_def Snapshot_def om_values_def filter_map comp_def)
qed

lemma Find_Contains: "Contains b cts \<longleftrightarrow> Find b cts \<noteq> None"
  by (simp add: Contains_def Find_def)

lemma Find_source_cts: "packet_store (packets b) \<Longrightarrow> Find b cts = Some p \<Longrightarrow> source_cts p = cts"
  unfolding packet_store_def Find_def by (rule oms.filed_find)

lemma Contains_Snapshot:
  assumes "packet_store (packets b)"
  shows "Contains b cts \<longleftrightarrow> cts \<in> source_cts ` set (Snapshot b)"
  using om.keys_find [OF packet_store_wf [OF assms], of cts] Snapshot_keys [OF assms]
  by (metis Contains_def list.set_map)

lemma Find_Snapshot:
  assumes "packet_store (packets b)"
  shows "Find b (source_cts p) = Some p \<longleftrightarrow> p \<in> set (Snapshot b)"
proof -
  have "om_find (packets b) (source_cts p) = Some p \<longleftrightarrow> (source_cts p, p) \<in> set (packets b)"
    using om_wf_distinct [OF packet_store_wf [OF assms]] by (simp add: om_find_def)
  also have "\<dots> \<longleftrightarrow> p \<in> snd ` set (packets b)"
  proof
    assume "p \<in> snd ` set (packets b)"
    then obtain k where "(k, p) \<in> set (packets b)" by auto
    with packet_store_key [OF assms this] show "(source_cts p, p) \<in> set (packets b)" by simp
  qed (erule rev_image_eqI, simp)
  finally show ?thesis
    by (simp add: Find_def Snapshot_def om_values_def)
qed

subsection \<open>Properties\<close>

lemma buffer_inv_step:
  assumes "buffer_inv b" and "\<forall>p. op = OpPush p \<longrightarrow> payload_fits p"
  shows "buffer_inv (buffer_step op b)"
  using assms by (cases op)
    (auto simp: buffer_step_def buffer_inv_Clear buffer_inv_DiscardBefore buffer_inv_SetCapacity
      intro: buffer_inv_Push [OF _ _ prod.collapse [symmetric]])

lemma buffer_inv_run:
  assumes "\<forall>p. OpPush p \<in> set ops \<longrightarrow> payload_fits p" and "buffer_inv b"
  shows "buffer_inv (fold buffer_step ops b)"
  using assms
proof (induction ops arbitrary: b)
  case (Cons op ops)
  from Cons.prems have "buffer_inv (buffer_step op b)"
    by (intro buffer_inv_step) auto
  with Cons show ?case by simp
qed simp

lemma payload_total_Snapshot: "payload_total (packets b) = (\<Sum>p\<leftarrow>Snapshot b. length (payload p))"
  by (simp add: payload_total_def Snapshot_def om_values_def comp_def)

lemma Snapshot_DiscardBefore:
  assumes "packet_store (packets b)"
  shows "Snapshot (DiscardBefore cts b) = filter (\<lambda>p. cts \<le> source_cts p) (Snapshot b)"
proof -
  have "e \<in> set (packets b) \<Longrightarrow> fst e = source_cts (snd e)" for e
    using assms packet_store_key by (metis prod.collapse)
  then have "filter (\<lambda>e. cts \<le> fst e) (packets b) = filter (\<lambda>e. cts \<le> source_cts (snd e)) (packets b)"
    by (intro filter_cong) auto
  then show ?thesis
    using om_drop_below_filter [OF packet_store_wf [OF assms], of cts]
    by (simp add: Snapshot_def om_values_def filter_map comp_def)
qed

text \<open>Whatever sequence of pushes, clears, discards and capacity changes a packet buffer goes
  through, its byte counter is the exact sum of the payloads it holds (no wrap-around is ever
  observed), it stays within the capacity in force, and iteration visits the packets in strictly
  ascending source CTS, one packet per CTS.\<close>

theorem packet_buffer_accounting:
  assumes "\<forall>p. OpPush p \<in> set ops \<longrightarrow> payload_fits p" and "b = fold buffer_step ops (new_buffer cap)"
  shows "unat (buffered_bytes b) = (\<Sum>p\<leftarrow>Snapshot b. length (payload p)) \<and>
    buffered_bytes b \<le> capacity_bytes b \<and> buffered_bytes b \<le> peak_bytes b \<and>
    sorted_wrt (<) (map source_cts (Snapshot b))"
  using buffer_inv_run [OF assms(1) buffer_inv_new] assms(2)
  by (simp add: buffer_inv_def payload_total_Snapshot Snapshot_ascending)

definition demo_packet :: "u64 \<Rightarrow> bool \<Rightarrow> bytes \<Rightarrow> EncodedPacket" where
  "demo_packet cts key data = \<lparr>source_cts = cts, pts = cts, dts = cts, timebase_num = 1,
     timebase_den = 60, keyframe = key, payload = data\<rparr>"

theorem packet_buffer_accounting_witness:
  "unat (buffered_bytes (fold buffer_step
      [OpPush (demo_packet 7 True [1, 2]), OpPush (demo_packet 3 False [9]),
       OpPush (demo_packet 3 True [4]), OpPush (demo_packet 9 True [1, 2, 3]),
       OpDiscardBefore 4] (new_buffer 5))) = 2"
proof -
  let ?ops = "[OpPush (demo_packet 7 True [1, 2]), OpPush (demo_packet 3 False [9]),
       OpPush (demo_packet 3 True [4]), OpPush (demo_packet 9 True [1, 2, 3]),
       OpDiscardBefore 4]"
  have "\<forall>p. OpPush p \<in> set ?ops \<longrightarrow> payload_fits p"
    by (auto simp: payload_fits_def demo_packet_def)
  from packet_buffer_accounting [OF this refl, of 5] show ?thesis
    by (simp add: buffer_step_def Push_def demo_packet_def new_buffer_def om_find_def Let_def
        Snapshot_def om_values_def DiscardBefore_def vsize_def)
qed

text \<open>Push on every branch: a packet without a positive timebase, with a CTS already held, or
  that does not fit the remaining capacity is refused and the buffer is unchanged, in that order
  of precedence; otherwise it is filed under its CTS, every other packet stays findable, and the
  byte counter grows by exactly its payload.\<close>

theorem push_behaviour:
  assumes "buffer_inv b" and "payload_fits p"
  shows "if \<not> has_timing p then Push p b = (MissingTiming, b)
     else if Contains b (source_cts p) then Push p b = (DuplicateSourceCts, b)
     else if unat (capacity_bytes b) < unat (buffered_bytes b) + length (payload p)
     then Push p b = (Capacity, b)
     else \<exists>b'. Push p b = (Retained, b') \<and> Find b' = (Find b)(source_cts p \<mapsto> p) \<and>
       unat (buffered_bytes b') = unat (buffered_bytes b) + length (payload p) \<and>
       capacity_bytes b' = capacity_bytes b"
proof (cases "fst (Push p b) = Retained")
  case True
  then obtain b' where push: "Push p b = (Retained, b')" by (metis prod.collapse)
  note pk = Push_packets [OF push] and inv' = buffer_inv_Push [OF assms push]
  have find: "Find b' = (Find b)(source_cts p \<mapsto> p)"
    using pk om.find_emplace [OF packet_store_wf] assms(1)
    by (auto simp: fun_eq_iff Find_def buffer_inv_def)
  have "source_cts p \<notin> fst ` set (packets b)"
    using pk by (auto simp: om_find_def map_of_eq_None_iff)
  then have "unat (buffered_bytes b') = unat (buffered_bytes b) + length (payload p)"
    using inv' pk assms(1) by (simp add: buffer_inv_def payload_total_emplace)
  with find push pk Push_retained_iff [OF assms] assms(1) show ?thesis
    by (auto simp: buffer_inv_def Contains_def)
next
  case False
  then show ?thesis
    using Push_retained_iff [OF assms] assms(1)
    by (auto simp: Push_def has_timing_def Contains_def buffer_inv_def Let_def split: if_splits)
qed

theorem push_behaviour_witness:
  "\<exists>b'. Push (demo_packet 4 True [1, 2, 3]) (new_buffer 3) = (Retained, b') \<and>
     Find b' = (Find (new_buffer 3))(4 \<mapsto> demo_packet 4 True [1, 2, 3])"
  using push_behaviour [OF buffer_inv_new, of "demo_packet 4 True [1, 2, 3]" 3]
  by (simp add: payload_fits_def has_timing_def demo_packet_def new_buffer_def Contains_def om_find_def)
    blast

text \<open>Discarding before a CTS keeps exactly the packets at or above it, unchanged and in order,
  and gives back exactly the discarded payload bytes; a snapshot through a CTS is the complementary
  prefix of the same ordered sequence.\<close>

theorem discard_and_snapshot_split:
  assumes "buffer_inv b"
  shows "Snapshot (DiscardBefore cts b) = filter (\<lambda>p. cts \<le> source_cts p) (Snapshot b) \<and>
    SnapshotThrough b cts = filter (\<lambda>p. source_cts p \<le> cts) (Snapshot b) \<and>
    unat (buffered_bytes (DiscardBefore cts b)) =
      (\<Sum>p\<leftarrow>filter (\<lambda>p. cts \<le> source_cts p) (Snapshot b). length (payload p))"
proof -
  have store: "packet_store (packets b)" using assms by (simp add: buffer_inv_def)
  have "unat (buffered_bytes (DiscardBefore cts b)) = payload_total (packets (DiscardBefore cts b))"
    using buffer_inv_DiscardBefore [OF assms] by (simp add: buffer_inv_def)
  with Snapshot_DiscardBefore [OF store] SnapshotThrough_eq [OF store] show ?thesis
    by (simp only: payload_total_Snapshot)
qed

theorem discard_and_snapshot_split_witness:
  "SnapshotThrough (snd (Push (demo_packet 4 True [1]) (new_buffer 3))) 4 = [demo_packet 4 True [1]] \<and>
   Snapshot (DiscardBefore 5 (snd (Push (demo_packet 4 True [1]) (new_buffer 3)))) = []"
proof -
  have "buffer_inv (snd (Push (demo_packet 4 True [1]) (new_buffer 3)))"
    by (rule buffer_inv_Push [OF buffer_inv_new _ prod.collapse [symmetric]])
      (simp add: payload_fits_def demo_packet_def)
  from discard_and_snapshot_split [OF this, of 4] discard_and_snapshot_split [OF this, of 5]
  show ?thesis
    by (simp add: Push_def demo_packet_def new_buffer_def om_find_def vsize_def Let_def
        Snapshot_def om_values_def)
qed

subsection \<open>What is pushed comes back\<close>

definition push_all :: "EncodedPacket list \<Rightarrow> EncodedPacketBuffer \<Rightarrow> EncodedPacketBuffer" where
  "push_all ps b = fold (\<lambda>p b. snd (Push p b)) ps b"

lemma push_all_retains:
  assumes "buffer_inv b" and "\<forall>p \<in> set ps. has_timing p" and "distinct (map source_cts ps)"
    and "\<forall>p \<in> set ps. \<not> Contains b (source_cts p)"
    and "payload_total (packets b) + (\<Sum>p\<leftarrow>ps. length (payload p)) \<le> unat (capacity_bytes b)"
  shows "buffer_inv (push_all ps b) \<and> mset (Snapshot (push_all ps b)) = mset (Snapshot b) + mset ps"
  using assms
proof (induction ps arbitrary: b)
  case (Cons p ps)
  have fits: "payload_fits p" using Cons.prems(5) unat_bound [of "capacity_bytes b"] by (simp add: payload_fits_def)
  have "fst (Push p b) = Retained" using Push_retained_iff [OF Cons.prems(1) fits] Cons.prems by simp
  then obtain c where c: "Push p b = (Retained, c)" by (metis prod.collapse)
  note out = Push_packets [OF c]
  have absent: "source_cts p \<notin> fst ` set (packets b)"
    using out by (simp add: om_find_def map_of_eq_None_iff)
  have inv: "buffer_inv c" using buffer_inv_Push [OF Cons.prems(1) fits c] .
  have "\<not> Contains c (source_cts q)" if "q \<in> set ps" for q
  proof -
    have "packet_store (packets b)" using Cons.prems(1) by (simp add: buffer_inv_def)
    moreover have "source_cts q \<noteq> source_cts p" using Cons.prems(3) that by (metis distinct.simps(2) image_eqI list.set_map list.simps(9))
    ultimately show ?thesis
      using find_om_emplace [OF packet_store_wf, of "packets b" "source_cts p" p "source_cts q"] Cons.prems(4) that out
      by (simp add: Contains_def om_find_def)
  qed
  moreover have "payload_total (packets c) = length (payload p) + payload_total (packets b)"
    using payload_total_emplace [OF absent] out by simp
  ultimately have "buffer_inv (push_all ps c) \<and> mset (Snapshot (push_all ps c)) = mset (Snapshot c) + mset ps"
    using Cons.prems out inv by (intro Cons.IH) auto
  moreover have "mset (Snapshot c) = add_mset p (mset (Snapshot b))"
    using mset_om_emplace [OF absent, of p] out by (simp add: Snapshot_def om_values_def mset_map)
  ultimately show ?case using c by (simp add: push_all_def)
qed (simp add: push_all_def)

text \<open>C35. A buffer gives back what it was given: packets with positive timebases and distinct CTS values that
  fit together are all found under their CTS, in whatever order they were pushed, nothing else is found, and
  a snapshot is exactly these packets in ascending CTS order.\<close>

theorem pushed_packets_come_back:
  assumes "\<forall>p \<in> set ps. has_timing p" and "distinct (map source_cts ps)"
    and "(\<Sum>p\<leftarrow>ps. length (payload p)) \<le> unat cap" and b: "b = push_all ps (new_buffer cap)"
  shows "Snapshot b = sort_key source_cts ps \<and> (\<forall>p \<in> set ps. Find b (source_cts p) = Some p) \<and>
    (\<forall>c. c \<notin> source_cts ` set ps \<longrightarrow> Find b c = None)"
proof -
  have "buffer_inv b \<and> mset (Snapshot b) = mset (Snapshot (new_buffer cap)) + mset ps"
    unfolding b by (rule push_all_retains [OF buffer_inv_new])
      (use assms(1-3) in \<open>simp_all add: new_buffer_def Contains_def om_find_def\<close>)
  then have inv: "packet_store (packets b)" and same: "mset (Snapshot b) = mset ps"
    by (simp_all add: buffer_inv_def Snapshot_def new_buffer_def om_values_def)
  have "inj_on source_cts (set ps)" using assms(2) by (simp add: distinct_map)
  moreover have "sorted (map source_cts (Snapshot b))"
    using Snapshot_ascending [OF inv] by (simp add: strict_sorted_iff)
  ultimately have "Snapshot b = sort_key source_cts ps"
    using sort_key_inj_key_eq [of ps "Snapshot b" source_cts] same by simp
  moreover have members: "set (Snapshot b) = set ps" using same by (rule mset_eq_setD)
  moreover have "Find b c = None" if "c \<notin> source_cts ` set ps" for c
    using Contains_Snapshot [OF inv, of c] Find_Contains [of b c] members that by simp
  ultimately show ?thesis using Find_Snapshot [OF inv] by simp
qed

theorem pushed_packets_come_back_witness:
  "map source_cts (Snapshot (push_all [demo_packet 7 True [1, 2], demo_packet 3 False [9], demo_packet 5 True []]
     (new_buffer 3))) = [3, 5, 7]"
proof -
  let ?ps = "[demo_packet 7 True [1, 2], demo_packet 3 False [9], demo_packet 5 True []]"
  from pushed_packets_come_back [of ?ps 3, OF _ _ _ refl]
  have "Snapshot (push_all ?ps (new_buffer 3)) = sort_key source_cts ?ps"
    by (simp add: demo_packet_def has_timing_def)
  then show ?thesis by (simp add: demo_packet_def)
qed

end
