(* ===== verification/CommonRange.thy ===== *)
theory CommonRange
  imports PacketBuffer
begin

text \<open>
  \<open>src/sync/common-packet-range\<close>: choosing one source-CTS range for two packet buffers (first
  common keyframe, longest common prefix), validating it, and putting packets into decode order.
\<close>

subsection \<open>Data\<close>

record CommonPacketRange =
  start_cts :: u64
  end_cts :: u64

datatype CommonPacketRangeFailure =
  NoFailure | NoCommonStartKeyframe | NoCommonEnd | MissingPacket | InvalidPacketOrdering

record CommonPacketRangeResult =
  result_range :: "CommonPacketRange option"
  range_failure :: CommonPacketRangeFailure
  mismatch_count :: u64

definition range_found :: "CommonPacketRange \<Rightarrow> CommonPacketRangeResult" where
  "range_found r = \<lparr>result_range = Some r, range_failure = NoFailure, mismatch_count = 0\<rparr>"

definition range_failed :: "CommonPacketRangeFailure \<Rightarrow> u64 \<Rightarrow> CommonPacketRangeResult" where
  "range_failed f n = \<lparr>result_range = None, range_failure = f, mismatch_count = n\<rparr>"

subsection \<open>Operations\<close>

definition in_range :: "CommonPacketRange \<Rightarrow> u64 \<Rightarrow> bool" where
  "in_range r c \<longleftrightarrow> c \<ge> start_cts r \<and> c \<le> end_cts r"

definition SourceCts :: "EncodedPacketBuffer \<Rightarrow> CommonPacketRange \<Rightarrow> u64 list" where
  "SourceCts b r = map source_cts (filter (\<lambda>p. in_range r (source_cts p)) (Snapshot b))"

definition SelectPackets :: "EncodedPacketBuffer \<Rightarrow> CommonPacketRange \<Rightarrow> EncodedPacket list" where
  "SelectPackets b r = filter (\<lambda>p. in_range r (source_cts p)) (Snapshot b)"

text \<open>\<open>std::stable_sort\<close> by DTS, then PTS, both signed; \<open>sort_key\<close> is a stable sort.\<close>

definition decode_key :: "EncodedPacket \<Rightarrow> int \<times> int" where
  "decode_key p = (sint (dts p), sint (pts p))"

definition SortForDecodeOrder :: "EncodedPacket list \<Rightarrow> EncodedPacket list" where
  "SortForDecodeOrder ps = sort_key decode_key ps"

fun dts_ascending :: "EncodedPacket list \<Rightarrow> bool" where
  "dts_ascending (p # q # ps) =
     (if sint (dts p) > sint (dts q) then False else dts_ascending (q # ps))"
| "dts_ascending ps = True"

definition HasValidDecodeOrder :: "EncodedPacket list \<Rightarrow> bool" where
  "HasValidDecodeOrder ps = dts_ascending (SortForDecodeOrder ps)"

fun common_start_loop :: "EncodedPacketBuffer \<Rightarrow> u64 \<Rightarrow> EncodedPacket list \<Rightarrow> CommonPacketRangeResult" where
  "common_start_loop b req [] = range_failed NoCommonStartKeyframe 0"
| "common_start_loop b req (p # ps) =
     (if source_cts p \<ge> req \<and> keyframe p \<and>
         (case Find b (source_cts p) of Some q \<Rightarrow> keyframe q | None \<Rightarrow> False)
      then range_found \<lparr>start_cts = source_cts p, end_cts = source_cts p\<rparr>
      else common_start_loop b req ps)"

definition SelectCommonStart :: "EncodedPacketBuffer \<Rightarrow> EncodedPacketBuffer \<Rightarrow> u64 \<Rightarrow>
    CommonPacketRangeResult" where
  "SelectCommonStart a b req = common_start_loop b req (Snapshot a)"

text \<open>Two consecutive CTS values are one expected step apart, give or take one tick.\<close>

definition within_step :: "u64 \<Rightarrow> u64 \<Rightarrow> u64 \<Rightarrow> bool" where
  "within_step step prev cts \<longleftrightarrow>
     (let delta = cts - prev;
          difference = (if delta > step then delta - step else step - delta)
      in \<not> difference > 1)"

fun prefix_walk :: "u64 \<Rightarrow> u64 \<Rightarrow> u64 option \<Rightarrow> u64 list \<Rightarrow> u64 list \<Rightarrow> u64 option" where
  "prefix_walk upper step result (a # as) (b # bs) =
     (if a > upper \<or> b > upper \<or> a \<noteq> b then result
      else if (case result of Some r \<Rightarrow> step \<noteq> 0 \<and> \<not> within_step step r a | None \<Rightarrow> False) then result
      else prefix_walk upper step (Some a) as bs)"
| "prefix_walk upper step result _ _ = result"

definition SelectCommonPrefixEnd :: "EncodedPacketBuffer \<Rightarrow> EncodedPacketBuffer \<Rightarrow> u64 \<Rightarrow> u64 \<Rightarrow>
    u64 \<Rightarrow> u64 option" where
  "SelectCommonPrefixEnd a b start upper step =
     prefix_walk upper step None
       (dropWhile (\<lambda>c. c < start) (map source_cts (Snapshot a)))
       (dropWhile (\<lambda>c. c < start) (map source_cts (Snapshot b)))"

definition SelectCommonEnd :: "EncodedPacketBuffer \<Rightarrow> EncodedPacketBuffer \<Rightarrow> CommonPacketRange \<Rightarrow>
    u64 \<Rightarrow> CommonPacketRangeResult" where
  "SelectCommonEnd a b r stop =
     (case SelectCommonPrefixEnd a b (start_cts r) stop 0 of
        None \<Rightarrow> range_failed NoCommonEnd 0
      | Some c \<Rightarrow> range_found \<lparr>start_cts = start_cts r, end_cts = c\<rparr>)"

definition missing_from :: "EncodedPacketBuffer \<Rightarrow> u64 list \<Rightarrow> u64" where
  "missing_from b cs = fold (\<lambda>c n. if \<not> Contains b c then n + 1 else n) cs 0"

definition ValidateCommonPacketRange :: "EncodedPacketBuffer \<Rightarrow> EncodedPacketBuffer \<Rightarrow>
    CommonPacketRange \<Rightarrow> CommonPacketRangeResult" where
  "ValidateCommonPacketRange a b r =
     (let mismatches = missing_from b (SourceCts a r) + missing_from a (SourceCts b r)
      in if mismatches \<noteq> 0 then range_failed MissingPacket mismatches
         else if \<not> HasValidDecodeOrder (SelectPackets a r) \<or> \<not> HasValidDecodeOrder (SelectPackets b r)
         then range_failed InvalidPacketOrdering 0
         else range_found r)"

fun CommonPacketRangeFailureName :: "CommonPacketRangeFailure \<Rightarrow> string" where
  "CommonPacketRangeFailureName NoFailure = ''none''"
| "CommonPacketRangeFailureName NoCommonStartKeyframe = ''no-common-start-keyframe''"
| "CommonPacketRangeFailureName NoCommonEnd = ''no-common-end''"
| "CommonPacketRangeFailureName MissingPacket = ''missing-packet''"
| "CommonPacketRangeFailureName InvalidPacketOrdering = ''invalid-packet-ordering''"

subsection \<open>Decode order\<close>

lemma dts_ascending_sorted: "sorted (map decode_key ps) \<Longrightarrow> dts_ascending ps"
  by (induction ps rule: dts_ascending.induct) (auto simp: decode_key_def)

lemma SortForDecodeOrder_sorted: "sorted (map decode_key (SortForDecodeOrder ps))"
  by (simp add: SortForDecodeOrder_def)

lemma HasValidDecodeOrder_True [simp]: "HasValidDecodeOrder ps"
  by (simp add: HasValidDecodeOrder_def dts_ascending_sorted SortForDecodeOrder_sorted)

lemma mset_SortForDecodeOrder [simp]: "mset (SortForDecodeOrder ps) = mset ps"
  by (simp add: SortForDecodeOrder_def)

lemma set_SortForDecodeOrder [simp]: "set (SortForDecodeOrder ps) = set ps"
  by (simp add: SortForDecodeOrder_def)

lemma distinct_SortForDecodeOrder [simp]:
  "distinct (map f (SortForDecodeOrder ps)) = distinct (map f ps)"
  by (metis mset_SortForDecodeOrder mset_eq_imp_distinct_iff mset_map)

text \<open>Decode ordering returns a permutation of its input, non-decreasing in (DTS, PTS), in
  which packets with equal DTS and PTS keep their relative order.\<close>

theorem decode_order_stable_permutation:
  "mset (SortForDecodeOrder ps) = mset ps \<and> sorted (map decode_key (SortForDecodeOrder ps)) \<and>
   filter (\<lambda>p. decode_key p = k) (SortForDecodeOrder ps) = filter (\<lambda>p. decode_key p = k) ps"
  by (simp add: SortForDecodeOrder_sorted) (simp add: SortForDecodeOrder_def sort_key_stable)

subsection \<open>The common start\<close>

definition common_keyframe :: "EncodedPacketBuffer \<Rightarrow> EncodedPacketBuffer \<Rightarrow> u64 \<Rightarrow> bool" where
  "common_keyframe a b c \<longleftrightarrow>
     (case (Find a c, Find b c) of (Some p, Some q) \<Rightarrow> keyframe p \<and> keyframe q | _ \<Rightarrow> False)"

lemma common_start_loop_found:
  assumes "sorted_wrt (<) (map source_cts ps)"
  shows "result_range (common_start_loop b req ps) = Some r \<longleftrightarrow>
    (\<exists>p \<in> set ps. r = \<lparr>start_cts = source_cts p, end_cts = source_cts p\<rparr> \<and> req \<le> source_cts p \<and>
       keyframe p \<and> (case Find b (source_cts p) of Some q \<Rightarrow> keyframe q | None \<Rightarrow> False) \<and>
       (\<forall>p' \<in> set ps. source_cts p' < source_cts p \<longrightarrow> \<not> (req \<le> source_cts p' \<and> keyframe p' \<and>
          (case Find b (source_cts p') of Some q \<Rightarrow> keyframe q | None \<Rightarrow> False))))"
  using assms
proof (induction ps)
  case (Cons p ps)
  let ?hit = "\<lambda>p. req \<le> source_cts p \<and> keyframe p \<and>
    (case Find b (source_cts p) of Some q \<Rightarrow> keyframe q | None \<Rightarrow> False)"
  show ?case
  proof (cases "?hit p")
    case True
    with Cons.prems show ?thesis by (auto simp: range_found_def)
  next
    case False
    then have "common_start_loop b req (p # ps) = common_start_loop b req ps" by auto
    moreover have "\<forall>p' \<in> set ps. source_cts p < source_cts p'" using Cons.prems by simp
    ultimately show ?thesis using Cons False by auto
  qed
qed (simp add: range_failed_def)

lemma common_start_loop_None:
  "result_range (common_start_loop b req ps) = None \<longleftrightarrow>
     (\<forall>p \<in> set ps. \<not> (req \<le> source_cts p \<and> keyframe p \<and>
        (case Find b (source_cts p) of Some q \<Rightarrow> keyframe q | None \<Rightarrow> False)))"
  by (induction ps) (auto simp: range_found_def range_failed_def)

lemma common_keyframe_Snapshot:
  assumes "packet_store (packets a)"
  shows "common_keyframe a b c \<longleftrightarrow> (\<exists>p \<in> set (Snapshot a). source_cts p = c \<and> keyframe p \<and>
    (case Find b c of Some q \<Rightarrow> keyframe q | None \<Rightarrow> False))"
proof -
  have found: "p \<in> set (Snapshot a) \<and> source_cts p = c \<longleftrightarrow> Find a c = Some p" for p
    using Find_Snapshot [OF assms, of p] Find_source_cts [OF assms, of c p] by auto
  have "common_keyframe a b c \<longleftrightarrow> (\<exists>p. Find a c = Some p \<and> keyframe p \<and>
      (case Find b c of Some q \<Rightarrow> keyframe q | None \<Rightarrow> False))"
    by (cases "Find a c"; cases "Find b c") (simp_all add: common_keyframe_def)
  also have "\<dots> \<longleftrightarrow> (\<exists>p. (p \<in> set (Snapshot a) \<and> source_cts p = c) \<and> keyframe p \<and>
      (case Find b c of Some q \<Rightarrow> keyframe q | None \<Rightarrow> False))"
    by (simp only: found)
  finally show ?thesis by blast
qed

lemma SelectCommonStart_Some:
  assumes "packet_store (packets a)"
  shows "result_range (SelectCommonStart a b req) = Some r \<longleftrightarrow>
    (\<exists>c. r = \<lparr>start_cts = c, end_cts = c\<rparr> \<and> req \<le> c \<and> common_keyframe a b c \<and>
       (\<forall>c'. req \<le> c' \<and> c' < c \<longrightarrow> \<not> common_keyframe a b c'))"
  unfolding SelectCommonStart_def common_start_loop_found [OF Snapshot_ascending [OF assms]]
    common_keyframe_Snapshot [OF assms]
  by blast

lemma SelectCommonStart_None:
  assumes "packet_store (packets a)"
  shows "result_range (SelectCommonStart a b req) = None \<longleftrightarrow>
    (\<forall>c. req \<le> c \<longrightarrow> \<not> common_keyframe a b c)"
  unfolding SelectCommonStart_def common_start_loop_None common_keyframe_Snapshot [OF assms]
  by blast

text \<open>The common start of two buffers is the least CTS at or after the requested one at which
  both hold a keyframe; the selection fails exactly when there is no such CTS.\<close>

theorem common_start_least_keyframe:
  assumes "packet_store (packets a)"
  shows "case result_range (SelectCommonStart a b req) of
      Some r \<Rightarrow> start_cts r = end_cts r \<and> req \<le> start_cts r \<and> common_keyframe a b (start_cts r) \<and>
        (\<forall>c. req \<le> c \<and> c < start_cts r \<longrightarrow> \<not> common_keyframe a b c)
    | None \<Rightarrow> \<forall>c. req \<le> c \<longrightarrow> \<not> common_keyframe a b c"
proof (cases "result_range (SelectCommonStart a b req)")
  case None
  then have "\<forall>c. req \<le> c \<longrightarrow> \<not> common_keyframe a b c"
    using SelectCommonStart_None [OF assms] by blast
  with None show ?thesis by simp
next
  case (Some r)
  from SelectCommonStart_Some [OF assms, THEN iffD1, OF this] obtain c where
    c: "r = \<lparr>start_cts = c, end_cts = c\<rparr>" "req \<le> c" "common_keyframe a b c"
      "\<forall>c'. req \<le> c' \<and> c' < c \<longrightarrow> \<not> common_keyframe a b c'" by blast
  with Some show ?thesis by simp
qed

definition demo_buffer :: "EncodedPacket list \<Rightarrow> EncodedPacketBuffer" where
  "demo_buffer ps = fold (\<lambda>p b. snd (Push p b)) ps (new_buffer 100)"

lemma demo_buffer_store:
  assumes "\<forall>p \<in> set ps. payload_fits p" shows "buffer_inv (demo_buffer ps)"
proof -
  have "buffer_inv b \<Longrightarrow> \<forall>p \<in> set ps. payload_fits p \<Longrightarrow> buffer_inv (fold (\<lambda>p b. snd (Push p b)) ps b)" for b
  proof (induction ps arbitrary: b)
    case (Cons p ps)
    then show ?case
      using buffer_inv_Push [OF _ _ prod.collapse [symmetric], of b p] by simp
  qed simp
  with assms show ?thesis by (simp add: demo_buffer_def buffer_inv_new)
qed

lemmas demo_buffer_eval = demo_buffer_def Push_def demo_packet_def new_buffer_def om_find_def
  vsize_def Let_def Snapshot_def om_values_def Find_def Contains_def

theorem common_start_least_keyframe_witness:
  "start_cts (the (result_range (SelectCommonStart
      (demo_buffer [demo_packet 1 True [0], demo_packet 2 True [0], demo_packet 3 True [0]])
      (demo_buffer [demo_packet 1 False [0], demo_packet 3 True [0]]) 1))) = 3 \<and>
   \<not> common_keyframe
      (demo_buffer [demo_packet 1 True [0], demo_packet 2 True [0], demo_packet 3 True [0]])
      (demo_buffer [demo_packet 1 False [0], demo_packet 3 True [0]]) 2"
proof -
  let ?a = "demo_buffer [demo_packet 1 True [0], demo_packet 2 True [0], demo_packet 3 True [0]]"
  let ?b = "demo_buffer [demo_packet 1 False [0], demo_packet 3 True [0]]"
  have "packet_store (packets ?a)"
    using demo_buffer_store [of "[demo_packet 1 True [0], demo_packet 2 True [0], demo_packet 3 True [0]]"]
    by (simp add: buffer_inv_def payload_fits_def demo_packet_def)
  note spec = common_start_least_keyframe [OF this, where b = ?b and req = 1]
  have "result_range (SelectCommonStart ?a ?b 1) = Some \<lparr>start_cts = 3, end_cts = 3\<rparr>"
    by (simp add: SelectCommonStart_def demo_buffer_eval range_found_def)
  with spec show ?thesis by auto
qed

subsection \<open>The common prefix\<close>

text \<open>Spacing of a CTS sequence: with an expected step, consecutive values are within it.\<close>

fun spaced :: "u64 \<Rightarrow> u64 option \<Rightarrow> u64 list \<Rightarrow> bool" where
  "spaced step prev [] = True"
| "spaced step prev (c # cs) =
     ((case prev of Some p \<Rightarrow> step = 0 \<or> within_step step p c | None \<Rightarrow> True) \<and> spaced step (Some c) cs)"

lemma prefix_walk_sound:
  assumes "sorted_wrt (<) as" and "sorted_wrt (<) bs"
    and "prefix_walk upper step res as bs = Some r" and "res \<noteq> Some r"
  shows "r \<in> set as \<and> r \<in> set bs \<and> r \<le> upper \<and>
     filter (\<lambda>c. c \<le> r) as = filter (\<lambda>c. c \<le> r) bs \<and> spaced step res (filter (\<lambda>c. c \<le> r) as)"
  using assms
proof (induction upper step res as bs rule: prefix_walk.induct)
  case (1 upper step res a as b bs)
  have go: "a = b" "a \<le> upper" "case res of Some r \<Rightarrow> step = 0 \<or> within_step step r a | None \<Rightarrow> True"
    and rest: "prefix_walk upper step (Some a) as bs = Some r"
    using "1.prems"(3,4) by (auto split: if_splits option.splits)
  show ?case
  proof (cases "r = a")
    case True
    have "filter (\<lambda>c. c \<le> a) as = []" "filter (\<lambda>c. c \<le> a) bs = []"
      using "1.prems"(1,2) go(1) by (auto simp: filter_empty_conv)
    with True go show ?thesis by (simp split: option.splits)
  next
    case False
    have g1: "\<not> (upper < a \<or> upper < b \<or> a \<noteq> b)"
      and g2: "\<not> (case res of None \<Rightarrow> False | Some r \<Rightarrow> step \<noteq> 0 \<and> \<not> within_step step r a)"
      using go by (auto split: option.splits)
    have ih: "r \<in> set as \<and> r \<in> set bs \<and> r \<le> upper \<and>
       filter (\<lambda>c. c \<le> r) as = filter (\<lambda>c. c \<le> r) bs \<and> spaced step (Some a) (filter (\<lambda>c. c \<le> r) as)"
    proof (rule "1.IH" [OF g1 g2 _ _ rest])
      show "sorted_wrt (<) as" "sorted_wrt (<) bs" using "1.prems"(1,2) by auto
      show "Some a \<noteq> Some r" using False by simp
    qed
    then have "a \<le> r" using "1.prems"(1) by auto
    moreover have "spaced step (Some a) (filter (\<lambda>c. c \<le> r) bs)"
      using ih by metis
    ultimately show ?thesis using ih go by (cases res) simp_all
  qed
qed auto

lemma prefix_walk_progress:
  assumes "sorted_wrt (<) (x # as)" shows "\<exists>r. prefix_walk upper step (Some x) as bs = Some r \<and> x \<le> r"
  using assms
proof (induction as arbitrary: x bs)
  case (Cons a as)
  then show ?case
  proof (cases bs)
    case (Cons b bs')
    have "x < a" "sorted_wrt (<) (a # as)" using Cons.prems by auto
    with Cons.IH [of a bs'] Cons show ?thesis by (auto intro: order.strict_implies_order order_trans)
  qed simp
qed simp

lemma prefix_walk_maximal:
  assumes "sorted_wrt (<) as" and "sorted_wrt (<) bs" and "c \<in> set as" and "c \<le> upper"
    and "filter (\<lambda>x. x \<le> c) as = filter (\<lambda>x. x \<le> c) bs" and "spaced step res (filter (\<lambda>x. x \<le> c) as)"
  shows "\<exists>r. prefix_walk upper step res as bs = Some r \<and> c \<le> r"
  using assms
proof (induction upper step res as bs rule: prefix_walk.induct)
  case (1 upper step res a as b bs)
  have "a \<le> c" using "1.prems"(1,3) by auto
  have ab: "a = b"
  proof (cases "b \<le> c")
    case True with \<open>a \<le> c\<close> "1.prems"(5) show ?thesis by simp
  next
    case False
    then have "filter (\<lambda>x. x \<le> c) (b # bs) = []"
      using "1.prems"(2) by (auto simp: filter_empty_conv)
    with \<open>a \<le> c\<close> "1.prems"(5) show ?thesis by simp
  qed
  have ok: "case res of Some r \<Rightarrow> step = 0 \<or> within_step step r a | None \<Rightarrow> True"
    using "1.prems"(6) \<open>a \<le> c\<close> by simp
  then have go: "\<not> (case res of Some r \<Rightarrow> step \<noteq> 0 \<and> \<not> within_step step r a | None \<Rightarrow> False)"
    by (auto split: option.splits)
  have walk: "prefix_walk upper step res (a # as) (b # bs) = prefix_walk upper step (Some a) as bs"
    using ab go \<open>a \<le> c\<close> "1.prems"(4) by auto
  show ?case
  proof (cases "c = a")
    case True
    with walk prefix_walk_progress [OF "1.prems"(1)] show ?thesis by simp
  next
    case False
    have g1: "\<not> (upper < a \<or> upper < b \<or> a \<noteq> b)"
      using ab \<open>a \<le> c\<close> "1.prems"(4) by auto
    have "filter (\<lambda>x. x \<le> c) as = filter (\<lambda>x. x \<le> c) bs" "spaced step (Some a) (filter (\<lambda>x. x \<le> c) as)"
      using "1.prems"(5,6) ab \<open>a \<le> c\<close> by simp_all
    then show ?thesis
      using "1.IH" [OF g1 go] "1.prems"(1-4) False walk by simp
  qed
qed (auto simp: filter_empty_conv)

definition cts_between :: "u64 \<Rightarrow> u64 \<Rightarrow> EncodedPacketBuffer \<Rightarrow> u64 list" where
  "cts_between lo hi b = filter (\<lambda>c. lo \<le> c \<and> c \<le> hi) (map source_cts (Snapshot b))"

lemma dropWhile_ascending:
  "sorted_wrt (<) cs \<Longrightarrow> dropWhile (\<lambda>c. c < lo) cs = filter (\<lambda>c. lo \<le> c) cs"
  for lo :: u64
proof (induction cs)
  case (Cons c cs)
  then have "lo \<le> c \<Longrightarrow> filter (\<lambda>c. lo \<le> c) cs = cs"
    by (intro filter_True) (auto intro: order_trans less_imp_le)
  with Cons show ?case by (auto simp: not_less)
qed simp

lemma SelectCommonPrefixEnd_walk:
  assumes "packet_store (packets a)" and "packet_store (packets b)"
  shows "SelectCommonPrefixEnd a b lo upper step =
    prefix_walk upper step None (filter (\<lambda>c. lo \<le> c) (map source_cts (Snapshot a)))
      (filter (\<lambda>c. lo \<le> c) (map source_cts (Snapshot b)))"
  unfolding SelectCommonPrefixEnd_def
  by (simp only: dropWhile_ascending [OF Snapshot_ascending [OF assms(1)]]
      dropWhile_ascending [OF Snapshot_ascending [OF assms(2)]])

lemma cts_between_filter:
  "filter (\<lambda>c. c \<le> hi) (filter (\<lambda>c. lo \<le> c) (map source_cts (Snapshot b))) = cts_between lo hi b"
  by (simp add: cts_between_def conj_commute)

lemma ascending_from:
  "packet_store (packets b) \<Longrightarrow> sorted_wrt (<) (filter (\<lambda>c. lo \<le> c) (map source_cts (Snapshot b)))"
  using Snapshot_ascending by (auto intro: sorted_wrt_filter)

lemma members_from:
  "packet_store (packets b) \<Longrightarrow>
     c \<in> set (filter (\<lambda>c. lo \<le> c) (map source_cts (Snapshot b))) \<longleftrightarrow> lo \<le> c \<and> Contains b c"
  using Contains_Snapshot by auto

lemma SelectCommonPrefixEnd_sound:
  assumes a: "packet_store (packets a)" and b: "packet_store (packets b)"
    and "SelectCommonPrefixEnd a b lo upper step = Some r"
  shows "lo \<le> r" "r \<le> upper" "Contains a r" "Contains b r" "cts_between lo r a = cts_between lo r b"
    "spaced step None (cts_between lo r a)"
proof -
  note walk = prefix_walk_sound [OF ascending_from [OF a] ascending_from [OF b]
      assms(3) [unfolded SelectCommonPrefixEnd_walk [OF a b]] option.distinct(1),
      unfolded members_from [OF a] members_from [OF b] cts_between_filter]
  from walk show "lo \<le> r" "r \<le> upper" "Contains a r" "Contains b r"
    "cts_between lo r a = cts_between lo r b" "spaced step None (cts_between lo r a)" by blast+
qed

lemma SelectCommonPrefixEnd_maximal:
  assumes a: "packet_store (packets a)" and b: "packet_store (packets b)"
    and "lo \<le> c" and "c \<le> upper" and "Contains a c" and "cts_between lo c a = cts_between lo c b"
    and "spaced step None (cts_between lo c a)"
  shows "\<exists>r. SelectCommonPrefixEnd a b lo upper step = Some r \<and> c \<le> r"
  unfolding SelectCommonPrefixEnd_walk [OF a b]
  using assms(3-) members_from [OF a, of c lo]
  by (intro prefix_walk_maximal [OF ascending_from [OF a] ascending_from [OF b]])
    (simp_all only: cts_between_filter)

text \<open>Looking again with the result as the limit gives the result.\<close>

lemma SelectCommonPrefixEnd_again:
  assumes a: "packet_store (packets a)" and b: "packet_store (packets b)"
    and r: "SelectCommonPrefixEnd a b lo upper step = Some r"
  shows "SelectCommonPrefixEnd a b lo r step = Some r"
proof -
  note s = SelectCommonPrefixEnd_sound [OF a b r]
  from SelectCommonPrefixEnd_maximal [OF a b s(1) order_refl s(3,5,6)] obtain q
    where q: "SelectCommonPrefixEnd a b lo r step = Some q" "r \<le> q" by blast
  with SelectCommonPrefixEnd_sound(2) [OF a b q(1)] show ?thesis by simp
qed

lemma cts_between_Contains:
  "packet_store (packets b) \<Longrightarrow> c \<in> set (cts_between lo hi b) \<longleftrightarrow> lo \<le> c \<and> c \<le> hi \<and> Contains b c"
  using Contains_Snapshot by (auto simp: cts_between_def)

lemma distinct_filter_one: "distinct xs \<Longrightarrow> x \<in> set xs \<Longrightarrow> filter (\<lambda>y. y = x) xs = [x]"
  by (induction xs) (auto simp: filter_empty_conv)

lemma cts_between_one:
  assumes "packet_store (packets b)" and "Contains b lo" shows "cts_between lo lo b = [lo]"
proof -
  have "cts_between lo lo b = filter (\<lambda>c. c = lo) (map source_cts (Snapshot b))"
    unfolding cts_between_def by (rule filter_cong) auto
  also have "\<dots> = [lo]"
    using Snapshot_ascending [OF assms(1)] Contains_Snapshot [OF assms(1), of lo] assms(2)
    by (intro distinct_filter_one) (auto simp: strict_sorted_iff)
  finally show ?thesis .
qed

text \<open>C21. The common prefix end is the greatest CTS up to which the two buffers hold the same CTS
  sequence from the start, at the expected spacing when one is given: the sequences agree exactly
  up to the result, the result is held by both and not above the limit, and no later CTS with that
  property was passed over.\<close>

theorem common_prefix_end_greatest:
  assumes "packet_store (packets a)" and "packet_store (packets b)"
  shows "case SelectCommonPrefixEnd a b lo upper step of
      Some r \<Rightarrow> lo \<le> r \<and> r \<le> upper \<and> Contains a r \<and> Contains b r \<and>
        cts_between lo r a = cts_between lo r b \<and> spaced step None (cts_between lo r a) \<and>
        (\<forall>c. lo \<le> c \<and> c \<le> upper \<and> Contains a c \<and> cts_between lo c a = cts_between lo c b \<and>
             spaced step None (cts_between lo c a) \<longrightarrow> c \<le> r)
    | None \<Rightarrow> \<not> (\<exists>c. lo \<le> c \<and> c \<le> upper \<and> Contains a c \<and> cts_between lo c a = cts_between lo c b \<and>
             spaced step None (cts_between lo c a))"
proof (cases "SelectCommonPrefixEnd a b lo upper step")
  case None
  with SelectCommonPrefixEnd_maximal [OF assms] show ?thesis by fastforce
next
  case (Some r)
  with SelectCommonPrefixEnd_maximal [OF assms] SelectCommonPrefixEnd_sound [OF assms Some]
  show ?thesis by fastforce
qed

theorem common_prefix_end_greatest_witness:
  "SelectCommonPrefixEnd
      (demo_buffer [demo_packet 1 True [0], demo_packet 2 False [0], demo_packet 3 False [0]])
      (demo_buffer [demo_packet 1 True [0], demo_packet 2 False [0], demo_packet 4 False [0]]) 1 9 1 = Some 2 \<and>
   cts_between 1 2 (demo_buffer [demo_packet 1 True [0], demo_packet 2 False [0], demo_packet 3 False [0]]) =
   cts_between 1 2 (demo_buffer [demo_packet 1 True [0], demo_packet 2 False [0], demo_packet 4 False [0]])"
proof -
  let ?a = "demo_buffer [demo_packet 1 True [0], demo_packet 2 False [0], demo_packet 3 False [0]]"
  let ?b = "demo_buffer [demo_packet 1 True [0], demo_packet 2 False [0], demo_packet 4 False [0]]"
  have "buffer_inv ?a" "buffer_inv ?b"
    by (rule demo_buffer_store; simp add: payload_fits_def demo_packet_def)+
  then have stores: "packet_store (packets ?a)" "packet_store (packets ?b)"
    by (simp_all add: buffer_inv_def)
  have "SelectCommonPrefixEnd ?a ?b 1 9 1 = Some 2"
    by (simp add: SelectCommonPrefixEnd_def demo_buffer_eval within_step_def)
  with common_prefix_end_greatest [OF stores, of 1 9 1] show ?thesis by simp
qed

subsection \<open>Validation\<close>

lemma fold_count:
  "fold (\<lambda>c n. if P c then n + 1 else n) cs n = n + word_of_nat (length (filter P cs))"
  for n :: u64
  by (induction cs arbitrary: n) (auto simp: algebra_simps)

lemma missing_from_count:
  "missing_from b cs = word_of_nat (length (filter (\<lambda>c. \<not> Contains b c) cs))"
  using fold_count [of "\<lambda>c. \<not> Contains b c" cs 0] by (simp add: missing_from_def)

lemma Contains_in_range:
  assumes "packet_store (packets b)"
  shows "c \<in> set (SourceCts b r) \<longleftrightarrow> in_range r c \<and> Contains b c"
  using Contains_Snapshot [OF assms, of c] by (auto simp: SourceCts_def)

text \<open>Validating a range: it is accepted when the two buffers hold the same CTS values inside
  it; otherwise the failure is MissingPacket with the number of CTS values held by exactly one of
  them. The InvalidPacketOrdering failure is never reported, because the decode-order check sorts
  the packets before it looks at their order.\<close>

theorem validation_finds_mismatches:
  assumes "packet_store (packets a)" and "packet_store (packets b)"
    and "length (packets a) + length (packets b) < 2 ^ 64"
  shows "ValidateCommonPacketRange a b r =
    (let one_sided = {c. in_range r c \<and> (Contains a c \<longleftrightarrow> \<not> Contains b c)}
     in if one_sided = {} then range_found r
        else range_failed MissingPacket (word_of_nat (card one_sided)))"
proof -
  let ?A = "filter (\<lambda>c. \<not> Contains b c) (SourceCts a r)"
  let ?B = "filter (\<lambda>c. \<not> Contains a c) (SourceCts b r)"
  let ?S = "{c. in_range r c \<and> (Contains a c \<longleftrightarrow> \<not> Contains b c)}"
  have dist: "distinct ?A" "distinct ?B"
    using Snapshot_ascending [OF assms(1)] Snapshot_ascending [OF assms(2)]
    by (auto simp: SourceCts_def strict_sorted_iff distinct_map_filter)
  have S: "?S = set ?A \<union> set ?B" "set ?A \<inter> set ?B = {}"
    using Contains_in_range [OF assms(1)] Contains_in_range [OF assms(2)] by auto
  have card: "card ?S = length ?A + length ?B"
    unfolding S(1) card_Un_disjoint [OF finite_set finite_set S(2)]
    by (simp only: distinct_card [OF dist(1)] distinct_card [OF dist(2)])
  have small: "length ?A + length ?B < 2 ^ 64"
  proof -
    have "length ?A \<le> length (packets a)" "length ?B \<le> length (packets b)"
      by (auto simp: SourceCts_def Snapshot_def om_values_def intro: order_trans [OF length_filter_le])
    with assms(3) show ?thesis by simp
  qed
  have count: "missing_from b (SourceCts a r) + missing_from a (SourceCts b r) = word_of_nat (card ?S)"
    by (simp add: missing_from_count card)
  have "word_of_nat (card ?S) = (0 :: u64) \<longleftrightarrow> ?S = {}"
  proof -
    have "finite ?S" unfolding S(1) by simp
    then show ?thesis
      by (simp only: word_of_nat_zero_iff [OF small [folded card]] card_eq_0_iff) simp
  qed
  with count show ?thesis
    by (auto simp: ValidateCommonPacketRange_def Let_def)
qed

theorem validation_finds_mismatches_witness:
  "mismatch_count (ValidateCommonPacketRange
      (demo_buffer [demo_packet 1 True [0], demo_packet 3 False [0]])
      (demo_buffer [demo_packet 1 True [0], demo_packet 2 False [0]])
      \<lparr>start_cts = 1, end_cts = 3\<rparr>) = 2"
proof -
  let ?a = "demo_buffer [demo_packet 1 True [0], demo_packet 3 False [0]]"
  let ?b = "demo_buffer [demo_packet 1 True [0], demo_packet 2 False [0]]"
  have "buffer_inv ?a" "buffer_inv ?b"
    by (rule demo_buffer_store; simp add: payload_fits_def demo_packet_def)+
  then have stores: "packet_store (packets ?a)" "packet_store (packets ?b)"
    by (simp_all add: buffer_inv_def)
  have "length (packets ?a) + length (packets ?b) < 2 ^ 64"
    by (simp add: demo_buffer_eval)
  note spec = validation_finds_mismatches [OF stores this, of "\<lparr>start_cts = 1, end_cts = 3\<rparr>"]
  have "{c. in_range \<lparr>start_cts = 1, end_cts = 3\<rparr> c \<and> (Contains ?a c \<longleftrightarrow> \<not> Contains ?b c)} = {2, 3}"
  proof -
    have "Contains ?a c \<longleftrightarrow> c = 1 \<or> c = 3" "Contains ?b c \<longleftrightarrow> c = 1 \<or> c = 2" for c
      by (simp_all add: demo_buffer_eval)
    then show ?thesis by (auto simp: in_range_def)
  qed
  with spec show ?thesis by (simp add: range_failed_def)
qed

end
