(* ===== verification/PacketSink.thy ===== *)
theory PacketSink
  imports PacketBuffer
begin

text \<open>
  \<open>src/recording/packet-sink.hpp\<close>: the stream configuration and the virtual interface
  \<open>SynchronizedPacketSink\<close>. An implementation is a record of functions on its own state. A sink
  object also carries the ghost list of the calls made on it and their results, which no
  operation reads: it is what the theorems about muxed packets speak of.
\<close>

record PacketStreamConfig =
  cfg_width :: u32
  cfg_height :: u32
  cfg_timebase_num :: i32
  cfg_timebase_den :: i32
  extra_data :: bytes
  muxer_tail_capacity_bytes :: usize
  muxer_reorder_safety_cts :: u64

record 's sink_ops =
  sink_Open :: "PacketStreamConfig \<Rightarrow> u64 \<Rightarrow> 's \<Rightarrow> bool \<times> 's"
  sink_Write :: "EncodedPacket \<Rightarrow> 's \<Rightarrow> bool \<times> 's"
  sink_CommitThrough :: "u64 \<Rightarrow> 's \<Rightarrow> bool \<times> 's"
  sink_Finalize :: "u64 \<Rightarrow> 's \<Rightarrow> bool \<times> 's"
  sink_Abort :: "'s \<Rightarrow> 's"

datatype sink_call =
    OpenCall u64 bool
  | WriteCall EncodedPacket bool
  | CommitCall u64 bool
  | FinalizeCall u64 bool
  | AbortCall

record 's sink_obj =
  sk_state :: 's
  sk_calls :: "sink_call list"

subsection \<open>Calls through the interface\<close>

definition do_Open :: "'s sink_ops \<Rightarrow> PacketStreamConfig \<Rightarrow> u64 \<Rightarrow> 's sink_obj \<Rightarrow> bool \<times> 's sink_obj" where
  "do_Open ops cfg c k = (let (ok, s) = sink_Open ops cfg c (sk_state k)
     in (ok, k\<lparr>sk_state := s, sk_calls := sk_calls k @ [OpenCall c ok]\<rparr>))"

definition do_Write :: "'s sink_ops \<Rightarrow> EncodedPacket \<Rightarrow> 's sink_obj \<Rightarrow> bool \<times> 's sink_obj" where
  "do_Write ops p k = (let (ok, s) = sink_Write ops p (sk_state k)
     in (ok, k\<lparr>sk_state := s, sk_calls := sk_calls k @ [WriteCall p ok]\<rparr>))"

definition do_CommitThrough :: "'s sink_ops \<Rightarrow> u64 \<Rightarrow> 's sink_obj \<Rightarrow> bool \<times> 's sink_obj" where
  "do_CommitThrough ops c k = (let (ok, s) = sink_CommitThrough ops c (sk_state k)
     in (ok, k\<lparr>sk_state := s, sk_calls := sk_calls k @ [CommitCall c ok]\<rparr>))"

definition do_Finalize :: "'s sink_ops \<Rightarrow> u64 \<Rightarrow> 's sink_obj \<Rightarrow> bool \<times> 's sink_obj" where
  "do_Finalize ops c k = (let (ok, s) = sink_Finalize ops c (sk_state k)
     in (ok, k\<lparr>sk_state := s, sk_calls := sk_calls k @ [FinalizeCall c ok]\<rparr>))"

definition do_Abort :: "'s sink_ops \<Rightarrow> 's sink_obj \<Rightarrow> 's sink_obj" where
  "do_Abort ops k = k\<lparr>sk_state := sink_Abort ops (sk_state k), sk_calls := sk_calls k @ [AbortCall]\<rparr>"

text \<open>
  A sink is held by a \<open>std::unique_ptr\<close>. A call through a null pointer has no behaviour; the
  model answers \<open>False\<close>, and the session theory shows that it never happens.
\<close>

definition through :: "('k \<Rightarrow> bool \<times> 'k) \<Rightarrow> 'k option \<Rightarrow> bool \<times> 'k option" where
  "through f k = (case k of None \<Rightarrow> (False, None) | Some x \<Rightarrow> (let (ok, y) = f x in (ok, Some y)))"

text \<open>The writing loop: stop at the first packet the sink refuses.\<close>

fun write_all :: "'s sink_ops \<Rightarrow> EncodedPacket list \<Rightarrow> 's sink_obj option \<Rightarrow> bool \<times> 's sink_obj option" where
  "write_all ops [] k = (True, k)"
| "write_all ops (p # ps) k =
     (let (ok, k') = through (do_Write ops p) k
      in if ok then write_all ops ps k' else (False, k'))"

subsection \<open>What a sink was given\<close>

definition written_calls :: "sink_call list \<Rightarrow> u64 list" where
  "written_calls cs = concat (map (\<lambda>c. case c of WriteCall p True \<Rightarrow> [source_cts p] | _ \<Rightarrow> []) cs)"

definition finalized_calls :: "sink_call list \<Rightarrow> u64 list" where
  "finalized_calls cs = concat (map (\<lambda>c. case c of FinalizeCall e True \<Rightarrow> [e] | _ \<Rightarrow> []) cs)"

definition written :: "'s sink_obj option \<Rightarrow> u64 list" where
  "written k = (case k of None \<Rightarrow> [] | Some x \<Rightarrow> written_calls (sk_calls x))"

definition finalized :: "'s sink_obj option \<Rightarrow> u64 list" where
  "finalized k = (case k of None \<Rightarrow> [] | Some x \<Rightarrow> finalized_calls (sk_calls x))"

definition untouched :: "'s sink_obj option \<Rightarrow> bool" where
  "untouched k \<longleftrightarrow> (case k of None \<Rightarrow> True | Some x \<Rightarrow> sk_calls x = [])"

lemma written_calls_append [simp]: "written_calls (cs @ ds) = written_calls cs @ written_calls ds"
  by (simp add: written_calls_def)

lemma finalized_calls_append [simp]: "finalized_calls (cs @ ds) = finalized_calls cs @ finalized_calls ds"
  by (simp add: finalized_calls_def)

lemma written_calls_one [simp]:
  "written_calls [] = []" "written_calls [OpenCall c ok] = []" "written_calls [CommitCall c ok] = []"
  "written_calls [FinalizeCall c ok] = []" "written_calls [AbortCall] = []"
  "written_calls [WriteCall p ok] = (if ok then [source_cts p] else [])"
  by (simp_all add: written_calls_def split: bool.split)

lemma finalized_calls_one [simp]:
  "finalized_calls [] = []" "finalized_calls [OpenCall c ok] = []" "finalized_calls [CommitCall c ok] = []"
  "finalized_calls [FinalizeCall c ok] = (if ok then [c] else [])" "finalized_calls [AbortCall] = []"
  "finalized_calls [WriteCall p ok] = []"
  by (simp_all add: finalized_calls_def split: bool.split)

lemma written_None [simp]: "written None = []" "finalized None = []"
  by (simp_all add: written_def finalized_def)

lemma through_Open:
  "through (do_Open ops cfg c) k = (ok, k') \<Longrightarrow>
     written k' = written k \<and> finalized k' = finalized k \<and> (k' = None \<longleftrightarrow> k = None)"
  by (auto simp: through_def do_Open_def written_def finalized_def Let_def split: option.splits prod.splits)

lemma through_Commit:
  "through (do_CommitThrough ops c) k = (ok, k') \<Longrightarrow>
     written k' = written k \<and> finalized k' = finalized k \<and> (k' = None \<longleftrightarrow> k = None)"
  by (auto simp: through_def do_CommitThrough_def written_def finalized_def Let_def
      split: option.splits prod.splits)

lemma through_Finalize:
  "through (do_Finalize ops c) k = (ok, k') \<Longrightarrow> written k' = written k \<and>
     finalized k' = finalized k @ (if ok then [c] else []) \<and> (k' = None \<longleftrightarrow> k = None)"
  by (auto simp: through_def do_Finalize_def written_def finalized_def Let_def
      split: option.splits prod.splits)

lemma through_Write:
  "through (do_Write ops p) k = (ok, k') \<Longrightarrow> finalized k' = finalized k \<and> (k' = None \<longleftrightarrow> k = None) \<and>
     written k' = written k @ (if ok then [source_cts p] else [])"
  by (auto simp: through_def do_Write_def written_def finalized_def Let_def
      split: option.splits prod.splits)

lemma abort_keeps [simp]:
  "written (map_option (do_Abort ops) k) = written k"
  "finalized (map_option (do_Abort ops) k) = finalized k"
  by (auto simp: written_def finalized_def do_Abort_def split: option.splits)

lemma write_all_keeps:
  "write_all ops ps k = (ok, k') \<Longrightarrow> finalized k' = finalized k \<and> (k' = None \<longleftrightarrow> k = None)"
proof (induction ps arbitrary: k)
  case (Cons p ps)
  then show ?case
    by (auto simp: Let_def split: prod.splits if_splits dest!: through_Write)
qed simp

text \<open>A sink is given a prefix of the packets, all of them when every write succeeds.\<close>

lemma write_all_written:
  "write_all ops ps k = (ok, k') \<Longrightarrow> \<exists>qs rs. ps = qs @ rs \<and> (ok \<longleftrightarrow> rs = []) \<and>
     written k' = written k @ map source_cts qs"
proof (induction ps arbitrary: k)
  case (Cons p ps)
  obtain ok1 k1 where w: "through (do_Write ops p) k = (ok1, k1)" by fastforce
  show ?case
  proof (cases ok1)
    case True
    with w Cons.prems have "write_all ops ps k1 = (ok, k')" by simp
    from Cons.IH [OF this] obtain qs rs where "ps = qs @ rs" "ok \<longleftrightarrow> rs = []"
      "written k' = written k1 @ map source_cts qs" by blast
    with through_Write [OF w] True show ?thesis
      by (intro exI [of _ "p # qs"] exI [of _ rs]) simp
  next
    case False
    with w Cons.prems through_Write [OF w] show ?thesis
      by (intro exI [of _ "[]"] exI [of _ "p # ps"]) auto
  qed
qed simp

end
