(* ===== verification/RecordingSession.thy ===== *)
theory RecordingSession
  imports CommonRange PacketSink
begin

text \<open>
  \<open>src/recording/synchronized-recording-session\<close>: the two-stream recording state machine. Every
  public operation runs under the session's mutex, so it is one atomic step of the model; two
  callback threads are an arbitrary sequence of such steps. The packet sinks are any
  implementation of the sink interface.
\<close>

subsection \<open>Data\<close>

datatype RecordingStream = StreamA | StreamB

datatype SynchronizedRecordingState = Idle | Starting | Running | Draining | Stopped | Failed

datatype SynchronizedRecordingFailure =
    NoRecordingFailure | Aborted | InvalidTransition | StartTimeout | PacketTiming
  | DuplicatePacketCts | LatePacket | BufferCapacity | SinkOpen | SinkWrite
  | MissingCommonRange | RangeMismatch | SinkFinalize

record SynchronizedRecordingConfig =
  pre_roll_capacity_bytes :: usize
  tail_capacity_bytes :: usize
  reorder_safety_cts :: u64
  expected_source_cts_step :: u64
  max_start_wait_cts :: u64

record 's SynchronizedRecordingSession =
  config :: SynchronizedRecordingConfig
  stream_a :: PacketStreamConfig
  stream_b :: PacketStreamConfig
  sink_a :: "'s sink_obj option"
  sink_b :: "'s sink_obj option"
  buffer_a :: EncodedPacketBuffer
  buffer_b :: EncodedPacketBuffer
  pre_roll_packet_count_a :: usize
  pre_roll_packet_count_b :: usize
  pre_roll_bytes_a :: usize
  pre_roll_bytes_b :: usize
  peak_retained_bytes :: usize
  peak_tail_bytes_a :: usize
  peak_tail_bytes_b :: usize
  state :: SynchronizedRecordingState
  failure :: SynchronizedRecordingFailure
  requested_start_cts :: u64
  requested_stop_cts :: u64
  max_observed_cts_a :: u64
  max_observed_cts_b :: u64
  source_cts_step :: u64
  last_flushed_cts :: u64
  has_flushed_cts :: bool
  selected_range :: "CommonPacketRange option"

type_synonym 's session = "'s SynchronizedRecordingSession"

definition new_session :: "SynchronizedRecordingConfig \<Rightarrow> PacketStreamConfig \<Rightarrow> PacketStreamConfig \<Rightarrow>
    's option \<Rightarrow> 's option \<Rightarrow> 's session" where
  "new_session cfg sa sb ka kb =
     \<lparr>config = cfg, stream_a = sa, stream_b = sb,
      sink_a = map_option (\<lambda>k. \<lparr>sk_state = k, sk_calls = []\<rparr>) ka,
      sink_b = map_option (\<lambda>k. \<lparr>sk_state = k, sk_calls = []\<rparr>) kb,
      buffer_a = new_buffer (pre_roll_capacity_bytes cfg),
      buffer_b = new_buffer (pre_roll_capacity_bytes cfg),
      pre_roll_packet_count_a = 0, pre_roll_packet_count_b = 0,
      pre_roll_bytes_a = 0, pre_roll_bytes_b = 0,
      peak_retained_bytes = 0, peak_tail_bytes_a = 0, peak_tail_bytes_b = 0,
      state = Idle, failure = NoRecordingFailure,
      requested_start_cts = 0, requested_stop_cts = 0,
      max_observed_cts_a = 0, max_observed_cts_b = 0,
      source_cts_step = expected_source_cts_step cfg,
      last_flushed_cts = 0, has_flushed_cts = False, selected_range = None\<rparr>"

subsection \<open>Private helpers\<close>

definition Fail :: "'s sink_ops \<Rightarrow> SynchronizedRecordingFailure \<Rightarrow> 's session \<Rightarrow> bool \<times> 's session" where
  "Fail ops f s =
     (False, s\<lparr>failure := f, state := Failed,
               sink_a := map_option (do_Abort ops) (sink_a s),
               sink_b := map_option (do_Abort ops) (sink_b s)\<rparr>)"

definition UpdatePeakRetainedBytes :: "'s session \<Rightarrow> 's session" where
  "UpdatePeakRetainedBytes s =
     s\<lparr>peak_retained_bytes :=
         max (peak_retained_bytes s) (buffered_bytes (buffer_a s) + buffered_bytes (buffer_b s)),
       peak_tail_bytes_a := max (peak_tail_bytes_a s) (buffered_bytes (buffer_a s)),
       peak_tail_bytes_b := max (peak_tail_bytes_b s) (buffered_bytes (buffer_b s))\<rparr>"

text \<open>The lambda \<open>first_step\<close> of \<open>InferSourceCtsStep\<close>: the first gap at or after the start.\<close>

fun first_step :: "u64 \<Rightarrow> u64 option \<Rightarrow> EncodedPacket list \<Rightarrow> u64" where
  "first_step start prev [] = 0"
| "first_step start prev (p # ps) =
     (if source_cts p < start then first_step start prev ps
      else case prev of
        Some q \<Rightarrow> (if source_cts p > q then source_cts p - q
                   else first_step start (Some (source_cts p)) ps)
      | None \<Rightarrow> first_step start (Some (source_cts p)) ps)"

definition InferSourceCtsStep :: "'s session \<Rightarrow> 's session" where
  "InferSourceCtsStep s =
     (case selected_range s of
        None \<Rightarrow> s
      | Some r \<Rightarrow>
          (if source_cts_step s \<noteq> 0 then s
           else
             (let step_a = first_step (start_cts r) None (Snapshot (buffer_a s));
                  step_b = first_step (start_cts r) None (Snapshot (buffer_b s));
                  difference = (if step_a > step_b then step_a - step_b else step_b - step_a)
              in if step_a \<noteq> 0 \<and> step_b \<noteq> 0 \<and> difference \<le> 1
                 then s\<lparr>source_cts_step := min step_a step_b\<rparr> else s)))"

definition RunningWatermark :: "'s session \<Rightarrow> u64 option" where
  "RunningWatermark s =
     (case selected_range s of
        None \<Rightarrow> None
      | Some r \<Rightarrow>
          (let newest = min (max_observed_cts_a s) (max_observed_cts_b s);
               watermark = newest - reorder_safety_cts (config s)
           in if newest < reorder_safety_cts (config s) then None
              else if watermark < start_cts r then None
              else Some watermark))"

text \<open>The window of one flush: at or after the start, above the last flush, up to the new one.\<close>

definition in_window :: "u64 \<Rightarrow> u64 option \<Rightarrow> u64 \<Rightarrow> EncodedPacket \<Rightarrow> bool" where
  "in_window start lower cts p \<longleftrightarrow> source_cts p \<ge> start \<and>
     (case lower of None \<Rightarrow> True | Some l \<Rightarrow> source_cts p > l) \<and> source_cts p \<le> cts"

definition FlushThrough :: "'s sink_ops \<Rightarrow> u64 \<Rightarrow> 's session \<Rightarrow> bool \<times> 's session" where
  "FlushThrough ops cts s =
     (case selected_range s of
        None \<Rightarrow> Fail ops MissingCommonRange s
      | Some r \<Rightarrow>
     (if cts < start_cts r then Fail ops MissingCommonRange s
      else if has_flushed_cts s \<and> cts \<le> last_flushed_cts s then (True, s)
      else
        (let s = InferSourceCtsStep s
         in if SelectCommonPrefixEnd (buffer_a s) (buffer_b s) (start_cts r) cts (source_cts_step s) \<noteq> Some cts
            then Fail ops RangeMismatch s
            else
        (let lower = (if has_flushed_cts s then Some (last_flushed_cts s) else None);
             packets_a = filter (in_window (start_cts r) lower cts) (SnapshotThrough (buffer_a s) cts);
             packets_b = filter (in_window (start_cts r) lower cts) (SnapshotThrough (buffer_b s) cts)
         in if (\<exists>p \<in> set packets_a. \<not> Contains (buffer_b s) (source_cts p)) \<or>
               (\<exists>p \<in> set packets_b. \<not> Contains (buffer_a s) (source_cts p))
            then Fail ops RangeMismatch s
            else
        (let (ok_a, ka) = write_all ops (SortForDecodeOrder packets_a) (sink_a s);
             s = s\<lparr>sink_a := ka\<rparr>
         in if \<not> ok_a then Fail ops SinkWrite s
            else
        (let (ok_b, kb) = write_all ops (SortForDecodeOrder packets_b) (sink_b s);
             s = s\<lparr>sink_b := kb\<rparr>
         in if \<not> ok_b then Fail ops SinkWrite s
            else
        (let (ok_a, ka) = through (do_CommitThrough ops cts) (sink_a s);
             s = s\<lparr>sink_a := ka\<rparr>
         in if \<not> ok_a then Fail ops SinkWrite s
            else
        (let (ok_b, kb) = through (do_CommitThrough ops cts) (sink_b s);
             s = s\<lparr>sink_b := kb\<rparr>
         in if \<not> ok_b then Fail ops SinkWrite s
            else (True, UpdatePeakRetainedBytes
                    (s\<lparr>buffer_a := DiscardBefore (cts + 1) (buffer_a s),
                       buffer_b := DiscardBefore (cts + 1) (buffer_b s),
                       last_flushed_cts := cts, has_flushed_cts := True\<rparr>))))))))))"

definition FlushStablePackets :: "'s sink_ops \<Rightarrow> 's session \<Rightarrow> bool \<times> 's session" where
  "FlushStablePackets ops s =
     (let s = InferSourceCtsStep s
      in case (RunningWatermark s, selected_range s) of
           (Some watermark, Some r) \<Rightarrow>
             (case SelectCommonPrefixEnd (buffer_a s) (buffer_b s) (start_cts r) watermark
                     (source_cts_step s) of
                None \<Rightarrow> (True, s)
              | Some c \<Rightarrow>
                  (if has_flushed_cts s \<and> c \<le> last_flushed_cts s then (True, s)
                   else FlushThrough ops c s))
         | _ \<Rightarrow> (True, s))"

definition newest_cts :: "u64 \<Rightarrow> EncodedPacketBuffer \<Rightarrow> u64" where
  "newest_cts start b =
     (if buffer_size b = 0 \<or> Snapshot b = [] then start else source_cts (last (Snapshot b)))"

definition EstablishCommonStart :: "'s sink_ops \<Rightarrow> 's session \<Rightarrow> bool \<times> 's session" where
  "EstablishCommonStart ops s =
     (if state s \<noteq> Starting then (state s = Running, s)
      else case result_range (SelectCommonStart (buffer_a s) (buffer_b s) (requested_start_cts s)) of
        None \<Rightarrow> (True, s)
      | Some r \<Rightarrow>
     (let start = start_cts r;
          s = s\<lparr>selected_range := Some r,
                buffer_a := DiscardBefore start (buffer_a s),
                buffer_b := DiscardBefore start (buffer_b s)\<rparr>;
          (fits_a, ba) = SetCapacityBytes (tail_capacity_bytes (config s)) (buffer_a s);
          s = s\<lparr>buffer_a := ba\<rparr>
      in if \<not> fits_a then Fail ops BufferCapacity s
         else
     (let (fits_b, bb) = SetCapacityBytes (tail_capacity_bytes (config s)) (buffer_b s);
          s = s\<lparr>buffer_b := bb\<rparr>
      in if \<not> fits_b then Fail ops BufferCapacity s
         else
     (let (open_a, ka) = through (do_Open ops (stream_a s) start) (sink_a s);
          s = s\<lparr>sink_a := ka\<rparr>;
          (open_b, kb) = (if open_a then through (do_Open ops (stream_b s) start) (sink_b s)
                          else (False, sink_b s));
          s = s\<lparr>sink_b := kb\<rparr>
      in if \<not> open_a \<or> \<not> open_b
         then Fail ops SinkOpen (s\<lparr>sink_a := map_option (do_Abort ops) (sink_a s),
                                   sink_b := map_option (do_Abort ops) (sink_b s)\<rparr>)
         else
     (let s = s\<lparr>max_observed_cts_a := newest_cts start (buffer_a s),
                max_observed_cts_b := newest_cts start (buffer_b s)\<rparr>;
          s = (InferSourceCtsStep s)\<lparr>state := Running\<rparr>
      in FlushStablePackets ops s)))))"

definition FinalizeAt :: "'s sink_ops \<Rightarrow> u64 \<Rightarrow> 's session \<Rightarrow> bool \<times> 's session" where
  "FinalizeAt ops end_at s =
     (let (ok_a, ka) = through (do_Finalize ops end_at) (sink_a s);
          s = s\<lparr>sink_a := ka\<rparr>;
          (ok_b, kb) = (if ok_a then through (do_Finalize ops end_at) (sink_b s) else (False, sink_b s));
          s = s\<lparr>sink_b := kb\<rparr>
      in if \<not> ok_a \<or> \<not> ok_b
         then Fail ops SinkFinalize (s\<lparr>sink_a := map_option (do_Abort ops) (sink_a s),
                                       sink_b := map_option (do_Abort ops) (sink_b s)\<rparr>)
         else (True, s\<lparr>selected_range := map_option (\<lambda>r. r\<lparr>end_cts := end_at\<rparr>) (selected_range s),
                       buffer_a := Clear (buffer_a s), buffer_b := Clear (buffer_b s),
                       state := Stopped\<rparr>))"

subsection \<open>Public operations\<close>

definition Start :: "'s sink_ops \<Rightarrow> u64 \<Rightarrow> 's session \<Rightarrow> bool \<times> 's session" where
  "Start ops req s =
     (if state s \<noteq> Idle \<or> sink_a s = None \<or> sink_b s = None then Fail ops InvalidTransition s
      else (True, s\<lparr>requested_start_cts := req, state := Starting\<rparr>))"

definition SetStreamExtraData :: "RecordingStream \<Rightarrow> bytes \<Rightarrow> 's session \<Rightarrow> bool \<times> 's session" where
  "SetStreamExtraData st data s =
     (if state s \<noteq> Starting \<or> data = [] then (state s \<noteq> Failed, s)
      else (True, case st of
          StreamA \<Rightarrow> s\<lparr>stream_a := (stream_a s)\<lparr>extra_data := data\<rparr>\<rparr>
        | StreamB \<Rightarrow> s\<lparr>stream_b := (stream_b s)\<lparr>extra_data := data\<rparr>\<rparr>))"

text \<open>The bookkeeping of a retained packet: pre-roll counters, newest CTS, peaks.\<close>

definition retain_accounting :: "RecordingStream \<Rightarrow> EncodedPacket \<Rightarrow> 's session \<Rightarrow> 's session" where
  "retain_accounting st p s =
     (let s = (if state s = Starting then
                 (case st of
                    StreamA \<Rightarrow> s\<lparr>pre_roll_packet_count_a := pre_roll_packet_count_a s + 1,
                                pre_roll_bytes_a := pre_roll_bytes_a s + vsize (payload p)\<rparr>
                  | StreamB \<Rightarrow> s\<lparr>pre_roll_packet_count_b := pre_roll_packet_count_b s + 1,
                                pre_roll_bytes_b := pre_roll_bytes_b s + vsize (payload p)\<rparr>)
               else s);
          s = (case st of
                 StreamA \<Rightarrow> s\<lparr>max_observed_cts_a := max (max_observed_cts_a s) (source_cts p)\<rparr>
               | StreamB \<Rightarrow> s\<lparr>max_observed_cts_b := max (max_observed_cts_b s) (source_cts p)\<rparr>)
      in UpdatePeakRetainedBytes s)"

definition push_into :: "RecordingStream \<Rightarrow> EncodedPacket \<Rightarrow> 's session \<Rightarrow>
    EncodedPacketBufferResult \<times> 's session" where
  "push_into st p s = (case st of
       StreamA \<Rightarrow> (let (res, b) = Push p (buffer_a s) in (res, s\<lparr>buffer_a := b\<rparr>))
     | StreamB \<Rightarrow> (let (res, b) = Push p (buffer_b s) in (res, s\<lparr>buffer_b := b\<rparr>)))"

definition SubmitPacket :: "'s sink_ops \<Rightarrow> RecordingStream \<Rightarrow> EncodedPacket \<Rightarrow> 's session \<Rightarrow>
    bool \<times> 's session" where
  "SubmitPacket ops st p s =
     (if state s \<noteq> Starting \<and> state s \<noteq> Running \<and> state s \<noteq> Draining
      then Fail ops InvalidTransition s
      else if (case selected_range s of Some r \<Rightarrow> source_cts p < start_cts r | None \<Rightarrow> False)
      then (True, s)
      else if selected_range s \<noteq> None \<and> has_flushed_cts s \<and> source_cts p \<le> last_flushed_cts s
      then Fail ops LatePacket s
      else
        (let (res, s) = push_into st p s
         in case res of
              MissingTiming \<Rightarrow> Fail ops PacketTiming s
            | DuplicateSourceCts \<Rightarrow> Fail ops DuplicatePacketCts s
            | Capacity \<Rightarrow> Fail ops BufferCapacity s
            | Retained \<Rightarrow>
                (let s = retain_accounting st p s
                 in if state s = Starting then EstablishCommonStart ops s
                    else if state s = Running then FlushStablePackets ops s
                    else (True, s))))"

definition PollStart :: "'s sink_ops \<Rightarrow> u64 \<Rightarrow> 's session \<Rightarrow> bool \<times> 's session" where
  "PollStart ops current s =
     (if state s \<noteq> Starting then (state s \<noteq> Failed, s)
      else
        (let (established, s) = EstablishCommonStart ops s
         in if established then (True, s)
            else if current \<ge> requested_start_cts s \<and>
                    current - requested_start_cts s > max_start_wait_cts (config s)
            then Fail ops StartTimeout s
            else (True, s)))"

definition RequestStop :: "'s sink_ops \<Rightarrow> u64 \<Rightarrow> 's session \<Rightarrow> bool \<times> 's session" where
  "RequestStop ops stop s =
     (if state s = Draining \<or> state s = Stopped then (True, s)
      else if state s = Failed then (False, s)
      else if state s \<noteq> Running \<and> state s \<noteq> Starting then Fail ops InvalidTransition s
      else
        (let s = s\<lparr>requested_stop_cts := stop\<rparr>
         in (True, if state s = Running then s\<lparr>state := Draining\<rparr> else s)))"

definition CompleteDrain :: "'s sink_ops \<Rightarrow> 's session \<Rightarrow> bool \<times> 's session" where
  "CompleteDrain ops s =
     (if state s = Stopped then (True, s)
      else if state s = Failed then (False, s)
      else case selected_range s of
        None \<Rightarrow> (False, s)
      | Some r \<Rightarrow>
     (if state s \<noteq> Draining then (False, s)
      else
        (let common_end = (if has_flushed_cts s then last_flushed_cts s else 0);
             common_end =
               (case SelectCommonPrefixEnd (buffer_a s) (buffer_b s) (start_cts r)
                       (requested_stop_cts s) (source_cts_step s) of
                  Some c \<Rightarrow> c | None \<Rightarrow> common_end)
         in if common_end < start_cts r then Fail ops MissingCommonRange s
            else
              (let (ok, s) = FlushThrough ops common_end s
               in if \<not> ok then (False, s) else FinalizeAt ops common_end s))))"

definition Abort :: "'s sink_ops \<Rightarrow> 's session \<Rightarrow> 's session" where
  "Abort ops s =
     (if state s = Stopped \<or> state s = Failed then s
      else s\<lparr>sink_a := map_option (do_Abort ops) (sink_a s),
             sink_b := map_option (do_Abort ops) (sink_b s),
             buffer_a := Clear (buffer_a s), buffer_b := Clear (buffer_b s),
             failure := (if failure s = NoRecordingFailure then Aborted else failure s),
             state := Failed\<rparr>)"

subsection \<open>Observation\<close>

record SynchronizedRecordingMetrics =
  metric_pre_roll_packet_count_a :: usize
  metric_pre_roll_packet_count_b :: usize
  metric_pre_roll_bytes_a :: usize
  metric_pre_roll_bytes_b :: usize
  tail_packet_count_a :: usize
  tail_packet_count_b :: usize
  tail_bytes_a :: usize
  tail_bytes_b :: usize
  metric_peak_retained_bytes :: usize
  metric_peak_tail_bytes_a :: usize
  metric_peak_tail_bytes_b :: usize
  committed_watermark_cts :: u64
  common_start_cts :: u64
  common_end_cts :: u64

definition session_metrics :: "'s session \<Rightarrow> SynchronizedRecordingMetrics" where
  "session_metrics s =
     \<lparr>metric_pre_roll_packet_count_a = pre_roll_packet_count_a s,
      metric_pre_roll_packet_count_b = pre_roll_packet_count_b s,
      metric_pre_roll_bytes_a = pre_roll_bytes_a s, metric_pre_roll_bytes_b = pre_roll_bytes_b s,
      tail_packet_count_a = buffer_size (buffer_a s), tail_packet_count_b = buffer_size (buffer_b s),
      tail_bytes_a = buffered_bytes (buffer_a s), tail_bytes_b = buffered_bytes (buffer_b s),
      metric_peak_retained_bytes = peak_retained_bytes s,
      metric_peak_tail_bytes_a = peak_tail_bytes_a s, metric_peak_tail_bytes_b = peak_tail_bytes_b s,
      committed_watermark_cts = (if has_flushed_cts s then last_flushed_cts s else 0),
      common_start_cts = (case selected_range s of Some r \<Rightarrow> start_cts r | None \<Rightarrow> 0),
      common_end_cts = (case selected_range s of Some r \<Rightarrow> end_cts r | None \<Rightarrow> 0)\<rparr>"

fun SynchronizedRecordingStateName :: "SynchronizedRecordingState \<Rightarrow> string" where
  "SynchronizedRecordingStateName Idle = ''idle''"
| "SynchronizedRecordingStateName Starting = ''starting''"
| "SynchronizedRecordingStateName Running = ''running''"
| "SynchronizedRecordingStateName Draining = ''draining''"
| "SynchronizedRecordingStateName Stopped = ''stopped''"
| "SynchronizedRecordingStateName Failed = ''failed''"

fun SynchronizedRecordingFailureName :: "SynchronizedRecordingFailure \<Rightarrow> string" where
  "SynchronizedRecordingFailureName NoRecordingFailure = ''none''"
| "SynchronizedRecordingFailureName Aborted = ''aborted''"
| "SynchronizedRecordingFailureName InvalidTransition = ''invalid-transition''"
| "SynchronizedRecordingFailureName StartTimeout = ''start-timeout''"
| "SynchronizedRecordingFailureName PacketTiming = ''packet-timing''"
| "SynchronizedRecordingFailureName DuplicatePacketCts = ''duplicate-source-cts''"
| "SynchronizedRecordingFailureName LatePacket = ''late-packet-after-commit''"
| "SynchronizedRecordingFailureName BufferCapacity = ''buffer-capacity''"
| "SynchronizedRecordingFailureName SinkOpen = ''sink-open''"
| "SynchronizedRecordingFailureName SinkWrite = ''sink-write''"
| "SynchronizedRecordingFailureName MissingCommonRange = ''missing-common-range''"
| "SynchronizedRecordingFailureName RangeMismatch = ''range-mismatch''"
| "SynchronizedRecordingFailureName SinkFinalize = ''sink-finalize''"

subsection \<open>Sequences of calls\<close>

datatype session_op =
    OpStart u64
  | OpSetExtraData RecordingStream bytes
  | OpSubmit RecordingStream EncodedPacket
  | OpPollStart u64
  | OpRequestStop u64
  | OpCompleteDrain
  | OpAbort

definition session_step :: "'s sink_ops \<Rightarrow> session_op \<Rightarrow> 's session \<Rightarrow> bool \<times> 's session" where
  "session_step ops op s = (case op of
       OpStart c \<Rightarrow> Start ops c s
     | OpSetExtraData st d \<Rightarrow> SetStreamExtraData st d s
     | OpSubmit st p \<Rightarrow> SubmitPacket ops st p s
     | OpPollStart c \<Rightarrow> PollStart ops c s
     | OpRequestStop c \<Rightarrow> RequestStop ops c s
     | OpCompleteDrain \<Rightarrow> CompleteDrain ops s
     | OpAbort \<Rightarrow> (True, Abort ops s))"

text \<open>The sessions some sequence of calls can reach, whatever the sinks answer.\<close>

inductive session_reachable :: "'s sink_ops \<Rightarrow> 's session \<Rightarrow> bool" for ops where
  created: "session_reachable ops (new_session cfg sa sb ka kb)"
| called: "session_reachable ops s \<Longrightarrow> session_reachable ops (snd (session_step ops op s))"

end
