(* ===== verification/RecordingInvariant.thy ===== *)
theory RecordingInvariant
  imports RecordingSession
begin

text \<open>
  What every reachable \<open>SynchronizedRecordingSession\<close> keeps true: the two sinks are given the same
  committed CTS values, nothing below the selected start, nothing twice; each public operation is
  shown to preserve it. The central fact is the analysis of \<open>FlushThrough\<close> into its failing and
  its committing outcomes.
\<close>

subsection \<open>Frames of the helpers\<close>

lemma Infer_keeps [simp]:
  "sink_a (InferSourceCtsStep s) = sink_a s" "sink_b (InferSourceCtsStep s) = sink_b s"
  "buffer_a (InferSourceCtsStep s) = buffer_a s" "buffer_b (InferSourceCtsStep s) = buffer_b s"
  "state (InferSourceCtsStep s) = state s" "selected_range (InferSourceCtsStep s) = selected_range s"
  "has_flushed_cts (InferSourceCtsStep s) = has_flushed_cts s"
  "last_flushed_cts (InferSourceCtsStep s) = last_flushed_cts s"
  "config (InferSourceCtsStep s) = config s" "failure (InferSourceCtsStep s) = failure s"
  by (auto simp: InferSourceCtsStep_def Let_def split: option.split)

lemma UpdatePeak_keeps [simp]:
  "sink_a (UpdatePeakRetainedBytes s) = sink_a s" "sink_b (UpdatePeakRetainedBytes s) = sink_b s"
  "buffer_a (UpdatePeakRetainedBytes s) = buffer_a s" "buffer_b (UpdatePeakRetainedBytes s) = buffer_b s"
  "state (UpdatePeakRetainedBytes s) = state s"
  "selected_range (UpdatePeakRetainedBytes s) = selected_range s"
  "has_flushed_cts (UpdatePeakRetainedBytes s) = has_flushed_cts s"
  "last_flushed_cts (UpdatePeakRetainedBytes s) = last_flushed_cts s"
  "config (UpdatePeakRetainedBytes s) = config s" "failure (UpdatePeakRetainedBytes s) = failure s"
  by (simp_all add: UpdatePeakRetainedBytes_def)

lemma Fail_keeps [simp]:
  "fst (Fail ops f s) = False" "state (snd (Fail ops f s)) = Failed" "failure (snd (Fail ops f s)) = f"
  "written (sink_a (snd (Fail ops f s))) = written (sink_a s)"
  "written (sink_b (snd (Fail ops f s))) = written (sink_b s)"
  "buffer_a (snd (Fail ops f s)) = buffer_a s" "buffer_b (snd (Fail ops f s)) = buffer_b s"
  "selected_range (snd (Fail ops f s)) = selected_range s"
  "has_flushed_cts (snd (Fail ops f s)) = has_flushed_cts s"
  "last_flushed_cts (snd (Fail ops f s)) = last_flushed_cts s"
  "config (snd (Fail ops f s)) = config s"
  by (simp_all add: Fail_def)

lemma accounting_keeps [simp]:
  "sink_a (retain_accounting st p s) = sink_a s" "sink_b (retain_accounting st p s) = sink_b s"
  "buffer_a (retain_accounting st p s) = buffer_a s" "buffer_b (retain_accounting st p s) = buffer_b s"
  "state (retain_accounting st p s) = state s"
  "selected_range (retain_accounting st p s) = selected_range s"
  "has_flushed_cts (retain_accounting st p s) = has_flushed_cts s"
  "last_flushed_cts (retain_accounting st p s) = last_flushed_cts s"
  "config (retain_accounting st p s) = config s"
  "requested_start_cts (retain_accounting st p s) = requested_start_cts s"
  by (auto simp: retain_accounting_def UpdatePeakRetainedBytes_def Let_def split: RecordingStream.split)

lemma push_keeps:
  assumes "push_into st p s = (res, s')"
  shows "sink_a s' = sink_a s" "sink_b s' = sink_b s" "state s' = state s"
    "selected_range s' = selected_range s" "has_flushed_cts s' = has_flushed_cts s"
    "last_flushed_cts s' = last_flushed_cts s" "config s' = config s"
    "requested_start_cts s' = requested_start_cts s"
  using assms by (auto simp: push_into_def split: RecordingStream.splits prod.splits)

subsection \<open>The invariant\<close>

text \<open>The CTS values a session has committed: everything up to its last flush.\<close>

definition committed :: "'s session \<Rightarrow> u64 set" where
  "committed s = (if has_flushed_cts s then {..last_flushed_cts s} else {})"

definition stores_ok :: "'s session \<Rightarrow> bool" where
  "stores_ok s \<longleftrightarrow> packet_store (packets (buffer_a s)) \<and> packet_store (packets (buffer_b s))"

text \<open>What holds in every state, failed ones included.\<close>

definition commits_agree :: "'s session \<Rightarrow> bool" where
  "commits_agree s \<longleftrightarrow>
     set (written (sink_a s)) \<inter> committed s = set (written (sink_b s)) \<inter> committed s \<and>
     distinct (written (sink_a s)) \<and> distinct (written (sink_b s)) \<and>
     (selected_range s = None \<longrightarrow>
        written (sink_a s) = [] \<and> written (sink_b s) = [] \<and> \<not> has_flushed_cts s) \<and>
     (\<forall>r. selected_range s = Some r \<longrightarrow>
        (\<forall>c \<in> set (written (sink_a s)) \<union> set (written (sink_b s)). start_cts r \<le> c))"

text \<open>What holds until the session fails.\<close>

definition live_ok :: "'s session \<Rightarrow> bool" where
  "live_ok s \<longleftrightarrow>
     set (written (sink_a s)) \<union> set (written (sink_b s)) \<subseteq> committed s \<and>
     (has_flushed_cts s \<longrightarrow> last_flushed_cts s \<in> set (written (sink_a s)) \<and>
        (\<forall>r. selected_range s = Some r \<longrightarrow> start_cts r \<in> set (written (sink_a s)))) \<and>
     (state s = Idle \<or> state s = Starting \<longrightarrow> selected_range s = None) \<and>
     (state s = Running \<or> state s = Draining \<longrightarrow> selected_range s \<noteq> None) \<and>
     (state s = Stopped \<longrightarrow> has_flushed_cts s) \<and>
     (state s = Running \<or> state s = Draining \<longrightarrow>
        (has_flushed_cts s \<longrightarrow> last_flushed_cts s \<noteq> max_u64 \<longrightarrow>
           (\<forall>c. Contains (buffer_a s) c \<or> Contains (buffer_b s) c \<longrightarrow> last_flushed_cts s < c)) \<and>
        (\<not> has_flushed_cts s \<longrightarrow> (\<forall>r. selected_range s = Some r \<longrightarrow>
           Contains (buffer_a s) (start_cts r) \<and> Contains (buffer_b s) (start_cts r)))) \<and>
     (state s = Starting \<or> state s = Running \<or> state s = Draining \<longrightarrow> sink_a s \<noteq> None \<and> sink_b s \<noteq> None) \<and>
     (state s = Stopped \<longrightarrow>
        (\<exists>r. selected_range s = Some r \<and> finalized (sink_a s) = [end_cts r] \<and>
           finalized (sink_b s) = [end_cts r] \<and>
           (end_cts r = last_flushed_cts s \<or> last_flushed_cts s = max_u64))) \<and>
     (state s \<noteq> Stopped \<longrightarrow> finalized (sink_a s) = [] \<and> finalized (sink_b s) = [])"

definition session_inv :: "'s session \<Rightarrow> bool" where
  "session_inv s \<longleftrightarrow> stores_ok s \<and> commits_agree s \<and> (state s \<noteq> Failed \<longrightarrow> live_ok s)"

lemma inv_Fail: "stores_ok s \<Longrightarrow> commits_agree s \<Longrightarrow> session_inv (snd (Fail ops f s))"
  by (auto simp: session_inv_def stores_ok_def commits_agree_def committed_def)

lemma inv_new: "session_inv (new_session cfg sa sb ka kb)"
  by (auto simp: session_inv_def stores_ok_def commits_agree_def live_ok_def new_session_def
      new_buffer_def packet_store_def written_def finalized_def written_calls_def finalized_calls_def
      committed_def split: option.splits)

lemma live_written:
  assumes "live_ok s"
  shows "set (written (sink_a s)) \<subseteq> committed s" "set (written (sink_b s)) \<subseteq> committed s"
  using assms by (simp_all add: live_ok_def)

lemma live_flushed:
  assumes "live_ok s" and "has_flushed_cts s"
  shows "last_flushed_cts s \<in> set (written (sink_a s))"
    "selected_range s = Some r \<Longrightarrow> start_cts r \<in> set (written (sink_a s))"
  using assms by (simp_all add: live_ok_def)

lemma live_start:
  assumes "live_ok s" and "\<not> has_flushed_cts s" and "state s = Running \<or> state s = Draining"
    and "selected_range s = Some r"
  shows "Contains (buffer_a s) (start_cts r)" "Contains (buffer_b s) (start_cts r)"
  using assms unfolding live_ok_def by blast+

lemma live_pending:
  assumes "live_ok s" and "has_flushed_cts s" and "state s = Running \<or> state s = Draining"
    and "last_flushed_cts s \<noteq> max_u64" and "Contains (buffer_a s) c \<or> Contains (buffer_b s) c"
  shows "last_flushed_cts s < c"
  using assms unfolding live_ok_def by blast

lemma live_active:
  assumes "live_ok s" and "state s = Running \<or> state s = Draining"
  shows "sink_a s \<noteq> None" "sink_b s \<noteq> None" "finalized (sink_a s) = []" "finalized (sink_b s) = []"
    "\<exists>r. selected_range s = Some r"
proof -
  have "state s \<noteq> Stopped" using assms(2) by auto
  with assms show "sink_a s \<noteq> None" "sink_b s \<noteq> None" "finalized (sink_a s) = []"
    "finalized (sink_b s) = []" unfolding live_ok_def by blast+
  show "\<exists>r. selected_range s = Some r" using assms unfolding live_ok_def by blast
qed

lemma live_waiting:
  assumes "live_ok s" and "state s = Idle \<or> state s = Starting"
  shows "selected_range s = None" "finalized (sink_a s) = []" "finalized (sink_b s) = []"
    "state s = Starting \<Longrightarrow> sink_a s \<noteq> None \<and> sink_b s \<noteq> None"
proof -
  have "state s \<noteq> Stopped" using assms(2) by auto
  with assms show "selected_range s = None" "finalized (sink_a s) = []" "finalized (sink_b s) = []"
    unfolding live_ok_def by blast+
  show "sink_a s \<noteq> None \<and> sink_b s \<noteq> None" if "state s = Starting"
    using that assms(1) unfolding live_ok_def by blast
qed

lemma inv_cong:
  assumes "buffer_a t = buffer_a s" "buffer_b t = buffer_b s" "sink_a t = sink_a s" "sink_b t = sink_b s"
    "state t = state s" "selected_range t = selected_range s" "has_flushed_cts t = has_flushed_cts s"
    "last_flushed_cts t = last_flushed_cts s"
  shows "session_inv t \<longleftrightarrow> session_inv s"
  unfolding session_inv_def stores_ok_def commits_agree_def live_ok_def committed_def
  by (simp only: assms)

lemma inv_stores: "session_inv s \<Longrightarrow> stores_ok s"
  by (simp add: session_inv_def)

lemma inv_agree: "session_inv s \<Longrightarrow> commits_agree s"
  by (simp add: session_inv_def)

lemma inv_live: "session_inv s \<Longrightarrow> state s \<noteq> Failed \<Longrightarrow> live_ok s"
  by (simp add: session_inv_def)

subsection \<open>Flushing\<close>

text \<open>What one flush may append to a sink: some of the packets of the window, all if it succeeds.\<close>

definition grown :: "bool \<Rightarrow> EncodedPacket list \<Rightarrow> 's sink_obj option \<Rightarrow> 's sink_obj option \<Rightarrow> bool" where
  "grown ok ps k k' \<longleftrightarrow> finalized k' = finalized k \<and> (k' = None \<longleftrightarrow> k = None) \<and>
     (\<exists>cs. written k' = written k @ cs \<and> set cs \<subseteq> source_cts ` set ps \<and>
        (distinct (map source_cts ps) \<longrightarrow> distinct cs) \<and> (ok \<longrightarrow> set cs = source_cts ` set ps))"

lemma grown_refl: "grown False ps k k"
  by (auto simp: grown_def)

lemma grown_weaken: "grown True ps k k' \<Longrightarrow> grown False ps k k'"
  by (auto simp: grown_def)

lemma grown_write_all:
  assumes "write_all ops (SortForDecodeOrder ps) k = (ok, k')" shows "grown ok ps k k'"
proof -
  from write_all_written [OF assms] obtain qs rs where q: "SortForDecodeOrder ps = qs @ rs"
    "ok \<longleftrightarrow> rs = []" "written k' = written k @ map source_cts qs" by blast
  have "set ps = set qs \<union> set rs"
    using arg_cong [OF q(1), of set] by simp
  moreover have "distinct (map source_cts ps) \<longleftrightarrow> distinct (map source_cts (qs @ rs))"
    using distinct_SortForDecodeOrder [of source_cts ps] q(1) by metis
  ultimately show ?thesis
    using write_all_keeps [OF assms] q by (auto simp: grown_def)
qed

lemma grown_commit:
  "grown ok ps k k1 \<Longrightarrow> through (do_CommitThrough ops c) k1 = (ok', k') \<Longrightarrow> grown ok ps k k'"
  using through_Commit by (fastforce simp: grown_def)

lemma FlushThrough_skip:
  assumes "selected_range s = Some r" and "has_flushed_cts s \<and> cts \<le> last_flushed_cts s"
  shows "FlushThrough ops cts s = (if cts < start_cts r then Fail ops MissingCommonRange s else (True, s))"
  using assms by (simp add: FlushThrough_def)

definition window :: "u64 \<Rightarrow> u64 \<Rightarrow> 's session \<Rightarrow> EncodedPacketBuffer \<Rightarrow> EncodedPacket list" where
  "window start cts s b =
     filter (in_window start (if has_flushed_cts s then Some (last_flushed_cts s) else None) cts)
       (SnapshotThrough b cts)"

lemma window_Infer [simp]: "window start cts (InferSourceCtsStep s) b = window start cts s b"
  by (simp add: window_def)

lemma FlushThrough_shape:
  assumes flush: "FlushThrough ops cts s = (ok, s')" and r: "selected_range s = Some r"
    and new: "\<not> (has_flushed_cts s \<and> cts \<le> last_flushed_cts s)"
  defines "pa \<equiv> window (start_cts r) cts s (buffer_a s)"
    and "pb \<equiv> window (start_cts r) cts s (buffer_b s)"
  obtains
    (failed) f ka kb s0 where "\<not> ok" "s' = snd (Fail ops f (s0\<lparr>sink_a := ka, sink_b := kb\<rparr>))"
      "s0 \<in> {s, InferSourceCtsStep s}" "grown False pa (sink_a s) ka" "grown False pb (sink_b s) kb"
      "f \<in> {MissingCommonRange, RangeMismatch, SinkWrite}"
      "f = SinkWrite \<or> cts < start_cts r \<or>
       SelectCommonPrefixEnd (buffer_a s) (buffer_b s) (start_cts r) cts
         (source_cts_step (InferSourceCtsStep s)) \<noteq> Some cts \<or>
       (\<exists>p \<in> set pa. \<not> Contains (buffer_b s) (source_cts p)) \<or>
       (\<exists>p \<in> set pb. \<not> Contains (buffer_a s) (source_cts p))"
  | (flushed) ka kb where ok "start_cts r \<le> cts"
      "SelectCommonPrefixEnd (buffer_a s) (buffer_b s) (start_cts r) cts
         (source_cts_step (InferSourceCtsStep s)) = Some cts"
      "\<forall>p \<in> set pa. Contains (buffer_b s) (source_cts p)"
      "\<forall>p \<in> set pb. Contains (buffer_a s) (source_cts p)"
      "grown True pa (sink_a s) ka" "grown True pb (sink_b s) kb"
      "s' = UpdatePeakRetainedBytes ((InferSourceCtsStep s)\<lparr>sink_a := ka, sink_b := kb,
         buffer_a := DiscardBefore (cts + 1) (buffer_a s),
         buffer_b := DiscardBefore (cts + 1) (buffer_b s),
         last_flushed_cts := cts, has_flushed_cts := True\<rparr>)"
proof -
  let ?i = "InferSourceCtsStep s"
  have same: "s = s\<lparr>sink_a := sink_a s, sink_b := sink_b s\<rparr>"
    "?i = ?i\<lparr>sink_a := sink_a s, sink_b := sink_b s\<rparr>"
    "\<And>ka. ?i\<lparr>sink_a := ka\<rparr> = ?i\<lparr>sink_a := ka, sink_b := sink_b s\<rparr>" by simp_all
  obtain oka ka where wa: "write_all ops (SortForDecodeOrder pa) (sink_a s) = (oka, ka)" by fastforce
  obtain okb kb where wb: "write_all ops (SortForDecodeOrder pb) (sink_b s) = (okb, kb)" by fastforce
  obtain okc kc where ca: "through (do_CommitThrough ops cts) ka = (okc, kc)" by fastforce
  obtain okd kd where cb: "through (do_CommitThrough ops cts) kb = (okd, kd)" by fastforce
  note ga = grown_write_all [OF wa] and gb = grown_write_all [OF wb]
  note gc = grown_commit [OF ga ca] and gd = grown_commit [OF gb cb]
  have swap: "t\<lparr>sink_b := x, sink_a := y\<rparr> = t\<lparr>sink_a := y, sink_b := x\<rparr>" for t :: "'a session" and x y
    by simp
  have weak: "grown ok ps k k' \<Longrightarrow> grown False ps k k'" for ok ps k and k' :: "'a sink_obj option"
    by (cases ok) (auto intro: grown_weaken)
  note eval = flush [unfolded FlushThrough_def r option.case Let_def Infer_keeps window_def [symmetric] window_Infer
      pa_def [symmetric] pb_def [symmetric]]
  consider (early) f s0 where "(ok, s') = Fail ops f s0" "s0 \<in> {s, ?i}" "f \<in> {MissingCommonRange, RangeMismatch}"
      "cts < start_cts r \<or> SelectCommonPrefixEnd (buffer_a s) (buffer_b s) (start_cts r) cts
         (source_cts_step ?i) \<noteq> Some cts \<or>
       (\<exists>p \<in> set pa. \<not> Contains (buffer_b s) (source_cts p)) \<or>
       (\<exists>p \<in> set pb. \<not> Contains (buffer_a s) (source_cts p))"
    | (late_a) "(ok, s') = Fail ops SinkWrite (?i\<lparr>sink_a := ka\<rparr>)"
    | (late_b) "(ok, s') = Fail ops SinkWrite (?i\<lparr>sink_a := ka, sink_b := kb\<rparr>)"
    | (late_c) "(ok, s') = Fail ops SinkWrite (?i\<lparr>sink_a := kc, sink_b := kb\<rparr>)"
    | (late_d) "(ok, s') = Fail ops SinkWrite (?i\<lparr>sink_a := kc, sink_b := kd\<rparr>)"
    | (finished) "ok" "\<not> cts < start_cts r" oka okb "SelectCommonPrefixEnd (buffer_a s) (buffer_b s) (start_cts r) cts
         (source_cts_step ?i) = Some cts"
      "\<forall>p \<in> set pa. Contains (buffer_b s) (source_cts p)"
      "\<forall>p \<in> set pb. Contains (buffer_a s) (source_cts p)"
      "s' = UpdatePeakRetainedBytes (?i\<lparr>sink_a := kc, sink_b := kd,
         buffer_a := DiscardBefore (cts + 1) (buffer_a s),
         buffer_b := DiscardBefore (cts + 1) (buffer_b s),
         last_flushed_cts := cts, has_flushed_cts := True\<rparr>)"
  proof -
    let ?miss = "(\<exists>p \<in> set pa. \<not> Contains (buffer_b s) (source_cts p)) \<or>
      (\<exists>p \<in> set pb. \<not> Contains (buffer_a s) (source_cts p))"
    let ?stop = "SelectCommonPrefixEnd (buffer_a s) (buffer_b s) (start_cts r) cts (source_cts_step ?i)"
    show thesis
    proof (cases "cts < start_cts r")
      case True
      from that(1) [OF eval [unfolded if_P [OF True], symmetric]] True show thesis by simp
    next
      case lo: False
      note eval1 = eval [unfolded if_not_P [OF lo] if_not_P [OF new]]
      show thesis
      proof (cases "?stop \<noteq> Some cts")
        case True
        from that(1) [OF eval1 [unfolded if_P [OF True], symmetric]] True show thesis by simp
      next
        case en: False
        note eval2 = eval1 [unfolded if_not_P [OF en]]
        show thesis
        proof (cases ?miss)
          case True
          from that(1) [OF eval2 [unfolded if_P [OF True], symmetric]] True show thesis by simp
        next
          case nomiss: False
          note eval3 = eval2 [unfolded if_not_P [OF nomiss] wa prod.case]
          show thesis
          proof (cases "oka \<and> okb \<and> okc \<and> okd")
            case True
            with eval3 wb ca cb lo en nomiss show thesis
              by (intro that(6)) (simp_all add: swap)
          next
            case False
            with eval3 wb ca cb that(2-5) show thesis
              by (cases oka; cases okb; cases okc) (simp_all add: swap)
          qed
        qed
      qed
    qed
  qed
  then show thesis
  proof cases
    case early
    then have "s0 = s0\<lparr>sink_a := sink_a s, sink_b := sink_b s\<rparr>" by auto
    with early show thesis
      by (intro failed [where ?f = f and ?s0.0 = s0 and ?ka = "sink_a s" and ?kb = "sink_b s"])
        (auto simp: grown_refl prod_eq_iff)
  next
    case late_a
    then have "\<not> ok" "s' = snd (Fail ops SinkWrite (?i\<lparr>sink_a := ka, sink_b := sink_b s\<rparr>))"
      by (simp_all only: prod_eq_iff fst_conv snd_conv Fail_keeps same(3) [of ka, symmetric]) simp
    with weak [OF ga] show thesis
      by (intro failed [where ?f = SinkWrite and ?s0.0 = ?i and ?ka = ka and ?kb = "sink_b s"])
        (simp_all add: grown_refl)
  next
    case late_b
    then show thesis
      by (intro failed [where ?f = SinkWrite and ?s0.0 = ?i and ?ka = ka and ?kb = kb])
        (auto simp: prod_eq_iff intro: weak ga gb)
  next
    case late_c
    then show thesis
      by (intro failed [where ?f = SinkWrite and ?s0.0 = ?i and ?ka = kc and ?kb = kb])
        (auto simp: prod_eq_iff intro: weak gc gb)
  next
    case late_d
    then show thesis
      by (intro failed [where ?f = SinkWrite and ?s0.0 = ?i and ?ka = kc and ?kb = kd])
        (auto simp: prod_eq_iff intro: weak gc gd)
  next
    case finished
    then show thesis
      using gc gd by (intro flushed [where ?ka = kc and ?kb = kd]) auto
  qed
qed


lemma window_cts:
  assumes "packet_store (packets b)"
  shows "source_cts ` set (window start cts s b) =
    {c. start \<le> c \<and> c \<notin> committed s \<and> c \<le> cts \<and> Contains b c}"
  using Contains_Snapshot [OF assms]
  by (auto simp: window_def in_window_def SnapshotThrough_eq [OF assms] committed_def)

lemma window_distinct:
  assumes "packet_store (packets b)" shows "distinct (map source_cts (window start cts s b))"
  using Snapshot_ascending [OF assms]
  by (auto simp: window_def SnapshotThrough_eq [OF assms] strict_sorted_iff distinct_map_filter)

lemma packet_store_DiscardBefore:
  assumes "packet_store (packets b)" shows "packet_store (packets (DiscardBefore lo b))"
  using oms.filed_drop_below [of source_cts "packets b" lo] assms by (simp add: packet_store_def)

lemma Contains_DiscardBefore:
  assumes "packet_store (packets b)"
  shows "Contains (DiscardBefore lo b) c \<longleftrightarrow> lo \<le> c \<and> Contains b c"
  using Snapshot_DiscardBefore [OF assms, of lo] Contains_Snapshot [OF assms]
    Contains_Snapshot [OF packet_store_DiscardBefore [OF assms]] by auto

lemma grown_written:
  assumes "grown ok ps k k'"
  shows "set (written k) \<subseteq> set (written k')" "set (written k') \<subseteq> set (written k) \<union> source_cts ` set ps"
    "ok \<Longrightarrow> set (written k') = set (written k) \<union> source_cts ` set ps"
    "distinct (written k) \<Longrightarrow> distinct (map source_cts ps) \<Longrightarrow>
       set (written k) \<inter> source_cts ` set ps = {} \<Longrightarrow> distinct (written k')"
proof -
  from assms obtain cs where cs: "written k' = written k @ cs" "set cs \<subseteq> source_cts ` set ps"
    "distinct (map source_cts ps) \<longrightarrow> distinct cs" "ok \<longrightarrow> set cs = source_cts ` set ps"
    by (auto simp only: grown_def)
  then show "set (written k) \<subseteq> set (written k')"
    "set (written k') \<subseteq> set (written k) \<union> source_cts ` set ps"
    "ok \<Longrightarrow> set (written k') = set (written k) \<union> source_cts ` set ps" by auto
  show "distinct (written k')" if "distinct (written k)" "distinct (map source_cts ps)"
    "set (written k) \<inter> source_cts ` set ps = {}"
    using that cs by (simp add: distinct_append) blast
qed

text \<open>Both flush outcomes keep what holds in every state.\<close>

lemma flush_agrees:
  assumes inv: "session_inv s" and live: "state s \<noteq> Failed" and r: "selected_range s = Some r"
    and g: "grown oka (window (start_cts r) cts s (buffer_a s)) (sink_a s) ka"
      "grown okb (window (start_cts r) cts s (buffer_b s)) (sink_b s) kb"
  shows "set (written ka) \<inter> committed s = set (written kb) \<inter> committed s"
    "distinct (written ka) \<and> distinct (written kb)"
    "\<forall>c \<in> set (written ka) \<union> set (written kb). start_cts r \<le> c"
proof -
  note stores = inv_stores [OF inv, unfolded stores_ok_def]
  note wa = window_cts [OF conjunct1 [OF stores], of "start_cts r" cts s]
  note wb = window_cts [OF conjunct2 [OF stores], of "start_cts r" cts s]
  note agree = inv_agree [OF inv, unfolded commits_agree_def]
  note lv = live_written [OF inv_live [OF inv live]]
  note ga = grown_written [OF g(1), unfolded wa] and gb = grown_written [OF g(2), unfolded wb]
  show "set (written ka) \<inter> committed s = set (written kb) \<inter> committed s"
    using ga(1,2) gb(1,2) agree by blast
  show "distinct (written ka) \<and> distinct (written kb)"
    using ga(4) gb(4) window_distinct stores agree lv by blast
  show "\<forall>c \<in> set (written ka) \<union> set (written kb). start_cts r \<le> c"
    using ga(2) gb(2) agree r by blast
qed

lemma inv_flush:
  assumes inv: "session_inv s" and st: "state s = Running \<or> state s = Draining"
    and flush: "FlushThrough ops cts s = (ok, s')"
  shows "session_inv s' \<and> (if ok then state s' = state s \<and> has_flushed_cts s' \<and> cts \<le> last_flushed_cts s' \<and>
      selected_range s' = selected_range s \<and> (cts \<le> last_flushed_cts s \<and> has_flushed_cts s \<and> s' = s \<or> cts = last_flushed_cts s')
    else state s' = Failed)"
proof -
  have live: "state s \<noteq> Failed" using st by auto
  note L = inv_live [OF inv live]
  from live_active(5) [OF L st] obtain r where r: "selected_range s = Some r" by blast
  show ?thesis
  proof (cases "cts < start_cts r \<or> has_flushed_cts s \<and> cts \<le> last_flushed_cts s")
    case True
    with flush r inv inv_Fail [OF inv_stores inv_agree, OF inv inv] show ?thesis
      by (auto simp: FlushThrough_def prod_eq_iff split: if_splits)
  next
    case False
    then have new: "\<not> (has_flushed_cts s \<and> cts \<le> last_flushed_cts s)" by simp
    note stores = inv_stores [OF inv, unfolded stores_ok_def]
    note wa = window_cts [OF conjunct1 [OF stores], of "start_cts r" cts s]
    note wb = window_cts [OF conjunct2 [OF stores], of "start_cts r" cts s]
    from flush r new show ?thesis
    proof (cases rule: FlushThrough_shape)
      case (failed f ka kb s0)
      note fa = flush_agrees [OF inv live r failed(4,5)]
      have "stores_ok (s0\<lparr>sink_a := ka, sink_b := kb\<rparr>)" "commits_agree (s0\<lparr>sink_a := ka, sink_b := kb\<rparr>)"
        using stores fa r failed(3)
        by (auto simp: stores_ok_def commits_agree_def committed_def)
      from inv_Fail [OF this] failed(1,2) show ?thesis by simp
    next
      case (flushed ka kb)
      note fa = flush_agrees [OF inv live r flushed(6,7)]
      note ga = grown_written(3) [OF flushed(6), unfolded wa]
        and gb = grown_written(3) [OF flushed(7), unfolded wb]
      note ends = SelectCommonPrefixEnd_sound [OF conjunct1 [OF stores] conjunct2 [OF stores] flushed(3)]
      have checks: "c \<in> source_cts ` set (window (start_cts r) cts s (buffer_a s)) \<Longrightarrow> Contains (buffer_b s) c"
        "c \<in> source_cts ` set (window (start_cts r) cts s (buffer_b s)) \<Longrightarrow> Contains (buffer_a s) c" for c
        using flushed(4,5) by auto
      have com: "committed s \<subseteq> {..cts}" using new by (auto simp: committed_def)
      have W0: "set (written (sink_a s)) = set (written (sink_b s))"
        using live_written [OF L] conjunct1 [OF inv_agree [OF inv, unfolded commits_agree_def]] by blast
      have "source_cts ` set (window (start_cts r) cts s (buffer_a s)) =
          source_cts ` set (window (start_cts r) cts s (buffer_b s))"
        using checks unfolding wa wb by blast
      then have W1: "set (written ka) = set (written kb)"
        using ga gb W0 unfolding wa wb by simp
      have W2: "set (written ka) \<subseteq> {..cts}"
        using ga live_written(1) [OF L] com by (auto simp only: wa)
      have W3: "cts \<in> set (written ka)"
        using ga ends new by (auto simp: committed_def not_le)
      have W4: "start_cts r \<in> set (written ka)"
      proof (cases "has_flushed_cts s")
        case True
        with live_flushed(2) [OF L _ r] ga show ?thesis by simp
      next
        case False
        with live_start [OF L _ st r] ga flushed(2) show ?thesis by (simp add: wa committed_def)
      qed
      have C: "cts + 1 \<le> c" if "Contains (buffer_a s') c \<or> Contains (buffer_b s') c" for c
        using that Contains_DiscardBefore stores flushed(8) by auto
      have below: "cts \<noteq> max_u64 \<Longrightarrow> cts + 1 \<le> c \<Longrightarrow> cts < c" for c
        using unat_succ [of cts] by (simp add: word_less_nat_alt word_le_nat_alt)
      have stores': "stores_ok s'"
        using flushed(8) conjunct1 [OF stores] conjunct2 [OF stores]
        by (simp add: stores_ok_def packet_store_DiscardBefore del: DiscardBefore_packets)
      have agree': "commits_agree s'"
        using flushed(8) fa(2,3) W1 r by (auto simp: commits_agree_def)
      have fin: "finalized ka = []" "finalized kb = []" "ka \<noteq> None" "kb \<noteq> None"
        using flushed(6,7) live_active [OF L st] by (simp_all add: grown_def)
      have F: "sink_a s' = ka" "sink_b s' = kb" "state s' = state s" "selected_range s' = Some r"
        "has_flushed_cts s' = True" "last_flushed_cts s' = cts"
        using flushed(8) r by simp_all
      have active: "(state s = Idle) = False" "(state s = Starting) = False" "(state s = Stopped) = False"
        using st by auto
      have live': "live_ok s'"
        unfolding live_ok_def committed_def F active
        using W1 W2 W3 W4 C below fin by simp
      with stores' agree' F flushed(1) r live show ?thesis by (simp add: session_inv_def)
    qed
  qed
qed


subsection \<open>Running, establishing the start\<close>

lemma Fail_out: "Fail ops f s = (ok, s') \<Longrightarrow> s' = snd (Fail ops f s) \<and> \<not> ok"
  by (auto simp: Fail_def)

lemma inv_Infer: "session_inv s \<Longrightarrow> session_inv (InferSourceCtsStep s)"
  by (subst inv_cong [of _ s]) simp_all

lemma FlushStable_cases:
  assumes "FlushStablePackets ops s = (ok, s')"
  shows "(ok \<and> s' = InferSourceCtsStep s) \<or> (\<exists>c. FlushThrough ops c (InferSourceCtsStep s) = (ok, s'))"
  using assms unfolding FlushStablePackets_def Let_def
  by (simp only: split: option.split_asm prod.split_asm if_split_asm) auto

lemma inv_FlushStable:
  assumes inv: "session_inv s" and st: "state s = Running \<or> state s = Draining"
    and flush: "FlushStablePackets ops s = (ok, s')"
  shows "session_inv s' \<and> state s' = (if ok then state s else Failed)"
proof -
  let ?i = "InferSourceCtsStep s"
  have i: "session_inv ?i" "state ?i = Running \<or> state ?i = Draining"
    using inv_Infer [OF inv] st by simp_all
  from FlushStable_cases [OF flush] consider "ok" "s' = ?i" | c where "FlushThrough ops c ?i = (ok, s')" by blast
  then show ?thesis
  proof cases
    case 1 with i show ?thesis by simp
  next
    case 2 with inv_flush [OF i 2] show ?thesis by (auto split: if_splits)
  qed
qed

lemma SetCapacity_packets: "SetCapacityBytes cap b = (ok, b') \<Longrightarrow> packets b' = packets b"
  by (auto simp: SetCapacityBytes_def split: if_splits)

lemma Contains_packets: "packets b' = packets b \<Longrightarrow> Contains b' = Contains b"
  by (simp add: Contains_def fun_eq_iff)

text \<open>
  Establishing the start: either nothing happens (no common keyframe), or the session fails before
  anything is written, or it runs from the selected start.
\<close>

lemma Establish_shape:
  assumes est: "EstablishCommonStart ops s = (ok, s')" and st: "state s = Starting"
  obtains
    (waiting) "result_range (SelectCommonStart (buffer_a s) (buffer_b s) (requested_start_cts s)) = None"
      "ok" "s' = s"
  | (failed) f t r where "s' = snd (Fail ops f t)" "\<not> ok"
      "packets (buffer_a t) = om_drop_below (start_cts r) (packets (buffer_a s))"
      "packets (buffer_b t) = om_drop_below (start_cts r) (packets (buffer_b s))"
      "written (sink_a t) = written (sink_a s)" "written (sink_b t) = written (sink_b s)"
      "selected_range t = Some r" "has_flushed_cts t = has_flushed_cts s"
      "last_flushed_cts t = last_flushed_cts s" "config t = config s" "f \<in> {BufferCapacity, SinkOpen}"
      "let a = DiscardBefore (start_cts r) (buffer_a s)
       in buffer_a t = a \<or> buffer_a t = snd (SetCapacityBytes (tail_capacity_bytes (config s)) a)"
      "let b = DiscardBefore (start_cts r) (buffer_b s)
       in buffer_b t = b \<or> buffer_b t = snd (SetCapacityBytes (tail_capacity_bytes (config s)) b)"
  | (opened) t r where "FlushStablePackets ops t = (ok, s')" "state t = Running"
      "result_range (SelectCommonStart (buffer_a s) (buffer_b s) (requested_start_cts s)) = Some r"
      "packets (buffer_a t) = om_drop_below (start_cts r) (packets (buffer_a s))"
      "packets (buffer_b t) = om_drop_below (start_cts r) (packets (buffer_b s))"
      "written (sink_a t) = written (sink_a s)" "written (sink_b t) = written (sink_b s)"
      "finalized (sink_a t) = finalized (sink_a s)" "finalized (sink_b t) = finalized (sink_b s)"
      "sink_a t \<noteq> None" "sink_b t \<noteq> None"
      "selected_range t = Some r" "has_flushed_cts t = has_flushed_cts s"
      "last_flushed_cts t = last_flushed_cts s" "config t = config s" "failure t = failure s"
      "SetCapacityBytes (tail_capacity_bytes (config s)) (DiscardBefore (start_cts r) (buffer_a s)) =
         (True, buffer_a t)"
      "SetCapacityBytes (tail_capacity_bytes (config s)) (DiscardBefore (start_cts r) (buffer_b s)) =
         (True, buffer_b t)"
proof (cases "result_range (SelectCommonStart (buffer_a s) (buffer_b s) (requested_start_cts s))")
  case None
  have "EstablishCommonStart ops s = (True, s)"
    unfolding EstablishCommonStart_def st None by simp
  with est waiting [OF None] show thesis by simp
next
  case (Some r)
  let ?a = "DiscardBefore (start_cts r) (buffer_a s)" and ?b = "DiscardBefore (start_cts r) (buffer_b s)"
  let ?s = "s\<lparr>selected_range := Some r, buffer_a := ?a, buffer_b := ?b\<rparr>"
  obtain fa ba where ca: "SetCapacityBytes (tail_capacity_bytes (config s)) ?a = (fa, ba)" by fastforce
  obtain fb bb where cb: "SetCapacityBytes (tail_capacity_bytes (config s)) ?b = (fb, bb)" by fastforce
  obtain oa ka where oa: "through (do_Open ops (stream_a s) (start_cts r)) (sink_a s) = (oa, ka)" by fastforce
  obtain ob kb where ob: "through (do_Open ops (stream_b s) (start_cts r)) (sink_b s) = (ob, kb)" by fastforce
  have null: "oa \<Longrightarrow> ka \<noteq> None" "ob \<Longrightarrow> kb \<noteq> None"
    using oa ob by (auto simp: through_def split: option.splits prod.splits)
  note pk = SetCapacity_packets [OF ca] SetCapacity_packets [OF cb] through_Open [OF oa] through_Open [OF ob]
  have starting: "(state s \<noteq> Starting) = False" using st by simp
  note eval = est [unfolded EstablishCommonStart_def starting if_False Some option.case Let_def]
  show thesis
  proof (cases "fa \<and> fb")
    case False
    let ?t = "if fa then ?s\<lparr>buffer_a := ba, buffer_b := bb\<rparr> else ?s\<lparr>buffer_a := ba\<rparr>"
    have "Fail ops BufferCapacity ?t = (ok, s')"
      using eval ca cb False by (cases fa) simp_all
    from Fail_out [OF this] show thesis
      using pk ca cb by (intro failed [of BufferCapacity ?t r]) auto
  next
    case fits: True
    show thesis
    proof (cases "oa \<and> ob")
      case False
      let ?u = "?s\<lparr>buffer_a := ba, buffer_b := bb, sink_a := ka\<rparr>"
      let ?v = "if oa then ?u\<lparr>sink_b := kb\<rparr> else ?u"
      let ?t = "?v\<lparr>sink_a := map_option (do_Abort ops) (sink_a ?v), sink_b := map_option (do_Abort ops) (sink_b ?v)\<rparr>"
      have "Fail ops SinkOpen ?t = (ok, s')"
        using eval ca cb fits oa ob False by (cases oa) simp_all
      from Fail_out [OF this] show thesis
        using pk ca cb by (intro failed [of SinkOpen ?t r]) auto
    next
      case True
      let ?t = "(InferSourceCtsStep (?s\<lparr>buffer_a := ba, buffer_b := bb, sink_a := ka, sink_b := kb,
         max_observed_cts_a := newest_cts (start_cts r) ba,
         max_observed_cts_b := newest_cts (start_cts r) bb\<rparr>))\<lparr>state := Running\<rparr>"
      have "FlushStablePackets ops ?t = (ok, s')"
        using eval ca cb fits oa ob True by simp
      then show thesis
        using pk True null Some fits ca cb by (intro opened [of ?t r]) simp_all
    qed
  qed
qed

lemma om_drop_below_store:
  "packet_store (packets b) \<Longrightarrow> packets b' = om_drop_below lo (packets b) \<Longrightarrow>
     packet_store (packets b') \<and> (\<forall>c. Contains b' c \<longleftrightarrow> lo \<le> c \<and> Contains b c)"
  using packet_store_DiscardBefore [of b lo] Contains_DiscardBefore [of b lo]
  by (simp add: Contains_def)

lemma inv_Establish:
  assumes inv: "session_inv s" and st: "state s = Starting"
    and est: "EstablishCommonStart ops s = (ok, s')"
  shows "session_inv s' \<and> (if ok then state s' \<in> {Starting, Running} else state s' = Failed)"
proof -
  have live: "state s \<noteq> Failed" using st by simp
  note L = inv_live [OF inv live]
  note waiting = live_waiting [OF L disjI2 [OF st]]
  note stores = inv_stores [OF inv, unfolded stores_ok_def]
  have none: "written (sink_a s) = []" "written (sink_b s) = []" "\<not> has_flushed_cts s"
    using inv_agree [OF inv, unfolded commits_agree_def] waiting(1) by blast+
  from est st show ?thesis
  proof (cases rule: Establish_shape)
    case waiting
    with inv st show ?thesis by simp
  next
    case (failed f t r)
    have "stores_ok t" "commits_agree t"
      using om_drop_below_store [OF conjunct1 [OF stores] failed(3)]
        om_drop_below_store [OF conjunct2 [OF stores] failed(4)] failed none
      by (simp_all add: stores_ok_def commits_agree_def)
    from inv_Fail [OF this] failed(1,2) show ?thesis by simp
  next
    case (opened t r)
    note da = om_drop_below_store [OF conjunct1 [OF stores] opened(4)]
      and db = om_drop_below_store [OF conjunct2 [OF stores] opened(5)]
    have "common_keyframe (buffer_a s) (buffer_b s) (start_cts r)"
      using SelectCommonStart_Some [OF conjunct1 [OF stores]] opened(3) by auto
    then have key: "Contains (buffer_a s) (start_cts r)" "Contains (buffer_b s) (start_cts r)"
      by (auto simp: common_keyframe_def Find_Contains split: option.splits)
    have "stores_ok t" "commits_agree t"
      using da db opened none by (simp_all add: stores_ok_def commits_agree_def)
    moreover have "live_ok t"
      using opened none da db key waiting(2,3)
      by (simp add: live_ok_def committed_def)
    ultimately have "session_inv t" by (simp add: session_inv_def)
    from inv_FlushStable [OF this disjI1 [OF opened(2)] opened(1)] opened(2)
    show ?thesis by (auto split: if_splits)
  qed
qed



subsection \<open>Every operation keeps the invariant\<close>

lemma inv_Finalize:
  assumes inv: "session_inv s" and st: "state s = Draining" and r: "selected_range s = Some r"
    and flushed: "has_flushed_cts s" "e = last_flushed_cts s \<or> last_flushed_cts s = max_u64"
    and fin: "FinalizeAt ops e s = (ok, s')"
  shows "session_inv s' \<and> state s' = (if ok then Stopped else Failed)"
proof -
  have live: "state s \<noteq> Failed" using st by simp
  note L = inv_live [OF inv live]
  note active = live_active [OF L disjI2 [OF st]]
  note stores = inv_stores [OF inv, unfolded stores_ok_def]
  obtain oa ka where oa: "through (do_Finalize ops e) (sink_a s) = (oa, ka)" by fastforce
  obtain ob kb where ob: "through (do_Finalize ops e) (sink_b s) = (ob, kb)" by fastforce
  note ta = through_Finalize [OF oa] and tb = through_Finalize [OF ob]
  show ?thesis
  proof (cases "oa \<and> ob")
    case True
    then have s': "ok" "s' = s\<lparr>sink_a := ka, sink_b := kb, selected_range := Some (r\<lparr>end_cts := e\<rparr>),
        buffer_a := Clear (buffer_a s), buffer_b := Clear (buffer_b s), state := Stopped\<rparr>"
      using fin oa ob r by (simp_all add: FinalizeAt_def)
    have "stores_ok s'"
      by (simp add: s' stores_ok_def Clear_def packet_store_def)
    moreover have "commits_agree s'"
      using inv_agree [OF inv] ta tb r flushed(1) by (simp add: s' commits_agree_def committed_def)
    moreover have "live_ok s'"
      using live_written [OF L] live_flushed [OF L flushed(1)] ta tb active True flushed r
      by (simp add: s' live_ok_def committed_def)
    ultimately show ?thesis using s' by (simp add: session_inv_def)
  next
    case False
    let ?u = "s\<lparr>sink_a := ka\<rparr>"
    let ?v = "if oa then ?u\<lparr>sink_b := kb\<rparr> else ?u"
    let ?t = "?v\<lparr>sink_a := map_option (do_Abort ops) (sink_a ?v), sink_b := map_option (do_Abort ops) (sink_b ?v)\<rparr>"
    have out: "Fail ops SinkFinalize ?t = (ok, s')"
      using fin oa ob False by (cases oa) (simp_all add: FinalizeAt_def)
    have "stores_ok ?t" "commits_agree ?t"
      using stores inv_agree [OF inv] ta tb
      by (simp_all add: stores_ok_def commits_agree_def committed_def flushed(1))
    from inv_Fail [OF this, of ops SinkFinalize] Fail_out [OF out] show ?thesis by simp
  qed
qed

lemma inv_Drain:
  assumes inv: "session_inv s" and st: "state s = Draining"
    and drain: "CompleteDrain ops s = (ok, s')"
  shows "session_inv s' \<and> state s' = (if ok then Stopped else Failed)"
proof -
  have live: "state s \<noteq> Failed" using st by simp
  note L = inv_live [OF inv live]
  note stores = inv_stores [OF inv, unfolded stores_ok_def]
  from live_active(5) [OF L disjI2 [OF st]] obtain r where r: "selected_range s = Some r" by blast
  let ?candidate = "SelectCommonPrefixEnd (buffer_a s) (buffer_b s) (start_cts r)
      (requested_stop_cts s) (source_cts_step s)"
  define e where "e = (case ?candidate of Some c \<Rightarrow> c
      | None \<Rightarrow> if has_flushed_cts s then last_flushed_cts s else 0)"
  have states: "(state s = Stopped) = False" "(state s = Failed) = False" "(state s \<noteq> Draining) = False"
    using st by simp_all
  note eval = drain [unfolded CompleteDrain_def Let_def states if_False r option.case e_def [symmetric]]
  show ?thesis
  proof (cases "e < start_cts r")
    case True
    from Fail_out [OF eval [unfolded if_P [OF True]]] inv_Fail [OF inv_stores inv_agree, OF inv inv, of ops MissingCommonRange]
    show ?thesis by simp
  next
    case False
    note eval' = eval [unfolded if_not_P [OF False]]
    obtain ok1 t where flush: "FlushThrough ops e s = (ok1, t)" by fastforce
    note fl = inv_flush [OF inv disjI2 [OF st] flush]
    show ?thesis
    proof (cases ok1)
      case False
      with eval' flush fl show ?thesis by simp
    next
      case True
      then have t: "session_inv t" "state t = Draining" "selected_range t = Some r" "has_flushed_cts t"
        and last: "e \<le> last_flushed_cts s \<and> has_flushed_cts s \<and> t = s \<or> e = last_flushed_cts t"
        using fl st r by simp_all
      have "e = last_flushed_cts t \<or> last_flushed_cts t = max_u64"
      proof (cases "e = last_flushed_cts t")
        case False
        with last have old: "e \<le> last_flushed_cts s" "has_flushed_cts s" "t = s" by auto
        with False obtain c where "?candidate = Some c" "e = c"
          by (cases ?candidate) (simp_all add: e_def)
        with SelectCommonPrefixEnd_sound [OF conjunct1 [OF stores] conjunct2 [OF stores]]
        have "Contains (buffer_a s) e" by blast
        with live_pending [OF L old(2) disjI2 [OF st], of e] old show ?thesis by fastforce
      qed simp
      moreover have "FinalizeAt ops e t = (ok, s')" using eval' flush True by simp
      ultimately show ?thesis using inv_Finalize [OF t] by blast
    qed
  qed
qed


lemma agree_cong:
  assumes "commits_agree s" "written (sink_a t) = written (sink_a s)" "written (sink_b t) = written (sink_b s)"
    "selected_range t = selected_range s" "has_flushed_cts t = has_flushed_cts s"
    "last_flushed_cts t = last_flushed_cts s"
  shows "commits_agree t"
  using assms(1) unfolding commits_agree_def committed_def assms(2-) .

lemma inv_Start:
  assumes inv: "session_inv s" shows "session_inv (snd (Start ops req s))"
proof (cases "state s \<noteq> Idle \<or> sink_a s = None \<or> sink_b s = None")
  case True
  with inv_Fail [OF inv_stores inv_agree, OF inv inv] show ?thesis by (simp add: Start_def)
next
  case False
  then have idle: "state s = Idle" by simp
  then have live: "state s \<noteq> Failed" by simp
  note L = inv_live [OF inv live]
  note w = live_waiting [OF L disjI1 [OF idle]]
  have none: "written (sink_a s) = []" "written (sink_b s) = []" "\<not> has_flushed_cts s"
    using inv_agree [OF inv, unfolded commits_agree_def] w(1) by blast+
  let ?t = "s\<lparr>requested_start_cts := req, state := Starting\<rparr>"
  have "stores_ok ?t" "commits_agree ?t"
    using inv_stores [OF inv] none w(1) by (simp_all add: stores_ok_def commits_agree_def committed_def)
  moreover have "live_ok ?t"
    using False none w by (simp add: live_ok_def)
  ultimately show ?thesis using False by (auto simp: Start_def session_inv_def)
qed

lemma inv_push:
  assumes inv: "session_inv s" and active: "state s = Starting \<or> state s = Running \<or> state s = Draining"
    and late: "\<not> (selected_range s \<noteq> None \<and> has_flushed_cts s \<and> source_cts p \<le> last_flushed_cts s)"
    and push: "push_into st p s = (res, s')"
  shows "session_inv s'"
proof -
  have live: "state s \<noteq> Failed" "state s \<noteq> Stopped" "state s \<noteq> Idle" using active by auto
  note L = inv_live [OF inv live(1)]
  note stores = inv_stores [OF inv, unfolded stores_ok_def]
  note keep = push_keeps [OF push]
  have one: "packet_store (packets b') \<and> (\<forall>c. Contains b c \<longrightarrow> Contains b' c) \<and>
      (\<forall>c. Contains b' c \<longrightarrow> Contains b c \<or> c = source_cts p)"
    if "Push p b = (res, b')" "packet_store (packets b)" for b b'
  proof (cases "res = Retained")
    case True
    note pk = Push_packets [OF that(1) [unfolded True]]
    with that(2) om.find_emplace [OF packet_store_wf [OF that(2)], of "source_cts p" p]
      oms.filed_emplace [of source_cts "packets b" p]
    show ?thesis by (simp add: packet_store_def Contains_def)
  next
    case False
    with Push_rejected [OF that(1)] that(2) show ?thesis by simp
  qed
  have two: "packet_store (packets (buffer_a s')) \<and> packet_store (packets (buffer_b s')) \<and>
      (\<forall>c. (Contains (buffer_a s) c \<longrightarrow> Contains (buffer_a s') c) \<and>
           (Contains (buffer_b s) c \<longrightarrow> Contains (buffer_b s') c)) \<and>
      (\<forall>c. Contains (buffer_a s') c \<or> Contains (buffer_b s') c \<longrightarrow>
           Contains (buffer_a s) c \<or> Contains (buffer_b s) c \<or> c = source_cts p)"
  proof (cases st)
    case StreamA
    obtain b where b: "Push p (buffer_a s) = (res, b)" "s' = s\<lparr>buffer_a := b\<rparr>"
      using push StreamA by (auto simp: push_into_def split: prod.splits)
    from one [OF b(1)] stores b(2) show ?thesis by auto
  next
    case StreamB
    obtain b where b: "Push p (buffer_b s) = (res, b)" "s' = s\<lparr>buffer_b := b\<rparr>"
      using push StreamB by (auto simp: push_into_def split: prod.splits)
    from one [OF b(1)] stores b(2) show ?thesis by auto
  qed
  have new: "last_flushed_cts s < source_cts p" if "has_flushed_cts s" "state s = Running \<or> state s = Draining"
    using late that live_active(5) [OF L that(2)] by auto
  have "live_ok s'"
    unfolding live_ok_def committed_def keep
  proof (intro conjI)
    show "state s = Running \<or> state s = Draining \<longrightarrow> (has_flushed_cts s \<longrightarrow> last_flushed_cts s \<noteq> max_u64 \<longrightarrow>
        (\<forall>c. Contains (buffer_a s') c \<or> Contains (buffer_b s') c \<longrightarrow> last_flushed_cts s < c)) \<and>
        (\<not> has_flushed_cts s \<longrightarrow> (\<forall>r. selected_range s = Some r \<longrightarrow>
           Contains (buffer_a s') (start_cts r) \<and> Contains (buffer_b s') (start_cts r)))"
      using live_pending [OF L] live_start [OF L] two new by metis
  qed (use L [unfolded live_ok_def committed_def] in blast)+
  moreover have "stores_ok s'" using two by (simp add: stores_ok_def)
  moreover have "commits_agree s'"
    using inv_agree [OF inv] unfolding commits_agree_def committed_def keep .
  ultimately show ?thesis by (simp add: session_inv_def)
qed

lemma inv_accounting: "session_inv s \<Longrightarrow> session_inv (retain_accounting st p s)"
  by (subst inv_cong [of _ s]) simp_all

lemma inv_failed: "session_inv s \<Longrightarrow> session_inv (snd (Fail ops f s))"
  by (rule inv_Fail [OF inv_stores inv_agree])

lemma inv_Submit:
  assumes inv: "session_inv s" shows "session_inv (snd (SubmitPacket ops st p s))"
proof (cases "state s \<noteq> Starting \<and> state s \<noteq> Running \<and> state s \<noteq> Draining")
  case True
  with inv_failed [OF inv] show ?thesis by (simp add: SubmitPacket_def)
next
  case active: False
  let ?early = "case selected_range s of Some r \<Rightarrow> source_cts p < start_cts r | None \<Rightarrow> False"
  let ?late = "selected_range s \<noteq> None \<and> has_flushed_cts s \<and> source_cts p \<le> last_flushed_cts s"
  obtain res t where push: "push_into st p s = (res, t)" by fastforce
  note eval = SubmitPacket_def [of ops st p s, unfolded if_not_P [OF active] push prod.case Let_def]
  show ?thesis
  proof (cases "?early \<or> ?late")
    case True
    then have "SubmitPacket ops st p s = (if ?early then (True, s) else Fail ops LatePacket s)"
      unfolding eval by (cases ?early) simp_all
    with inv inv_failed [OF inv] show ?thesis by simp
  next
    case False
    then have f: "\<not> ?early" "\<not> ?late" by simp_all
    have act: "state s = Starting \<or> state s = Running \<or> state s = Draining" using active by blast
    note t = inv_push [OF inv act f(2) push]
    let ?u = "retain_accounting st p t"
    note u = inv_accounting [OF t, of st p]
    note eval' = eval [unfolded if_not_P [OF f(1)] if_not_P [OF f(2)]]
    show ?thesis
    proof (cases res)
      case Retained
      have "SubmitPacket ops st p s = (if state ?u = Starting then EstablishCommonStart ops ?u
          else if state ?u = Running then FlushStablePackets ops ?u else (True, ?u))"
        unfolding eval' Retained by simp
      moreover have "session_inv (snd (EstablishCommonStart ops ?u))" if "state ?u = Starting"
        using inv_Establish [OF u that prod.collapse [symmetric]] by blast
      moreover have "session_inv (snd (FlushStablePackets ops ?u))" if "state ?u = Running"
        using inv_FlushStable [OF u disjI1 [OF that] prod.collapse [symmetric]] by blast
      ultimately show ?thesis using u by simp
    qed (simp_all add: eval' inv_failed [OF t])
  qed
qed

lemma inv_Abort:
  assumes inv: "session_inv s" shows "session_inv (Abort ops s)"
proof (cases "state s = Stopped \<or> state s = Failed")
  case True
  with inv show ?thesis by (simp only: Abort_def if_True)
next
  case False
  have "commits_agree (Abort ops s)"
    using False by (intro agree_cong [OF inv_agree [OF inv]]) (simp_all add: Abort_def)
  with False show ?thesis
    by (auto simp: Abort_def session_inv_def stores_ok_def Clear_def packet_store_def)
qed

lemma inv_RequestStop:
  assumes inv: "session_inv s" shows "session_inv (snd (RequestStop ops stop s))"
proof (cases "state s = Running")
  case True
  then have live: "state s \<noteq> Failed" by simp
  let ?t = "s\<lparr>requested_stop_cts := stop, state := Draining\<rparr>"
  have "stores_ok ?t" using inv_stores [OF inv] by (simp add: stores_ok_def)
  moreover have "commits_agree ?t" by (rule agree_cong [OF inv_agree [OF inv]]) simp_all
  moreover have "committed ?t = committed s" by (simp add: committed_def)
  then have "live_ok ?t"
    using inv_live [OF inv live] True by (simp add: live_ok_def)
  ultimately show ?thesis using True by (simp add: RequestStop_def session_inv_def)
next
  case False
  have "session_inv (s\<lparr>requested_stop_cts := stop\<rparr>)"
    using inv by (subst inv_cong [of _ s]) simp_all
  with False inv inv_failed [OF inv] show ?thesis by (simp add: RequestStop_def)
qed

lemma inv_PollStart:
  assumes inv: "session_inv s" shows "session_inv (snd (PollStart ops c s))"
proof (cases "state s = Starting")
  case True
  obtain ok t where e: "EstablishCommonStart ops s = (ok, t)" by fastforce
  from inv_Establish [OF inv True e] have "session_inv t" by blast
  with inv_failed [OF this] True e show ?thesis by (simp add: PollStart_def)
next
  case False
  with inv show ?thesis by (simp add: PollStart_def)
qed

lemma inv_step:
  assumes inv: "session_inv s" shows "session_inv (snd (session_step ops op s))"
proof (cases op)
  case (OpSetExtraData st d)
  have "session_inv (snd (SetStreamExtraData st d s))"
    using inv by (subst inv_cong [of _ s]) (auto simp: SetStreamExtraData_def split: RecordingStream.split)
  with OpSetExtraData show ?thesis by (simp add: session_step_def)
next
  case OpCompleteDrain
  have "session_inv (snd (CompleteDrain ops s))"
  proof (cases "state s = Draining")
    case True
    from inv_Drain [OF inv True prod.collapse [symmetric]] show ?thesis by blast
  next
    case False
    then have "snd (CompleteDrain ops s) = s"
      by (auto simp: CompleteDrain_def split: option.split)
    with inv show ?thesis by simp
  qed
  with OpCompleteDrain show ?thesis by (simp add: session_step_def)
qed (simp_all add: session_step_def inv inv_Start inv_Submit inv_PollStart inv_RequestStop inv_Abort)

theorem session_reachable_inv: "session_reachable ops s \<Longrightarrow> session_inv s"
  by (induction rule: session_reachable.induct) (simp_all add: inv_new inv_step)


end
