(* ===== verification/RecordingProperties.thy ===== *)
theory RecordingProperties
  imports RecordingInvariant
begin

text \<open>
  The promises of the recording session, over every sequence of calls and every sink: which packets
  the two sinks hold, how the state machine moves, what bounds its memory, and when it makes
  progress. The theory ends with two behaviours that the source's comments do not suggest.
\<close>

subsection \<open>A concrete session\<close>

definition accepting_sink :: "unit sink_ops" where
  "accepting_sink = \<lparr>sink_Open = (\<lambda>_ _ k. (True, k)), sink_Write = (\<lambda>_ k. (True, k)),
     sink_CommitThrough = (\<lambda>_ k. (True, k)), sink_Finalize = (\<lambda>_ k. (True, k)), sink_Abort = (\<lambda>k. k)\<rparr>"

definition demo_stream :: PacketStreamConfig where
  "demo_stream = \<lparr>cfg_width = 16, cfg_height = 16, cfg_timebase_num = 1, cfg_timebase_den = 60,
     extra_data = [1], muxer_tail_capacity_bytes = 100, muxer_reorder_safety_cts = 0\<rparr>"

definition demo_session :: "u64 \<Rightarrow> unit session" where
  "demo_session step = new_session \<lparr>pre_roll_capacity_bytes = 8, tail_capacity_bytes = 8,
     reorder_safety_cts = 0, expected_source_cts_step = step, max_start_wait_cts = 5\<rparr>
     demo_stream demo_stream (Some ()) (Some ())"

definition session_run :: "'s sink_ops \<Rightarrow> session_op list \<Rightarrow> 's session \<Rightarrow> 's session" where
  "session_run ops cs s = fold (\<lambda>c s. snd (session_step ops c s)) cs s"

definition demo_calls :: "session_op list" where
  "demo_calls = [OpStart 1, OpSubmit StreamA (demo_packet 1 True [7]),
     OpSubmit StreamB (demo_packet 1 True [8]), OpSubmit StreamA (demo_packet 2 False [7]),
     OpSubmit StreamB (demo_packet 2 False [8])]"

lemma reachable_run: "session_reachable ops s \<Longrightarrow> session_reachable ops (session_run ops cs s)"
proof (induction cs arbitrary: s)
  case (Cons c cs)
  from Cons.IH [OF session_reachable.called [OF Cons.prems]] show ?case
    by (simp add: session_run_def)
qed (simp add: session_run_def)

lemma reachable_demo: "session_reachable ops (session_run ops cs (demo_session step))"
  unfolding demo_session_def by (rule reachable_run) (rule session_reachable.created)

subsection \<open>The two recordings hold the same packets\<close>

text \<open>C1. At every moment, whatever the order of calls and whatever the sinks answer, the packets
  committed to the two sinks have the same CTS values and no CTS was written twice to a sink; until
  the session fails the two sinks hold exactly the same CTS values, all between the selected start
  and the last flush.\<close>

theorem recordings_commit_the_same_packets:
  assumes "session_reachable ops s"
  shows "set (written (sink_a s)) \<inter> committed s = set (written (sink_b s)) \<inter> committed s \<and>
    distinct (written (sink_a s)) \<and> distinct (written (sink_b s)) \<and>
    (state s \<noteq> Failed \<longrightarrow> set (written (sink_a s)) = set (written (sink_b s)) \<and>
       (\<forall>c \<in> set (written (sink_a s)). \<exists>r. selected_range s = Some r \<and>
          start_cts r \<le> c \<and> c \<le> last_flushed_cts s))"
proof -
  note inv = session_reachable_inv [OF assms]
  note agree = inv_agree [OF inv, unfolded commits_agree_def]
  have "set (written (sink_a s)) = set (written (sink_b s)) \<and>
       (\<forall>c \<in> set (written (sink_a s)). \<exists>r. selected_range s = Some r \<and>
          start_cts r \<le> c \<and> c \<le> last_flushed_cts s)" if "state s \<noteq> Failed"
  proof -
    note sub = live_written [OF inv_live [OF inv that]]
    have "\<exists>r. selected_range s = Some r \<and> start_cts r \<le> c \<and> c \<le> last_flushed_cts s"
      if "c \<in> set (written (sink_a s))" for c
    proof (cases "selected_range s")
      case None
      with agree that show ?thesis by auto
    next
      case (Some r)
      with agree sub(1) that show ?thesis by (auto simp: committed_def split: if_splits)
    qed
    with agree sub show ?thesis by blast
  qed
  with agree show ?thesis by blast
qed

theorem recordings_commit_the_same_packets_witness:
  "set (written (sink_a (session_run accepting_sink demo_calls (demo_session 1)))) = {1, 2} \<and>
   set (written (sink_b (session_run accepting_sink demo_calls (demo_session 1)))) = {1, 2}"
proof -
  have "state (session_run accepting_sink demo_calls (demo_session 1)) \<noteq> Failed"
    and "written (sink_a (session_run accepting_sink demo_calls (demo_session 1))) = [1, 2]"
    by code_simp+
  with recordings_commit_the_same_packets [OF reachable_demo, of accepting_sink demo_calls 1] show ?thesis by auto
qed

lemma stopped_recording_is_one_common_range_facts:
  assumes "session_reachable ops s" and "state s = Stopped" and "last_flushed_cts s \<noteq> max_u64"
  shows "\<exists>r. selected_range s = Some r \<and> finalized (sink_a s) = [end_cts r] \<and>
    finalized (sink_b s) = [end_cts r] \<and> set (written (sink_a s)) = set (written (sink_b s)) \<and>
    distinct (written (sink_a s)) \<and> distinct (written (sink_b s)) \<and>
    start_cts r \<in> set (written (sink_a s)) \<and>
    Min (set (written (sink_a s))) = start_cts r \<and> Max (set (written (sink_a s))) = end_cts r"
proof -
  note inv = session_reachable_inv [OF assms(1)]
  have live: "state s \<noteq> Failed" using assms(2) by simp
  note L = inv_live [OF inv live]
  note agree = inv_agree [OF inv, unfolded commits_agree_def]
  have flushed: "has_flushed_cts s" using L assms(2) by (simp only: live_ok_def)
  obtain r where r: "selected_range s = Some r" "finalized (sink_a s) = [end_cts r]"
    "finalized (sink_b s) = [end_cts r]" "end_cts r = last_flushed_cts s"
    using L assms(2,3) unfolding live_ok_def by blast
  note sub = live_written [OF L] and ends = live_flushed(1) [OF L flushed] live_flushed(2) [OF L flushed r(1)]
  have upper: "c \<le> end_cts r" if "c \<in> set (written (sink_a s))" for c
    using sub(1) that flushed r(4) by (auto simp: committed_def)
  have "Min (set (written (sink_a s))) = start_cts r"
    using ends agree r(1) by (intro Min_eqI) auto
  moreover have "Max (set (written (sink_a s))) = end_cts r"
    using ends upper r(4) by (intro Max_eqI) auto
  moreover have "set (written (sink_a s)) = set (written (sink_b s))"
    using sub agree by blast
  ultimately show ?thesis using r agree ends by blast
qed

text \<open>C2. A stopped recording is one common range: both sinks were finalized exactly once, at the
  same end, and hold the same set of CTS values, each once, whose least element is the selected
  start and whose greatest is that end (the largest 64-bit CTS aside, where the discard limit of
  the last flush wraps to zero).\<close>

theorem stopped_recording_is_one_common_range:
  assumes "session_reachable ops s" and "state s = Stopped" and "last_flushed_cts s \<noteq> max_u64"
  shows "\<exists>r. selected_range s = Some r \<and> finalized (sink_a s) = [end_cts r] \<and>
    finalized (sink_b s) = [end_cts r] \<and> set (written (sink_a s)) = set (written (sink_b s)) \<and>
    distinct (written (sink_a s)) \<and> distinct (written (sink_b s)) \<and>
    Min (set (written (sink_a s))) = start_cts r \<and> Max (set (written (sink_a s))) = end_cts r"
  using stopped_recording_is_one_common_range_facts [OF assms] by blast

theorem stopped_recording_is_one_common_range_witness:
  "Max (set (written (sink_a (session_run accepting_sink
     (demo_calls @ [OpRequestStop 2, OpCompleteDrain]) (demo_session 1))))) = 2"
proof -
  let ?s = "session_run accepting_sink (demo_calls @ [OpRequestStop 2, OpCompleteDrain]) (demo_session 1)"
  have st: "state ?s = Stopped" by code_simp
  have last: "last_flushed_cts ?s \<noteq> max_u64" by code_simp
  have "finalized (sink_a ?s) = [2]" by code_simp
  with stopped_recording_is_one_common_range [OF reachable_demo st last] show ?thesis by auto
qed


subsection \<open>The state machine\<close>

definition legal_edge :: "SynchronizedRecordingState \<Rightarrow> SynchronizedRecordingState \<Rightarrow> bool" where
  "legal_edge a b \<longleftrightarrow> b = a \<or> b = Failed \<or>
     (a, b) \<in> {(Idle, Starting), (Starting, Running), (Running, Draining), (Draining, Stopped)}"

definition answered :: "SynchronizedRecordingState \<Rightarrow> bool \<times> 's session \<Rightarrow> bool" where
  "answered a out \<longleftrightarrow> legal_edge a (state (snd out)) \<and> (\<not> fst out \<longrightarrow> state (snd out) = Failed)"

lemma answered_Fail [simp]: "answered a (Fail ops f s)"
  by (simp add: answered_def legal_edge_def)

lemma answered_same: "state s = a \<Longrightarrow> answered a (True, s)"
  by (simp add: answered_def legal_edge_def)

lemma Establish_answered:
  assumes "session_inv s" and "state s = Starting"
  shows "answered Starting (EstablishCommonStart ops s)"
proof -
  obtain ok t where e: "EstablishCommonStart ops s = (ok, t)" by fastforce
  from inv_Establish [OF assms e] e show ?thesis
    by (auto simp: answered_def legal_edge_def split: if_splits)
qed

lemma Submit_cases:
  assumes inv: "session_inv s"
  obtains (failed) f t where "SubmitPacket ops st p s = Fail ops f t" "session_inv t"
      "t = s \<or> (\<exists>res. push_into st p s = (res, t))"
  | (ignored) "SubmitPacket ops st p s = (True, s)"
  | (starting) t u where "SubmitPacket ops st p s = EstablishCommonStart ops t" "session_inv t"
      "state s = Starting" "state t = Starting" "push_into st p s = (Retained, u)"
      "t = retain_accounting st p u"
  | (running) t u where "SubmitPacket ops st p s = FlushStablePackets ops t" "session_inv t"
      "state s = Running" "state t = Running" "push_into st p s = (Retained, u)"
      "t = retain_accounting st p u"
  | (draining) t u where "SubmitPacket ops st p s = (True, t)" "session_inv t"
      "state s = Draining" "state t = Draining" "push_into st p s = (Retained, u)"
      "t = retain_accounting st p u"
proof (cases "state s \<noteq> Starting \<and> state s \<noteq> Running \<and> state s \<noteq> Draining")
  case True
  with inv failed show thesis by (simp add: SubmitPacket_def)
next
  case active: False
  let ?early = "case selected_range s of Some r \<Rightarrow> source_cts p < start_cts r | None \<Rightarrow> False"
  let ?late = "selected_range s \<noteq> None \<and> has_flushed_cts s \<and> source_cts p \<le> last_flushed_cts s"
  obtain res u where push: "push_into st p s = (res, u)" by fastforce
  note eval = SubmitPacket_def [of ops st p s, unfolded if_not_P [OF active] push prod.case Let_def]
  show thesis
  proof (cases "?early \<or> ?late")
    case True
    then have "SubmitPacket ops st p s = (if ?early then (True, s) else Fail ops LatePacket s)"
      unfolding eval by (cases ?early) simp_all
    with inv failed ignored show thesis by (cases ?early) simp_all
  next
    case False
    then have f: "\<not> ?early" "\<not> ?late" by simp_all
    have act: "state s = Starting \<or> state s = Running \<or> state s = Draining" using active by blast
    note t = inv_push [OF inv act f(2) push]
    let ?t = "retain_accounting st p u"
    note acc = inv_accounting [OF t, of st p]
    note eval' = eval [unfolded if_not_P [OF f(1)] if_not_P [OF f(2)]]
    have same: "state ?t = state s" using push_keeps(3) [OF push] by simp
    show thesis
    proof (cases res)
      case Retained
      have go: "SubmitPacket ops st p s = (if state ?t = Starting then EstablishCommonStart ops ?t
          else if state ?t = Running then FlushStablePackets ops ?t else (True, ?t))"
        unfolding eval' Retained by simp
      from act show thesis
        using go acc same push [unfolded Retained] starting [of ?t u] running [of ?t u] draining [of ?t u]
        by (elim disjE) simp_all
    qed (use eval' t failed [OF _ t] push in auto)
  qed
qed

lemma Submit_answered:
  assumes inv: "session_inv s" shows "answered (state s) (SubmitPacket ops st p s)"
  using inv
proof (cases rule: Submit_cases [of s ops st p])
  case (running t u)
  obtain ok v where v: "FlushStablePackets ops t = (ok, v)" by fastforce
  from inv_FlushStable [OF running(2) disjI1 [OF running(4)] v] running v show ?thesis
    by (auto simp: answered_def legal_edge_def split: if_splits)
qed (simp_all add: answered_same Establish_answered)

lemma Poll_answered:
  assumes inv: "session_inv s" shows "answered (state s) (PollStart ops c s)"
proof (cases "state s = Starting")
  case True
  obtain ok t where e: "EstablishCommonStart ops s = (ok, t)" by fastforce
  from Establish_answered [OF inv True, of ops] e True show ?thesis
    by (auto simp: PollStart_def answered_def legal_edge_def)
next
  case False
  then show ?thesis by (simp add: PollStart_def answered_def legal_edge_def)
qed

text \<open>C13. The session only moves along Idle, Starting, Running, Draining, Stopped, one edge per
  call, or to Failed; Failed is final. A call answers false only when the session has failed,
  except CompleteDrain, which may also refuse and change nothing while the session is not draining.\<close>

theorem session_follows_state_machine:
  assumes "session_reachable ops s" and "session_step ops op s = (ok, s')"
  shows "legal_edge (state s) (state s') \<and> (state s = Failed \<longrightarrow> state s' = Failed) \<and>
    (\<not> ok \<longrightarrow> state s' = Failed \<or> (op = OpCompleteDrain \<and> state s \<noteq> Draining \<and> s' = s))"
proof -
  note inv = session_reachable_inv [OF assms(1)]
  have "answered (state s) (ok, s') \<or> op = OpCompleteDrain \<and> state s \<noteq> Draining \<and> s' = s"
  proof (cases op)
    case (OpStart c)
    with assms(2) show ?thesis
      by (auto simp: session_step_def Start_def answered_def legal_edge_def Fail_def split: if_splits)
  next
    case (OpSetExtraData st d)
    with assms(2) show ?thesis
      by (auto simp: session_step_def SetStreamExtraData_def answered_def legal_edge_def
          split: if_splits RecordingStream.splits)
  next
    case (OpSubmit st p)
    with assms(2) Submit_answered [OF inv, of ops st p] show ?thesis by (simp add: session_step_def)
  next
    case (OpPollStart c)
    with assms(2) Poll_answered [OF inv, of ops c] show ?thesis by (simp add: session_step_def)
  next
    case (OpRequestStop c)
    with assms(2) show ?thesis
      by (auto simp: session_step_def RequestStop_def answered_def legal_edge_def Fail_def Let_def
          split: if_splits)
  next
    case OpCompleteDrain
    show ?thesis
    proof (cases "state s = Draining")
      case True
      with inv_Drain [OF inv True] assms(2) OpCompleteDrain show ?thesis
        by (auto simp: session_step_def answered_def legal_edge_def split: if_splits)
    next
      case False
      with assms(2) OpCompleteDrain show ?thesis
        by (auto simp: session_step_def CompleteDrain_def split: if_splits option.splits)
    qed
  next
    case OpAbort
    with assms(2) show ?thesis
      by (cases "state s = Stopped \<or> state s = Failed")
        (auto simp: session_step_def Abort_def answered_def legal_edge_def)
  qed
  then show ?thesis
    by (auto simp: answered_def legal_edge_def)
qed

theorem session_follows_state_machine_witness:
  "legal_edge Running (state (snd (session_step accepting_sink (OpRequestStop 2)
     (session_run accepting_sink demo_calls (demo_session 1)))))"
proof -
  have "state (session_run accepting_sink demo_calls (demo_session 1)) = Running" by code_simp
  with session_follows_state_machine [OF reachable_demo [of accepting_sink demo_calls 1] prod.collapse [symmetric],
      of "OpRequestStop 2"]
  show ?thesis by simp
qed


subsection \<open>Late packets, time limits, memory\<close>

text \<open>A packet below the selected start is ignored; a packet at or below the last flush is a
  hard failure that aborts both sinks and leaves everything already written as it was, so a
  committed prefix is never changed.\<close>

theorem late_packet_is_hard_failure:
  assumes "state s \<in> {Starting, Running, Draining}" and "selected_range s = Some r"
  shows "(source_cts p < start_cts r \<longrightarrow> SubmitPacket ops st p s = (True, s)) \<and>
    (start_cts r \<le> source_cts p \<and> has_flushed_cts s \<and> source_cts p \<le> last_flushed_cts s \<longrightarrow>
       SubmitPacket ops st p s = (False, s\<lparr>failure := LatePacket, state := Failed,
         sink_a := map_option (do_Abort ops) (sink_a s),
         sink_b := map_option (do_Abort ops) (sink_b s)\<rparr>))"
  using assms by (auto simp: SubmitPacket_def Fail_def not_less)

theorem late_packet_is_hard_failure_witness:
  "failure (snd (SubmitPacket accepting_sink StreamA (demo_packet 2 True [1])
     (session_run accepting_sink demo_calls (demo_session 1)))) = LatePacket"
proof -
  let ?s = "session_run accepting_sink demo_calls (demo_session 1)"
  have "state ?s \<in> {Starting, Running, Draining}" "selected_range ?s = Some \<lparr>start_cts = 1, end_cts = 1\<rparr>"
    "has_flushed_cts ?s" "last_flushed_cts ?s = 2"
    by code_simp+
  from late_packet_is_hard_failure [OF this(1,2), of "demo_packet 2 True [1]"] this(3,4)
  show ?thesis by (simp add: demo_packet_def)
qed

text \<open>While the two streams have no common keyframe at or after the requested start, PollStart
  answers true and changes nothing, however late it is called: the start wait is never cut off.
  The timeout can only follow an attempt to open that failed for another reason.\<close>

theorem poll_start_waits_without_limit:
  assumes "session_reachable ops s" and "state s = Starting"
  shows "((\<forall>c. requested_start_cts s \<le> c \<longrightarrow> \<not> common_keyframe (buffer_a s) (buffer_b s) c) \<longrightarrow>
      PollStart ops current s = (True, s)) \<and>
    (failure (snd (PollStart ops current s)) = StartTimeout \<and> failure s \<noteq> StartTimeout \<longrightarrow>
      \<not> fst (EstablishCommonStart ops s))"
proof -
  have store: "packet_store (packets (buffer_a s))"
    using inv_stores [OF session_reachable_inv [OF assms(1)]] by (simp add: stores_ok_def)
  have "PollStart ops current s = (True, s)"
    if "\<forall>c. requested_start_cts s \<le> c \<longrightarrow> \<not> common_keyframe (buffer_a s) (buffer_b s) c"
  proof -
    from SelectCommonStart_None [OF store] that
    have none: "result_range (SelectCommonStart (buffer_a s) (buffer_b s) (requested_start_cts s)) = None"
      by blast
    have "EstablishCommonStart ops s = (True, s)"
      unfolding EstablishCommonStart_def assms(2) none by simp
    with assms(2) show ?thesis by (simp add: PollStart_def)
  qed
  moreover have "\<not> fst (EstablishCommonStart ops s)"
    if to: "failure (snd (PollStart ops current s)) = StartTimeout" "failure s \<noteq> StartTimeout"
  proof
    assume ok: "fst (EstablishCommonStart ops s)"
    then obtain t where e: "EstablishCommonStart ops s = (True, t)" by (metis prod.collapse)
    have "failure t = failure s"
      using e assms(2)
    proof (cases rule: Establish_shape)
      case (opened u r)
      from FlushStable_cases [OF opened(1)] show ?thesis
      proof
        assume "\<exists>c. FlushThrough ops c (InferSourceCtsStep u) = (True, t)"
        then obtain c where f: "FlushThrough ops c (InferSourceCtsStep u) = (True, t)" by blast
        have r: "selected_range (InferSourceCtsStep u) = Some r" using opened by simp
        show ?thesis
        proof (cases "has_flushed_cts u \<and> c \<le> last_flushed_cts u")
          case True
          with f FlushThrough_skip [OF r, of c ops] opened(14,16) Fail_out [of ops MissingCommonRange _ True t]
          show ?thesis by (auto split: if_splits)
        next
          case False
          then have new: "\<not> (has_flushed_cts (InferSourceCtsStep u) \<and> c \<le> last_flushed_cts (InferSourceCtsStep u))"
            by simp
          from f r new show ?thesis
            by (cases rule: FlushThrough_shape) (use opened in simp_all)
        qed
      qed (use opened in simp)
    qed (use assms in simp_all)
    with to e assms(2) show False by (simp add: PollStart_def)
  qed
  ultimately show ?thesis by blast
qed

theorem poll_start_waits_without_limit_witness:
  "PollStart accepting_sink 1000000 (session_run accepting_sink [OpStart 1] (demo_session 1)) =
     (True, session_run accepting_sink [OpStart 1] (demo_session 1))"
proof -
  let ?s = "session_run accepting_sink [OpStart 1] (demo_session 1)"
  have "state ?s = Starting" by code_simp
  moreover have "packets (buffer_a ?s) = []" by code_simp
  then have "\<not> common_keyframe (buffer_a ?s) (buffer_b ?s) c" for c
    by (simp add: common_keyframe_def Find_def om_find_def)
  ultimately show ?thesis
    using poll_start_waits_without_limit [OF reachable_demo, of accepting_sink "[OpStart 1]" 1 1000000] by blast
qed

subsection \<open>Progress\<close>

lemma Infer_idem [simp]:
  "source_cts_step (InferSourceCtsStep (InferSourceCtsStep s)) = source_cts_step (InferSourceCtsStep s)"
  by (auto simp: InferSourceCtsStep_def Let_def split: option.split)

lemma max_observed_Infer [simp]:
  "max_observed_cts_a (InferSourceCtsStep s) = max_observed_cts_a s"
  "max_observed_cts_b (InferSourceCtsStep s) = max_observed_cts_b s"
  by (auto simp: InferSourceCtsStep_def Let_def split: option.split)

text \<open>The prefix a flush was selected for passes the checks of the flush.\<close>

lemma selected_prefix_flushes:
  assumes inv: "session_inv s" and st: "state s = Running \<or> state s = Draining"
    and r: "selected_range s = Some r"
    and sel: "SelectCommonPrefixEnd (buffer_a s) (buffer_b s) (start_cts r) upper
       (source_cts_step (InferSourceCtsStep s)) = Some c"
    and flush: "FlushThrough ops c s = (False, s')"
  shows "failure s' = SinkWrite"
proof (cases "has_flushed_cts s \<and> c \<le> last_flushed_cts s")
  case True
  note stores = inv_stores [OF inv, unfolded stores_ok_def]
  from SelectCommonPrefixEnd_sound(1) [OF conjunct1 [OF stores] conjunct2 [OF stores] sel]
    FlushThrough_skip [OF r True] flush
  show ?thesis by (simp add: leD)
next
  case False
  note stores = inv_stores [OF inv, unfolded stores_ok_def]
  note sound = SelectCommonPrefixEnd_sound [OF conjunct1 [OF stores] conjunct2 [OF stores] sel]
  note again = SelectCommonPrefixEnd_again [OF conjunct1 [OF stores] conjunct2 [OF stores] sel]
  note wa = window_cts [OF conjunct1 [OF stores], of "start_cts r" c s]
  note wb = window_cts [OF conjunct2 [OF stores], of "start_cts r" c s]
  have both: "Contains (buffer_a s) x \<longleftrightarrow> Contains (buffer_b s) x" if "start_cts r \<le> x" "x \<le> c" for x
    using sound(5) cts_between_Contains [OF conjunct1 [OF stores], of x "start_cts r" c]
      cts_between_Contains [OF conjunct2 [OF stores], of x "start_cts r" c] that by simp
  from flush r False show ?thesis
  proof (cases rule: FlushThrough_shape)
    case (failed f ka kb s0)
    have "Contains (buffer_b s) (source_cts p)" if "p \<in> set (window (start_cts r) c s (buffer_a s))" for p
      using wa imageI [OF that, of source_cts] both by blast
    moreover have "Contains (buffer_a s) (source_cts p)" if "p \<in> set (window (start_cts r) c s (buffer_b s))" for p
      using wb imageI [OF that, of source_cts] both by blast
    ultimately have "f = SinkWrite"
      using failed(7) again sound(1) by auto
    with failed(2) show ?thesis by simp
  qed simp
qed

text \<open>C14. Progress of the running session: when FlushStablePackets answers true, everything of the
  common prefix up to the safety watermark has been committed; and it can only fail because a sink
  refused a packet, never because of the packets it holds.\<close>

theorem stable_prefix_is_committed:
  assumes "session_inv s" and "state s = Running" and "FlushStablePackets ops s = (ok, s')"
    and "selected_range s = Some r" and "RunningWatermark s = Some w"
    and "SelectCommonPrefixEnd (buffer_a s) (buffer_b s) (start_cts r) w
       (source_cts_step (InferSourceCtsStep s)) = Some c"
  shows "if ok then has_flushed_cts s' \<and> c \<le> last_flushed_cts s' else failure s' = SinkWrite"
proof -
  let ?i = "InferSourceCtsStep s"
  have i: "session_inv ?i" "state ?i = Running \<or> state ?i = Draining" "selected_range ?i = Some r"
    "SelectCommonPrefixEnd (buffer_a ?i) (buffer_b ?i) (start_cts r) w (source_cts_step (InferSourceCtsStep ?i)) = Some c"
    using inv_Infer [OF assms(1)] assms(2,4,6) by simp_all
  have w: "RunningWatermark ?i = Some w"
    using assms(5) unfolding RunningWatermark_def Infer_keeps max_observed_Infer .
  show ?thesis
  proof (cases "has_flushed_cts s \<and> c \<le> last_flushed_cts s")
    case True
    with assms(3,4,6) w have "ok \<and> s' = ?i" by (simp add: FlushStablePackets_def Let_def)
    with True show ?thesis by simp
  next
    case False
    then have flush: "FlushThrough ops c ?i = (ok, s')"
      using assms(3,4,6) w by (auto simp: FlushStablePackets_def Let_def)
    show ?thesis
    proof (cases ok)
      case True
      with inv_flush [OF i(1,2) flush] show ?thesis by simp
    next
      case nok: False
      then have "FlushThrough ops c ?i = (False, s')" using flush by simp
      from selected_prefix_flushes [OF i this] nok show ?thesis by simp
    qed
  qed
qed


definition opened_session :: "unit session" where
  "opened_session = (demo_session 1)\<lparr>state := Running, selected_range := Some \<lparr>start_cts = 1, end_cts = 1\<rparr>,
     buffer_a := demo_buffer [demo_packet 1 True [7]], buffer_b := demo_buffer [demo_packet 1 True [8]],
     max_observed_cts_a := 1, max_observed_cts_b := 1\<rparr>"

lemma opened_session_inv: "session_inv opened_session"
proof -
  have "buffer_inv (demo_buffer [demo_packet 1 True [x]])" for x
    by (rule demo_buffer_store) (simp add: payload_fits_def demo_packet_def)
  then have "packet_store (packets (demo_buffer [demo_packet 1 True [x]]))" for x
    by (simp add: buffer_inv_def)
  moreover have "Contains (demo_buffer [demo_packet 1 True [x]]) 1" for x
    by (simp add: demo_buffer_eval)
  ultimately show ?thesis
    by (simp add: opened_session_def demo_session_def new_session_def session_inv_def stores_ok_def
        commits_agree_def live_ok_def committed_def written_def finalized_def)
qed

theorem stable_prefix_is_committed_witness:
  "last_flushed_cts (snd (FlushStablePackets accepting_sink opened_session)) \<ge> 1"
proof -
  have "state opened_session = Running" "selected_range opened_session = Some \<lparr>start_cts = 1, end_cts = 1\<rparr>"
    "RunningWatermark opened_session = Some 1" "fst (FlushStablePackets accepting_sink opened_session)"
    "SelectCommonPrefixEnd (buffer_a opened_session) (buffer_b opened_session) 1 1
       (source_cts_step (InferSourceCtsStep opened_session)) = Some 1"
    by code_simp+
  with stable_prefix_is_committed [where ops = accepting_sink and
      r = "\<lparr>start_cts = 1, end_cts = 1\<rparr>" and w = 1 and c = 1, OF opened_session_inv _ prod.collapse [symmetric]]
  show ?thesis by simp
qed


subsection \<open>Memory\<close>

text \<open>Both buffers keep their accounts, within the pre-roll capacity before the start is selected
  and within the tail capacity from then on.\<close>

definition capacity_ok :: "SynchronizedRecordingConfig \<Rightarrow> SynchronizedRecordingState \<Rightarrow> EncodedPacketBuffer \<Rightarrow> bool" where
  "capacity_ok cfg st b \<longleftrightarrow> buffer_inv b \<and>
     (capacity_bytes b = pre_roll_capacity_bytes cfg \<or> capacity_bytes b = tail_capacity_bytes cfg) \<and>
     (st = Idle \<or> st = Starting \<longrightarrow> capacity_bytes b = pre_roll_capacity_bytes cfg) \<and>
     (st = Running \<or> st = Draining \<longrightarrow> capacity_bytes b = tail_capacity_bytes cfg)"

definition memory_ok :: "SynchronizedRecordingConfig \<Rightarrow> 's session \<Rightarrow> bool" where
  "memory_ok cfg s \<longleftrightarrow> config s = cfg \<and> capacity_ok cfg (state s) (buffer_a s) \<and> capacity_ok cfg (state s) (buffer_b s)"

definition op_fits :: "session_op \<Rightarrow> bool" where
  "op_fits op = (case op of OpSubmit st p \<Rightarrow> payload_fits p | _ \<Rightarrow> True)"

lemma capacity_failed: "capacity_ok cfg st b \<Longrightarrow> capacity_ok cfg Failed b"
  by (simp add: capacity_ok_def)

lemma capacity_DiscardBefore: "capacity_ok cfg st b \<Longrightarrow> capacity_ok cfg st (DiscardBefore c b)"
  by (simp add: capacity_ok_def buffer_inv_DiscardBefore)

lemma capacity_Clear_failed: "capacity_ok cfg st b \<Longrightarrow> st' = Failed \<or> st' = Stopped \<Longrightarrow> capacity_ok cfg st' (Clear b)"
  using buffer_inv_Clear [of b] by (auto simp: capacity_ok_def Clear_def)

lemma capacity_Push:
  assumes "Push p b = (res, b')" and "payload_fits p" and "capacity_ok cfg st b"
  shows "capacity_ok cfg st b'"
proof (cases "res = Retained")
  case True
  with assms Push_packets [of p b b'] buffer_inv_Push [OF _ assms(2,1)] show ?thesis
    by (simp add: capacity_ok_def)
next
  case False
  with Push_rejected [OF assms(1)] assms(3) show ?thesis by simp
qed

lemma capacity_tail:
  assumes "buffer_inv b" and "SetCapacityBytes (tail_capacity_bytes cfg) b = (True, b')"
  shows "capacity_ok cfg Running b'"
  using assms buffer_inv_SetCapacity [OF assms(1), of "tail_capacity_bytes cfg"]
  by (auto simp: capacity_ok_def SetCapacityBytes_def split: if_splits)

lemma capacity_tried:
  assumes "capacity_ok cfg st b" and "b' = b \<or> b' = snd (SetCapacityBytes (tail_capacity_bytes cfg) b)"
  shows "capacity_ok cfg Failed b'"
proof -
  have "buffer_inv b'" using assms buffer_inv_SetCapacity [of b "tail_capacity_bytes cfg"]
    by (auto simp: capacity_ok_def)
  moreover have "capacity_bytes b' = capacity_bytes b \<or> capacity_bytes b' = tail_capacity_bytes cfg"
    using assms(2) by (cases "tail_capacity_bytes cfg < buffered_bytes b") (auto simp: SetCapacityBytes_def)
  ultimately show ?thesis using assms(1) by (auto simp: capacity_ok_def)
qed

lemma memory_frame:
  "memory_ok cfg s \<Longrightarrow> buffer_a t = buffer_a s \<Longrightarrow> buffer_b t = buffer_b s \<Longrightarrow> config t = config s \<Longrightarrow>
     state t = state s \<or> state t = Failed \<Longrightarrow> memory_ok cfg t"
  using capacity_failed by (auto simp only: memory_ok_def)

lemma memory_Fail: "memory_ok cfg s \<Longrightarrow> memory_ok cfg (snd (Fail ops f s))"
  by (rule memory_frame [of cfg s]) simp_all

lemma memory_Flush:
  assumes mem: "memory_ok cfg s" and r: "selected_range s = Some r" and flush: "FlushThrough ops c s = (ok, s')"
  shows "memory_ok cfg s'"
proof (cases "has_flushed_cts s \<and> c \<le> last_flushed_cts s")
  case True
  with FlushThrough_skip [OF r True, of ops] flush mem memory_Fail [OF mem, of ops MissingCommonRange]
    Fail_out [of ops MissingCommonRange s ok s']
  show ?thesis by (auto split: if_splits)
next
  case False
  from flush r False show ?thesis
  proof (cases rule: FlushThrough_shape)
    case (failed f ka kb s0)
    then have "buffer_a s' = buffer_a s" "buffer_b s' = buffer_b s" "config s' = config s" "state s' = Failed"
      by auto
    then show ?thesis by (intro memory_frame [OF mem]) simp_all
  next
    case (flushed ka kb)
    have "state s' = state s" "config s' = config s" "buffer_a s' = DiscardBefore (c + 1) (buffer_a s)"
      "buffer_b s' = DiscardBefore (c + 1) (buffer_b s)"
      using flushed(8) by simp_all
    with mem show ?thesis by (simp add: memory_ok_def capacity_DiscardBefore)
  qed
qed

lemma memory_FlushStable:
  assumes "memory_ok cfg s" and "selected_range s = Some r" and "FlushStablePackets ops s = (ok, s')"
  shows "memory_ok cfg s'"
proof -
  have i: "memory_ok cfg (InferSourceCtsStep s)" by (rule memory_frame [OF assms(1)]) simp_all
  have r: "selected_range (InferSourceCtsStep s) = Some r" using assms(2) by simp
  from FlushStable_cases [OF assms(3)] show ?thesis
    using i memory_Flush [OF i r] by blast
qed

lemma memory_Establish:
  assumes mem: "memory_ok cfg s" and st: "state s = Starting" and est: "EstablishCommonStart ops s = (ok, s')"
  shows "memory_ok cfg s'"
  using est st
proof (cases rule: Establish_shape)
  case waiting
  with mem show ?thesis by simp
next
  case (failed f t r)
  note cap = mem [unfolded memory_ok_def, THEN conjunct2, THEN conjunct1, THEN capacity_DiscardBefore]
    mem [unfolded memory_ok_def, THEN conjunct2, THEN conjunct2, THEN capacity_DiscardBefore]
  have same: "config s = cfg" using mem by (simp add: memory_ok_def)
  from capacity_tried [OF cap(1) failed(12) [unfolded Let_def same]]
    capacity_tried [OF cap(2) failed(13) [unfolded Let_def same]] failed(1,10) same
  show ?thesis by (simp add: memory_ok_def)
next
  case (opened t r)
  have same: "config s = cfg" using mem by (simp add: memory_ok_def)
  have "buffer_inv (DiscardBefore (start_cts r) (buffer_a s))" "buffer_inv (DiscardBefore (start_cts r) (buffer_b s))"
    using mem by (simp_all add: memory_ok_def capacity_ok_def buffer_inv_DiscardBefore)
  from capacity_tail [OF this(1) opened(17) [unfolded same]] capacity_tail [OF this(2) opened(18) [unfolded same]] opened(2,15) same
  have "memory_ok cfg t" by (simp add: memory_ok_def)
  from memory_FlushStable [OF this opened(12) opened(1)] show ?thesis .
qed

lemma memory_push:
  assumes "memory_ok cfg s" and "payload_fits p" and "push_into st p s = (res, s')"
  shows "memory_ok cfg s'"
proof (cases st)
  case StreamA
  then obtain b where "Push p (buffer_a s) = (res, b)" "s' = s\<lparr>buffer_a := b\<rparr>"
    using assms(3) by (auto simp: push_into_def split: prod.splits)
  with capacity_Push assms show ?thesis by (auto simp: memory_ok_def)
next
  case StreamB
  then obtain b where "Push p (buffer_b s) = (res, b)" "s' = s\<lparr>buffer_b := b\<rparr>"
    using assms(3) by (auto simp: push_into_def split: prod.splits)
  with capacity_Push assms show ?thesis by (auto simp: memory_ok_def)
qed

lemma memory_accounting: "memory_ok cfg s \<Longrightarrow> memory_ok cfg (retain_accounting st p s)"
  by (rule memory_frame [of cfg s]) simp_all


lemma memory_Submit:
  assumes inv: "session_inv s" and mem: "memory_ok cfg s" and fits: "payload_fits p"
  shows "memory_ok cfg (snd (SubmitPacket ops st p s))"
proof -
  have pushed: "memory_ok cfg (retain_accounting st p u)" if "push_into st p s = (res, u)" for res u
    by (rule memory_accounting [OF memory_push [OF mem fits that]])
  obtain res u where pu: "push_into st p s = (res, u)" by fastforce
  let ?t = "retain_accounting st p u"
  from inv show ?thesis
  proof (cases rule: Submit_cases [of s ops st p])
    case (failed f t)
    have "memory_ok cfg t" using failed(3) mem memory_push [OF mem fits] by blast
    from memory_Fail [OF this] show ?thesis by (simp add: failed(1))
  next
    case (starting t v)
    from memory_Establish [OF pushed [OF starting(5), folded starting(6)] starting(4) prod.collapse [symmetric]]
    show ?thesis by (simp add: starting(1))
  next
    case (running t v)
    have live: "state t \<noteq> Failed" using running(4) by simp
    from live_active(5) [OF inv_live [OF running(2) live] disjI1 [OF running(4)]] obtain r
      where "selected_range t = Some r" by blast
    from memory_FlushStable [OF pushed [OF running(5), folded running(6)] this prod.collapse [symmetric]]
    show ?thesis by (simp add: running(1))
  qed (use mem pushed in simp_all)
qed

lemma memory_Drain:
  assumes inv: "session_inv s" and mem: "memory_ok cfg s"
  shows "memory_ok cfg (snd (CompleteDrain ops s))"
proof (cases "state s = Draining")
  case False
  then have "snd (CompleteDrain ops s) = s"
    by (auto simp: CompleteDrain_def split: option.split)
  with mem show ?thesis by simp
next
  case st: True
  then have live: "state s \<noteq> Failed" by simp
  from live_active(5) [OF inv_live [OF inv live] disjI2 [OF st]] obtain r where r: "selected_range s = Some r"
    by blast
  have finish: "memory_ok cfg (snd (FinalizeAt ops e t))" if "memory_ok cfg t" for e and t :: "'a session"
  proof -
    obtain oa ka where oa: "through (do_Finalize ops e) (sink_a t) = (oa, ka)" by fastforce
    obtain ob kb where ob: "through (do_Finalize ops e) (sink_b t) = (ob, kb)" by fastforce
    show ?thesis
    proof (cases "oa \<and> ob")
      case True
      with oa ob that show ?thesis
        by (simp add: FinalizeAt_def memory_ok_def) (blast intro: capacity_Clear_failed)
    next
      case False
      let ?u = "t\<lparr>sink_a := ka\<rparr>"
      let ?v = "if oa then ?u\<lparr>sink_b := kb\<rparr> else ?u"
      let ?w = "?v\<lparr>sink_a := map_option (do_Abort ops) (sink_a ?v), sink_b := map_option (do_Abort ops) (sink_b ?v)\<rparr>"
      have "FinalizeAt ops e t = Fail ops SinkFinalize ?w"
        using oa ob False by (cases oa) (simp_all add: FinalizeAt_def)
      moreover have "memory_ok cfg ?w" by (rule memory_frame [OF that]) simp_all
      ultimately show ?thesis by (simp add: memory_Fail)
    qed
  qed
  define e where "e = (case SelectCommonPrefixEnd (buffer_a s) (buffer_b s) (start_cts r)
      (requested_stop_cts s) (source_cts_step s) of Some c \<Rightarrow> c
      | None \<Rightarrow> if has_flushed_cts s then last_flushed_cts s else 0)"
  have states: "(state s = Stopped) = False" "(state s = Failed) = False" "(state s \<noteq> Draining) = False"
    using st by simp_all
  note eval = CompleteDrain_def [of ops s, unfolded Let_def states if_False r option.case e_def [symmetric]]
  obtain ok t where flush: "FlushThrough ops e s = (ok, t)" by fastforce
  show ?thesis
    using memory_Fail [OF mem, of ops MissingCommonRange] memory_Flush [OF mem r flush] finish [of t e]
    unfolding eval flush prod.case by simp
qed

lemma memory_step:
  assumes inv: "session_inv s" and mem: "memory_ok cfg s" and fits: "op_fits op"
  shows "memory_ok cfg (snd (session_step ops op s))"
proof (cases op)
  case (OpStart c)
  have "memory_ok cfg (s\<lparr>requested_start_cts := c, state := Starting\<rparr>)" if "state s = Idle"
    using mem that by (simp add: memory_ok_def capacity_ok_def)
  with OpStart memory_Fail [OF mem] show ?thesis by (simp add: session_step_def Start_def)
next
  case (OpSetExtraData st d)
  have "memory_ok cfg (snd (SetStreamExtraData st d s))"
    by (rule memory_frame [OF mem]) (auto simp: SetStreamExtraData_def split: RecordingStream.split)
  with OpSetExtraData show ?thesis by (simp add: session_step_def)
next
  case (OpSubmit st p)
  with memory_Submit [OF inv mem] fits show ?thesis by (simp add: session_step_def op_fits_def)
next
  case (OpPollStart c)
  have "memory_ok cfg (snd (PollStart ops c s))"
  proof (cases "state s = Starting")
    case True
    obtain ok t where e: "EstablishCommonStart ops s = (ok, t)" by fastforce
    from memory_Establish [OF mem True e] have "memory_ok cfg t" .
    with memory_Fail [OF this] True e show ?thesis by (simp add: PollStart_def)
  qed (use mem in \<open>simp add: PollStart_def\<close>)
  with OpPollStart show ?thesis by (simp add: session_step_def)
next
  case (OpRequestStop c)
  have "memory_ok cfg (s\<lparr>requested_stop_cts := c, state := Draining\<rparr>)" if "state s = Running"
    using mem that by (simp add: memory_ok_def capacity_ok_def)
  moreover have "memory_ok cfg (s\<lparr>requested_stop_cts := c\<rparr>)"
    by (rule memory_frame [OF mem]) simp_all
  ultimately show ?thesis
    using OpRequestStop mem memory_Fail [OF mem] by (simp add: session_step_def RequestStop_def Let_def)
next
  case OpCompleteDrain
  with memory_Drain [OF inv mem] show ?thesis by (simp add: session_step_def)
next
  case OpAbort
  have "memory_ok cfg (Abort ops s)"
  proof (cases "state s = Stopped \<or> state s = Failed")
    case False
    with mem show ?thesis
      by (simp add: Abort_def memory_ok_def) (blast intro: capacity_Clear_failed)
  qed (use mem in \<open>simp only: Abort_def if_True\<close>)
  with OpAbort show ?thesis by (simp add: session_step_def)
qed

lemma memory_run:
  assumes "session_inv s" and "memory_ok cfg s" and "\<forall>op \<in> set cs. op_fits op"
  shows "memory_ok cfg (session_run ops cs s)"
  using assms
proof (induction cs arbitrary: s)
  case (Cons c cs)
  from Cons.IH [OF inv_step [OF Cons.prems(1)] memory_step [OF Cons.prems(1,2)]] Cons.prems(3)
  show ?case by (simp add: session_run_def)
qed (simp add: session_run_def)

text \<open>C20. Memory: after any sequence of calls, each stream's retained bytes are exactly the payloads
  it holds and never exceed the configured capacity: the pre-roll capacity while the start is being
  looked for, the tail capacity while the session runs or drains.\<close>

theorem retained_memory_is_bounded:
  assumes "\<forall>op \<in> set cs. op_fits op"
  shows "let s = session_run ops cs (new_session cfg sa sb ka kb)
     in \<forall>b \<in> {buffer_a s, buffer_b s}.
       unat (buffered_bytes b) = (\<Sum>p\<leftarrow>Snapshot b. length (payload p)) \<and>
       buffered_bytes b \<le> max (pre_roll_capacity_bytes cfg) (tail_capacity_bytes cfg) \<and>
       (state s \<in> {Idle, Starting} \<longrightarrow> buffered_bytes b \<le> pre_roll_capacity_bytes cfg) \<and>
       (state s \<in> {Running, Draining} \<longrightarrow> buffered_bytes b \<le> tail_capacity_bytes cfg)"
proof -
  let ?s = "session_run ops cs (new_session cfg sa sb ka kb)"
  let ?n = "new_session cfg sa sb ka kb"
  have "memory_ok cfg ?n"
    by (simp add: new_session_def memory_ok_def capacity_ok_def buffer_inv_new new_buffer_def)
      (simp add: buffer_inv_def packet_store_def payload_total_def)
  from memory_run [OF inv_new this assms] have mem: "memory_ok cfg ?s" .
  have one: "unat (buffered_bytes b) = (\<Sum>p\<leftarrow>Snapshot b. length (payload p)) \<and>
       buffered_bytes b \<le> max (pre_roll_capacity_bytes cfg) (tail_capacity_bytes cfg) \<and>
       (st \<in> {Idle, Starting} \<longrightarrow> buffered_bytes b \<le> pre_roll_capacity_bytes cfg) \<and>
       (st \<in> {Running, Draining} \<longrightarrow> buffered_bytes b \<le> tail_capacity_bytes cfg)"
    if "capacity_ok cfg st b" for b st
    using that by (auto simp: capacity_ok_def buffer_inv_def payload_total_Snapshot le_max_iff_disj)
  show ?thesis
    using mem one unfolding memory_ok_def Let_def by blast
qed


theorem retained_memory_is_bounded_witness:
  "buffered_bytes (buffer_a (session_run accepting_sink
     [OpStart 1, OpSubmit StreamA (demo_packet 1 True [7, 7, 7])]
     (new_session \<lparr>pre_roll_capacity_bytes = 8, tail_capacity_bytes = 4, reorder_safety_cts = 0,
        expected_source_cts_step = 1, max_start_wait_cts = 5\<rparr> demo_stream demo_stream (Some ()) (Some ())))) \<le> 8"
proof -
  have "\<forall>op \<in> set [OpStart 1, OpSubmit StreamA (demo_packet 1 True [7, 7, 7])]. op_fits op"
    by (simp add: op_fits_def payload_fits_def demo_packet_def)
  from retained_memory_is_bounded [OF this, of accepting_sink "\<lparr>pre_roll_capacity_bytes = 8,
      tail_capacity_bytes = 4, reorder_safety_cts = 0, expected_source_cts_step = 1, max_start_wait_cts = 5\<rparr>"
      demo_stream demo_stream "Some ()" "Some ()"]
  show ?thesis by (simp add: Let_def)
qed

subsection \<open>Draining\<close>

lemma CompleteDrain_draining:
  assumes "state s = Draining" and "selected_range s = Some r"
    and "e = (case SelectCommonPrefixEnd (buffer_a s) (buffer_b s) (start_cts r)
      (requested_stop_cts s) (source_cts_step s) of Some c \<Rightarrow> c
      | None \<Rightarrow> if has_flushed_cts s then last_flushed_cts s else 0)"
  shows "CompleteDrain ops s = (if e < start_cts r then Fail ops MissingCommonRange s
    else case FlushThrough ops e s of (ok, t) \<Rightarrow> if \<not> ok then (False, t) else FinalizeAt ops e t)"
proof -
  have states: "(state s = Stopped) = False" "(state s = Failed) = False" "(state s \<noteq> Draining) = False"
    using assms(1) by simp_all
  show ?thesis
    unfolding CompleteDrain_def Let_def states if_False assms(2) option.case assms(3) ..
qed

lemma Finalize_failure:
  assumes "FinalizeAt ops e s = (False, s')" shows "failure s' = SinkFinalize"
  using assms by (auto simp: FinalizeAt_def Fail_def Let_def split: prod.splits if_splits)

text \<open>C12. Draining always completes over what the session holds: with a known CTS step, CompleteDrain
  on a draining session fails only because a sink refused a write, a commit or the finalization, or
  because the stop was requested before the selected start and nothing had been committed.\<close>

theorem drain_completes:
  assumes "session_reachable ops s" and "state s = Draining" and "source_cts_step s \<noteq> 0"
    and "CompleteDrain ops s = (False, s')"
  shows "failure s' \<in> {SinkWrite, SinkFinalize} \<or>
    (failure s' = MissingCommonRange \<and> \<not> has_flushed_cts s \<and>
      (\<exists>r. selected_range s = Some r \<and> requested_stop_cts s < start_cts r))"
proof -
  note inv = session_reachable_inv [OF assms(1)] and st = assms(2)
  have live: "state s \<noteq> Failed" using st by simp
  note L = inv_live [OF inv live]
  note stores = inv_stores [OF inv, unfolded stores_ok_def]
  from live_active(5) [OF L disjI2 [OF st]] obtain r where r: "selected_range s = Some r" by blast
  let ?candidate = "SelectCommonPrefixEnd (buffer_a s) (buffer_b s) (start_cts r)
      (requested_stop_cts s) (source_cts_step s)"
  define e where "e = (case ?candidate of Some c \<Rightarrow> c
      | None \<Rightarrow> if has_flushed_cts s then last_flushed_cts s else 0)"
  note eval = assms(4) [unfolded CompleteDrain_draining [OF st r e_def]]
  have step: "source_cts_step (InferSourceCtsStep s) = source_cts_step s"
    using assms(3) by (simp add: InferSourceCtsStep_def split: option.split)
  have early: "\<not> has_flushed_cts s \<and> requested_stop_cts s < start_cts r" if none: "?candidate = None" "e < start_cts r"
  proof -
    have "start_cts r \<le> last_flushed_cts s" if "has_flushed_cts s"
      using live_flushed(1) [OF L that] r inv_agree [OF inv, unfolded commits_agree_def] by blast
    with none have nf: "\<not> has_flushed_cts s" by (auto simp: e_def)
    note keys = live_start [OF L nf disjI2 [OF st] r]
    have "\<not> start_cts r \<le> requested_stop_cts s"
    proof
      assume "start_cts r \<le> requested_stop_cts s"
      from SelectCommonPrefixEnd_maximal [OF conjunct1 [OF stores] conjunct2 [OF stores] order_refl this keys(1),
          of "source_cts_step s"] none(1)
      show False by (simp add: cts_between_one stores keys)
    qed
    with nf show ?thesis by simp
  qed
  show ?thesis
  proof (cases "e < start_cts r")
    case True
    then have "?candidate = None"
      using SelectCommonPrefixEnd_sound(1) [OF conjunct1 [OF stores] conjunct2 [OF stores], of "start_cts r"]
      by (cases ?candidate) (use True in \<open>auto simp: e_def leD\<close>)
    from early [OF this True] r eval True show ?thesis
      by (auto simp: Fail_def)
  next
    case False
    obtain ok t where flush: "FlushThrough ops e s = (ok, t)" by fastforce
    show ?thesis
    proof (cases ok)
      case True
      with eval False flush Finalize_failure show ?thesis by auto
    next
      case nok: False
      then have t: "FlushThrough ops e s = (False, t)" "s' = t" using eval False flush by simp_all
      show ?thesis
      proof (cases ?candidate)
        case (Some c)
        then have "e = c" by (simp add: e_def)
        with Some step selected_prefix_flushes [OF inv disjI2 [OF st] r _ t(1)] t(2) show ?thesis by simp
      next
        case None
        have "has_flushed_cts s"
        proof (rule ccontr)
          assume nf: "\<not> has_flushed_cts s"
          with None False have zero: "start_cts r = 0" by (simp add: e_def word_gt_0)
          note keys = live_start [OF L nf disjI2 [OF st] r]
          note one = cts_between_one [OF conjunct1 [OF stores] keys(1), unfolded zero]
            cts_between_one [OF conjunct2 [OF stores] keys(2), unfolded zero]
          from SelectCommonPrefixEnd_maximal [OF conjunct1 [OF stores] conjunct2 [OF stores] order_refl _ keys(1),
              of "requested_stop_cts s" "source_cts_step s"] None zero
          show False by (simp add: one)
        qed
        with None have "has_flushed_cts s \<and> e \<le> last_flushed_cts s" by (simp add: e_def)
        from FlushThrough_skip [OF r this, of ops] t False show ?thesis by simp
      qed
    qed
  qed
qed


definition refusing_sink :: "unit sink_ops" where
  "refusing_sink = accepting_sink\<lparr>sink_Finalize := (\<lambda>_ k. (False, k))\<rparr>"

theorem drain_completes_witness:
  "failure (snd (CompleteDrain refusing_sink (session_run refusing_sink
      (demo_calls @ [OpRequestStop 2]) (demo_session 1)))) \<in> {SinkWrite, SinkFinalize}"
proof -
  let ?s = "session_run refusing_sink (demo_calls @ [OpRequestStop 2]) (demo_session 1)"
  have "state ?s = Draining" "source_cts_step ?s \<noteq> 0" by code_simp+
  moreover have "fst (CompleteDrain refusing_sink ?s) = False" by code_simp
  then have "CompleteDrain refusing_sink ?s = (False, snd (CompleteDrain refusing_sink ?s))"
    by (simp add: prod_eq_iff)
  moreover have "has_flushed_cts ?s" by code_simp
  ultimately show ?thesis
    using drain_completes [OF reachable_demo [of refusing_sink]] by blast
qed

text \<open>When the CTS step is not configured and cannot be inferred before the stop, the drain looks for
  the common end without a step and then checks it with one: a recording whose two streams hold the
  same packets is failed and both sinks are aborted.\<close>

theorem drain_with_unknown_step_fails:
  "let s = session_run accepting_sink [OpStart 1, OpSubmit StreamA (demo_packet 1 True [7]),
       OpSubmit StreamB (demo_packet 1 True [8]), OpRequestStop 9, OpSubmit StreamA (demo_packet 2 False [7]),
       OpSubmit StreamB (demo_packet 2 False [7]), OpSubmit StreamA (demo_packet 3 False [7]),
       OpSubmit StreamB (demo_packet 3 False [8]), OpSubmit StreamA (demo_packet 6 False [7]),
       OpSubmit StreamB (demo_packet 6 False [8])] (demo_session 0)
   in map source_cts (Snapshot (buffer_a s)) = map source_cts (Snapshot (buffer_b s)) \<and>
      failure (snd (CompleteDrain accepting_sink s)) = RangeMismatch"
  by code_simp

end
