(* ===== verification/FrameQueue.thy ===== *)
theory FrameQueue
  imports MasterTimeline
begin

text \<open>
  \<open>src/pipeline/synchronized-frame-queue\<close>: the bounded FIFO of master frames behind the retained
  pair stream. The vector with its \<open>head_\<close> index is modelled as it is; \<open>pending\<close> is the plain
  list it stands for. The locale \<open>bounded_fifo\<close> is the contract the frame pipeline relies on.
  Sizes are sizes of vectors in memory, so they are natural numbers.
\<close>

subsection \<open>Data and operations\<close>

record SynchronizedFramePairIdentity =
  identity_a :: MasterFrame
  identity_b :: MasterFrame
  resources_complete :: bool

datatype SynchronizedFrameQueueResult = QueueRetained | QueueInvalidPair | QueueCapacity

record SynchronizedFrameQueue =
  queue_capacity :: nat
  queue_head :: nat
  queue_frames :: "MasterFrame list"

text \<open>The constructor throws on a zero capacity.\<close>

definition new_queue :: "nat \<Rightarrow> SynchronizedFrameQueue option" where
  "new_queue cap =
     (if cap = 0 then None else Some \<lparr>queue_capacity = cap, queue_head = 0, queue_frames = []\<rparr>)"

definition IsValid :: "SynchronizedFramePairIdentity \<Rightarrow> bool" where
  "IsValid p \<longleftrightarrow> resources_complete p \<and> frame_id (identity_a p) = frame_id (identity_b p) \<and>
     pts_ns (identity_a p) = pts_ns (identity_b p)"

definition queue_size :: "SynchronizedFrameQueue \<Rightarrow> nat" where
  "queue_size q = length (queue_frames q) - queue_head q"

definition CanRetain :: "SynchronizedFramePairIdentity \<Rightarrow> SynchronizedFrameQueue \<Rightarrow>
    SynchronizedFrameQueueResult" where
  "CanRetain p q =
     (if \<not> IsValid p then QueueInvalidPair
      else if queue_size q \<ge> queue_capacity q then QueueCapacity else QueueRetained)"

definition CompactIfDrained :: "SynchronizedFrameQueue \<Rightarrow> SynchronizedFrameQueue" where
  "CompactIfDrained q =
     (if queue_head q = length (queue_frames q) then q\<lparr>queue_frames := [], queue_head := 0\<rparr> else q)"

definition TryRetain :: "SynchronizedFramePairIdentity \<Rightarrow> SynchronizedFrameQueue \<Rightarrow>
    SynchronizedFrameQueueResult \<times> SynchronizedFrameQueue" where
  "TryRetain p q =
     (let result = CanRetain p q
      in if result \<noteq> QueueRetained then (result, q)
         else (let q = CompactIfDrained q
               in (QueueRetained, q\<lparr>queue_frames := queue_frames q @ [identity_a p]\<rparr>)))"

definition TakeNext :: "SynchronizedFrameQueue \<Rightarrow> MasterFrame option \<times> SynchronizedFrameQueue" where
  "TakeNext q =
     (if queue_head q = length (queue_frames q) then (None, q)
      else (Some (queue_frames q ! queue_head q),
            CompactIfDrained (q\<lparr>queue_head := queue_head q + 1\<rparr>)))"

definition queue_Reset :: "SynchronizedFrameQueue \<Rightarrow> SynchronizedFrameQueue" where
  "queue_Reset q = q\<lparr>queue_frames := [], queue_head := 0\<rparr>"

fun SynchronizedFrameQueueResultName :: "SynchronizedFrameQueueResult \<Rightarrow> string" where
  "SynchronizedFrameQueueResultName QueueRetained = ''retained''"
| "SynchronizedFrameQueueResultName QueueInvalidPair = ''invalid-pair''"
| "SynchronizedFrameQueueResultName QueueCapacity = ''capacity''"

subsection \<open>The abstract FIFO\<close>

definition pending :: "SynchronizedFrameQueue \<Rightarrow> MasterFrame list" where
  "pending q = drop (queue_head q) (queue_frames q)"

text \<open>The head stays inside the vector, and a drained vector is empty.\<close>

definition queue_inv :: "SynchronizedFrameQueue \<Rightarrow> bool" where
  "queue_inv q \<longleftrightarrow> queue_head q \<le> length (queue_frames q) \<and> length (pending q) \<le> queue_capacity q \<and>
     (queue_head q = length (queue_frames q) \<longrightarrow> queue_frames q = [])"

locale bounded_fifo =
  fixes contents :: "'q \<Rightarrow> 'a list"
    and bound :: "'q \<Rightarrow> nat"
    and invar :: "'q \<Rightarrow> bool"
    and accepts :: "'p \<Rightarrow> 'q \<Rightarrow> bool"
    and item_of :: "'p \<Rightarrow> 'a"
    and retain :: "'p \<Rightarrow> 'q \<Rightarrow> 'q"
    and take_next :: "'q \<Rightarrow> 'a option \<times> 'q"
    and clear :: "'q \<Rightarrow> 'q"
  assumes bounded: "invar q \<Longrightarrow> length (contents q) \<le> bound q"
    and invar_retain: "invar q \<Longrightarrow> accepts p q \<Longrightarrow> invar (retain p q)"
    and invar_take: "invar q \<Longrightarrow> invar (snd (take_next q))"
    and invar_clear: "invar q \<Longrightarrow> invar (clear q)"
    and contents_retain: "invar q \<Longrightarrow> accepts p q \<Longrightarrow> contents (retain p q) = contents q @ [item_of p]"
    and take_result: "invar q \<Longrightarrow> fst (take_next q) = (case contents q of [] \<Rightarrow> None | x # _ \<Rightarrow> Some x)"
    and contents_take: "invar q \<Longrightarrow> contents (snd (take_next q)) = drop 1 (contents q)"
    and contents_clear: "contents (clear q) = []"
    and bound_retain: "bound (retain p q) = bound q"
    and bound_take: "bound (snd (take_next q)) = bound q"
    and bound_clear: "bound (clear q) = bound q"
begin

text \<open>
  A client that keeps one object per queued item, in a list of its own, stays in step with the
  queue: appending on retain, dropping the first on take, emptying on clear.
\<close>

lemma step_retain:
  "invar q \<Longrightarrow> accepts p q \<Longrightarrow> map f objects = contents q \<Longrightarrow> f x = item_of p \<Longrightarrow>
     map f (objects @ [x]) = contents (retain p q)"
  by (simp add: contents_retain)

lemma step_take:
  assumes "invar q" and "map f (x # objects) = contents q"
  shows "map f objects = contents (snd (take_next q)) \<and> fst (take_next q) = Some (f x)"
  by (simp add: contents_take [OF assms(1)] take_result [OF assms(1)] assms(2) [symmetric])

lemma step_clear: "map f [] = contents (clear q)"
  by (simp add: contents_clear)

lemma take_none: "invar q \<Longrightarrow> fst (take_next q) = None \<longleftrightarrow> contents q = []"
  by (simp add: take_result split: list.split)

text \<open>What was retained comes out first in, first out.\<close>

lemma take_after_retain:
  assumes "invar q" and "accepts p q"
  shows "fst (take_next (retain p q)) = Some (hd (contents q @ [item_of p]))"
  using take_result [OF invar_retain [OF assms]] contents_retain [OF assms]
  by (cases "contents q") simp_all

end

subsection \<open>The code's queue is such a FIFO\<close>

lemma CompactIfDrained_pending:
  "pending (CompactIfDrained q) = pending q" "queue_capacity (CompactIfDrained q) = queue_capacity q"
  "queue_head q \<le> length (queue_frames q) \<Longrightarrow>
     queue_head (CompactIfDrained q) \<le> length (queue_frames (CompactIfDrained q))"
  by (auto simp: CompactIfDrained_def pending_def)

lemma CompactIfDrained_inv:
  "queue_head q \<le> length (queue_frames q) \<Longrightarrow> length (pending q) \<le> queue_capacity q \<Longrightarrow>
     queue_inv (CompactIfDrained q)"
  by (auto simp: queue_inv_def CompactIfDrained_def pending_def)

lemma queue_size_pending: "queue_size q = length (pending q)"
  by (simp add: queue_size_def pending_def)

lemma TryRetain_pending:
  assumes "queue_inv q" and "CanRetain p q = QueueRetained"
  shows "pending (snd (TryRetain p q)) = pending q @ [identity_a p]" "queue_inv (snd (TryRetain p q))"
    "queue_capacity (snd (TryRetain p q)) = queue_capacity q"
proof -
  let ?c = "CompactIfDrained q"
  have head: "queue_head ?c \<le> length (queue_frames ?c)"
    using assms(1) by (simp add: queue_inv_def CompactIfDrained_pending)
  have q': "snd (TryRetain p q) = ?c\<lparr>queue_frames := queue_frames ?c @ [identity_a p]\<rparr>"
    using assms(2) by (simp add: TryRetain_def Let_def)
  show p: "pending (snd (TryRetain p q)) = pending q @ [identity_a p]"
    using head CompactIfDrained_pending(1) [of q] by (simp add: q' pending_def)
  show cap: "queue_capacity (snd (TryRetain p q)) = queue_capacity q"
    by (simp add: q' CompactIfDrained_pending)
  have "length (pending q) < queue_capacity q"
    using assms(2) by (auto simp: CanRetain_def queue_size_pending split: if_splits)
  with p cap head show "queue_inv (snd (TryRetain p q))"
    by (simp add: queue_inv_def) (simp add: q')
qed

lemma drop_split: "n < length xs \<Longrightarrow> drop n xs = xs ! n # drop (Suc n) xs"
  by (simp add: Cons_nth_drop_Suc)

lemma TakeNext_pending:
  assumes "queue_inv q"
  shows "fst (TakeNext q) = (case pending q of [] \<Rightarrow> None | x # _ \<Rightarrow> Some x)"
    "pending (snd (TakeNext q)) = drop 1 (pending q)" "queue_inv (snd (TakeNext q))"
    "queue_capacity (snd (TakeNext q)) = queue_capacity q"
proof -
  have head: "queue_head q \<le> length (queue_frames q)" and len: "length (pending q) \<le> queue_capacity q"
    using assms by (simp_all add: queue_inv_def)
  consider (drained) "queue_head q = length (queue_frames q)" | (more) "queue_head q < length (queue_frames q)"
    using head by linarith
  then show "fst (TakeNext q) = (case pending q of [] \<Rightarrow> None | x # _ \<Rightarrow> Some x)"
    by cases (simp_all add: TakeNext_def pending_def drop_split)
  show "pending (snd (TakeNext q)) = drop 1 (pending q)"
    by (simp add: TakeNext_def CompactIfDrained_pending) (simp add: pending_def)
  show "queue_capacity (snd (TakeNext q)) = queue_capacity q"
    by (simp add: TakeNext_def CompactIfDrained_pending)
  show "queue_inv (snd (TakeNext q))"
  proof (cases "queue_head q = length (queue_frames q)")
    case False
    with head len have "queue_inv (CompactIfDrained (q\<lparr>queue_head := queue_head q + 1\<rparr>))"
      by (intro CompactIfDrained_inv) (auto simp: pending_def)
    with False show ?thesis by (simp add: TakeNext_def)
  qed (use assms in \<open>simp add: TakeNext_def\<close>)
qed

interpretation fifo: bounded_fifo pending queue_capacity queue_inv
  "\<lambda>p q. CanRetain p q = QueueRetained" identity_a "\<lambda>p q. snd (TryRetain p q)" TakeNext queue_Reset
proof unfold_locales
  show "queue_capacity (snd (TryRetain p q)) = queue_capacity q" for p q
    by (simp add: TryRetain_def Let_def CompactIfDrained_def)
  show "queue_capacity (snd (TakeNext q)) = queue_capacity q" for q
    by (simp add: TakeNext_def CompactIfDrained_def)
  show "length (pending q) \<le> queue_capacity q" if "queue_inv q" for q
    using that by (simp add: queue_inv_def)
  show "queue_inv (queue_Reset q)" "pending (queue_Reset q) = []"
    "queue_capacity (queue_Reset q) = queue_capacity q" for q
    by (simp_all add: queue_Reset_def queue_inv_def pending_def)
qed (simp_all add: TryRetain_pending TakeNext_pending)


subsection \<open>Refinement of a bounded list\<close>

datatype queue_op = RetainOp SynchronizedFramePairIdentity | TakeOp | ResetOp

datatype queue_answer = RetainAnswer SynchronizedFrameQueueResult | TakeAnswer "MasterFrame option" | ResetAnswer

definition queue_step :: "queue_op \<Rightarrow> SynchronizedFrameQueue \<Rightarrow> queue_answer \<times> SynchronizedFrameQueue" where
  "queue_step op q = (case op of
       RetainOp p \<Rightarrow> map_prod RetainAnswer id (TryRetain p q)
     | TakeOp \<Rightarrow> map_prod TakeAnswer id (TakeNext q)
     | ResetOp \<Rightarrow> (ResetAnswer, queue_Reset q))"

text \<open>The specification: a list of at most \<open>cap\<close> frames.\<close>

definition list_step :: "nat \<Rightarrow> queue_op \<Rightarrow> MasterFrame list \<Rightarrow> queue_answer \<times> MasterFrame list" where
  "list_step cap op xs = (case op of
       RetainOp p \<Rightarrow>
         (if \<not> (resources_complete p \<and> identity_a p = identity_b p) then (RetainAnswer QueueInvalidPair, xs)
          else if length xs \<ge> cap then (RetainAnswer QueueCapacity, xs)
          else (RetainAnswer QueueRetained, xs @ [identity_a p]))
     | TakeOp \<Rightarrow> (case xs of [] \<Rightarrow> (TakeAnswer None, []) | x # xs \<Rightarrow> (TakeAnswer (Some x), xs))
     | ResetOp \<Rightarrow> (ResetAnswer, []))"

fun run_answers :: "('op \<Rightarrow> 's \<Rightarrow> 'r \<times> 's) \<Rightarrow> 'op list \<Rightarrow> 's \<Rightarrow> 'r list \<times> 's" where
  "run_answers step [] s = ([], s)"
| "run_answers step (op # ops) s =
     (let (r, s) = step op s; (rs, s) = run_answers step ops s in (r # rs, s))"

lemma IsValid_eq: "IsValid p \<longleftrightarrow> resources_complete p \<and> identity_a p = identity_b p"
  by (auto simp: IsValid_def)

lemma queue_step_refines:
  assumes inv: "queue_inv q"
  shows "list_step (queue_capacity q) op (pending q) = map_prod id pending (queue_step op q) \<and>
    queue_inv (snd (queue_step op q)) \<and> queue_capacity (snd (queue_step op q)) = queue_capacity q"
proof (cases op)
  case (RetainOp p)
  show ?thesis
  proof (cases "CanRetain p q = QueueRetained")
    case True
    then have "IsValid p" "length (pending q) < queue_capacity q"
      by (auto simp: CanRetain_def queue_size_pending split: if_splits)
    moreover have "fst (TryRetain p q) = QueueRetained"
      using True by (simp add: TryRetain_def Let_def)
    ultimately show ?thesis
      using TryRetain_pending [OF inv True] RetainOp
      by (simp add: queue_step_def list_step_def IsValid_eq prod_eq_iff)
  next
    case False
    then have "TryRetain p q = (CanRetain p q, q)" by (simp add: TryRetain_def Let_def)
    with False RetainOp inv show ?thesis
      by (auto simp: queue_step_def list_step_def CanRetain_def IsValid_eq queue_size_pending split: if_splits)
  qed
next
  case TakeOp
  with TakeNext_pending [OF inv] show ?thesis
    by (cases "pending q") (simp_all add: queue_step_def list_step_def prod_eq_iff)
next
  case ResetOp
  with fifo.invar_clear [OF inv] fifo.contents_clear fifo.bound_clear show ?thesis
    by (simp add: queue_step_def list_step_def)
qed

lemma queue_run_refines:
  assumes "queue_inv q"
  shows "run_answers (list_step (queue_capacity q)) ops (pending q) =
    map_prod id pending (run_answers queue_step ops q)"
  using assms
proof (induction ops arbitrary: q)
  case (Cons op ops)
  obtain r q' where step: "queue_step op q = (r, q')" by fastforce
  from queue_step_refines [OF Cons.prems, of op] step have
    "list_step (queue_capacity q) op (pending q) = (r, pending q')" "queue_inv q'"
    "queue_capacity q' = queue_capacity q" by simp_all
  with Cons.IH [of q'] step show ?case by (simp add: case_prod_beta)
qed simp

text \<open>C26. The frame queue is a bounded first-in first-out list: over every sequence of retains,
  takes and resets it gives the answers of a list of at most its capacity, which accepts exactly
  the complete pairs whose two outputs carry the same identity.\<close>

theorem frame_queue_refines_bounded_list:
  assumes "new_queue cap = Some q"
  shows "fst (run_answers queue_step ops q) = fst (run_answers (list_step cap) ops [])"
proof -
  have "queue_inv q" "pending q = []" "queue_capacity q = cap"
    using assms by (auto simp: new_queue_def queue_inv_def pending_def split: if_splits)
  with queue_run_refines [of q ops] show ?thesis by simp
qed

definition demo_pair :: "u64 \<Rightarrow> SynchronizedFramePairIdentity" where
  "demo_pair n = \<lparr>identity_a = \<lparr>frame_id = n, pts_ns = n\<rparr>, identity_b = \<lparr>frame_id = n, pts_ns = n\<rparr>,
     resources_complete = True\<rparr>"

theorem frame_queue_refines_bounded_list_witness:
  "fst (run_answers queue_step [RetainOp (demo_pair 1), RetainOp (demo_pair 2), TakeOp, TakeOp]
      \<lparr>queue_capacity = 1, queue_head = 0, queue_frames = []\<rparr>) =
   [RetainAnswer QueueRetained, RetainAnswer QueueCapacity,
    TakeAnswer (Some \<lparr>frame_id = 1, pts_ns = 1\<rparr>), TakeAnswer None]"
  by (subst frame_queue_refines_bounded_list [where cap = 1])
    (simp_all add: new_queue_def list_step_def demo_pair_def)

subsection \<open>The storage behind it\<close>

fun ping_pong :: "nat \<Rightarrow> SynchronizedFramePairIdentity \<Rightarrow> SynchronizedFrameQueue \<Rightarrow> SynchronizedFrameQueue" where
  "ping_pong 0 p q = q"
| "ping_pong (Suc n) p q = ping_pong n p (snd (TakeNext (snd (TryRetain p q))))"

text \<open>The storage of the queue is not bounded by its capacity: while one frame stays pending,
  the vector is never compacted, so n rounds of retaining one pair and taking one frame leave n
  consumed frames in it, for any capacity of at least two.\<close>

theorem queue_storage_grows:
  assumes "2 \<le> cap" and "IsValid p" and "q = \<lparr>queue_capacity = cap, queue_head = h, queue_frames = fs\<rparr>"
    and "length fs = Suc h"
  shows "length (queue_frames (ping_pong n p q)) = length fs + n \<and> queue_size (ping_pong n p q) = 1"
  using assms(3,4)
proof (induction n arbitrary: q h fs)
  case 0
  then show ?case by (simp add: queue_size_def)
next
  case (Suc n)
  have "CanRetain p q = QueueRetained"
    using Suc.prems assms(1,2) by (simp add: CanRetain_def queue_size_def)
  then have "snd (TakeNext (snd (TryRetain p q))) =
      \<lparr>queue_capacity = cap, queue_head = Suc h, queue_frames = fs @ [identity_a p]\<rparr>"
    using Suc.prems by (simp add: TryRetain_def TakeNext_def CompactIfDrained_def Let_def)
  from Suc.IH [OF this] Suc.prems show ?case by simp
qed

theorem queue_storage_grows_witness:
  "length (queue_frames (ping_pong 100 (demo_pair 2)
      \<lparr>queue_capacity = 2, queue_head = 0, queue_frames = [\<lparr>frame_id = 1, pts_ns = 1\<rparr>]\<rparr>)) = 101"
  using queue_storage_grows [of 2 "demo_pair 2" _ 0 "[\<lparr>frame_id = 1, pts_ns = 1\<rparr>]" 100]
  by (simp add: demo_pair_def IsValid_def)

end
