(* ===== verification/SceneRender.thy ===== *)
theory SceneRender
  imports MasterTimeline
begin

text \<open>
  \<open>src/rendering/scene-renderer\<close> and \<open>src/rendering/scene-render-pair-tracker\<close>: rendering one
  configured scene into an off-screen target, and the accounting of the two results of one master
  frame. What libobs answers during one render (the source lookup, its size and colour space, the
  outcome of the target calls) is the record \<open>render_env\<close>, an input of the step.
\<close>

subsection \<open>Data\<close>

datatype OutputSlot = SlotA | SlotB

datatype SceneRenderStatus =
    Rendered | MissingScene | NotAScene | InvalidDimensions
  | RenderTargetCreationFailed | RenderTargetBeginFailed

type_synonym texture = nat

record SceneRenderResult =
  rr_frame :: MasterFrame
  rr_output :: OutputSlot
  rr_status :: SceneRenderStatus
  rr_scene_name :: string
  rr_width :: u32
  rr_height :: u32
  rr_color_space :: u32
  rr_color_format :: u32
  rr_texture :: "texture option"

subsection \<open>The renderer\<close>

record render_target =
  target_format :: u32
  target_id :: nat

record SceneRenderer =
  sr_output :: OutputSlot
  sr_scene_name :: string
  sr_target :: "render_target option"

record render_env =
  source_found :: bool
  source_is_scene :: bool
  source_width :: u32
  source_height :: u32
  source_color_space :: u32
  format_from_space :: "u32 \<Rightarrow> u32"
  texrender_create :: "nat option"
  texrender_begin_ok :: bool
  texrender_texture :: "texture option"

text \<open>Calls on render targets, as the renderer makes them.\<close>

datatype target_call = DestroyTarget nat | CreateTarget nat | DrawTarget nat

definition new_renderer :: "OutputSlot \<Rightarrow> string \<Rightarrow> SceneRenderer" where
  "new_renderer output name = \<lparr>sr_output = output, sr_scene_name = name, sr_target = None\<rparr>"

definition scene_Render :: "render_env \<Rightarrow> MasterFrame \<Rightarrow> SceneRenderer \<Rightarrow>
    SceneRenderResult \<times> SceneRenderer \<times> target_call list" where
  "scene_Render env f r =
     (let result = \<lparr>rr_frame = f, rr_output = sr_output r, rr_status = MissingScene,
            rr_scene_name = sr_scene_name r, rr_width = 0, rr_height = 0, rr_color_space = 0,
            rr_color_format = 0, rr_texture = None\<rparr>
      in if \<not> source_found env then (result, r, [])
         else if \<not> source_is_scene env then (result\<lparr>rr_status := NotAScene\<rparr>, r, [])
         else
      (let result = result\<lparr>rr_width := source_width env, rr_height := source_height env\<rparr>
       in if rr_width result = 0 \<or> rr_height result = 0
          then (result\<lparr>rr_status := InvalidDimensions\<rparr>, r, [])
          else
      (let space = source_color_space env;
           format = format_from_space env space;
           result = result\<lparr>rr_color_space := space, rr_color_format := format\<rparr>;
           (target, destroyed) =
             (case sr_target r of
                Some t \<Rightarrow> if target_format t \<noteq> format then (None, [DestroyTarget (target_id t)]) else (Some t, [])
              | None \<Rightarrow> (None, []));
           (target, created) =
             (case target of
                Some t \<Rightarrow> (Some t, [])
              | None \<Rightarrow> (case texrender_create env of
                           Some i \<Rightarrow> (Some \<lparr>target_format = format, target_id = i\<rparr>, [CreateTarget i])
                         | None \<Rightarrow> (None, [])));
           r = r\<lparr>sr_target := target\<rparr>
       in case target of
            None \<Rightarrow> (result\<lparr>rr_status := RenderTargetCreationFailed\<rparr>, r, destroyed @ created)
          | Some t \<Rightarrow>
              (if \<not> texrender_begin_ok env
               then (result\<lparr>rr_status := RenderTargetBeginFailed\<rparr>, r, destroyed @ created)
               else (result\<lparr>rr_status := Rendered, rr_texture := texrender_texture env\<rparr>, r,
                     destroyed @ created @ [DrawTarget (target_id t)])))))"

definition DestroyRenderTarget :: "SceneRenderer \<Rightarrow> SceneRenderer \<times> target_call list" where
  "DestroyRenderTarget r =
     (case sr_target r of
        Some t \<Rightarrow> (r\<lparr>sr_target := None\<rparr>, [DestroyTarget (target_id t)])
      | None \<Rightarrow> (r, []))"

fun OutputSlotName :: "OutputSlot \<Rightarrow> string" where
  "OutputSlotName SlotA = ''A''"
| "OutputSlotName SlotB = ''B''"

fun SceneRenderStatusName :: "SceneRenderStatus \<Rightarrow> string" where
  "SceneRenderStatusName Rendered = ''rendered''"
| "SceneRenderStatusName MissingScene = ''missing-scene''"
| "SceneRenderStatusName NotAScene = ''not-a-scene''"
| "SceneRenderStatusName InvalidDimensions = ''invalid-dimensions''"
| "SceneRenderStatusName RenderTargetCreationFailed = ''render-target-creation-failed''"
| "SceneRenderStatusName RenderTargetBeginFailed = ''render-target-begin-failed''"

subsection \<open>The pair tracker\<close>

record SceneRenderPairTracker =
  active_frame :: "MasterFrame option"
  output_a_recorded :: bool
  output_b_recorded :: bool

definition new_tracker :: SceneRenderPairTracker where
  "new_tracker = \<lparr>active_frame = None, output_a_recorded = False, output_b_recorded = False\<rparr>"

definition tracker_Begin :: "MasterFrame \<Rightarrow> SceneRenderPairTracker \<Rightarrow> bool \<times> SceneRenderPairTracker" where
  "tracker_Begin f t =
     (if active_frame t \<noteq> None then (False, t)
      else (True, t\<lparr>active_frame := Some f, output_a_recorded := False, output_b_recorded := False\<rparr>))"

definition tracker_Record :: "SceneRenderResult \<Rightarrow> SceneRenderPairTracker \<Rightarrow> bool \<times> SceneRenderPairTracker" where
  "tracker_Record result t =
     (case active_frame t of
        None \<Rightarrow> (False, t)
      | Some f \<Rightarrow>
          (if frame_id (rr_frame result) \<noteq> frame_id f \<or> pts_ns (rr_frame result) \<noteq> pts_ns f then (False, t)
           else case rr_output result of
             SlotA \<Rightarrow> (if output_a_recorded t then (False, t) else (True, t\<lparr>output_a_recorded := True\<rparr>))
           | SlotB \<Rightarrow> (if output_b_recorded t then (False, t) else (True, t\<lparr>output_b_recorded := True\<rparr>))))"

definition tracker_IsComplete :: "SceneRenderPairTracker \<Rightarrow> bool" where
  "tracker_IsComplete t \<longleftrightarrow> active_frame t \<noteq> None \<and> output_a_recorded t \<and> output_b_recorded t"

definition tracker_Reset :: "SceneRenderPairTracker \<Rightarrow> SceneRenderPairTracker" where
  "tracker_Reset t = t\<lparr>active_frame := None, output_a_recorded := False, output_b_recorded := False\<rparr>"

subsection \<open>One render\<close>

lemma scene_Render_identity:
  "rr_frame (fst (scene_Render env f r)) = f" "rr_output (fst (scene_Render env f r)) = sr_output r"
  "rr_scene_name (fst (scene_Render env f r)) = sr_scene_name r"
  by (simp_all add: scene_Render_def Let_def split: option.split)

lemma scene_Render_keeps:
  "sr_output (fst (snd (scene_Render env f r))) = sr_output r"
  "sr_scene_name (fst (snd (scene_Render env f r))) = sr_scene_name r"
  by (simp_all add: scene_Render_def Let_def split: option.split)

text \<open>The number of live targets of one renderer after a list of calls.\<close>

fun live_targets :: "target_call list \<Rightarrow> nat list \<Rightarrow> nat list" where
  "live_targets [] live = live"
| "live_targets (CreateTarget i # cs) live = live_targets cs (i # live)"
| "live_targets (DestroyTarget i # cs) live = live_targets cs (remove1 i live)"
| "live_targets (DrawTarget i # cs) live = live_targets cs live"

definition owned :: "SceneRenderer \<Rightarrow> nat list" where
  "owned r = (case sr_target r of Some t \<Rightarrow> [target_id t] | None \<Rightarrow> [])"

text \<open>One render on every branch: the result carries the frame and the output it was asked for;
  its status tells exactly which step failed, in the code's order; a rendered result has the
  source's non-zero size; and the renderer owns at most one target, of the format it renders with,
  having destroyed the one it replaces.\<close>

theorem scene_render_branches:
  "let (result, r', calls) = scene_Render env f r
   in rr_frame result = f \<and> rr_output result = sr_output r \<and>
      rr_status result =
        (if \<not> source_found env then MissingScene
         else if \<not> source_is_scene env then NotAScene
         else if source_width env = 0 \<or> source_height env = 0 then InvalidDimensions
         else if sr_target r' = None then RenderTargetCreationFailed
         else if \<not> texrender_begin_ok env then RenderTargetBeginFailed else Rendered) \<and>
      (rr_status result = Rendered \<longrightarrow> rr_width result = source_width env \<and> rr_height result = source_height env \<and>
         rr_width result \<noteq> 0 \<and> rr_height result \<noteq> 0 \<and>
         (\<exists>t. sr_target r' = Some t \<and> target_format t = rr_color_format result)) \<and>
      (rr_status result \<noteq> Rendered \<longrightarrow> rr_texture result = None) \<and>
      live_targets calls (owned r) = owned r'"
  by (auto simp: scene_Render_def Let_def owned_def split: option.split)

theorem scene_render_branches_witness:
  "rr_status (fst (scene_Render \<lparr>source_found = True, source_is_scene = True, source_width = 4,
      source_height = 0, source_color_space = 0, format_from_space = (\<lambda>x. x), texrender_create = Some 1,
      texrender_begin_ok = True, texrender_texture = Some 9\<rparr> \<lparr>frame_id = 0, pts_ns = 1\<rparr>
      (new_renderer SlotA ''s''))) = InvalidDimensions"
proof -
  let ?env = "\<lparr>source_found = True, source_is_scene = True, source_width = 4,
      source_height = 0, source_color_space = 0, format_from_space = (\<lambda>x. x), texrender_create = Some 1,
      texrender_begin_ok = True, texrender_texture = Some 9\<rparr>"
  show ?thesis
    using scene_render_branches [of ?env "\<lparr>frame_id = 0, pts_ns = 1\<rparr>" "new_renderer SlotA ''s''"]
    by (simp add: case_prod_beta)
qed

text \<open>The tracker completes a frame exactly when both outputs recorded a result of that frame:
  from an idle tracker, beginning a frame and recording two results is complete if and only if both
  carry the frame's identity and they are of different outputs; a second Begin is refused.\<close>

theorem tracker_completes_exact_pairs:
  assumes "active_frame t = None"
  shows "let t1 = snd (tracker_Begin f t); t2 = snd (tracker_Record x t1); t3 = snd (tracker_Record y t2)
     in fst (tracker_Begin f t) \<and> \<not> fst (tracker_Begin g t1) \<and>
        (tracker_IsComplete t3 \<longleftrightarrow> rr_frame x = f \<and> rr_frame y = f \<and> rr_output x \<noteq> rr_output y) \<and>
        active_frame (tracker_Reset t3) = None"
proof -
  have rec: "tracker_Record z s = (case active_frame s of None \<Rightarrow> (False, s)
      | Some f \<Rightarrow> if rr_frame z \<noteq> f then (False, s)
         else case rr_output z of
           SlotA \<Rightarrow> (if output_a_recorded s then (False, s) else (True, s\<lparr>output_a_recorded := True\<rparr>))
         | SlotB \<Rightarrow> (if output_b_recorded s then (False, s) else (True, s\<lparr>output_b_recorded := True\<rparr>)))" for z s
    unfolding tracker_Record_def by (intro option.case_cong refl if_cong) auto
  show ?thesis
    using assms
    by (cases "rr_output x"; cases "rr_output y")
      (simp_all add: tracker_Begin_def rec tracker_IsComplete_def tracker_Reset_def Let_def)
qed

definition demo_result :: "OutputSlot \<Rightarrow> u64 \<Rightarrow> SceneRenderResult" where
  "demo_result slot n = \<lparr>rr_frame = \<lparr>frame_id = n, pts_ns = n\<rparr>, rr_output = slot, rr_status = Rendered,
     rr_scene_name = ''s'', rr_width = 1, rr_height = 1, rr_color_space = 0, rr_color_format = 0,
     rr_texture = Some 1\<rparr>"

theorem tracker_completes_exact_pairs_witness:
  "\<not> tracker_IsComplete (snd (tracker_Record (demo_result SlotB 4)
      (snd (tracker_Record (demo_result SlotA 3)
        (snd (tracker_Begin \<lparr>frame_id = 3, pts_ns = 3\<rparr> new_tracker))))))"
proof -
  have "active_frame new_tracker = None" by (simp add: new_tracker_def)
  from tracker_completes_exact_pairs [OF this, of "\<lparr>frame_id = 3, pts_ns = 3\<rparr>" "demo_result SlotA 3"
      "demo_result SlotB 4"]
  show ?thesis by (simp add: Let_def demo_result_def)
qed

end
