(* ===== verification/FramePipeline.thy ===== *)
theory FramePipeline
  imports FrameQueue SceneRender
begin

text \<open>
  \<open>src/pipeline/synchronized-frame-pipeline\<close>: the owner of the retained GPU frame pairs. What
  \<open>gs_texture_create\<close> answers (a texture or null) is an input of a capture; the calls on textures
  are collected in order, destructors included, so that ownership can be stated as a balance of
  created and destroyed textures.
\<close>

subsection \<open>Data\<close>

record RetainedGpuFrame =
  gf_master_frame :: MasterFrame
  gf_output :: OutputSlot
  gf_width :: u32
  gf_height :: u32
  gf_color_space :: u32
  gf_color_format :: u32
  gf_texture :: texture

record SynchronizedFramePair =
  pair_master_frame :: MasterFrame
  pair_output_a :: RetainedGpuFrame
  pair_output_b :: RetainedGpuFrame

datatype SynchronizedFramePipelineResult =
  PipelineRetained | PipelineInvalidPair | PipelineCapacity | TextureCreationFailed

record SynchronizedFramePipeline =
  frame_queue :: SynchronizedFrameQueue
  retained_pairs :: "SynchronizedFramePair list"

datatype texture_call =
    CreateTexture texture
  | CopyTexture texture "texture option"
  | DestroyTexture texture

definition new_pipeline :: "nat \<Rightarrow> SynchronizedFramePipeline option" where
  "new_pipeline cap = map_option (\<lambda>q. \<lparr>frame_queue = q, retained_pairs = []\<rparr>) (new_queue cap)"

subsection \<open>Operations\<close>

definition PairIdentity :: "SceneRenderResult \<Rightarrow> SceneRenderResult \<Rightarrow> SynchronizedFramePairIdentity" where
  "PairIdentity a b =
     \<lparr>identity_a = rr_frame a, identity_b = rr_frame b,
      resources_complete = (rr_status a = Rendered \<and> rr_status b = Rendered \<and>
        rr_output a = SlotA \<and> rr_output b = SlotB \<and> rr_texture a \<noteq> None \<and> rr_texture b \<noteq> None \<and>
        rr_width a \<noteq> 0 \<and> rr_height a \<noteq> 0 \<and> rr_width b \<noteq> 0 \<and> rr_height b \<noteq> 0)\<rparr>"

definition CopyFrom :: "texture option \<Rightarrow> SceneRenderResult \<Rightarrow>
    RetainedGpuFrame option \<times> texture_call list" where
  "CopyFrom created result =
     (case created of
        None \<Rightarrow> (None, [])
      | Some t \<Rightarrow>
          (Some \<lparr>gf_master_frame = rr_frame result, gf_output = rr_output result,
                 gf_width = rr_width result, gf_height = rr_height result,
                 gf_color_space = rr_color_space result, gf_color_format = rr_color_format result,
                 gf_texture = t\<rparr>,
           [CreateTexture t, CopyTexture t (rr_texture result)]))"

text \<open>The destructors of a retained frame and of a pair, whose members go in reverse order.\<close>

definition destroy_frame :: "RetainedGpuFrame option \<Rightarrow> texture_call list" where
  "destroy_frame g = (case g of Some g \<Rightarrow> [DestroyTexture (gf_texture g)] | None \<Rightarrow> [])"

definition destroy_pair :: "SynchronizedFramePair \<Rightarrow> texture_call list" where
  "destroy_pair p = destroy_frame (Some (pair_output_b p)) @ destroy_frame (Some (pair_output_a p))"

definition Capture :: "texture option \<Rightarrow> texture option \<Rightarrow> SceneRenderResult \<Rightarrow> SceneRenderResult \<Rightarrow>
    SynchronizedFramePipeline \<Rightarrow>
    SynchronizedFramePipelineResult \<times> SynchronizedFramePipeline \<times> texture_call list" where
  "Capture created_a created_b a b p =
     (let identity = PairIdentity a b
      in case CanRetain identity (frame_queue p) of
           QueueInvalidPair \<Rightarrow> (PipelineInvalidPair, p, [])
         | QueueCapacity \<Rightarrow> (PipelineCapacity, p, [])
         | QueueRetained \<Rightarrow>
             (let (retained_a, calls_a) = CopyFrom created_a a;
                  (retained_b, calls_b) = CopyFrom created_b b
              in case (retained_a, retained_b) of
                   (Some ga, Some gb) \<Rightarrow>
                     (let pair = \<lparr>pair_master_frame = gf_master_frame ga, pair_output_a = ga, pair_output_b = gb\<rparr>;
                          (res, q) = TryRetain identity (frame_queue p)
                      in if res \<noteq> QueueRetained
                         then (PipelineInvalidPair, p\<lparr>frame_queue := q\<rparr>, calls_a @ calls_b @ destroy_pair pair)
                         else (PipelineRetained,
                               p\<lparr>frame_queue := q, retained_pairs := retained_pairs p @ [pair]\<rparr>,
                               calls_a @ calls_b))
                 | _ \<Rightarrow> (TextureCreationFailed, p,
                         calls_a @ calls_b @ destroy_frame retained_b @ destroy_frame retained_a)))"

text \<open>The third component tells whether the assertions of \<open>TakeNext\<close> hold.\<close>

definition pipeline_TakeNext :: "SynchronizedFramePipeline \<Rightarrow>
    SynchronizedFramePair option \<times> SynchronizedFramePipeline \<times> bool" where
  "pipeline_TakeNext p =
     (case retained_pairs p of
        [] \<Rightarrow> (None, p, True)
      | pair # rest \<Rightarrow>
          (let (queued, q) = TakeNext (frame_queue p)
           in (Some pair, p\<lparr>frame_queue := q, retained_pairs := rest\<rparr>,
               case queued of
                 None \<Rightarrow> False
               | Some f \<Rightarrow> frame_id f = frame_id (pair_master_frame pair) \<and>
                            pts_ns f = pts_ns (pair_master_frame pair))))"

definition pipeline_Reset :: "SynchronizedFramePipeline \<Rightarrow> SynchronizedFramePipeline \<times> texture_call list" where
  "pipeline_Reset p =
     (p\<lparr>retained_pairs := [], frame_queue := queue_Reset (frame_queue p)\<rparr>,
      concat (map destroy_pair (retained_pairs p)))"

fun SynchronizedFramePipelineResultName :: "SynchronizedFramePipelineResult \<Rightarrow> string" where
  "SynchronizedFramePipelineResultName PipelineRetained = ''retained''"
| "SynchronizedFramePipelineResultName PipelineInvalidPair = ''invalid-pair''"
| "SynchronizedFramePipelineResultName PipelineCapacity = ''capacity''"
| "SynchronizedFramePipelineResultName TextureCreationFailed = ''texture-creation-failed''"

subsection \<open>Lockstep and ownership\<close>

definition pair_ok :: "SynchronizedFramePair \<Rightarrow> bool" where
  "pair_ok x \<longleftrightarrow> gf_master_frame (pair_output_a x) = pair_master_frame x \<and>
     gf_master_frame (pair_output_b x) = pair_master_frame x \<and>
     gf_output (pair_output_a x) = SlotA \<and> gf_output (pair_output_b x) = SlotB"

definition pipeline_inv :: "SynchronizedFramePipeline \<Rightarrow> bool" where
  "pipeline_inv p \<longleftrightarrow> queue_inv (frame_queue p) \<and>
     map pair_master_frame (retained_pairs p) = pending (frame_queue p) \<and>
     (\<forall>x \<in> set (retained_pairs p). pair_ok x)"

definition pair_textures :: "SynchronizedFramePair \<Rightarrow> texture multiset" where
  "pair_textures x = {#gf_texture (pair_output_a x), gf_texture (pair_output_b x)#}"

definition owned_textures :: "SynchronizedFramePair list \<Rightarrow> texture multiset" where
  "owned_textures xs = sum_mset (image_mset pair_textures (mset xs))"

definition created :: "texture_call list \<Rightarrow> texture multiset" where
  "created cs = mset (concat (map (\<lambda>c. case c of CreateTexture t \<Rightarrow> [t] | _ \<Rightarrow> []) cs))"

definition destroyed :: "texture_call list \<Rightarrow> texture multiset" where
  "destroyed cs = mset (concat (map (\<lambda>c. case c of DestroyTexture t \<Rightarrow> [t] | _ \<Rightarrow> []) cs))"

lemma calls_simps [simp]:
  "created [] = {#}" "destroyed [] = {#}"
  "created (cs @ ds) = created cs + created ds" "destroyed (cs @ ds) = destroyed cs + destroyed ds"
  "created (CreateTexture t # cs) = add_mset t (created cs)" "created (CopyTexture t s # cs) = created cs"
  "created (DestroyTexture t # cs) = created cs"
  "destroyed (CreateTexture t # cs) = destroyed cs" "destroyed (CopyTexture t s # cs) = destroyed cs"
  "destroyed (DestroyTexture t # cs) = add_mset t (destroyed cs)"
  by (simp_all add: created_def destroyed_def)

lemma owned_simps [simp]:
  "owned_textures [] = {#}" "owned_textures (x # xs) = pair_textures x + owned_textures xs"
  "owned_textures (xs @ ys) = owned_textures xs + owned_textures ys"
  by (simp_all add: owned_textures_def)

lemma destroy_pairs [simp]:
  "destroyed (concat (map destroy_pair xs)) = owned_textures xs" "created (concat (map destroy_pair xs)) = {#}"
  by (induction xs) (simp_all add: destroy_pair_def destroy_frame_def pair_textures_def)

lemma IsValid_PairIdentity:
  "IsValid (PairIdentity a b) \<Longrightarrow> rr_frame a = rr_frame b \<and> rr_output a = SlotA \<and> rr_output b = SlotB"
  by (simp add: IsValid_eq PairIdentity_def)

lemma Capture_keeps:
  assumes inv: "pipeline_inv p" and cap: "Capture ca cb a b p = (res, p', calls)"
  shows "pipeline_inv p' \<and> queue_capacity (frame_queue p') = queue_capacity (frame_queue p) \<and>
    owned_textures (retained_pairs p) + created calls = owned_textures (retained_pairs p') + destroyed calls \<and>
    (res = PipelineRetained \<longleftrightarrow> retained_pairs p' \<noteq> retained_pairs p)"
proof (cases "CanRetain (PairIdentity a b) (frame_queue p)")
  case QueueRetained
  let ?q = "snd (TryRetain (PairIdentity a b) (frame_queue p))"
  have q: "queue_inv (frame_queue p)" and lock: "map pair_master_frame (retained_pairs p) = pending (frame_queue p)"
    using inv by (simp_all add: pipeline_inv_def)
  have "IsValid (PairIdentity a b)"
    using QueueRetained by (auto simp: CanRetain_def split: if_splits)
  note same = IsValid_PairIdentity [OF this]
  obtain q' where tried: "TryRetain (PairIdentity a b) (frame_queue p) = (QueueRetained, q')"
    using QueueRetained by (simp add: TryRetain_def Let_def)
  then have q': "?q = q'" by simp
  show ?thesis
  proof (cases "ca = None \<or> cb = None")
    case True
    with cap QueueRetained inv show ?thesis
      by (auto simp: Capture_def CopyFrom_def destroy_frame_def Let_def split: option.splits)
  next
    case False
    then obtain ta tb where t: "ca = Some ta" "cb = Some tb" by auto
    obtain x where x: "p' = p\<lparr>frame_queue := q', retained_pairs := retained_pairs p @ [x]\<rparr>"
      "res = PipelineRetained" "pair_ok x" "pair_master_frame x = rr_frame a" "created calls = pair_textures x"
      "destroyed calls = {#}"
      using cap QueueRetained t tried same
      by (auto simp: Capture_def CopyFrom_def Let_def pair_ok_def pair_textures_def)
    have "map pair_master_frame (retained_pairs p @ [x]) = pending q'"
      unfolding q' [symmetric] by (rule fifo.step_retain [OF q QueueRetained lock]) (simp add: x(4) PairIdentity_def)
    with x inv fifo.invar_retain [OF q QueueRetained] fifo.bound_retain [of "PairIdentity a b" "frame_queue p"] q' show ?thesis
      by (auto simp: pipeline_inv_def)
  qed
qed (use cap inv in \<open>auto simp: Capture_def Let_def\<close>)

lemma TakeNext_keeps:
  assumes inv: "pipeline_inv p" and take: "pipeline_TakeNext p = (out, p', ok)"
  shows "pipeline_inv p' \<and> ok \<and> queue_capacity (frame_queue p') = queue_capacity (frame_queue p) \<and>
    retained_pairs p = (case out of Some x \<Rightarrow> x # retained_pairs p' | None \<Rightarrow> retained_pairs p') \<and>
    (out = None \<longleftrightarrow> pending (frame_queue p) = [])"
proof (cases "retained_pairs p")
  case Nil
  with inv take show ?thesis by (auto simp: pipeline_TakeNext_def pipeline_inv_def)
next
  case (Cons x xs)
  have q: "queue_inv (frame_queue p)" and lock: "map pair_master_frame (x # xs) = pending (frame_queue p)"
    using inv Cons by (simp_all add: pipeline_inv_def)
  from fifo.step_take [OF q lock] take Cons inv fifo.invar_take [OF q] fifo.bound_take lock show ?thesis
    by (auto simp: pipeline_TakeNext_def pipeline_inv_def case_prod_beta)
qed

lemma Reset_keeps:
  assumes inv: "pipeline_inv p" and reset: "pipeline_Reset p = (p', calls)"
  shows "pipeline_inv p' \<and> retained_pairs p' = [] \<and> queue_capacity (frame_queue p') = queue_capacity (frame_queue p) \<and>
    destroyed calls = owned_textures (retained_pairs p) \<and> created calls = {#}"
  using assms fifo.invar_clear [of "frame_queue p"] fifo.contents_clear [of "frame_queue p"]
    fifo.bound_clear [of "frame_queue p"]
  by (auto simp: pipeline_Reset_def pipeline_inv_def)

subsection \<open>Runs\<close>

datatype pipeline_op =
    CaptureOp "texture option" "texture option" SceneRenderResult SceneRenderResult
  | TakePairOp
  | ResetPipelineOp

text \<open>A run collects the texture calls, the pairs handed out, and whether every assertion held.\<close>

record pipeline_run =
  run_pipeline :: SynchronizedFramePipeline
  run_calls :: "texture_call list"
  run_taken :: "SynchronizedFramePair list"
  run_asserts :: bool

definition pipeline_step :: "pipeline_op \<Rightarrow> pipeline_run \<Rightarrow> pipeline_run" where
  "pipeline_step op r = (case op of
       CaptureOp ca cb a b \<Rightarrow>
         (let (res, p, calls) = Capture ca cb a b (run_pipeline r)
          in r\<lparr>run_pipeline := p, run_calls := run_calls r @ calls\<rparr>)
     | TakePairOp \<Rightarrow>
         (let (out, p, ok) = pipeline_TakeNext (run_pipeline r)
          in r\<lparr>run_pipeline := p, run_taken := run_taken r @ (case out of Some x \<Rightarrow> [x] | None \<Rightarrow> []),
               run_asserts := run_asserts r \<and> ok\<rparr>)
     | ResetPipelineOp \<Rightarrow>
         (let (p, calls) = pipeline_Reset (run_pipeline r)
          in r\<lparr>run_pipeline := p, run_calls := run_calls r @ calls\<rparr>))"

definition run_inv :: "nat \<Rightarrow> pipeline_run \<Rightarrow> bool" where
  "run_inv cap r \<longleftrightarrow> pipeline_inv (run_pipeline r) \<and> queue_capacity (frame_queue (run_pipeline r)) = cap \<and>
     run_asserts r \<and> (\<forall>x \<in> set (run_taken r). pair_ok x) \<and>
     created (run_calls r) = destroyed (run_calls r) +
       owned_textures (retained_pairs (run_pipeline r)) + owned_textures (run_taken r)"

lemma run_inv_step: "run_inv cap r \<Longrightarrow> run_inv cap (pipeline_step op r)"
proof (cases op)
  case (CaptureOp ca cb a b)
  assume inv: "run_inv cap r"
  obtain res p' calls where c: "Capture ca cb a b (run_pipeline r) = (res, p', calls)" by (metis prod_cases3)
  from inv Capture_keeps [OF _ c] CaptureOp c show ?thesis
    by (auto simp: run_inv_def pipeline_step_def ac_simps)
next
  case TakePairOp
  assume inv: "run_inv cap r"
  obtain out p' ok where t: "pipeline_TakeNext (run_pipeline r) = (out, p', ok)" by (metis prod_cases3)
  have p: "pipeline_inv (run_pipeline r)" using inv by (simp add: run_inv_def)
  note keep = TakeNext_keeps [OF p t]
  from keep inv TakePairOp t show ?thesis
    by (cases out) (auto simp: run_inv_def pipeline_step_def pipeline_inv_def ac_simps)
next
  case ResetPipelineOp
  assume inv: "run_inv cap r"
  obtain p' calls where t: "pipeline_Reset (run_pipeline r) = (p', calls)" by fastforce
  from inv Reset_keeps [OF _ t] ResetPipelineOp t show ?thesis
    by (auto simp: run_inv_def pipeline_step_def ac_simps)
qed

lemma run_inv_fold: "run_inv cap r \<Longrightarrow> run_inv cap (fold pipeline_step ops r)"
  by (induction ops arbitrary: r) (simp_all add: run_inv_step)

text \<open>C24. Over every sequence of captures, takes and resets, whatever texture creation answers: the
  retained pairs and the frame queue stay in lockstep and within the capacity (so the assertions of
  TakeNext hold), both outputs of every pair ever retained or handed out carry the pair's own
  master frame, A first, and every texture created is destroyed, or owned by a retained pair, or
  was handed out with a pair: none leaks and none is freed twice.\<close>

theorem pipeline_lockstep_and_ownership:
  assumes "new_pipeline cap = Some p"
  shows "let r = fold pipeline_step ops \<lparr>run_pipeline = p, run_calls = [], run_taken = [], run_asserts = True\<rparr>
     in run_asserts r \<and> length (retained_pairs (run_pipeline r)) \<le> cap \<and>
        map pair_master_frame (retained_pairs (run_pipeline r)) = pending (frame_queue (run_pipeline r)) \<and>
        (\<forall>x \<in> set (retained_pairs (run_pipeline r)) \<union> set (run_taken r).
           gf_master_frame (pair_output_a x) = gf_master_frame (pair_output_b x) \<and>
           gf_output (pair_output_a x) = SlotA \<and> gf_output (pair_output_b x) = SlotB) \<and>
        created (run_calls r) = destroyed (run_calls r) +
          owned_textures (retained_pairs (run_pipeline r)) + owned_textures (run_taken r)"
proof -
  let ?r0 = "\<lparr>run_pipeline = p, run_calls = [], run_taken = [], run_asserts = True\<rparr>"
  have "run_inv cap ?r0"
    using assms by (auto simp: new_pipeline_def new_queue_def run_inv_def pipeline_inv_def queue_inv_def
        pending_def split: if_splits)
  from run_inv_fold [OF this, of ops] have inv: "run_inv cap (fold pipeline_step ops ?r0)" .
  then have "length (pending (frame_queue (run_pipeline (fold pipeline_step ops ?r0)))) \<le> cap"
    using fifo.bounded by (auto simp: run_inv_def pipeline_inv_def)
  with inv show ?thesis
    by (auto simp: run_inv_def pipeline_inv_def pair_ok_def Let_def) (metis length_map)
qed

theorem pipeline_lockstep_and_ownership_witness:
  "run_asserts (fold pipeline_step
      [CaptureOp (Some 1) (Some 2) (demo_result SlotA 7) (demo_result SlotB 7),
       CaptureOp (Some 3) None (demo_result SlotA 8) (demo_result SlotB 8), TakePairOp]
      \<lparr>run_pipeline = \<lparr>frame_queue = \<lparr>queue_capacity = 4, queue_head = 0, queue_frames = []\<rparr>,
         retained_pairs = []\<rparr>, run_calls = [], run_taken = [], run_asserts = True\<rparr>)"
proof -
  have "new_pipeline 4 = Some \<lparr>frame_queue = \<lparr>queue_capacity = 4, queue_head = 0, queue_frames = []\<rparr>,
      retained_pairs = []\<rparr>"
    by (simp add: new_pipeline_def new_queue_def)
  from pipeline_lockstep_and_ownership [OF this] show ?thesis unfolding Let_def by blast
qed

end
