(* ===== verification/SyncRenderer.thy ===== *)
theory SyncRenderer
  imports FramePipeline "HOL-Library.Sublist"
begin

text \<open>
  \<open>src/rendering/synchronized-scene-renderer\<close>: the two scene renderers, the pair tracker and the
  frame pipeline driven by one master frame at a time. Log lines are values of a datatype, emitted
  in order, with the fields the properties speak of.
\<close>

datatype log_level = LogError | LogWarning | LogInfo | LogDebug

datatype renderer_log =
    RenderAfterStop MasterFrame
  | ReentrantDispatch MasterFrame
  | IncompletePair MasterFrame
  | RejectedResult MasterFrame OutputSlot
  | RenderStatusLog log_level SceneRenderResult
  | PipelineLog log_level MasterFrame SynchronizedFramePipelineResult string nat nat

record SynchronizedSceneRenderer =
  scene_a_renderer :: SceneRenderer
  scene_b_renderer :: SceneRenderer
  pair_tracker :: SceneRenderPairTracker
  pipeline :: SynchronizedFramePipeline
  last_status_a :: "SceneRenderStatus option"
  last_status_b :: "SceneRenderStatus option"
  last_pipeline_result :: "SynchronizedFramePipelineResult option"
  renderer_stopped :: bool

text \<open>The pipeline is built with capacity 4.\<close>

definition new_sync_renderer :: "string \<Rightarrow> string \<Rightarrow> SynchronizedSceneRenderer" where
  "new_sync_renderer scene_a scene_b =
     \<lparr>scene_a_renderer = new_renderer SlotA scene_a, scene_b_renderer = new_renderer SlotB scene_b,
      pair_tracker = new_tracker, pipeline = the (new_pipeline 4),
      last_status_a = None, last_status_b = None, last_pipeline_result = None, renderer_stopped = False\<rparr>"

definition PipelineFailureReason :: "SceneRenderResult \<Rightarrow> SceneRenderResult \<Rightarrow>
    SynchronizedFramePipelineResult \<Rightarrow> string" where
  "PipelineFailureReason a b res =
     (if res = PipelineCapacity then ''capacity''
      else if res = TextureCreationFailed then ''texture-creation''
      else if res \<noteq> PipelineInvalidPair then ''none''
      else if frame_id (rr_frame a) \<noteq> frame_id (rr_frame b) \<or> pts_ns (rr_frame a) \<noteq> pts_ns (rr_frame b)
      then ''master-identity-mismatch''
      else if rr_status a \<noteq> Rendered \<or> rr_status b \<noteq> Rendered then ''render-incomplete''
      else ''render-resource-invalid'')"

definition sampled :: "MasterFrame \<Rightarrow> bool" where
  "sampled f \<longleftrightarrow> frame_id f < 3 \<or> frame_id f mod 300 = 0"

definition RecordAndLog :: "SceneRenderResult \<Rightarrow> SynchronizedSceneRenderer \<Rightarrow>
    SynchronizedSceneRenderer \<times> renderer_log list" where
  "RecordAndLog result r =
     (let (ok, t) = tracker_Record result (pair_tracker r);
          r = r\<lparr>pair_tracker := t\<rparr>
      in if \<not> ok then (r, [RejectedResult (rr_frame result) (rr_output result)])
         else
      (let last = (case rr_output result of SlotA \<Rightarrow> last_status_a r | SlotB \<Rightarrow> last_status_b r);
           status_changed = (last = None \<or> last \<noteq> Some (rr_status result));
           r = (case rr_output result of
                  SlotA \<Rightarrow> r\<lparr>last_status_a := Some (rr_status result)\<rparr>
                | SlotB \<Rightarrow> r\<lparr>last_status_b := Some (rr_status result)\<rparr>)
       in if rr_status result \<noteq> Rendered \<and> \<not> status_changed \<and> \<not> sampled (rr_frame result) then (r, [])
          else (r, [RenderStatusLog
                     (if rr_status result = Rendered
                      then (if sampled (rr_frame result) then LogInfo else LogDebug) else LogWarning)
                     result])))"

definition CaptureAndLog :: "texture option \<Rightarrow> texture option \<Rightarrow> SceneRenderResult \<Rightarrow> SceneRenderResult \<Rightarrow>
    SynchronizedSceneRenderer \<Rightarrow> SynchronizedSceneRenderer \<times> renderer_log list \<times> texture_call list" where
  "CaptureAndLog created_a created_b a b r =
     (let (res, p, calls) = Capture created_a created_b a b (pipeline r);
          f = rr_frame a;
          status_changed = (last_pipeline_result r = None \<or> last_pipeline_result r \<noteq> Some res);
          r = r\<lparr>pipeline := p, last_pipeline_result := Some res\<rparr>
      in if res \<noteq> PipelineRetained \<and> \<not> status_changed \<and> \<not> sampled f then (r, [], calls)
         else
      (let level = (if res = PipelineRetained then (if sampled f \<or> status_changed then LogInfo else LogDebug)
                    else if res = PipelineInvalidPair then LogError else LogWarning)
       in (r, [PipelineLog level f res (PipelineFailureReason a b res)
                 (queue_size (frame_queue p)) (queue_capacity (frame_queue p))], calls)))"

text \<open>What libobs answers while one frame is rendered and captured.\<close>

record frame_env =
  env_a :: render_env
  env_b :: render_env
  copy_a :: "texture option"
  copy_b :: "texture option"

definition sync_Render :: "frame_env \<Rightarrow> MasterFrame \<Rightarrow> SynchronizedSceneRenderer \<Rightarrow>
    SynchronizedSceneRenderer \<times> renderer_log list \<times> target_call list \<times> texture_call list" where
  "sync_Render env f r =
     (if renderer_stopped r then (r, [RenderAfterStop f], [], [])
      else
     (let (begun, t) = tracker_Begin f (pair_tracker r)
      in if \<not> begun then (r, [ReentrantDispatch f], [], [])
         else
      (let r = r\<lparr>pair_tracker := t\<rparr>;
           (a, ra, targets_a) = scene_Render (env_a env) f (scene_a_renderer r);
           r = r\<lparr>scene_a_renderer := ra\<rparr>;
           (b, rb, targets_b) = scene_Render (env_b env) f (scene_b_renderer r);
           r = r\<lparr>scene_b_renderer := rb\<rparr>;
           (r, log_a) = RecordAndLog a r;
           (r, log_b) = RecordAndLog b r;
           (r, log_c, calls) = CaptureAndLog (copy_a env) (copy_b env) a b r;
           log_d = (if \<not> tracker_IsComplete (pair_tracker r) then [IncompletePair f] else [])
       in (r\<lparr>pair_tracker := tracker_Reset (pair_tracker r)\<rparr>, log_a @ log_b @ log_c @ log_d,
           targets_a @ targets_b, calls))))"

definition sync_Stop :: "SynchronizedSceneRenderer \<Rightarrow>
    SynchronizedSceneRenderer \<times> target_call list \<times> texture_call list" where
  "sync_Stop r =
     (if renderer_stopped r then (r, [], [])
      else
        (let (p, calls) = pipeline_Reset (pipeline r);
             (ra, targets_a) = DestroyRenderTarget (scene_a_renderer r);
             (rb, targets_b) = DestroyRenderTarget (scene_b_renderer r)
         in (r\<lparr>renderer_stopped := True, pair_tracker := tracker_Reset (pair_tracker r), pipeline := p,
               scene_a_renderer := ra, scene_b_renderer := rb\<rparr>, targets_a @ targets_b, calls)))"

subsection \<open>The invariant between frames\<close>

definition renderer_inv :: "SynchronizedSceneRenderer \<Rightarrow> bool" where
  "renderer_inv r \<longleftrightarrow> active_frame (pair_tracker r) = None \<and> pipeline_inv (pipeline r) \<and>
     queue_capacity (frame_queue (pipeline r)) = 4 \<and>
     sr_output (scene_a_renderer r) = SlotA \<and> sr_output (scene_b_renderer r) = SlotB"

definition internal_error :: "renderer_log \<Rightarrow> bool" where
  "internal_error l \<longleftrightarrow> (case l of ReentrantDispatch _ \<Rightarrow> True | IncompletePair _ \<Rightarrow> True
     | RejectedResult _ _ \<Rightarrow> True | _ \<Rightarrow> False)"

lemma renderer_inv_new: "renderer_inv (new_sync_renderer a b)"
  by (simp add: renderer_inv_def new_sync_renderer_def new_tracker_def new_pipeline_def new_queue_def
      pipeline_inv_def queue_inv_def pending_def new_renderer_def)

lemma RecordAndLog_records:
  assumes "tracker_Record result (pair_tracker r) = (True, t)"
  shows "pair_tracker (fst (RecordAndLog result r)) = t" "pipeline (fst (RecordAndLog result r)) = pipeline r"
    "scene_a_renderer (fst (RecordAndLog result r)) = scene_a_renderer r"
    "scene_b_renderer (fst (RecordAndLog result r)) = scene_b_renderer r"
    "renderer_stopped (fst (RecordAndLog result r)) = renderer_stopped r"
    "\<forall>l \<in> set (snd (RecordAndLog result r)). \<not> internal_error l"
  by (auto simp: RecordAndLog_def assms Let_def internal_error_def split: OutputSlot.split)

lemma CaptureAndLog_frame:
  assumes "CaptureAndLog ca cb a b r = (r', logs, calls)"
  shows "\<exists>res p. Capture ca cb a b (pipeline r) = (res, p, calls) \<and>
      r' = r\<lparr>pipeline := p, last_pipeline_result := Some res\<rparr>" "\<forall>l \<in> set logs. \<not> internal_error l"
  using assms
  by (auto simp: CaptureAndLog_def Let_def internal_error_def split: prod.splits if_splits)

lemma sync_Render_shape:
  assumes inv: "renderer_inv r" and run: "\<not> renderer_stopped r"
    and out: "sync_Render env f r = (r', logs, targets, calls)"
  shows "renderer_inv r'" "\<not> renderer_stopped r'" "\<forall>l \<in> set logs. \<not> internal_error l"
    "\<exists>a b res. rr_frame a = f \<and> rr_frame b = f \<and> Capture (copy_a env) (copy_b env) a b (pipeline r) = (res, pipeline r', calls)"
proof -
  obtain a ra ta where a: "scene_Render (env_a env) f (scene_a_renderer r) = (a, ra, ta)" by (metis prod_cases3)
  obtain b rb tb where b: "scene_Render (env_b env) f (scene_b_renderer r) = (b, rb, tb)" by (metis prod_cases3)
  have idle: "active_frame (pair_tracker r) = None" using inv by (simp add: renderer_inv_def)
  have ida: "rr_frame a = f" "rr_output a = SlotA" "sr_output ra = SlotA"
    using scene_Render_identity [of "env_a env" f "scene_a_renderer r"]
      scene_Render_keeps [of "env_a env" f "scene_a_renderer r"] a inv by (simp_all add: renderer_inv_def)
  have idb: "rr_frame b = f" "rr_output b = SlotB" "sr_output rb = SlotB"
    using scene_Render_identity [of "env_b env" f "scene_b_renderer r"]
      scene_Render_keeps [of "env_b env" f "scene_b_renderer r"] b inv by (simp_all add: renderer_inv_def)
  define t1 where "t1 = (pair_tracker r)\<lparr>active_frame := Some f, output_a_recorded := False, output_b_recorded := False\<rparr>"
  define r1 where "r1 = r\<lparr>pair_tracker := t1, scene_a_renderer := ra, scene_b_renderer := rb\<rparr>"
  have rec_a: "tracker_Record a (pair_tracker r1) = (True, t1\<lparr>output_a_recorded := True\<rparr>)"
    using ida by (simp add: tracker_Record_def r1_def t1_def)
  obtain r2 la where r2: "RecordAndLog a r1 = (r2, la)" by fastforce
  note R2 = RecordAndLog_records [OF rec_a, unfolded r2 fst_conv snd_conv]
  have rec_b: "tracker_Record b (pair_tracker r2) =
      (True, t1\<lparr>output_a_recorded := True, output_b_recorded := True\<rparr>)"
    using idb R2(1) by (simp add: tracker_Record_def t1_def)
  obtain r3 lb where r3: "RecordAndLog b r2 = (r3, lb)" by fastforce
  note R3 = RecordAndLog_records [OF rec_b, unfolded r3 fst_conv snd_conv]
  obtain r4 lc cs where r4: "CaptureAndLog (copy_a env) (copy_b env) a b r3 = (r4, lc, cs)" by (metis prod_cases3)
  note R4 = CaptureAndLog_frame [OF r4]
  obtain res p where cap: "Capture (copy_a env) (copy_b env) a b (pipeline r3) = (res, p, cs)"
    "r4 = r3\<lparr>pipeline := p, last_pipeline_result := Some res\<rparr>" using R4(1) by blast
  have complete: "tracker_IsComplete (pair_tracker r4)"
    using cap(2) R3(1) by (simp add: tracker_IsComplete_def t1_def)
  have begin_ok: "tracker_Begin f (pair_tracker r) = (True, t1)"
    using idle by (simp add: tracker_Begin_def t1_def)
  have "sync_Render env f r = (r4\<lparr>pair_tracker := tracker_Reset (pair_tracker r4)\<rparr>, la @ lb @ lc, ta @ tb, cs)"
    using run begin_ok a b r2 r3 r4 complete
    by (simp add: sync_Render_def r1_def)
  with out have o: "r' = r4\<lparr>pair_tracker := tracker_Reset (pair_tracker r4)\<rparr>" "logs = la @ lb @ lc" "calls = cs"
    by simp_all
  have pipe: "pipeline r3 = pipeline r" using R2(2) R3(2) by (simp add: r1_def)
  have pinv: "pipeline_inv (pipeline r)" using inv by (simp add: renderer_inv_def)
  note keep = Capture_keeps [OF pinv cap(1) [unfolded pipe]]
  show "\<forall>l \<in> set logs. \<not> internal_error l" using o(2) R2(6) R3(6) R4(2) by auto
  show "\<not> renderer_stopped r'" using o(1) cap(2) R3(5) R2(5) run by (simp add: r1_def)
  show "renderer_inv r'"
    using o(1) cap(2) R2(3,4) R3(3,4) ida idb keep inv
    by (simp add: renderer_inv_def tracker_Reset_def r1_def)
  show "\<exists>a b res. rr_frame a = f \<and> rr_frame b = f \<and>
      Capture (copy_a env) (copy_b env) a b (pipeline r) = (res, pipeline r', calls)"
    using ida(1) idb(1) cap pipe o by auto
qed


subsection \<open>A run of frames\<close>

fun render_all :: "(frame_env \<times> MasterFrame) list \<Rightarrow> SynchronizedSceneRenderer \<Rightarrow>
    SynchronizedSceneRenderer \<times> renderer_log list \<times> texture_call list" where
  "render_all [] r = (r, [], [])"
| "render_all ((env, f) # fs) r =
     (let (r, logs, targets, calls) = sync_Render env f r;
          (r, logs', calls') = render_all fs r
      in (r, logs @ logs', calls @ calls'))"

lemma Capture_appends:
  assumes "Capture ca cb a b p = (res, p', calls)"
  shows "retained_pairs p' = retained_pairs p \<or>
    (\<exists>x. retained_pairs p' = retained_pairs p @ [x] \<and> pair_master_frame x = rr_frame a)"
  using assms
  by (auto simp: Capture_def CopyFrom_def Let_def
      split: SynchronizedFrameQueueResult.splits option.splits prod.splits if_splits)

lemma render_all_run:
  assumes "renderer_inv r" and "\<not> renderer_stopped r" and "render_all fs r = (r', logs, calls)"
  shows "renderer_inv r' \<and> \<not> renderer_stopped r' \<and> (\<forall>l \<in> set logs. \<not> internal_error l) \<and>
    (\<exists>gs. map pair_master_frame (retained_pairs (pipeline r')) =
            map pair_master_frame (retained_pairs (pipeline r)) @ gs \<and> subseq gs (map snd fs)) \<and>
    owned_textures (retained_pairs (pipeline r)) + created calls =
      owned_textures (retained_pairs (pipeline r')) + destroyed calls"
  using assms
proof (induction fs arbitrary: r logs calls)
  case (Cons ef fs)
  obtain env f where ef: "ef = (env, f)" by fastforce
  obtain r1 l1 t1 c1 where s: "sync_Render env f r = (r1, l1, t1, c1)" by (metis prod_cases4)
  obtain r2 l2 c2 where rest2: "render_all fs r1 = (r2, l2, c2)" by (metis prod_cases3)
  note S = sync_Render_shape [OF Cons.prems(1,2) s]
  have out: "r' = r2" "logs = l1 @ l2" "calls = c1 @ c2"
    using Cons.prems(3) s rest2 by (simp_all add: ef)
  note IH = Cons.IH [OF S(1,2) rest2 [folded out(1)], unfolded out(1)]
  from S(4) obtain a b res where cap: "rr_frame a = f"
    "Capture (copy_a env) (copy_b env) a b (pipeline r) = (res, pipeline r1, c1)" by blast
  have pinv: "pipeline_inv (pipeline r)" using Cons.prems(1) by (simp add: renderer_inv_def)
  note keep = Capture_keeps [OF pinv cap(2)]
  from Capture_appends [OF cap(2)] cap(1) obtain g1 where g1:
    "map pair_master_frame (retained_pairs (pipeline r1)) = map pair_master_frame (retained_pairs (pipeline r)) @ g1"
    "g1 = [] \<or> g1 = [f]" by auto
  from IH obtain gs where gs: "map pair_master_frame (retained_pairs (pipeline r2)) =
      map pair_master_frame (retained_pairs (pipeline r1)) @ gs" "subseq gs (map snd fs)" by blast
  have "map pair_master_frame (retained_pairs (pipeline r')) =
      map pair_master_frame (retained_pairs (pipeline r)) @ (g1 @ gs) \<and> subseq (g1 @ gs) (map snd (ef # fs))"
    using g1 gs out(1) by (auto simp: ef)
  moreover have "owned_textures (retained_pairs (pipeline r)) + created calls =
      owned_textures (retained_pairs (pipeline r')) + destroyed calls"
    using keep IH out by (simp add: ac_simps) (metis (no_types, lifting) add.assoc add.commute)
  ultimately show ?case using IH S(3) out by auto
qed simp

text \<open>C25. However the renders and texture copies of a run of frames turn out: the frames of the
  retained pairs are a subsequence, in dispatch order, of the frames dispatched, at most four of
  them; no internal error (a re-entrant dispatch, an incomplete pair, a rejected result) is ever
  logged; and stopping the renderer destroys every texture the run created.\<close>

theorem renderer_retains_dispatched_frames:
  assumes "render_all fs (new_sync_renderer scene_a scene_b) = (r, logs, calls)"
    and "sync_Stop r = (r', targets, stop_calls)"
  shows "subseq (map pair_master_frame (retained_pairs (pipeline r))) (map snd fs) \<and>
    length (retained_pairs (pipeline r)) \<le> 4 \<and> (\<forall>l \<in> set logs. \<not> internal_error l) \<and>
    created (calls @ stop_calls) = destroyed (calls @ stop_calls) \<and> retained_pairs (pipeline r') = []"
proof -
  have run: "\<not> renderer_stopped (new_sync_renderer scene_a scene_b)"
    and empty: "retained_pairs (pipeline (new_sync_renderer scene_a scene_b)) = []"
    by (simp_all add: new_sync_renderer_def new_pipeline_def new_queue_def)
  note R = render_all_run [OF renderer_inv_new run assms(1), unfolded empty]
  have pinv: "pipeline_inv (pipeline r)" "queue_capacity (frame_queue (pipeline r)) = 4"
    using R by (simp_all add: renderer_inv_def)
  have len: "length (retained_pairs (pipeline r)) \<le> 4"
    using fifo.bounded [of "frame_queue (pipeline r)"] pinv
    by (metis length_map pipeline_inv_def)
  obtain p' cs where reset: "pipeline_Reset (pipeline r) = (p', cs)" by fastforce
  obtain ra ta where da: "DestroyRenderTarget (scene_a_renderer r) = (ra, ta)" by fastforce
  obtain rb tb where db: "DestroyRenderTarget (scene_b_renderer r) = (rb, tb)" by fastforce
  have nr: "\<not> renderer_stopped r" using R by blast
  have "sync_Stop r = (r\<lparr>renderer_stopped := True, pair_tracker := tracker_Reset (pair_tracker r), pipeline := p',
      scene_a_renderer := ra, scene_b_renderer := rb\<rparr>, ta @ tb, cs)"
    by (simp add: sync_Stop_def nr reset da db)
  from this [unfolded assms(2)] have p': "pipeline r' = p'" "stop_calls = cs" by simp_all
  note reset_keeps = Reset_keeps [OF pinv(1) reset]
  have "created (calls @ stop_calls) = destroyed (calls @ stop_calls)"
  proof -
    have "created calls = owned_textures (retained_pairs (pipeline r)) + destroyed calls"
      using R by simp
    then show ?thesis
      using reset_keeps by (simp add: p'(2) add.commute)
  qed
  moreover have "retained_pairs (pipeline r') = []" using reset_keeps p'(1) by simp
  moreover have "subseq (map pair_master_frame (retained_pairs (pipeline r))) (map snd fs)"
    using R by auto
  moreover have "\<forall>l \<in> set logs. \<not> internal_error l" using R by blast
  ultimately show ?thesis using len by blast
qed

definition demo_env :: "nat \<Rightarrow> frame_env" where
  "demo_env n = (let e = \<lparr>source_found = True, source_is_scene = True, source_width = 4, source_height = 4,
       source_color_space = 0, format_from_space = (\<lambda>x. x), texrender_create = Some 1,
       texrender_begin_ok = True, texrender_texture = Some 9\<rparr>
     in \<lparr>env_a = e, env_b = e, copy_a = Some (2 * n), copy_b = Some (2 * n + 1)\<rparr>)"

theorem renderer_retains_dispatched_frames_witness:
  "subseq (map pair_master_frame (retained_pairs (pipeline (fst
      (render_all [(demo_env 1, \<lparr>frame_id = 0, pts_ns = 5\<rparr>), (demo_env 2, \<lparr>frame_id = 1, pts_ns = 9\<rparr>)]
        (new_sync_renderer ''a'' ''b'')))))) [\<lparr>frame_id = 0, pts_ns = 5\<rparr>, \<lparr>frame_id = 1, pts_ns = 9\<rparr>]"
proof -
  let ?fs = "[(demo_env 1, \<lparr>frame_id = 0, pts_ns = 5\<rparr>), (demo_env 2, \<lparr>frame_id = 1, pts_ns = 9\<rparr>)]"
  obtain r logs calls where run: "render_all ?fs (new_sync_renderer ''a'' ''b'') = (r, logs, calls)"
    by (metis prod_cases3)
  obtain r' targets cs where stop: "sync_Stop r = (r', targets, cs)" by (metis prod_cases3)
  from renderer_retains_dispatched_frames [OF run stop] run show ?thesis by simp
qed

end
