(* ===== verification/CaptureSession.thy ===== *)
theory CaptureSession
  imports PacketSink
begin

text \<open>
  \<open>src/capture/synchronized-capture-session\<close>: the shared packet ring of all streams. Packets are
  retained per stream under their source CTS within one byte budget, fanned out to subscribed
  consumers, and read as a snapshot over a common range. Each public call runs under the session's
  mutex; the fan-out after the lock is the list of deliveries a call returns. A shared pointer to
  an immutable packet is the packet; a consumer is known by its address.
\<close>

subsection \<open>Data\<close>

type_synonym CaptureStreamId = u8

type_synonym consumer_ref = nat

record CapturedEncodedPacket =
  captured_stream_id :: CaptureStreamId
  captured_packet :: EncodedPacket
  codec_extra_data :: bytes

record ReplayFrameRange =
  range_start_cts :: u64
  range_end_cts :: u64

record ReplaySnapshot =
  snapshot_range :: ReplayFrameRange
  stream_names :: "string list"
  stream_configs :: "PacketStreamConfig list"
  snapshot_packets :: "CapturedEncodedPacket list list"

record ReplaySnapshotAttempt =
  attempt_snapshot :: "ReplaySnapshot option"
  attempt_reason :: string

record SynchronizedCaptureConfig =
  ring_capacity_bytes :: usize
  capture_source_cts_step :: u64

record SynchronizedCaptureMetrics =
  metric_stream_count :: nat
  metric_retained_bytes :: usize
  metric_peak_bytes :: usize
  metric_evicted :: u64
  metric_duplicates :: u64
  metric_rejected :: u64

record StreamState =
  stream_name :: string
  stream_config :: PacketStreamConfig
  stream_packets :: "(u64, CapturedEncodedPacket) omap"
  stream_retained_bytes :: usize
  stream_peak_bytes :: usize
  max_source_cts :: u64
  has_source_cts :: bool

record capture_session =
  capture_config :: SynchronizedCaptureConfig
  streams :: "StreamState list"
  consumers :: "consumer_ref list"
  capture_running :: bool
  retained_bytes :: usize
  peak_capture_bytes :: usize
  evicted_packet_count :: u64
  duplicate_packet_count :: u64
  rejected_packet_count :: u64
  replay_retention_enabled :: bool

definition new_capture :: "SynchronizedCaptureConfig \<Rightarrow> capture_session" where
  "new_capture cfg = \<lparr>capture_config = cfg, streams = [], consumers = [], capture_running = False,
     retained_bytes = 0, peak_capture_bytes = 0, evicted_packet_count = 0, duplicate_packet_count = 0,
     rejected_packet_count = 0, replay_retention_enabled = True\<rparr>"

subsection \<open>Eviction\<close>

definition PacketBytes :: "CapturedEncodedPacket \<Rightarrow> usize" where
  "PacketBytes p = vsize (payload (captured_packet p))"

definition EraseFront :: "StreamState \<Rightarrow> u64 \<Rightarrow> StreamState \<times> u64" where
  "EraseFront s evicted =
     (case stream_packets s of
        [] \<Rightarrow> (s, evicted)
      | (c, p) # rest \<Rightarrow>
          (s\<lparr>stream_retained_bytes := stream_retained_bytes s - PacketBytes p, stream_packets := rest\<rparr>,
           evicted + 1))"

definition RetainedBytes :: "StreamState list \<Rightarrow> usize" where
  "RetainedBytes ss = fold (\<lambda>s total. total + stream_retained_bytes s) ss 0"

text \<open>The inner loops: erase the front while a condition on it holds.\<close>

function erase_while :: "(u64 \<Rightarrow> CapturedEncodedPacket \<Rightarrow> bool) \<Rightarrow> StreamState \<Rightarrow> u64 \<Rightarrow> StreamState \<times> u64" where
  "erase_while P s n =
     (case stream_packets s of
        [] \<Rightarrow> (s, n)
      | (c, p) # _ \<Rightarrow> (if P c p then (let (s, n) = EraseFront s n in erase_while P s n) else (s, n)))"
  by pat_completeness auto
termination
  by (relation "measure (\<lambda>(P, s, n). length (stream_packets s))") (auto simp: EraseFront_def)

declare erase_while.simps [simp del]

fun over_streams :: "(StreamState \<Rightarrow> u64 \<Rightarrow> StreamState \<times> u64) \<Rightarrow> StreamState list \<Rightarrow> u64 \<Rightarrow>
    StreamState list \<times> u64" where
  "over_streams f [] n = ([], n)"
| "over_streams f (s # ss) n = (let (s, n) = f s n; (ss, n) = over_streams f ss n in (s # ss, n))"

definition oldest_cts :: "StreamState list \<Rightarrow> u64 option" where
  "oldest_cts ss = fold (\<lambda>s oldest. case stream_packets s of
       [] \<Rightarrow> oldest
     | (c, _) # _ \<Rightarrow> Some (case oldest of Some o' \<Rightarrow> min o' c | None \<Rightarrow> c)) ss None"

definition evict_common_prefix :: "u64 \<Rightarrow> StreamState list \<Rightarrow> u64 \<Rightarrow> StreamState list \<times> u64" where
  "evict_common_prefix oldest ss n = over_streams (erase_while (\<lambda>c _. c \<le> oldest)) ss n"

lemma EraseFront_packets [simp]: "stream_packets (fst (EraseFront s n)) = tl (stream_packets s)"
  by (simp add: EraseFront_def split: list.split)

lemma erase_while_unfold:
  "erase_while P s n =
     (if stream_packets s \<noteq> [] \<and> P (fst (hd (stream_packets s))) (snd (hd (stream_packets s)))
      then erase_while P (fst (EraseFront s n)) (snd (EraseFront s n)) else (s, n))"
  by (subst erase_while.simps) (auto split: list.split prod.split)

text \<open>What holds of the stream and the counter after every \<open>EraseFront\<close> holds at the end.\<close>

lemma erase_while_induct:
  assumes "Q s n"
    and "\<And>s n e rest. Q s n \<Longrightarrow> stream_packets s = e # rest \<Longrightarrow> P (fst e) (snd e) \<Longrightarrow>
      Q (fst (EraseFront s n)) (snd (EraseFront s n))"
  shows "Q (fst (erase_while P s n)) (snd (erase_while P s n))"
  using assms(1)
proof (induction "stream_packets s" arbitrary: s n)
  case Nil
  then show ?case by (subst (1 2) erase_while_unfold) simp
next
  case (Cons e rest)
  show ?case
  proof (cases "P (fst e) (snd e)")
    case True
    have "stream_packets (fst (EraseFront s n)) = rest" using Cons.hyps(2) [symmetric] by simp
    from Cons.hyps(1) [OF this [symmetric] assms(2) [OF Cons.prems Cons.hyps(2) [symmetric] True]]
    show ?thesis using Cons.hyps(2) [symmetric] True by (subst (1 2) erase_while_unfold) simp
  next
    case False
    with Cons show ?thesis by (subst (1 2) erase_while_unfold) (simp add: Cons.hyps(2) [symmetric])
  qed
qed

lemma erase_while_packets:
  "stream_packets (fst (erase_while P s n)) = dropWhile (\<lambda>(c, p). P c p) (stream_packets s)"
proof (induction "stream_packets s" arbitrary: s n)
  case Nil
  then show ?case by (subst erase_while_unfold) simp
next
  case (Cons e rest)
  have "stream_packets (fst (EraseFront s n)) = rest" using Cons.hyps(2) [symmetric] by simp
  from Cons.hyps(1) [OF this [symmetric], of "snd (EraseFront s n)"] this Cons.hyps(2) [symmetric]
  show ?case by (subst erase_while_unfold) (simp add: case_prod_beta)
qed

lemma over_streams_length: "length (fst (over_streams f ss n)) = length ss"
  by (induction ss arbitrary: n) (simp_all add: case_prod_beta Let_def)

lemma over_streams_nth:
  "i < length ss \<Longrightarrow> \<exists>n'. fst (over_streams f ss n) ! i = fst (f (ss ! i) n')"
proof (induction ss arbitrary: n i)
  case (Cons s ss)
  show ?case
  proof (cases i)
    case 0
    then show ?thesis by (auto simp: case_prod_beta Let_def)
  next
    case (Suc j)
    with Cons.prems Cons.IH [of j "snd (f s n)"] show ?thesis by (simp add: case_prod_beta Let_def)
  qed
qed simp

text \<open>Some stream's front is the oldest CTS, so one round removes at least one packet.\<close>

lemma oldest_cts_front:
  "fold (\<lambda>s oldest. case stream_packets s of
       [] \<Rightarrow> oldest
     | (c, _) # _ \<Rightarrow> Some (case oldest of Some o' \<Rightarrow> min o' c | None \<Rightarrow> c)) ss acc = Some c \<Longrightarrow>
   acc = Some c \<or> (\<exists>s \<in> set ss. \<exists>p rest. stream_packets s = (c, p) # rest)"
proof (induction ss arbitrary: acc)
  case (Cons s ss)
  show ?case
  proof (cases "stream_packets s")
    case Nil
    with Cons show ?thesis by simp
  next
    case (Cons e rest)
    then obtain k p where e: "stream_packets s = (k, p) # rest" by (cases e) simp
    from Cons.IH [OF Cons.prems [unfolded fold.simps comp_def e list.case prod.case]]
    consider "(case acc of Some o' \<Rightarrow> min o' k | None \<Rightarrow> k) = c"
      | "\<exists>s \<in> set ss. \<exists>p rest. stream_packets s = (c, p) # rest" by auto
    then show ?thesis
    proof cases
      case 1
      then have "acc = Some c \<or> k = c" by (cases acc) (auto simp: min_def split: if_splits)
      with e show ?thesis by auto
    qed auto
  qed
qed simp

definition packet_count :: "StreamState list \<Rightarrow> nat" where
  "packet_count ss = (\<Sum>s\<leftarrow>ss. length (stream_packets s))"

lemma erase_while_le: "length (stream_packets (fst (erase_while P s n))) \<le> length (stream_packets s)"
  by (simp add: erase_while_packets length_dropWhile_le)

lemma evict_common_prefix_le: "packet_count (fst (evict_common_prefix c ss n)) \<le> packet_count ss"
  unfolding evict_common_prefix_def
proof (induction ss arbitrary: n)
  case (Cons s ss)
  with erase_while_le [of "\<lambda>k _. k \<le> c" s n] show ?case
    by (simp add: packet_count_def case_prod_beta Let_def add_mono)
qed (simp add: packet_count_def)

lemma evict_common_prefix_shrinks:
  assumes "s \<in> set ss" and "stream_packets s = (c, p) # rest"
  shows "packet_count (fst (evict_common_prefix c ss n)) < packet_count ss"
  using assms(1)
proof (induction ss arbitrary: n)
  case (Cons t ts)
  let ?e = "erase_while (\<lambda>k _. k \<le> c)"
  have le: "packet_count (fst (evict_common_prefix c ts m)) \<le> packet_count ts" for m
    by (rule evict_common_prefix_le)
  show ?case
  proof (cases "t = s")
    case True
    have "length (stream_packets (fst (?e t n))) < length (stream_packets t)"
      using assms(2) length_dropWhile_le [of "\<lambda>(k, p). k \<le> c" rest]
      by (simp add: erase_while_packets True)
    with le [of "snd (?e t n)"] show ?thesis
      by (simp add: packet_count_def evict_common_prefix_def case_prod_beta Let_def)
  next
    case False
    with Cons.prems Cons.IH [of "snd (?e t n)"] erase_while_le [of "\<lambda>k _. k \<le> c" t n] show ?thesis
      by (simp add: packet_count_def evict_common_prefix_def case_prod_beta Let_def)
  qed
qed simp

function evict_loop :: "usize \<Rightarrow> StreamState list \<Rightarrow> u64 \<Rightarrow> StreamState list \<times> u64" where
  "evict_loop cap ss n =
     (if RetainedBytes ss > cap then
        (case oldest_cts ss of
           None \<Rightarrow> (ss, n)
         | Some c \<Rightarrow> (let (ss, n) = evict_common_prefix c ss n in evict_loop cap ss n))
      else (ss, n))"
  by pat_completeness auto
termination
proof (relation "measure (\<lambda>(cap, ss, n). packet_count ss)")
  fix cap :: usize and ss n c x ss' n'
  assume c: "oldest_cts ss = Some c" and x: "x = evict_common_prefix c ss n" "(ss', n') = x"
  from oldest_cts_front [OF c [unfolded oldest_cts_def]] obtain s p rest
    where "s \<in> set ss" "stream_packets s = (c, p) # rest" by auto
  from evict_common_prefix_shrinks [OF this, of n] have "packet_count ss' < packet_count ss"
    unfolding x(1) [symmetric] x(2) [symmetric] by simp
  then show "((cap, ss', n'), cap, ss, n) \<in> measure (\<lambda>(cap, ss, n). packet_count ss)" by simp
qed simp

declare evict_loop.simps [simp del]

definition EvictToCapacity :: "usize \<Rightarrow> StreamState list \<Rightarrow> u64 \<Rightarrow> StreamState list \<times> u64" where
  "EvictToCapacity cap ss n =
     (let (ss, n) = evict_loop cap ss n
      in over_streams (erase_while (\<lambda>_ p. \<not> keyframe (captured_packet p))) ss n)"

subsection \<open>Registration and ingest\<close>

definition RegisterStream :: "CaptureStreamId \<Rightarrow> string \<Rightarrow> PacketStreamConfig \<Rightarrow> capture_session \<Rightarrow>
    bool \<times> capture_session" where
  "RegisterStream i name cfg s =
     (if capture_running s \<or> name = [] \<or> cfg_width cfg = 0 \<or> cfg_height cfg = 0 then (False, s)
      else if list_ex (\<lambda>st. stream_name st = name) (streams s) then (False, s)
      else if (if length (streams s) > 0 then unat i \<noteq> length (streams s) else i \<noteq> 0) then (False, s)
      else (True, s\<lparr>streams := streams s @
          [\<lparr>stream_name = name, stream_config = cfg, stream_packets = [], stream_retained_bytes = 0,
            stream_peak_bytes = 0, max_source_cts = 0, has_source_cts = False\<rparr>]\<rparr>))"

text \<open>Address 0 is the null pointer.\<close>

definition Subscribe :: "consumer_ref \<Rightarrow> capture_session \<Rightarrow> bool \<times> capture_session" where
  "Subscribe c s =
     (if c = 0 \<or> c \<in> set (consumers s) then (False, s)
      else (True, s\<lparr>consumers := consumers s @ [c]\<rparr>))"

definition Unsubscribe :: "consumer_ref \<Rightarrow> capture_session \<Rightarrow> bool \<times> capture_session" where
  "Unsubscribe c s =
     (if c \<notin> set (consumers s) then (False, s)
      else (True, s\<lparr>consumers := remove1 c (consumers s)\<rparr>))"

definition capture_Start :: "capture_session \<Rightarrow> bool \<times> capture_session" where
  "capture_Start s =
     (if capture_running s \<or> length (streams s) < 1 then (False, s)
      else (True, s\<lparr>capture_running := True\<rparr>))"

definition capture_Stop :: "capture_session \<Rightarrow> capture_session" where
  "capture_Stop s = s\<lparr>capture_running := False\<rparr>"

text \<open>The stream's configuration follows the first timebase and the latest extra data seen.\<close>

definition observe_stream_config :: "EncodedPacket \<Rightarrow> bytes \<Rightarrow> StreamState \<Rightarrow> StreamState" where
  "observe_stream_config p extra st =
     (let st = (if sint (cfg_timebase_num (stream_config st)) \<le> 0 \<or>
                   sint (cfg_timebase_den (stream_config st)) \<le> 0
                then st\<lparr>stream_config := stream_config st\<lparr>cfg_timebase_num := timebase_num p,
                       cfg_timebase_den := timebase_den p\<rparr>\<rparr>
                else st)
      in if extra \<noteq> [] then st\<lparr>stream_config := stream_config st\<lparr>extra_data := extra\<rparr>\<rparr> else st)"

definition retain_in_stream :: "CapturedEncodedPacket \<Rightarrow> StreamState \<Rightarrow> StreamState" where
  "retain_in_stream q st =
     (let bytes = stream_retained_bytes st + PacketBytes q
      in st\<lparr>stream_packets := om_emplace (source_cts (captured_packet q)) q (stream_packets st),
            stream_retained_bytes := bytes,
            stream_peak_bytes := max (stream_peak_bytes st) bytes,
            max_source_cts := max (max_source_cts st) (source_cts (captured_packet q)),
            has_source_cts := True\<rparr>)"

definition Ingest :: "CaptureStreamId \<Rightarrow> EncodedPacket \<Rightarrow> bytes \<Rightarrow> capture_session \<Rightarrow>
    bool \<times> capture_session \<times> (consumer_ref \<times> CapturedEncodedPacket) list" where
  "Ingest i p extra s =
     (if \<not> capture_running s \<or> unat i \<ge> length (streams s) \<or> payload p = [] \<or>
         sint (timebase_num p) \<le> 0 \<or> sint (timebase_den p) \<le> 0
      then (False, s\<lparr>rejected_packet_count := rejected_packet_count s + 1\<rparr>, [])
      else if om_find (stream_packets (streams s ! unat i)) (source_cts p) \<noteq> None
      then (False, s\<lparr>duplicate_packet_count := duplicate_packet_count s + 1\<rparr>, [])
      else
        (let q = \<lparr>captured_stream_id = i, captured_packet = p, codec_extra_data = extra\<rparr>;
             st = observe_stream_config p extra (streams s ! unat i);
             s = s\<lparr>streams := (streams s)[unat i := st]\<rparr>;
             s = (if replay_retention_enabled s then
                    (let ss = (streams s)[unat i := retain_in_stream q st];
                         bytes = retained_bytes s + PacketBytes q;
                         peak = max (peak_capture_bytes s) bytes;
                         (ss, evicted) = EvictToCapacity (ring_capacity_bytes (capture_config s)) ss
                           (evicted_packet_count s)
                     in s\<lparr>streams := ss, peak_capture_bytes := peak, evicted_packet_count := evicted,
                          retained_bytes := RetainedBytes ss\<rparr>)
                  else s)
         in (True, s, map (\<lambda>c. (c, q)) (filter (\<lambda>c. c \<noteq> 0) (consumers s)))))"

definition SetRingCapacityBytes :: "usize \<Rightarrow> capture_session \<Rightarrow> capture_session" where
  "SetRingCapacityBytes cap s =
     (let s = s\<lparr>capture_config := capture_config s\<lparr>ring_capacity_bytes := cap\<rparr>\<rparr>
      in if \<not> replay_retention_enabled s then s
         else (let (ss, evicted) = EvictToCapacity cap (streams s) (evicted_packet_count s)
               in s\<lparr>streams := ss, evicted_packet_count := evicted, retained_bytes := RetainedBytes ss\<rparr>))"

definition SetReplayRetentionEnabled :: "bool \<Rightarrow> capture_session \<Rightarrow> capture_session" where
  "SetReplayRetentionEnabled enabled s =
     (let s = s\<lparr>replay_retention_enabled := enabled\<rparr>
      in if enabled then s
         else s\<lparr>streams := map (\<lambda>st. st\<lparr>stream_packets := [], stream_retained_bytes := 0,
                  max_source_cts := 0, has_source_cts := False\<rparr>) (streams s),
                retained_bytes := 0\<rparr>)"

definition common_watermark_cts :: "capture_session \<Rightarrow> u64 option" where
  "common_watermark_cts s =
     (if streams s = [] \<or> list_ex (\<lambda>st. \<not> has_source_cts st) (streams s) then None
      else Some (fold (\<lambda>st w. min w (max_source_cts st)) (streams s) max_u64))"

definition capture_metrics :: "capture_session \<Rightarrow> SynchronizedCaptureMetrics" where
  "capture_metrics s =
     \<lparr>metric_stream_count = length (streams s), metric_retained_bytes = retained_bytes s,
      metric_peak_bytes = peak_capture_bytes s, metric_evicted = evicted_packet_count s,
      metric_duplicates = duplicate_packet_count s, metric_rejected = rejected_packet_count s\<rparr>"

subsection \<open>Snapshots\<close>

definition packets_of :: "StreamState list \<Rightarrow> CaptureStreamId \<Rightarrow> (u64, CapturedEncodedPacket) omap" where
  "packets_of ss i = stream_packets (ss ! unat i)"

definition ContainsAll :: "StreamState list \<Rightarrow> CaptureStreamId list \<Rightarrow> u64 \<Rightarrow> bool" where
  "ContainsAll ss ids cts \<longleftrightarrow> list_all (\<lambda>i. om_find (packets_of ss i) cts \<noteq> None) ids"

definition AllKeyframes :: "StreamState list \<Rightarrow> CaptureStreamId list \<Rightarrow> u64 \<Rightarrow> bool" where
  "AllKeyframes ss ids cts \<longleftrightarrow>
     list_all (\<lambda>i. case om_find (packets_of ss i) cts of
         None \<Rightarrow> False | Some q \<Rightarrow> keyframe (captured_packet q)) ids"

text \<open>Every id must be known, not repeated before its own index, and have packets.\<close>

fun usable_ids :: "StreamState list \<Rightarrow> CaptureStreamId list \<Rightarrow> CaptureStreamId list \<Rightarrow> bool" where
  "usable_ids ss seen [] = True"
| "usable_ids ss seen (i # ids) =
     (if unat i \<ge> length ss \<or> i \<in> set seen \<or> packets_of ss i = [] then False
      else usable_ids ss (seen @ [i]) ids)"

definition snapshot_bounds :: "StreamState list \<Rightarrow> CaptureStreamId list \<Rightarrow> u64 \<times> u64" where
  "snapshot_bounds ss ids =
     fold (\<lambda>i (lo, hi). (max lo (fst (hd (packets_of ss i))), min hi (fst (last (packets_of ss i)))))
       ids (0, max_u64)"

text \<open>The last common keyframe at or before the target, else the first one.\<close>

fun last_start :: "(u64 \<Rightarrow> bool) \<Rightarrow> u64 \<Rightarrow> u64 list \<Rightarrow> u64 option \<Rightarrow> u64 option" where
  "last_start ok target [] acc = acc"
| "last_start ok target (c # cs) acc =
     last_start ok target cs (if \<not> ok c then acc else if c \<le> target then Some c else acc)"

definition snapshot_start :: "StreamState list \<Rightarrow> CaptureStreamId list \<Rightarrow> u64 \<Rightarrow> u64 \<Rightarrow> u64 \<Rightarrow> u64 option" where
  "snapshot_start ss ids lo hi duration =
     (let front = om_keys (packets_of ss (hd ids));
          ok = (\<lambda>c. \<not> (c < lo \<or> c > hi \<or> \<not> AllKeyframes ss ids c));
          target = (if hi > duration then hi - duration else lo)
      in case last_start ok target front None of
           Some c \<Rightarrow> Some c
         | None \<Rightarrow> find ok front)"

fun snapshot_end :: "(u64 \<Rightarrow> bool) \<Rightarrow> u64 \<Rightarrow> u64 \<Rightarrow> u64 list \<Rightarrow> u64 \<Rightarrow> u64" where
  "snapshot_end held start hi [] end_at = end_at"
| "snapshot_end held start hi (c # cs) end_at =
     (if c < start \<or> c > hi then snapshot_end held start hi cs end_at
      else if \<not> held c then end_at
      else snapshot_end held start hi cs c)"

definition snapshot_failed :: "string \<Rightarrow> ReplaySnapshotAttempt" where
  "snapshot_failed why = \<lparr>attempt_snapshot = None, attempt_reason = why\<rparr>"

definition build_snapshot :: "StreamState list \<Rightarrow> CaptureStreamId list \<Rightarrow> u64 \<Rightarrow> u64 \<Rightarrow> ReplaySnapshot" where
  "build_snapshot ss ids start end_at =
     \<lparr>snapshot_range = \<lparr>range_start_cts = start, range_end_cts = end_at\<rparr>,
      stream_names = map (\<lambda>i. stream_name (ss ! unat i)) ids,
      stream_configs = map (\<lambda>i. stream_config (ss ! unat i)) ids,
      snapshot_packets = map (\<lambda>i. map snd (takeWhile (\<lambda>e. fst e \<le> end_at)
          (om_drop_below start (packets_of ss i)))) ids\<rparr>"

definition SnapshotCommonRangeDetailed :: "CaptureStreamId list \<Rightarrow> u64 \<Rightarrow> capture_session \<Rightarrow>
    ReplaySnapshotAttempt" where
  "SnapshotCommonRangeDetailed ids duration s =
     (if \<not> replay_retention_enabled s then snapshot_failed ''replay-retention-disabled''
      else if ids = [] then snapshot_failed ''no-replay-streams''
      else if duration = 0 then snapshot_failed ''invalid-duration''
      else if \<not> usable_ids (streams s) [] ids then snapshot_failed ''insufficient-history''
      else
        (let (lo, hi) = snapshot_bounds (streams s) ids
         in if lo > hi \<or> hi - lo < duration then snapshot_failed ''insufficient-history''
            else (case snapshot_start (streams s) ids lo hi duration of
                None \<Rightarrow> snapshot_failed ''no-common-keyframe''
              | Some start \<Rightarrow>
                  (let end_at = snapshot_end (ContainsAll (streams s) ids) start hi
                         (om_keys (packets_of (streams s) (hd ids))) start
                   in if end_at < start then snapshot_failed ''no-common-range''
                      else \<lparr>attempt_snapshot = Some (build_snapshot (streams s) ids start end_at),
                            attempt_reason = []\<rparr>))))"

text \<open>
  The overload for all streams counts with an 8-bit id; a loop that does not return is \<open>None\<close>.
\<close>

partial_function (option) all_ids :: "nat \<Rightarrow> CaptureStreamId \<Rightarrow> CaptureStreamId list \<Rightarrow>
    CaptureStreamId list option" where
  "all_ids n i ids = (if unat i < n then all_ids n (i + 1) (ids @ [i]) else Some ids)"

definition SnapshotCommonRangeAll :: "u64 \<Rightarrow> capture_session \<Rightarrow> ReplaySnapshotAttempt option" where
  "SnapshotCommonRangeAll duration s =
     map_option (\<lambda>ids. SnapshotCommonRangeDetailed ids duration s) (all_ids (length (streams s)) 0 [])"

definition SnapshotCommonRange :: "CaptureStreamId list \<Rightarrow> u64 \<Rightarrow> capture_session \<Rightarrow>
    ReplaySnapshot option" where
  "SnapshotCommonRange ids duration s = attempt_snapshot (SnapshotCommonRangeDetailed ids duration s)"

end
