(* ===== verification/CaptureInvariant.thy ===== *)
theory CaptureInvariant
  imports CaptureSession
begin

text \<open>
  Eviction against its reference reading (one cut CTS for all streams, then the partial GOP of
  each stream), and the invariant of the capture session over every sequence of calls.
\<close>

subsection \<open>Streams with exact accounting\<close>

definition stream_bytes :: "(u64, CapturedEncodedPacket) omap \<Rightarrow> nat" where
  "stream_bytes m = (\<Sum>e\<leftarrow>m. length (payload (captured_packet (snd e))))"

definition total_bytes :: "StreamState list \<Rightarrow> nat" where
  "total_bytes ss = (\<Sum>st\<leftarrow>ss. stream_bytes (stream_packets st))"

definition stream_ok :: "StreamState \<Rightarrow> bool" where
  "stream_ok st \<longleftrightarrow> om_filed (source_cts \<circ> captured_packet) (stream_packets st) \<and>
     unat (stream_retained_bytes st) = stream_bytes (stream_packets st)"

definition with_packets :: "(u64, CapturedEncodedPacket) omap \<Rightarrow> StreamState \<Rightarrow> StreamState" where
  "with_packets m st = st\<lparr>stream_packets := m, stream_retained_bytes := word_of_nat (stream_bytes m)\<rparr>"

text \<open>The three readings of a cut: above a CTS, from a CTS on, from the first keyframe on.\<close>

definition cut_above :: "u64 \<Rightarrow> StreamState \<Rightarrow> StreamState" where
  "cut_above c st = with_packets (filter (\<lambda>e. c < fst e) (stream_packets st)) st"

definition from_cts :: "u64 \<Rightarrow> StreamState \<Rightarrow> StreamState" where
  "from_cts c st = with_packets (filter (\<lambda>e. c \<le> fst e) (stream_packets st)) st"

definition trim :: "StreamState \<Rightarrow> StreamState" where
  "trim st = with_packets
     (dropWhile (\<lambda>e. \<not> keyframe (captured_packet (snd e))) (stream_packets st)) st"

lemma stream_bytes_simps [simp]:
  "stream_bytes [] = 0"
  "stream_bytes (e # m) = length (payload (captured_packet (snd e))) + stream_bytes m"
  "stream_bytes (m @ m') = stream_bytes m + stream_bytes m'"
  by (simp_all add: stream_bytes_def)

lemma total_bytes_simps [simp]:
  "total_bytes [] = 0" "total_bytes (st # ss) = stream_bytes (stream_packets st) + total_bytes ss"
  "total_bytes (ss @ ss') = total_bytes ss + total_bytes ss'"
  by (simp_all add: total_bytes_def)

lemma packet_count_simps [simp]:
  "packet_count [] = 0" "packet_count (st # ss) = length (stream_packets st) + packet_count ss"
  by (simp_all add: packet_count_def)

lemma with_packets_fields [simp]:
  "stream_packets (with_packets m st) = m" "stream_name (with_packets m st) = stream_name st"
  "stream_config (with_packets m st) = stream_config st"
  "max_source_cts (with_packets m st) = max_source_cts st"
  "has_source_cts (with_packets m st) = has_source_cts st"
  "with_packets m' (with_packets m st) = with_packets m' st"
  by (simp_all add: with_packets_def)

lemma stream_bytes_filter_le: "stream_bytes (filter P m) \<le> stream_bytes m"
  by (induction m) auto

lemma stream_ok_retained:
  assumes "stream_ok st"
  shows "stream_retained_bytes st = word_of_nat (stream_bytes (stream_packets st))"
proof -
  have "word_of_nat (unat (stream_retained_bytes st)) = stream_retained_bytes st" by simp
  with assms show ?thesis by (simp add: stream_ok_def)
qed

lemma stream_ok_self: "stream_ok st \<Longrightarrow> with_packets (stream_packets st) st = st"
  by (simp add: with_packets_def stream_ok_retained [symmetric])

lemma stream_ok_bytes: "stream_ok st \<Longrightarrow> stream_bytes (stream_packets st) < 2 ^ 64"
  unfolding stream_ok_def by (metis unat_bound)

lemma stream_ok_part:
  assumes "stream_ok st" and "set m \<subseteq> set (stream_packets st)" and "om_wf m"
    and "stream_bytes m \<le> stream_bytes (stream_packets st)"
  shows "stream_ok (with_packets m st)"
proof -
  have "stream_bytes m < 2 ^ 64" using assms(4) stream_ok_bytes [OF assms(1)] by simp
  then have "unat (word_of_nat (stream_bytes m) :: u64) = stream_bytes m"
    by (simp add: unat_of_nat)
  with assms show ?thesis
    unfolding stream_ok_def om_filed_entries by (auto simp: with_packets_def)
qed

lemma stream_ok_wf: "stream_ok st \<Longrightarrow> om_wf (stream_packets st)"
  by (simp add: stream_ok_def om_filed_entries)

lemma stream_ok_filter: "stream_ok st \<Longrightarrow> stream_ok (with_packets (filter P (stream_packets st)) st)"
  by (rule stream_ok_part) (auto simp: om_wf_filter stream_ok_wf stream_bytes_filter_le)

lemma stream_ok_cut_above: "stream_ok st \<Longrightarrow> stream_ok (cut_above c st)"
  by (simp add: cut_above_def stream_ok_filter)

lemma stream_ok_tl:
  assumes "stream_ok st" and "stream_packets st = e # rest"
  shows "stream_ok (with_packets rest st)"
  using stream_ok_wf [OF assms(1)]
  by (intro stream_ok_part [OF assms(1)]) (auto simp: assms(2) om_wf_Cons)

lemma stream_bytes_dropWhile: "stream_bytes (dropWhile P m) \<le> stream_bytes m"
  by (induction m) auto

lemma stream_ok_trim: "stream_ok st \<Longrightarrow> stream_ok (trim st)"
  unfolding trim_def
  by (rule stream_ok_part)
    (auto dest: set_dropWhileD stream_ok_wf intro: om_wf_mono stream_bytes_dropWhile)

subsection \<open>The erasing loops\<close>

lemma EraseFront_ok:
  assumes "stream_ok st" and "stream_packets st = e # rest"
  shows "EraseFront st n = (with_packets rest st, n + 1)"
  using stream_ok_retained [OF assms(1)]
  by (simp add: EraseFront_def assms(2) case_prod_beta with_packets_def PacketBytes_def vsize_def)

lemma erase_while_ok:
  "stream_ok st \<Longrightarrow> erase_while P st n =
     (with_packets (dropWhile (\<lambda>e. P (fst e) (snd e)) (stream_packets st)) st,
      n + word_of_nat (length (stream_packets st) -
            length (dropWhile (\<lambda>e. P (fst e) (snd e)) (stream_packets st))))"
proof (induction "stream_packets st" arbitrary: st n)
  case Nil
  with stream_ok_self [OF Nil.prems] show ?case by (subst erase_while_unfold) simp
next
  case (Cons e rest)
  note eq = Cons.hyps(2) [symmetric]
  show ?case
  proof (cases "P (fst e) (snd e)")
    case True
    have "length (dropWhile (\<lambda>e. P (fst e) (snd e)) rest) \<le> length rest"
      by (rule length_dropWhile_le)
    with Cons.hyps(1) [of "with_packets rest st" "n + 1"] stream_ok_tl [OF Cons.prems eq] True eq
    show ?thesis
      by (subst erase_while_unfold)
        (simp add: EraseFront_ok [OF Cons.prems eq] Suc_diff_le algebra_simps)
  next
    case False
    with stream_ok_self [OF Cons.prems] eq show ?thesis by (subst erase_while_unfold) simp
  qed
qed

lemma over_streams_eq:
  assumes "\<And>st n. st \<in> set ss \<Longrightarrow> f st n = (g st, n + word_of_nat (h st))"
  shows "over_streams f ss n = (map g ss, n + word_of_nat (\<Sum>st\<leftarrow>ss. h st))"
  using assms by (induction ss arbitrary: n) (simp_all add: algebra_simps)

lemma over_erase_while:
  assumes "\<forall>st \<in> set ss. stream_ok st"
    and "\<And>st. st \<in> set ss \<Longrightarrow>
      g st = with_packets (dropWhile (\<lambda>e. P (fst e) (snd e)) (stream_packets st)) st"
  shows "over_streams (erase_while P) ss n =
    (map g ss, n + word_of_nat (packet_count ss - packet_count (map g ss)))"
proof -
  have "over_streams (erase_while P) ss n = (map g ss, n + word_of_nat
      (\<Sum>st\<leftarrow>ss. length (stream_packets st) - length (stream_packets (g st))))"
    by (rule over_streams_eq) (simp add: assms erase_while_ok)
  moreover have "(\<Sum>st\<leftarrow>ss. length (stream_packets st) - length (stream_packets (g st))) =
      packet_count ss - packet_count (map g ss) \<and> packet_count (map g ss) \<le> packet_count ss"
    using assms(2)
  proof (induction ss)
    case (Cons st ss)
    have "length (stream_packets (g st)) \<le> length (stream_packets st)"
      by (simp add: Cons.prems length_dropWhile_le)
    with Cons show ?case by auto
  qed simp
  ultimately show ?thesis by simp
qed

lemma dropWhile_above: "om_wf m \<Longrightarrow> dropWhile (\<lambda>e. fst e \<le> c) m = filter (\<lambda>e. c < fst e) m"
proof (induction m)
  case (Cons e m)
  then have "c < fst e \<Longrightarrow> filter (\<lambda>e. c < fst e) m = m"
    by (intro filter_True) (force simp: om_wf_Cons)
  with Cons show ?case by (auto simp: om_wf_Cons not_less)
qed simp

lemma evict_common_prefix_ok:
  assumes "\<forall>st \<in> set ss. stream_ok st"
  shows "evict_common_prefix c ss n =
    (map (cut_above c) ss, n + word_of_nat (packet_count ss - packet_count (map (cut_above c) ss)))"
  unfolding evict_common_prefix_def
  using assms by (intro over_erase_while) (simp_all add: cut_above_def dropWhile_above stream_ok_wf)

lemma cut_above_twice: "c \<le> d \<Longrightarrow> cut_above d (cut_above c st) = cut_above d st"
proof -
  assume "c \<le> d"
  then have "(\<lambda>e. c < fst e \<and> d < fst e) = (\<lambda>e :: u64 \<times> CapturedEncodedPacket. d < fst e)" by auto
  then show ?thesis by (simp add: cut_above_def)
qed

lemma cut_above_within: "d \<le> c \<Longrightarrow> cut_above d (cut_above c st) = cut_above c st"
proof -
  assume "d \<le> c"
  then have "(\<lambda>e. c < fst e \<and> d < fst e) = (\<lambda>e :: u64 \<times> CapturedEncodedPacket. c < fst e)" by auto
  then show ?thesis by (simp add: cut_above_def)
qed

lemma from_cts_cut: "c < d \<Longrightarrow> from_cts d (cut_above c st) = from_cts d st"
proof -
  assume "c < d"
  then have "(\<lambda>e. c < fst e \<and> d \<le> fst e) = (\<lambda>e :: u64 \<times> CapturedEncodedPacket. d \<le> fst e)" by auto
  then show ?thesis by (simp add: cut_above_def from_cts_def)
qed

lemma total_bytes_map_le:
  "(\<And>st. st \<in> set ss \<Longrightarrow> stream_bytes (stream_packets (g st)) \<le> stream_bytes (stream_packets st)) \<Longrightarrow>
     total_bytes (map g ss) \<le> total_bytes ss"
  by (induction ss) (simp_all add: add_mono)

lemma packet_count_map_le:
  "(\<And>st. st \<in> set ss \<Longrightarrow> length (stream_packets (g st)) \<le> length (stream_packets st)) \<Longrightarrow>
     packet_count (map g ss) \<le> packet_count ss"
  by (induction ss) (simp_all add: add_mono)

lemma packet_count_cut_le: "packet_count (map (cut_above c) ss) \<le> packet_count ss"
  by (rule packet_count_map_le) (simp add: cut_above_def)

lemma packet_count_trim_le: "packet_count (map trim ss) \<le> packet_count ss"
  by (rule packet_count_map_le) (simp add: trim_def length_dropWhile_le)

lemma total_bytes_cut_le: "total_bytes (map (cut_above c) ss) \<le> total_bytes ss"
  by (rule total_bytes_map_le) (simp add: cut_above_def stream_bytes_filter_le)

lemma total_bytes_trim_le: "total_bytes (map trim ss) \<le> total_bytes ss"
  by (rule total_bytes_map_le) (simp add: trim_def stream_bytes_dropWhile)

text \<open>The byte count of the streams is exact while their payloads fit in 64 bits.\<close>

lemma RetainedBytes_exact:
  assumes "\<forall>st \<in> set ss. stream_ok st" and "total_bytes ss < 2 ^ 64"
  shows "unat (RetainedBytes ss) = total_bytes ss"
proof -
  have "fold (\<lambda>s total. total + stream_retained_bytes s) ss acc = acc + word_of_nat (total_bytes ss)" for acc
    using assms(1) by (induction ss arbitrary: acc) (simp_all add: stream_ok_retained)
  then have "RetainedBytes ss = word_of_nat (total_bytes ss)"
    unfolding RetainedBytes_def by (metis add.left_neutral)
  with assms(2) show ?thesis by (simp add: unat_of_nat)
qed

text \<open>The oldest CTS is a least key of the streams, and exists when bytes are retained.\<close>

lemma oldest_cts_least:
  assumes "\<forall>st \<in> set ss. om_wf (stream_packets st)"
  shows "case oldest_cts ss of None \<Rightarrow> (\<forall>st \<in> set ss. stream_packets st = [])
     | Some c \<Rightarrow> (\<forall>st \<in> set ss. \<forall>k \<in> fst ` set (stream_packets st). c \<le> k)"
proof -
  let ?f = "\<lambda>s oldest. case stream_packets s of [] \<Rightarrow> oldest
     | (c, _) # _ \<Rightarrow> Some (case oldest of Some o' \<Rightarrow> min o' c | None \<Rightarrow> c)"
  have "case fold ?f ss acc of None \<Rightarrow> acc = None \<and> (\<forall>st \<in> set ss. stream_packets st = [])
     | Some c \<Rightarrow> (\<forall>a. acc = Some a \<longrightarrow> c \<le> a) \<and>
         (\<forall>st \<in> set ss. \<forall>k \<in> fst ` set (stream_packets st). c \<le> k)" for acc
    using assms
  proof (induction ss arbitrary: acc)
    case Nil
    then show ?case by (simp split: option.split)
  next
    case (Cons st ss)
    show ?case
    proof (cases "stream_packets st")
      case Nil
      with Cons.IH [of acc] Cons.prems show ?thesis by (simp split: option.splits)
    next
      case (Cons e rest)
      have least: "\<forall>k \<in> fst ` set (stream_packets st). fst e \<le> k"
        using Cons.prems Cons by (auto simp: om_wf_Cons)
      let ?acc = "Some (case acc of Some o' \<Rightarrow> min o' (fst e) | None \<Rightarrow> fst e)"
      have fold: "fold ?f (st # ss) acc = fold ?f ss ?acc" using Cons by (simp add: case_prod_beta)
      obtain m where m: "?acc = Some m" "m \<le> fst e" "\<forall>a. acc = Some a \<longrightarrow> m \<le> a"
        by (cases acc) auto
      from Cons.IH [of "Some m"] Cons.prems obtain c where c: "fold ?f ss (Some m) = Some c" "c \<le> m"
        "\<forall>st \<in> set ss. \<forall>k \<in> fst ` set (stream_packets st). c \<le> k"
        by (cases "fold ?f ss (Some m)") auto
      with m least show ?thesis unfolding fold m(1) by (force intro: order_trans)
    qed
  qed
  from this [of None] show ?thesis unfolding oldest_cts_def by (simp split: option.splits)
qed

text \<open>The loop cuts every stream at one CTS, and no earlier cut would have fitted.\<close>

lemma evict_loop_cut:
  assumes "\<forall>st \<in> set ss. stream_ok st" and "total_bytes ss < 2 ^ 64"
  shows "\<exists>kept. evict_loop cap ss n =
      (kept, n + word_of_nat (packet_count ss - packet_count kept)) \<and> total_bytes kept \<le> unat cap \<and>
    (kept = ss \<or> (\<exists>c. kept = map (cut_above c) ss \<and> unat cap < total_bytes (map (from_cts c) ss)))"
  using assms
proof (induction cap ss n rule: evict_loop.induct)
  case (1 cap ss n)
  note exact = RetainedBytes_exact [OF "1.prems"]
  show ?case
  proof (cases "RetainedBytes ss > cap")
    case False
    then have "total_bytes ss \<le> unat cap" using exact by (simp add: not_less word_le_nat_alt)
    with False show ?thesis
      by (intro exI [of _ ss]) (simp add: evict_loop.simps [of cap ss n])
  next
    case True
    then have over: "unat cap < total_bytes ss" using exact by (simp add: word_less_nat_alt)
    have wf: "\<forall>st \<in> set ss. om_wf (stream_packets st)" using "1.prems"(1) stream_ok_wf by blast
    have "oldest_cts ss \<noteq> None"
    proof
      assume "oldest_cts ss = None"
      with oldest_cts_least [OF wf] have "\<forall>st \<in> set ss. stream_packets st = []" by simp
      then have "total_bytes ss = 0" by (induction ss) auto
      with over show False by simp
    qed
    then obtain c where c: "oldest_cts ss = Some c" by blast
    have all: "map (from_cts c) ss = map (\<lambda>st. st) ss"
    proof (rule map_cong [OF refl])
      fix st assume st: "st \<in> set ss"
      with oldest_cts_least [OF wf] c have "\<forall>e \<in> set (stream_packets st). c \<le> fst e" by simp
      then have "filter (\<lambda>e. c \<le> fst e) (stream_packets st) = stream_packets st" by simp
      with st "1.prems"(1) show "from_cts c st = st" by (simp add: from_cts_def stream_ok_self)
    qed
    note round = evict_common_prefix_ok [OF "1.prems"(1), of c n]
    have ok': "\<forall>st \<in> set (map (cut_above c) ss). stream_ok st" using "1.prems"(1) stream_ok_cut_above by auto
    have fit': "total_bytes (map (cut_above c) ss) < 2 ^ 64"
      using "1.prems"(2) total_bytes_cut_le [of c ss] by linarith
    from "1.IH" [OF True c refl round [symmetric] ok' fit'] obtain kept where
      k: "evict_loop cap (map (cut_above c) ss) (n + word_of_nat (packet_count ss - packet_count (map (cut_above c) ss))) =
        (kept, n + word_of_nat (packet_count ss - packet_count (map (cut_above c) ss)) +
           word_of_nat (packet_count (map (cut_above c) ss) - packet_count kept))"
      and le: "total_bytes kept \<le> unat cap"
      and how: "kept = map (cut_above c) ss \<or> (\<exists>d. kept = map (cut_above d) (map (cut_above c) ss) \<and>
        unat cap < total_bytes (map (from_cts d) (map (cut_above c) ss)))" by blast
    have "packet_count kept \<le> packet_count (map (cut_above c) ss)"
      using how packet_count_cut_le [of _ "map (cut_above c) ss"] by (auto simp del: map_map)
    then have count: "n + word_of_nat (packet_count ss - packet_count (map (cut_above c) ss)) +
           word_of_nat (packet_count (map (cut_above c) ss) - packet_count kept) =
        n + word_of_nat (packet_count ss - packet_count kept)"
      using packet_count_cut_le [of c ss] by (simp flip: of_nat_add)
    have "\<exists>d. kept = map (cut_above d) ss \<and> unat cap < total_bytes (map (from_cts d) ss)"
      using how
    proof
      assume "kept = map (cut_above c) ss"
      with over all show ?thesis by auto
    next
      assume "\<exists>d. kept = map (cut_above d) (map (cut_above c) ss) \<and>
        unat cap < total_bytes (map (from_cts d) (map (cut_above c) ss))"
      then obtain d where d: "kept = map (cut_above d) (map (cut_above c) ss)"
        "unat cap < total_bytes (map (from_cts d) (map (cut_above c) ss))" by blast
      show ?thesis
      proof (cases "c < d")
        case True
        then have "map (cut_above d) (map (cut_above c) ss) = map (cut_above d) ss"
          "map (from_cts d) (map (cut_above c) ss) = map (from_cts d) ss"
          by (simp_all add: cut_above_twice from_cts_cut)
        with d have "kept = map (cut_above d) ss" "unat cap < total_bytes (map (from_cts d) ss)"
          by (simp_all del: map_map)
        then show ?thesis by blast
      next
        case False
        then have "map (cut_above d) (map (cut_above c) ss) = map (cut_above c) ss"
          by (simp add: cut_above_within)
        with d(1) over all show ?thesis by auto
      qed
    qed
    moreover have "evict_loop cap ss n = (kept, n + word_of_nat (packet_count ss - packet_count kept))"
      using True by (simp add: evict_loop.simps [of cap ss n] c round k count)
    ultimately show ?thesis using le by blast
  qed
qed

lemma EvictToCapacity_cut:
  assumes "\<forall>st \<in> set ss. stream_ok st" and "total_bytes ss < 2 ^ 64"
  obtains kept where "EvictToCapacity cap ss n =
      (map trim kept, n + word_of_nat (packet_count ss - packet_count (map trim kept)))"
    and "total_bytes kept \<le> unat cap" and "\<forall>st \<in> set kept. stream_ok st"
    and "kept = ss \<or> (\<exists>c. kept = map (cut_above c) ss \<and> unat cap < total_bytes (map (from_cts c) ss))"
proof -
  from evict_loop_cut [OF assms, of cap n] obtain kept where
    k: "evict_loop cap ss n = (kept, n + word_of_nat (packet_count ss - packet_count kept))"
    and le: "total_bytes kept \<le> unat cap"
    and how: "kept = ss \<or> (\<exists>c. kept = map (cut_above c) ss \<and> unat cap < total_bytes (map (from_cts c) ss))"
    by blast
  have ok: "\<forall>st \<in> set kept. stream_ok st" using how assms(1) stream_ok_cut_above by auto
  have "packet_count kept \<le> packet_count ss" using how packet_count_cut_le by auto
  then have "n + word_of_nat (packet_count ss - packet_count kept) +
      word_of_nat (packet_count kept - packet_count (map trim kept)) =
    n + word_of_nat (packet_count ss - packet_count (map trim kept))"
    using packet_count_trim_le [of kept] by (simp flip: of_nat_add)
  moreover have "over_streams (erase_while (\<lambda>_ p. \<not> keyframe (captured_packet p))) kept m =
      (map trim kept, m + word_of_nat (packet_count kept - packet_count (map trim kept)))" for m
    using ok by (intro over_erase_while) (auto simp: trim_def)
  ultimately have "EvictToCapacity cap ss n =
      (map trim kept, n + word_of_nat (packet_count ss - packet_count (map trim kept)))"
    unfolding EvictToCapacity_def k by simp
  then show ?thesis using that le how ok by blast
qed

subsection \<open>The session invariant\<close>

definition captured_ok :: "nat \<Rightarrow> CapturedEncodedPacket \<Rightarrow> bool" where
  "captured_ok i q \<longleftrightarrow> unat (captured_stream_id q) = i \<and> payload (captured_packet q) \<noteq> [] \<and>
     has_timing (captured_packet q)"

definition watermark_ok :: "nat \<Rightarrow> StreamState \<Rightarrow> bool" where
  "watermark_ok i st \<longleftrightarrow> (\<forall>e \<in> set (stream_packets st).
     captured_ok i (snd e) \<and> fst e \<le> max_source_cts st \<and> has_source_cts st)"

definition starts_at_keyframe :: "StreamState \<Rightarrow> bool" where
  "starts_at_keyframe st \<longleftrightarrow>
     (case stream_packets st of [] \<Rightarrow> True | e # _ \<Rightarrow> keyframe (captured_packet (snd e)))"

definition capture_inv :: "capture_session \<Rightarrow> bool" where
  "capture_inv s \<longleftrightarrow>
     (\<forall>st \<in> set (streams s). stream_ok st) \<and>
     (\<forall>i < length (streams s). watermark_ok i (streams s ! i)) \<and>
     (\<forall>st \<in> set (streams s). starts_at_keyframe st) \<and>
     total_bytes (streams s) \<le> unat (ring_capacity_bytes (capture_config s)) \<and>
     unat (ring_capacity_bytes (capture_config s)) < 2 ^ 63 \<and>
     unat (retained_bytes s) = total_bytes (streams s) \<and>
     retained_bytes s \<le> peak_capture_bytes s \<and>
     (\<not> replay_retention_enabled s \<longrightarrow> (\<forall>st \<in> set (streams s). stream_packets st = [])) \<and>
     distinct (map stream_name (streams s)) \<and> distinct (consumers s) \<and> 0 \<notin> set (consumers s)"

datatype capture_op =
    RegisterOp CaptureStreamId string PacketStreamConfig
  | SubscribeOp consumer_ref
  | UnsubscribeOp consumer_ref
  | StartOp
  | IngestOp CaptureStreamId EncodedPacket bytes
  | SetCapacityOp usize
  | RetentionOp bool
  | StopOp

fun capture_step :: "capture_op \<Rightarrow> capture_session \<Rightarrow> capture_session" where
  "capture_step (RegisterOp i name cfg) s = snd (RegisterStream i name cfg s)"
| "capture_step (SubscribeOp c) s = snd (Subscribe c s)"
| "capture_step (UnsubscribeOp c) s = snd (Unsubscribe c s)"
| "capture_step StartOp s = snd (capture_Start s)"
| "capture_step (IngestOp i p extra) s = fst (snd (Ingest i p extra s))"
| "capture_step (SetCapacityOp cap) s = SetRingCapacityBytes cap s"
| "capture_step (RetentionOp on) s = SetReplayRetentionEnabled on s"
| "capture_step StopOp s = capture_Stop s"

text \<open>No packet and no ring of 2^63 bytes fits in the address space of the program.\<close>

fun capture_op_fits :: "capture_op \<Rightarrow> bool" where
  "capture_op_fits (IngestOp i p extra) = (length (payload p) < 2 ^ 63)"
| "capture_op_fits (SetCapacityOp cap) = (unat cap < 2 ^ 63)"
| "capture_op_fits _ = True"

definition capture_run :: "SynchronizedCaptureConfig \<Rightarrow> capture_op list \<Rightarrow> capture_session" where
  "capture_run cfg ops = fold capture_step ops (new_capture cfg)"

lemma capture_inv_new: "unat (ring_capacity_bytes cfg) < 2 ^ 63 \<Longrightarrow> capture_inv (new_capture cfg)"
  by (simp add: capture_inv_def new_capture_def)

lemma trim_keyframe: "starts_at_keyframe (trim st)"
  unfolding starts_at_keyframe_def trim_def
  by (auto simp: dropWhile_eq_Cons_conv split: list.splits)

lemma watermark_part:
  "watermark_ok i st \<Longrightarrow> set m \<subseteq> set (stream_packets st) \<Longrightarrow> watermark_ok i (with_packets m st)"
  by (auto simp: watermark_ok_def)

lemma watermark_evicted: "watermark_ok i st \<Longrightarrow> watermark_ok i (trim st)"
  "watermark_ok i st \<Longrightarrow> watermark_ok i (cut_above c st)"
  unfolding trim_def cut_above_def by (auto intro!: watermark_part dest: set_dropWhileD)

text \<open>Eviction of well-formed streams gives streams that satisfy the stream part of the invariant.\<close>

lemma evict_inv:
  assumes ok: "\<forall>st \<in> set ss. stream_ok st" and wm: "\<forall>i < length ss. watermark_ok i (ss ! i)"
    and fit: "total_bytes ss < 2 ^ 64" and e: "EvictToCapacity cap ss n = (ss', n')"
  shows "(\<forall>st \<in> set ss'. stream_ok st) \<and> (\<forall>i < length ss'. watermark_ok i (ss' ! i)) \<and>
    (\<forall>st \<in> set ss'. starts_at_keyframe st) \<and> total_bytes ss' \<le> unat cap \<and>
    unat (RetainedBytes ss') = total_bytes ss' \<and> total_bytes ss' \<le> total_bytes ss \<and>
    map stream_name ss' = map stream_name ss"
proof -
  from EvictToCapacity_cut [OF ok fit, of cap n] obtain kept where
    k: "EvictToCapacity cap ss n =
      (map trim kept, n + word_of_nat (packet_count ss - packet_count (map trim kept)))"
    "total_bytes kept \<le> unat cap" "\<forall>st \<in> set kept. stream_ok st"
    "kept = ss \<or> (\<exists>c. kept = map (cut_above c) ss \<and> unat cap < total_bytes (map (from_cts c) ss))" .
  have ss': "ss' = map trim kept" using e k(1) by simp
  have ok': "\<forall>st \<in> set ss'. stream_ok st" using k(3) stream_ok_trim by (auto simp: ss')
  have wm': "\<forall>i < length kept. watermark_ok i (kept ! i)"
    using k(4) wm watermark_evicted by auto
  have le: "total_bytes ss' \<le> total_bytes kept" unfolding ss' by (rule total_bytes_trim_le)
  have le': "total_bytes kept \<le> total_bytes ss" using k(4) total_bytes_cut_le by auto
  have names: "map stream_name kept = map stream_name ss" using k(4) by (auto simp: cut_above_def)
  have "unat (RetainedBytes ss') = total_bytes ss'"
    using ok' le le' fit by (intro RetainedBytes_exact) auto
  moreover have "map stream_name ss' = map stream_name kept" by (simp add: ss' trim_def)
  ultimately show ?thesis
    using ok' wm' le le' k(2) names by (auto simp: ss' trim_keyframe watermark_evicted)
qed

text \<open>Adopting the result of an eviction, and registering the packet of an ingest.\<close>

lemma capture_inv_evict:
  assumes "\<forall>st \<in> set ss. stream_ok st" "\<forall>i < length ss. watermark_ok i (ss ! i)"
    and "total_bytes ss < 2 ^ 64" and e: "EvictToCapacity cap ss n = (ss', n')"
    and "unat cap < 2 ^ 63" and "total_bytes ss \<le> unat peak" and "replay_retention_enabled s"
    and "capture_config s = capture_config s0\<lparr>ring_capacity_bytes := cap\<rparr>"
    and "distinct (map stream_name ss)" "distinct (consumers s)" "0 \<notin> set (consumers s)"
  shows "capture_inv (s\<lparr>streams := ss', peak_capture_bytes := peak, evicted_packet_count := n',
    retained_bytes := RetainedBytes ss'\<rparr>)"
proof -
  note ev = evict_inv [OF assms(1-3) e]
  then have "RetainedBytes ss' \<le> peak" using assms(6) by (simp add: word_le_nat_alt)
  with ev assms show ?thesis by (simp add: capture_inv_def)
qed

lemma observe_stream_config_fields [simp]:
  "stream_packets (observe_stream_config p x st) = stream_packets st"
  "stream_retained_bytes (observe_stream_config p x st) = stream_retained_bytes st"
  "stream_name (observe_stream_config p x st) = stream_name st"
  "max_source_cts (observe_stream_config p x st) = max_source_cts st"
  "has_source_cts (observe_stream_config p x st) = has_source_cts st"
  by (simp_all add: observe_stream_config_def Let_def)

lemma observe_stream_config_inv [simp]:
  "stream_ok (observe_stream_config p x st) \<longleftrightarrow> stream_ok st"
  "watermark_ok i (observe_stream_config p x st) \<longleftrightarrow> watermark_ok i st"
  "starts_at_keyframe (observe_stream_config p x st) \<longleftrightarrow> starts_at_keyframe st"
  by (simp_all add: stream_ok_def watermark_ok_def starts_at_keyframe_def)

lemma retain_in_stream_packets [simp]:
  "stream_packets (retain_in_stream q st) =
     om_emplace (source_cts (captured_packet q)) q (stream_packets st)"
  "stream_name (retain_in_stream q st) = stream_name st"
  by (simp_all add: retain_in_stream_def Let_def)

lemma stream_bytes_emplace:
  "k \<notin> fst ` set m \<Longrightarrow>
     stream_bytes (om_emplace k q m) = length (payload (captured_packet q)) + stream_bytes m"
  by (induction k q m rule: om_emplace.induct) auto

lemma retain_in_stream_ok:
  assumes "stream_ok st" and "om_find (stream_packets st) (source_cts (captured_packet q)) = None"
    and fit: "stream_bytes (stream_packets st) + length (payload (captured_packet q)) < 2 ^ 64"
  shows "stream_ok (retain_in_stream q st)"
    "stream_bytes (stream_packets (retain_in_stream q st)) =
       stream_bytes (stream_packets st) + length (payload (captured_packet q))"
proof -
  let ?c = "source_cts (captured_packet q)"
  have new: "?c \<notin> fst ` set (stream_packets st)"
    using assms(2) by (simp add: om_find_def map_of_eq_None_iff)
  show bytes: "stream_bytes (stream_packets (retain_in_stream q st)) =
       stream_bytes (stream_packets st) + length (payload (captured_packet q))"
    by (simp add: stream_bytes_emplace [OF new])
  have "om_filed (source_cts \<circ> captured_packet) (om_emplace ?c q (stream_packets st))"
    using oms.filed_emplace [of "source_cts \<circ> captured_packet" "stream_packets st" q] assms(1)
    by (simp add: stream_ok_def)
  moreover have "unat (stream_retained_bytes (retain_in_stream q st)) =
      stream_bytes (stream_packets (retain_in_stream q st))"
    using bytes fit
    by (simp add: retain_in_stream_def Let_def stream_ok_retained [OF assms(1)] PacketBytes_def
        vsize_def unat_of_nat flip: of_nat_add)
  ultimately show "stream_ok (retain_in_stream q st)" by (simp add: stream_ok_def)
qed

lemma retain_in_stream_watermark:
  assumes "watermark_ok i st" and "captured_ok i q"
    and "om_find (stream_packets st) (source_cts (captured_packet q)) = None"
  shows "watermark_ok i (retain_in_stream q st)"
proof -
  have "source_cts (captured_packet q) \<notin> fst ` set (stream_packets st)"
    using assms(3) by (simp add: om_find_def map_of_eq_None_iff)
  with assms(1,2) show ?thesis
    by (auto simp: watermark_ok_def retain_in_stream_def Let_def set_om_emplace max_def)
qed

lemma total_bytes_update:
  "i < length ss \<Longrightarrow> total_bytes (ss[i := st]) + stream_bytes (stream_packets (ss ! i)) =
     total_bytes ss + stream_bytes (stream_packets st)"
proof (induction ss arbitrary: i)
  case (Cons s ss)
  then show ?case by (cases i) auto
qed simp

subsection \<open>Every call keeps the invariant\<close>

lemma capture_inv_streams: "capture_inv s \<Longrightarrow> total_bytes (streams s) < 2 ^ 63"
  unfolding capture_inv_def by linarith

lemma capture_inv_Register: "capture_inv s \<Longrightarrow> capture_inv (snd (RegisterStream i name cfg s))"
  unfolding RegisterStream_def
  by (auto simp: capture_inv_def nth_append watermark_ok_def stream_ok_def starts_at_keyframe_def
      list_ex_iff less_Suc_eq)

lemma capture_inv_Subscribe:
  "capture_inv s \<Longrightarrow> capture_inv (snd (Subscribe c s))"
  "capture_inv s \<Longrightarrow> capture_inv (snd (Unsubscribe c s))"
  unfolding Subscribe_def Unsubscribe_def
  by (auto simp: capture_inv_def dest: in_set_remove1 notin_set_remove1)

lemma capture_inv_running:
  "capture_inv s \<Longrightarrow> capture_inv (snd (capture_Start s))" "capture_inv s \<Longrightarrow> capture_inv (capture_Stop s)"
  by (simp_all add: capture_Start_def capture_Stop_def capture_inv_def)

lemma capture_inv_Retention: "capture_inv s \<Longrightarrow> capture_inv (SetReplayRetentionEnabled on s)"
  by (auto simp: SetReplayRetentionEnabled_def Let_def capture_inv_def stream_ok_def watermark_ok_def
      starts_at_keyframe_def total_bytes_def comp_def)

lemma capture_inv_SetCapacity:
  assumes inv: "capture_inv s" and cap: "unat cap < 2 ^ 63"
  shows "capture_inv (SetRingCapacityBytes cap s)"
proof (cases "replay_retention_enabled s")
  case False
  with inv have "total_bytes (streams s) = 0" by (simp add: capture_inv_def total_bytes_def)
  with False inv cap show ?thesis by (simp add: SetRingCapacityBytes_def capture_inv_def)
next
  case True
  obtain ss' n' where e: "EvictToCapacity cap (streams s) (evicted_packet_count s) = (ss', n')"
    by fastforce
  let ?s = "s\<lparr>capture_config := capture_config s\<lparr>ring_capacity_bytes := cap\<rparr>\<rparr>"
  have "capture_inv (?s\<lparr>streams := ss', peak_capture_bytes := peak_capture_bytes s,
      evicted_packet_count := n', retained_bytes := RetainedBytes ss'\<rparr>)"
    using inv cap True capture_inv_streams [OF inv]
    by (intro capture_inv_evict [OF _ _ _ e, where ?s0.0 = s])
      (auto simp: capture_inv_def word_le_nat_alt)
  with True e show ?thesis by (simp add: SetRingCapacityBytes_def Let_def)
qed

lemma capture_inv_Ingest:
  assumes inv: "capture_inv s" and fit: "length (payload p) < 2 ^ 63"
  shows "capture_inv (fst (snd (Ingest i p extra s)))"
proof (cases "\<not> capture_running s \<or> unat i \<ge> length (streams s) \<or> payload p = [] \<or>
    sint (timebase_num p) \<le> 0 \<or> sint (timebase_den p) \<le> 0")
  case True
  with inv show ?thesis by (simp add: Ingest_def capture_inv_def)
next
  case accepted: False
  let ?st = "streams s ! unat i"
  show ?thesis
  proof (cases "om_find (stream_packets ?st) (source_cts p) = None")
    case False
    with accepted inv show ?thesis by (simp add: Ingest_def capture_inv_def)
  next
    case new: True
    let ?q = "\<lparr>captured_stream_id = i, captured_packet = p, codec_extra_data = extra\<rparr>"
    let ?ob = "observe_stream_config p extra ?st"
    let ?s = "s\<lparr>streams := (streams s)[unat i := ?ob]\<rparr>"
    have i: "unat i < length (streams s)" using accepted by simp
    have mem: "?st \<in> set (streams s)" using i by simp
    have ok: "stream_ok ?st" and wm: "watermark_ok (unat i) ?st" and key: "starts_at_keyframe ?st"
      using inv i mem unfolding capture_inv_def by blast+
    have names: "map stream_name ((streams s)[unat i := st]) = map stream_name (streams s)"
      if "stream_name st = stream_name ?st" for st
      using i that by (simp add: map_update list_update_same_conv)
    have total: "total_bytes ((streams s)[unat i := ?ob]) = total_bytes (streams s)"
      using total_bytes_update [OF i, of ?ob] by simp
    have q: "captured_ok (unat i) ?q" using accepted by (simp add: captured_ok_def has_timing_def)
    show ?thesis
    proof (cases "replay_retention_enabled s")
      case False
      then have "stream_packets ?st = []" using inv mem by (simp add: capture_inv_def)
      then have "stream_packets ?ob = []" by simp
      then have "capture_inv ?s"
        using inv ok wm key total names [of ?ob] False i
        by (auto simp: capture_inv_def nth_list_update dest!: set_update_subset_insert [THEN subsetD])
      then show ?thesis using accepted new False by (simp add: Ingest_def Let_def)
    next
      case True
      let ?r = "retain_in_stream ?q ?ob"
      let ?ss = "(streams s)[unat i := ?r]"
      let ?peak = "max (peak_capture_bytes s) (retained_bytes s + PacketBytes ?q)"
      obtain ss' n' where e: "EvictToCapacity (ring_capacity_bytes (capture_config s)) ?ss
          (evicted_packet_count s) = (ss', n')" by fastforce
      have small: "total_bytes (streams s) < 2 ^ 63" using capture_inv_streams [OF inv] .
      have "stream_bytes (stream_packets ?st) \<le> total_bytes (streams s)"
        using total_bytes_update [OF i, of "with_packets [] ?st"] by simp
      then have room: "stream_bytes (stream_packets ?ob) + length (payload (captured_packet ?q)) < 2 ^ 64"
        using small fit by simp
      have r: "stream_ok ?r" "stream_bytes (stream_packets ?r) =
          stream_bytes (stream_packets ?ob) + length (payload (captured_packet ?q))"
        using retain_in_stream_ok [OF _ _ room] ok new by simp_all
      have rw: "watermark_ok (unat i) ?r"
        using retain_in_stream_watermark [of "unat i" ?ob ?q] wm q new by simp
      have tot: "total_bytes ?ss = total_bytes (streams s) + length (payload p)"
        using total_bytes_update [OF i, of ?r] r(2) by simp
      have bytes: "unat (retained_bytes s + PacketBytes ?q) = total_bytes ?ss"
      proof -
        have "unat (retained_bytes s) = total_bytes (streams s)" using inv by (simp add: capture_inv_def)
        moreover have "unat (PacketBytes ?q) = length (payload p)"
          using fit by (simp add: PacketBytes_def unat_vsize)
        ultimately show ?thesis using tot small fit by (simp add: unat_add_lem [THEN iffD1])
      qed
      have "capture_inv (?s\<lparr>streams := ss', peak_capture_bytes := ?peak,
          evicted_packet_count := n', retained_bytes := RetainedBytes ss'\<rparr>)"
      proof (rule capture_inv_evict [OF _ _ _ e, where ?s0.0 = s])
        show "\<forall>st \<in> set ?ss. stream_ok st"
          using inv r(1) unfolding capture_inv_def
          by (auto dest!: set_update_subset_insert [THEN subsetD])
        show "\<forall>j < length ?ss. watermark_ok j (?ss ! j)"
          using inv rw i unfolding capture_inv_def by (simp add: nth_list_update)
        show "total_bytes ?ss < 2 ^ 64" using tot small fit by simp
        show "total_bytes ?ss \<le> unat ?peak"
          using bytes by (simp add: max_def word_le_nat_alt)
        show "distinct (map stream_name ?ss)"
          using inv names [of ?r] by (simp add: capture_inv_def)
      qed (use inv True in \<open>simp_all add: capture_inv_def\<close>)
      then show ?thesis using accepted new True i e by (simp add: Ingest_def Let_def)
    qed
  qed
qed

lemma capture_inv_step: "capture_op_fits op \<Longrightarrow> capture_inv s \<Longrightarrow> capture_inv (capture_step op s)"
  by (cases op) (simp_all add: capture_inv_Register capture_inv_Subscribe capture_inv_running
      capture_inv_Retention capture_inv_SetCapacity capture_inv_Ingest)

lemma capture_inv_run:
  assumes "unat (ring_capacity_bytes cfg) < 2 ^ 63" and "list_all capture_op_fits ops"
  shows "capture_inv (capture_run cfg ops)"
proof -
  have "capture_inv s \<Longrightarrow> capture_inv (fold capture_step ops s)" for s
    using assms(2) by (induction ops arbitrary: s) (simp_all add: capture_inv_step)
  from this [OF capture_inv_new [OF assms(1)]] show ?thesis by (simp add: capture_run_def)
qed

end
