(* ===== verification/CaptureProperties.thy ===== *)
theory CaptureProperties
  imports CaptureInvariant
begin

text \<open>
  The properties of the shared packet ring: its accounting over every sequence of calls, what
  eviction removes, what an ingest answers and delivers, and what a snapshot holds.
\<close>

subsection \<open>A small session\<close>

definition demo_stream_config :: PacketStreamConfig where
  "demo_stream_config = \<lparr>cfg_width = 2, cfg_height = 2, cfg_timebase_num = 1, cfg_timebase_den = 60,
     extra_data = [], muxer_tail_capacity_bytes = 0, muxer_reorder_safety_cts = 0\<rparr>"

definition demo_capture_config :: "usize \<Rightarrow> SynchronizedCaptureConfig" where
  "demo_capture_config cap = \<lparr>ring_capacity_bytes = cap, capture_source_cts_step = 10\<rparr>"

definition demo_ingest :: "(u8 \<times> u64 \<times> bool) list \<Rightarrow> capture_op list" where
  "demo_ingest ps = [RegisterOp 0 ''main'' demo_stream_config, RegisterOp 1 ''clean'' demo_stream_config,
     SubscribeOp 7, StartOp] @ map (\<lambda>(i, c, key). IngestOp i (demo_packet c key [1, 2]) []) ps"

lemma demo_ingest_fits: "list_all capture_op_fits (demo_ingest ps)"
  by (simp add: demo_ingest_def list_all_iff demo_packet_def case_prod_beta)

lemma demo_capture_inv: "unat cap < 2 ^ 63 \<Longrightarrow> capture_inv (capture_run (demo_capture_config cap) (demo_ingest ps))"
  by (rule capture_inv_run [OF _ demo_ingest_fits]) (simp add: demo_capture_config_def)

subsection \<open>The ring\<close>

text \<open>C6. Over every sequence of calls on a capture session (registrations, subscriptions, ingests,
  capacity and retention changes, start and stop; payloads and capacities below 2^63 bytes), the
  retained byte count is the exact sum of the retained payloads and never above the ring capacity;
  every stream's packets are held under their own CTS in ascending order, belong to that stream, are
  at or below its watermark, and begin with a keyframe; with replay retention off nothing is
  retained.\<close>

theorem capture_ring_is_bounded:
  assumes "unat (ring_capacity_bytes cfg) < 2 ^ 63" and "list_all capture_op_fits ops"
    and "s = capture_run cfg ops"
  shows "unat (metric_retained_bytes (capture_metrics s)) =
      (\<Sum>st\<leftarrow>streams s. \<Sum>e\<leftarrow>stream_packets st. length (payload (captured_packet (snd e)))) \<and>
    metric_retained_bytes (capture_metrics s) \<le> ring_capacity_bytes (capture_config s) \<and>
    metric_retained_bytes (capture_metrics s) \<le> metric_peak_bytes (capture_metrics s) \<and>
    (\<forall>i < length (streams s). \<forall>e \<in> set (stream_packets (streams s ! i)).
       source_cts (captured_packet (snd e)) = fst e \<and> unat (captured_stream_id (snd e)) = i \<and>
       fst e \<le> max_source_cts (streams s ! i)) \<and>
    (\<forall>st \<in> set (streams s). sorted_wrt (<) (map fst (stream_packets st)) \<and>
       (stream_packets st \<noteq> [] \<longrightarrow> keyframe (captured_packet (snd (hd (stream_packets st)))))) \<and>
    (\<not> replay_retention_enabled s \<longrightarrow> (\<forall>st \<in> set (streams s). stream_packets st = []))"
proof -
  have inv: "capture_inv s" using capture_inv_run [OF assms(1,2)] assms(3) by simp
  then have bytes: "unat (retained_bytes s) = total_bytes (streams s)"
    "total_bytes (streams s) \<le> unat (ring_capacity_bytes (capture_config s))"
    "retained_bytes s \<le> peak_capture_bytes s" by (simp_all add: capture_inv_def)
  have filed: "source_cts (captured_packet (snd e)) = fst e \<and> unat (captured_stream_id (snd e)) = i \<and>
       fst e \<le> max_source_cts (streams s ! i)"
    if "i < length (streams s)" "e \<in> set (stream_packets (streams s ! i))" for i e
  proof -
    have "stream_ok (streams s ! i)" "watermark_ok i (streams s ! i)"
      using inv that(1) by (auto simp: capture_inv_def)
    with that(2) show ?thesis
      by (simp add: stream_ok_def om_filed_entries watermark_ok_def captured_ok_def)
  qed
  have front: "sorted_wrt (<) (map fst (stream_packets st)) \<and>
       (stream_packets st \<noteq> [] \<longrightarrow> keyframe (captured_packet (snd (hd (stream_packets st)))))"
    if "st \<in> set (streams s)" for st
  proof -
    have "stream_ok st" "starts_at_keyframe st" using inv that by (auto simp: capture_inv_def)
    then show ?thesis
      using stream_ok_wf [of st] by (auto simp: starts_at_keyframe_def om_wf_def split: list.splits)
  qed
  have off: "\<not> replay_retention_enabled s \<longrightarrow> (\<forall>st \<in> set (streams s). stream_packets st = [])"
    using inv by (simp add: capture_inv_def)
  have "unat (retained_bytes s) =
      (\<Sum>st\<leftarrow>streams s. \<Sum>e\<leftarrow>stream_packets st. length (payload (captured_packet (snd e))))"
    using bytes(1) by (simp add: total_bytes_def stream_bytes_def)
  with bytes filed front off show ?thesis
    unfolding capture_metrics_def by (simp add: word_le_nat_alt)
qed

theorem capture_ring_is_bounded_witness:
  "metric_retained_bytes (capture_metrics (capture_run (demo_capture_config 5)
     (demo_ingest [(0, 10, True), (0, 20, True), (1, 20, True), (0, 30, True)]))) \<le> 5"
proof -
  let ?s = "capture_run (demo_capture_config 5)
     (demo_ingest [(0, 10, True), (0, 20, True), (1, 20, True), (0, 30, True)])"
  have cap: "ring_capacity_bytes (capture_config ?s) = 5" by code_simp
  have "unat (ring_capacity_bytes (demo_capture_config 5)) < 2 ^ 63"
    by (simp add: demo_capture_config_def)
  from capture_ring_is_bounded [OF this demo_ingest_fits refl] cap show ?thesis by metis
qed

text \<open>C27. Capacity eviction is one common temporal cut followed by dropping partial GOPs: either the
  streams already fit and none is cut, or there is one CTS such that every stream keeps exactly its
  packets above it, what remains fits the capacity, and keeping that CTS as well would not have
  fitted. Then every stream drops its packets before its first keyframe. Only packets and byte counts
  change, byte counts stay exact, and the eviction counter grows by the number of packets removed.\<close>

theorem eviction_is_one_common_cut:
  assumes "\<forall>st \<in> set ss. stream_ok st" and "total_bytes ss < 2 ^ 64"
  shows "\<exists>kept. EvictToCapacity cap ss n =
      (map trim kept, n + word_of_nat (packet_count ss - packet_count (map trim kept))) \<and>
    total_bytes kept \<le> unat cap \<and> (\<forall>st \<in> set (map trim kept). stream_ok st) \<and>
    (if total_bytes ss \<le> unat cap then kept = ss
     else \<exists>c. kept = map (cut_above c) ss \<and> unat cap < total_bytes (map (from_cts c) ss))"
proof -
  from EvictToCapacity_cut [OF assms, of cap n] obtain kept where
    k: "EvictToCapacity cap ss n =
      (map trim kept, n + word_of_nat (packet_count ss - packet_count (map trim kept)))"
    "total_bytes kept \<le> unat cap" "\<forall>st \<in> set kept. stream_ok st"
    "kept = ss \<or> (\<exists>c. kept = map (cut_above c) ss \<and> unat cap < total_bytes (map (from_cts c) ss))" .
  have "total_bytes (map (from_cts c) ss) \<le> total_bytes ss" for c
    by (rule total_bytes_map_le) (simp add: from_cts_def stream_bytes_filter_le)
  then have "\<not> (total_bytes ss \<le> unat cap \<and> unat cap < total_bytes (map (from_cts c) ss))" for c
    using order_trans not_less by blast
  with k have "if total_bytes ss \<le> unat cap then kept = ss
     else \<exists>c. kept = map (cut_above c) ss \<and> unat cap < total_bytes (map (from_cts c) ss)"
    by auto
  moreover have "\<forall>st \<in> set (map trim kept). stream_ok st" using k(3) stream_ok_trim by simp
  ultimately show ?thesis using k(1,2) by blast
qed

definition demo_streams :: "StreamState list" where
  "demo_streams = streams (capture_run (demo_capture_config 100)
     (demo_ingest [(0, 10, True), (1, 10, True), (0, 20, False), (1, 20, False), (0, 30, True), (1, 30, False)]))"

theorem eviction_is_one_common_cut_witness:
  "\<exists>kept. fst (EvictToCapacity 8 demo_streams 0) = map trim kept \<and> total_bytes kept \<le> 8 \<and>
     kept \<noteq> demo_streams"
proof -
  have "capture_inv (capture_run (demo_capture_config 100) (demo_ingest ps))" for ps
    by (rule demo_capture_inv) simp
  then have ok: "\<forall>st \<in> set demo_streams. stream_ok st" by (simp add: demo_streams_def capture_inv_def)
  have total: "total_bytes demo_streams = 12" by code_simp
  then have "total_bytes demo_streams < 2 ^ 64" by simp
  from eviction_is_one_common_cut [OF ok this, of 8 0] obtain kept where
    "EvictToCapacity 8 demo_streams 0 = (map trim kept,
       0 + word_of_nat (packet_count demo_streams - packet_count (map trim kept)))"
    "total_bytes kept \<le> unat (8 :: u64)" by blast
  with total show ?thesis by (intro exI [of _ kept]) auto
qed

subsection \<open>Ingest\<close>

text \<open>Ingest on every branch: a packet that is offered while stopped, for an unknown stream,
  without payload or without a positive timebase is refused and only the rejection counter moves; a
  CTS the stream already holds is refused and only the duplicate counter moves; otherwise the call
  answers true and hands the same packet, with its extra data, to every subscriber in subscription
  order, whether or not replay retention is on, and with retention off the streams keep their packets.\<close>

theorem ingest_behaviour:
  shows "if \<not> capture_running s \<or> length (streams s) \<le> unat i \<or> payload p = [] \<or> \<not> has_timing p
     then Ingest i p extra s = (False, s\<lparr>rejected_packet_count := rejected_packet_count s + 1\<rparr>, [])
     else if source_cts p \<in> set (om_keys (packets_of (streams s) i))
     then Ingest i p extra s = (False, s\<lparr>duplicate_packet_count := duplicate_packet_count s + 1\<rparr>, [])
     else fst (Ingest i p extra s) \<and>
       snd (snd (Ingest i p extra s)) = map (\<lambda>c. (c, \<lparr>captured_stream_id = i, captured_packet = p,
         codec_extra_data = extra\<rparr>)) (filter (\<lambda>c. c \<noteq> 0) (consumers s)) \<and>
       consumers (fst (snd (Ingest i p extra s))) = consumers s \<and>
       (\<not> replay_retention_enabled s \<longrightarrow>
          map stream_packets (streams (fst (snd (Ingest i p extra s)))) = map stream_packets (streams s))"
proof -
  have known: "om_find (stream_packets (streams s ! unat i)) (source_cts p) \<noteq> None \<longleftrightarrow>
      source_cts p \<in> set (om_keys (packets_of (streams s) i))"
    by (auto simp: om_find_def om_keys_def packets_of_def map_of_eq_None_iff)
  have same: "map stream_packets ((streams s)[j := observe_stream_config p extra (streams s ! j)]) =
      map stream_packets (streams s)" for j
    by (cases "j < length (streams s)") (simp_all add: map_update list_update_same_conv list_update_beyond)
  show ?thesis
    unfolding Ingest_def known has_timing_def
    using same [of "unat i"] by (simp add: Let_def case_prod_beta not_le)
qed

theorem ingest_behaviour_witness:
  "snd (snd (Ingest 1 (demo_packet 30 False [9]) [5] (capture_run (demo_capture_config 100)
      (demo_ingest [(0, 10, True)])))) =
    [(7, \<lparr>captured_stream_id = 1, captured_packet = demo_packet 30 False [9], codec_extra_data = [5]\<rparr>)]"
proof -
  let ?s = "capture_run (demo_capture_config 100) (demo_ingest [(0, 10, True)])"
  have pre: "\<not> (\<not> capture_running ?s \<or> length (streams ?s) \<le> unat (1 :: u8) \<or>
      payload (demo_packet 30 False [9]) = [] \<or> \<not> has_timing (demo_packet 30 False [9]))"
    "source_cts (demo_packet 30 False [9]) \<notin> set (om_keys (packets_of (streams ?s) 1))"
    "consumers ?s = [7]"
    by code_simp+
  show ?thesis
    using ingest_behaviour [where s = ?s and i = 1 and p = "demo_packet 30 False [9]" and extra = "[5]"]
    unfolding if_not_P [OF pre(1)] if_not_P [OF pre(2)] pre(3) by simp
qed

subsection \<open>Snapshots\<close>

lemma usable_ids_all:
  "usable_ids ss seen ids \<Longrightarrow> (\<forall>i \<in> set ids. unat i < length ss \<and> packets_of ss i \<noteq> []) \<and>
     distinct ids \<and> set ids \<inter> set seen = {}"
proof (induction ids arbitrary: seen)
  case (Cons i ids)
  from Cons.prems have "usable_ids ss (seen @ [i]) ids" "unat i < length ss" "i \<notin> set seen"
    "packets_of ss i \<noteq> []" by (auto split: if_splits)
  with Cons.IH [of "seen @ [i]"] show ?case by auto
qed simp

lemma last_start_greatest:
  "sorted_wrt (<) cs \<Longrightarrow> last_start ok target cs acc = Some c \<Longrightarrow>
     (acc = Some c \<and> (\<forall>k \<in> set cs. ok k \<longrightarrow> target < k)) \<or>
     (c \<in> set cs \<and> ok c \<and> c \<le> target \<and> (\<forall>k \<in> set cs. ok k \<and> k \<le> target \<longrightarrow> k \<le> c))"
proof (induction cs arbitrary: acc)
  case (Cons x cs)
  show ?case
  proof (cases "ok x \<and> x \<le> target")
    case True
    with Cons.prems Cons.IH [of "Some x"] show ?thesis by (auto simp: not_le dest: less_imp_le)
  next
    case False
    with Cons.prems Cons.IH [of acc] show ?thesis by (auto split: if_splits)
  qed
qed simp

lemma last_start_None: "last_start ok target cs acc = None \<Longrightarrow>
     acc = None \<and> (\<forall>k \<in> set cs. ok k \<longrightarrow> target < k)"
proof (induction cs arbitrary: acc)
  case (Cons x cs)
  show ?case
  proof (cases "ok x \<and> x \<le> target")
    case True
    with Cons.IH [of "Some x"] Cons.prems show ?thesis by simp
  next
    case False
    with Cons.IH [of acc] Cons.prems show ?thesis by (auto split: if_splits)
  qed
qed simp

lemma find_least:
  "sorted_wrt (<) cs \<Longrightarrow> find ok cs = Some c \<Longrightarrow>
     c \<in> set cs \<and> ok c \<and> (\<forall>k \<in> set cs. ok k \<longrightarrow> c \<le> k)"
  for cs :: "'a::linorder list"
  by (induction cs) (auto split: if_splits dest: less_imp_le)

lemma snapshot_end_held:
  assumes "sorted_wrt (<) cs" and "\<forall>c \<in> set cs. start \<le> c \<longrightarrow> acc \<le> c"
    and "held acc" and "start \<le> acc" and "acc \<le> hi" and "snapshot_end held start hi cs acc = e"
  shows "held e \<and> acc \<le> e \<and> e \<le> hi \<and> (e = acc \<or> e \<in> set cs) \<and>
    (\<forall>c \<in> set cs. start \<le> c \<and> c \<le> e \<longrightarrow> held c) \<and>
    (\<forall>c \<in> set cs. e < c \<and> c \<le> hi \<longrightarrow> (\<exists>k \<in> set cs. e < k \<and> k \<le> c \<and> \<not> held k))"
  using assms
proof (induction cs arbitrary: acc)
  case (Cons x cs)
  consider "x < start \<or> x > hi" | "start \<le> x" "x \<le> hi" "\<not> held x" | "start \<le> x" "x \<le> hi" "held x"
    by fastforce
  then show ?case
  proof cases
    case 1
    have rec: "snapshot_end held start hi cs acc = e" using 1 Cons.prems(6) by simp
    have "held e \<and> acc \<le> e \<and> e \<le> hi \<and> (e = acc \<or> e \<in> set cs) \<and>
      (\<forall>c \<in> set cs. start \<le> c \<and> c \<le> e \<longrightarrow> held c) \<and>
      (\<forall>c \<in> set cs. e < c \<and> c \<le> hi \<longrightarrow> (\<exists>k \<in> set cs. e < k \<and> k \<le> c \<and> \<not> held k))"
      by (rule Cons.IH [OF _ _ Cons.prems(3-5) rec]) (use Cons.prems in auto)
    moreover have "\<not> (start \<le> x \<and> x \<le> hi)" using 1 by auto
    moreover from calculation have "\<not> (e < x \<and> x \<le> hi)" "\<not> (start \<le> x \<and> x \<le> e)"
      using Cons.prems(4) by (auto intro: order_trans dest: less_imp_le)
    ultimately show ?thesis by auto
  next
    case 2
    then have e: "e = acc" using Cons.prems(6) by auto
    have "acc < x" using 2 Cons.prems(2,3) by (auto simp: le_less)
    with 2 e Cons.prems(1,3-5) show ?thesis by (fastforce simp: not_less)
  next
    case 3
    have rec: "snapshot_end held start hi cs x = e" using 3 Cons.prems(6) by auto
    have ih: "held e \<and> x \<le> e \<and> e \<le> hi \<and> (e = x \<or> e \<in> set cs) \<and>
      (\<forall>c \<in> set cs. start \<le> c \<and> c \<le> e \<longrightarrow> held c) \<and>
      (\<forall>c \<in> set cs. e < c \<and> c \<le> hi \<longrightarrow> (\<exists>k \<in> set cs. e < k \<and> k \<le> c \<and> \<not> held k))"
      by (rule Cons.IH [OF _ _ 3(3,1,2) rec]) (use Cons.prems in \<open>auto dest: less_imp_le\<close>)
    have "acc \<le> x" using Cons.prems(2) 3 by simp
    with ih 3 show ?thesis by (auto intro: order_trans)
  qed
qed simp

lemma AllKeyframes_ContainsAll: "AllKeyframes ss ids c \<Longrightarrow> ContainsAll ss ids c"
  by (auto simp: AllKeyframes_def ContainsAll_def list_all_iff split: option.splits)

text \<open>What the code has established when it builds a snapshot.\<close>

lemma snapshot_cases:
  assumes wf: "\<forall>st \<in> set (streams s). om_wf (stream_packets st)"
    and snap: "attempt_snapshot (SnapshotCommonRangeDetailed ids d s) = Some snap"
  obtains a e lo hi where "snap = build_snapshot (streams s) ids a e" and "ids \<noteq> []"
    and "usable_ids (streams s) [] ids" and "snapshot_bounds (streams s) ids = (lo, hi)"
    and "d \<le> hi - lo" and "lo \<le> a" and "e \<le> hi" and "AllKeyframes (streams s) ids a"
    and "snapshot_start (streams s) ids lo hi d = Some a"
    and "ContainsAll (streams s) ids e" and "a \<le> e"
    and "\<forall>c \<in> set (om_keys (packets_of (streams s) (hd ids))). a \<le> c \<and> c \<le> e \<longrightarrow>
      ContainsAll (streams s) ids c"
    and "\<forall>c \<in> set (om_keys (packets_of (streams s) (hd ids))). e < c \<and> c \<le> hi \<longrightarrow>
      (\<exists>k \<in> set (om_keys (packets_of (streams s) (hd ids))). e < k \<and> k \<le> c \<and>
         \<not> ContainsAll (streams s) ids k)"
proof -
  let ?ss = "streams s"
  let ?front = "om_keys (packets_of ?ss (hd ids))"
  obtain lo hi where b: "snapshot_bounds ?ss ids = (lo, hi)" by fastforce
  let ?ok = "\<lambda>c. \<not> (c < lo \<or> c > hi \<or> \<not> AllKeyframes ?ss ids c)"
  from snap have ids: "ids \<noteq> []" "usable_ids ?ss [] ids"
    by (auto simp: SnapshotCommonRangeDetailed_def snapshot_failed_def split: if_splits)
  from snap b ids obtain a where range: "\<not> lo > hi" "\<not> hi - lo < d"
    and start: "snapshot_start ?ss ids lo hi d = Some a"
    and built: "snap = build_snapshot ?ss ids a (snapshot_end (ContainsAll ?ss ids) a hi ?front a)"
    by (auto simp: SnapshotCommonRangeDetailed_def snapshot_failed_def Let_def
        split: if_splits option.splits)
  have "hd ids \<in> set ids" using ids(1) by simp
  with usable_ids_all [OF ids(2)] wf have "om_wf (packets_of ?ss (hd ids))"
    by (simp add: packets_of_def)
  then have sorted: "sorted_wrt (<) ?front" by (rule om.keys_sorted)
  have ok: "a \<in> set ?front \<and> ?ok a"
  proof (cases "last_start ?ok (if hi > d then hi - d else lo) ?front None")
    case None
    with start find_least [OF sorted, of ?ok a] show ?thesis by (simp add: snapshot_start_def Let_def)
  next
    case (Some c)
    with start last_start_greatest [OF sorted, of ?ok] show ?thesis
      by (fastforce simp: snapshot_start_def Let_def)
  qed
  have "ContainsAll ?ss ids a" using ok AllKeyframes_ContainsAll by blast
  from snapshot_end_held [where held = "ContainsAll ?ss ids" and acc = a and start = a and hi = hi,
      OF sorted _ this order_refl _ refl] ok
  show ?thesis using range ok by (intro that [OF built ids b _ _ _ _ start]) (simp_all add: not_less)
qed

text \<open>The upper bound is the last CTS of some requested stream.\<close>

lemma snapshot_bounds_last:
  assumes "snapshot_bounds ss ids = (lo, hi)" and "hi < c"
  shows "\<exists>i \<in> set ids. fst (last (packets_of ss i)) < c"
proof -
  have "snd (fold (\<lambda>i (lo, hi). (max lo (fst (hd (packets_of ss i))), min hi (fst (last (packets_of ss i)))))
      ids acc) < c \<Longrightarrow> snd acc < c \<or> (\<exists>i \<in> set ids. fst (last (packets_of ss i)) < c)" for acc
  proof (induction ids arbitrary: acc)
    case (Cons i ids)
    from Cons.IH [OF Cons.prems [unfolded fold.simps comp_def]] show ?case
      by (auto simp: case_prod_beta min_less_iff_disj)
  qed simp
  from this [of "(0, max_u64)"] assms show ?thesis by (auto simp: snapshot_bounds_def leD [OF max_u64_ge])
qed

lemma range_slice:
  assumes "om_wf m"
  shows "takeWhile (\<lambda>x. fst x \<le> e) (om_drop_below a m) = filter (\<lambda>x. a \<le> fst x \<and> fst x \<le> e) m"
proof -
  have "om_wf m' \<Longrightarrow> takeWhile (\<lambda>x. fst x \<le> e) m' = filter (\<lambda>x. fst x \<le> e) m'"
    for m' :: "('a, 'b) omap"
  proof (induction m')
    case (Cons x m')
    then have "e < fst x \<Longrightarrow> filter (\<lambda>x. fst x \<le> e) m' = []"
      by (force simp: filter_empty_conv om_wf_Cons)
    with Cons show ?case by (auto simp: om_wf_Cons not_le)
  qed simp
  with assms show ?thesis by (simp add: om_drop_below_filter om_wf_filter conj_commute)
qed

text \<open>C7. A snapshot holds one common range: it starts at a CTS that is a keyframe in every requested
  stream and ends at one every stream holds; every CTS of the first stream between them is in all of
  them, and the range ends there because the next CTS of the first stream is missing somewhere or
  past the end of some stream. For each requested stream, under its name and configuration, it holds
  exactly the stream's packets of that range in CTS order, the first of them the common keyframe.\<close>

theorem snapshot_holds_one_common_range:
  assumes inv: "capture_inv s"
    and snap: "attempt_snapshot (SnapshotCommonRangeDetailed ids d s) = Some snap"
    and a: "a = range_start_cts (snapshot_range snap)" and e: "e = range_end_cts (snapshot_range snap)"
  shows "a \<le> e \<and> AllKeyframes (streams s) ids a \<and> ContainsAll (streams s) ids e \<and>
    (\<forall>c \<in> set (om_keys (packets_of (streams s) (hd ids))). a \<le> c \<and> c \<le> e \<longrightarrow>
       ContainsAll (streams s) ids c) \<and>
    (\<forall>c \<in> set (om_keys (packets_of (streams s) (hd ids))). e < c \<longrightarrow>
       (\<exists>k \<in> set (om_keys (packets_of (streams s) (hd ids))). e < k \<and> k \<le> c \<and>
          \<not> ContainsAll (streams s) ids k) \<or>
       (\<exists>i \<in> set ids. fst (last (packets_of (streams s) i)) < c)) \<and>
    stream_names snap = map (\<lambda>i. stream_name (streams s ! unat i)) ids \<and>
    stream_configs snap = map (\<lambda>i. stream_config (streams s ! unat i)) ids \<and>
    snapshot_packets snap = map (\<lambda>i. filter (\<lambda>q. a \<le> source_cts (captured_packet q) \<and>
       source_cts (captured_packet q) \<le> e) (om_values (packets_of (streams s) i))) ids \<and>
    (\<forall>qs \<in> set (snapshot_packets snap). qs \<noteq> [] \<and> source_cts (captured_packet (hd qs)) = a \<and>
       keyframe (captured_packet (hd qs)) \<and>
       sorted_wrt (<) (map (\<lambda>q. source_cts (captured_packet q)) qs))"
proof -
  let ?ss = "streams s" and ?cts = "\<lambda>q. source_cts (captured_packet q)"
  have wf: "\<forall>st \<in> set ?ss. om_wf (stream_packets st)"
    using inv stream_ok_wf by (simp add: capture_inv_def)
  from snapshot_cases [OF wf snap] obtain a' e' lo hi where built: "snap = build_snapshot ?ss ids a' e'"
    and ids: "usable_ids ?ss [] ids" and key: "AllKeyframes ?ss ids a'" and le: "a' \<le> e'"
    and held: "ContainsAll ?ss ids e'" "\<forall>c \<in> set (om_keys (packets_of ?ss (hd ids))).
      a' \<le> c \<and> c \<le> e' \<longrightarrow> ContainsAll ?ss ids c"
    and b: "snapshot_bounds ?ss ids = (lo, hi)"
    and stop: "\<forall>c \<in> set (om_keys (packets_of ?ss (hd ids))). e' < c \<and> c \<le> hi \<longrightarrow>
      (\<exists>k \<in> set (om_keys (packets_of ?ss (hd ids))). e' < k \<and> k \<le> c \<and> \<not> ContainsAll ?ss ids k)" .
  have ends: "e' < c \<longrightarrow> (\<exists>k \<in> set (om_keys (packets_of ?ss (hd ids))). e' < k \<and> k \<le> c \<and>
      \<not> ContainsAll ?ss ids k) \<or> (\<exists>i \<in> set ids. fst (last (packets_of ?ss i)) < c)"
    if "c \<in> set (om_keys (packets_of ?ss (hd ids)))" for c
    using stop that snapshot_bounds_last [OF b, of c] by (cases "c \<le> hi") (auto simp: not_le)
  have eq: "a' = a" "e' = e" using a e built by (simp_all add: build_snapshot_def)
  have filed: "om_filed (source_cts \<circ> captured_packet) (packets_of ?ss i)" if "i \<in> set ids" for i
    using usable_ids_all [OF ids] that inv by (simp add: packets_of_def capture_inv_def stream_ok_def)
  have slice: "map snd (takeWhile (\<lambda>x. fst x \<le> e) (om_drop_below a (packets_of ?ss i))) =
      filter (\<lambda>q. a \<le> ?cts q \<and> ?cts q \<le> e) (om_values (packets_of ?ss i))" if "i \<in> set ids" for i
  proof -
    note f = filed [OF that, unfolded om_filed_entries]
    then have "filter (\<lambda>x. a \<le> fst x \<and> fst x \<le> e) (packets_of ?ss i) =
        filter (\<lambda>x. a \<le> ?cts (snd x) \<and> ?cts (snd x) \<le> e) (packets_of ?ss i)"
      by (intro filter_cong) auto
    with f show ?thesis by (simp add: range_slice om_values_def filter_map comp_def)
  qed
  have packets: "snapshot_packets snap = map (\<lambda>i. filter (\<lambda>q. a \<le> ?cts q \<and> ?cts q \<le> e)
      (om_values (packets_of ?ss i))) ids"
    using slice by (simp add: built build_snapshot_def eq)
  have each: "filter (\<lambda>q. a \<le> ?cts q \<and> ?cts q \<le> e) (om_values (packets_of ?ss i)) = qs \<Longrightarrow>
      qs \<noteq> [] \<and> ?cts (hd qs) = a \<and> keyframe (captured_packet (hd qs)) \<and> sorted_wrt (<) (map ?cts qs)"
    if i: "i \<in> set ids" for i qs
  proof -
    assume qs: "filter (\<lambda>q. a \<le> ?cts q \<and> ?cts q \<le> e) (om_values (packets_of ?ss i)) = qs"
    note f = filed [OF i]
    have "map ?cts (om_values (packets_of ?ss i)) = map fst (packets_of ?ss i)"
      using om_filed_keys [OF f] by (simp add: comp_def)
    moreover have "om_wf (packets_of ?ss i)" using f by (simp add: om_filed_entries)
    ultimately have "sorted_wrt (<) (map ?cts (om_values (packets_of ?ss i)))"
      by (simp add: om_wf_def)
    then have sorted: "sorted_wrt (<) (map ?cts qs)"
      unfolding qs [symmetric] by (simp add: sorted_wrt_map sorted_wrt_filter)
    from key i eq obtain q where q: "om_find (packets_of ?ss i) a = Some q"
      "keyframe (captured_packet q)"
      by (auto simp: AllKeyframes_def list_all_iff split: option.splits)
    have "?cts q = a" using oms.filed_find [OF f q(1)] by simp
    moreover have "(a, q) \<in> set (packets_of ?ss i)" using q(1) by (simp add: om_find_def map_of_SomeD)
    ultimately have mem: "q \<in> set qs" using le eq unfolding qs [symmetric]
      by (force simp: om_values_def)
    have low: "\<forall>x \<in> set qs. a \<le> ?cts x" unfolding qs [symmetric] by simp
    from mem obtain x xs where x: "qs = x # xs" by (cases qs) auto
    have "x = q"
    proof (rule ccontr)
      assume "x \<noteq> q"
      then have "q \<in> set xs" using mem x by simp
      with sorted x have "?cts x < a" using \<open>?cts q = a\<close> by auto
      with low x show False by auto
    qed
    with x q sorted \<open>?cts q = a\<close> show ?thesis by simp
  qed
  have "\<forall>qs \<in> set (snapshot_packets snap). qs \<noteq> [] \<and> ?cts (hd qs) = a \<and>
      keyframe (captured_packet (hd qs)) \<and> sorted_wrt (<) (map ?cts qs)"
    unfolding packets using each [OF _ refl] by simp
  with packets key held le eq built ends show ?thesis
    by (simp add: build_snapshot_def)
qed

definition demo_history :: capture_session where
  "demo_history = capture_run (demo_capture_config 100) (demo_ingest
     [(0, 10, True), (1, 10, True), (0, 20, True), (1, 15, False), (1, 20, True), (0, 30, False), (1, 30, False)])"

theorem snapshot_holds_one_common_range_witness:
  "\<exists>snap. attempt_snapshot (SnapshotCommonRangeDetailed [0, 1] 20 demo_history) = Some snap \<and>
     AllKeyframes (streams demo_history) [0, 1] (range_start_cts (snapshot_range snap))"
proof -
  have inv: "capture_inv demo_history"
    unfolding demo_history_def by (rule demo_capture_inv) simp
  have "attempt_snapshot (SnapshotCommonRangeDetailed [0, 1] 20 demo_history) \<noteq> None" by code_simp
  then obtain snap where snap: "attempt_snapshot (SnapshotCommonRangeDetailed [0, 1] 20 demo_history) = Some snap"
    by blast
  with snapshot_holds_one_common_range [OF inv snap refl refl] show ?thesis by blast
qed

text \<open>The range of a snapshot is checked against the packets of the first requested stream only:
  a session of two streams answers a snapshot in which the second stream has a packet at a CTS of the
  range that the first stream does not hold, so the streams of the snapshot have different lengths
  and the i-th packets no longer show the same frame.\<close>

theorem snapshot_streams_may_differ:
  "map (map (\<lambda>q. source_cts (captured_packet q))) (case SnapshotCommonRange [0, 1] 20 demo_history of
      None \<Rightarrow> [] | Some snap \<Rightarrow> snapshot_packets snap) = [[10, 20, 30], [10, 15, 20, 30]]"
  by code_simp

lemma all_ids_from:
  "n \<le> 255 \<Longrightarrow> k \<le> n \<Longrightarrow>
     all_ids n (word_of_nat k) ids = Some (ids @ map word_of_nat [k..<n])"
proof (induction "n - k" arbitrary: k ids)
  case 0
  then show ?case by (subst all_ids.simps) (simp add: unat_of_nat)
next
  case (Suc m)
  then have k: "k < n" "unat (word_of_nat k :: u8) = k" by (simp_all add: unat_of_nat)
  have "all_ids n (word_of_nat k) ids = all_ids n (word_of_nat (Suc k)) (ids @ [word_of_nat k])"
    by (subst all_ids.simps) (simp add: k add.commute)
  also have "\<dots> = Some ((ids @ [word_of_nat k]) @ map word_of_nat [Suc k..<n])"
    using Suc k by (intro Suc.hyps(1)) simp_all
  finally show ?case using k by (simp add: upt_conv_Cons)
qed

lemma all_ids_diverges:
  assumes "all_ids n i ids = Some r"
  shows "\<not> 256 \<le> n"
proof (rule all_ids.raw_induct [OF _ assms, where P = "\<lambda>n _ _ _. \<not> 256 \<le> n"])
  fix loop :: "nat \<Rightarrow> u8 \<Rightarrow> u8 list \<Rightarrow> u8 list option" and n i ids r
  assume "\<And>n i ids r. loop n i ids = Some r \<Longrightarrow> \<not> 256 \<le> n"
    and "(if unat i < n then loop n (i + 1) (ids @ [i]) else Some ids) = Some r"
  moreover have "unat i < 2 ^ LENGTH(8)" by (rule unsigned_less)
  ultimately show "\<not> 256 \<le> n" by (auto split: if_splits)
qed

text \<open>C28. The overloads for all streams count stream ids in 8 bits. With up to 255 streams the loop
  ends with the ids 0..n-1 in order and the snapshot is the one over these ids; with 256 streams, the
  most that registration accepts, the id wraps to zero and the loop never ends.\<close>

theorem all_streams_snapshot_termination:
  shows "if length (streams s) \<le> 255
     then SnapshotCommonRangeAll duration s =
       Some (SnapshotCommonRangeDetailed (map word_of_nat [0..<length (streams s)]) duration s)
     else SnapshotCommonRangeAll duration s = None"
proof (cases "length (streams s) \<le> 255")
  case True
  with all_ids_from [OF True, of 0 "[]"] show ?thesis by (simp add: SnapshotCommonRangeAll_def)
next
  case False
  then have "all_ids (length (streams s)) 0 [] = None"
    by (cases "all_ids (length (streams s)) 0 []") (auto dest: all_ids_diverges)
  with False show ?thesis by (simp add: SnapshotCommonRangeAll_def)
qed

end
