(* ===== verification/SinkContract.thy ===== *)
theory SinkContract
  imports RecordingInvariant
begin

text \<open>
  What a recording session does with its sinks, as a contract: a sink that is opened once, written
  and committed while every call answers true, and then finalized. The locale takes three
  predicates on a sink (fresh, in use, finished) that its operations carry from one to the next, and
  shows that the session only ever moves its sinks along this path until it fails.
\<close>

text \<open>No operation takes a sink away.\<close>

definition same_sinks :: "'s session \<Rightarrow> 's session \<Rightarrow> bool" where
  "same_sinks s t \<longleftrightarrow> (sink_a t = None \<longleftrightarrow> sink_a s = None) \<and> (sink_b t = None \<longleftrightarrow> sink_b s = None)"

lemma same_sinks_refl [simp]: "same_sinks s s"
  by (simp add: same_sinks_def)

lemma same_sinks_trans: "same_sinks s t \<Longrightarrow> same_sinks t u \<Longrightarrow> same_sinks s u"
  by (simp add: same_sinks_def)

lemma same_sinks_Fail: "Fail ops f t = (ok, u) \<Longrightarrow> same_sinks t u"
  by (auto simp: Fail_def same_sinks_def)

text \<open>The three ways a flush can end.\<close>

lemma flush_outcome:
  assumes flush: "FlushThrough ops cts s = (ok, s')"
  obtains (failed) f t where "Fail ops f t = (ok, s')" "same_sinks s t"
  | (kept) "ok" "s' = s"
  | (flushed) pa pb ka kb where "ok" "state s' = state s"
      "write_all ops pa (sink_a s) = (True, ka)" "write_all ops pb (sink_b s) = (True, kb)"
      "through (do_CommitThrough ops cts) ka = (True, sink_a s')"
      "through (do_CommitThrough ops cts) kb = (True, sink_b s')"
proof (cases "\<exists>r. selected_range s = Some r \<and> \<not> cts < start_cts r \<and>
    \<not> (has_flushed_cts s \<and> cts \<le> last_flushed_cts s)")
  case False
  then have "FlushThrough ops cts s = Fail ops MissingCommonRange s \<or> FlushThrough ops cts s = (True, s)"
    by (auto simp: FlushThrough_def split: option.split)
  with flush show thesis by (auto intro: failed [of MissingCommonRange s] kept)
next
  case True
  then obtain r where r: "selected_range s = Some r" "\<not> cts < start_cts r"
    "\<not> (has_flushed_cts s \<and> cts \<le> last_flushed_cts s)" by blast
  let ?i = "InferSourceCtsStep s"
  let ?pa = "SortForDecodeOrder (window (start_cts r) cts ?i (buffer_a ?i))"
    and ?pb = "SortForDecodeOrder (window (start_cts r) cts ?i (buffer_b ?i))"
  obtain oa ka where a: "write_all ops ?pa (sink_a ?i) = (oa, ka)" by fastforce
  obtain ob kb where b: "write_all ops ?pb (sink_b ?i) = (ob, kb)" by fastforce
  obtain ca la where c: "through (do_CommitThrough ops cts) ka = (ca, la)" by fastforce
  obtain cb lb where d: "through (do_CommitThrough ops cts) kb = (cb, lb)" by fastforce
  note eval = flush [unfolded FlushThrough_def r(1) option.case if_not_P [OF r(2)] if_not_P [OF r(3)] Let_def]
  note some = write_all_keeps [OF a] write_all_keeps [OF b] through_Commit [OF c] through_Commit [OF d]
  consider f t where "Fail ops f t = (ok, s')" "same_sinks s t"
    | "oa" "ob" "ca" "cb" "ok" "sink_a s' = la" "sink_b s' = lb" "state s' = state s"
    using eval a b c d some unfolding window_def
    by (auto simp: UpdatePeakRetainedBytes_def same_sinks_def split: if_split_asm)
  then show thesis
  proof cases
    case 2
    with a b c d show thesis by (intro flushed [of ?pa ka ?pb kb]) simp_all
  qed (rule failed)
qed

lemma same_sinks_flush: "FlushThrough ops cts s = (ok, s') \<Longrightarrow> same_sinks s s'"
proof (erule flush_outcome)
  fix f t assume "Fail ops f t = (ok, s')" "same_sinks s t"
  then show ?thesis using same_sinks_Fail same_sinks_trans by blast
next
  fix pa pb ka kb
  assume "write_all ops pa (sink_a s) = (True, ka)" "write_all ops pb (sink_b s) = (True, kb)"
    "through (do_CommitThrough ops cts) ka = (True, sink_a s')"
    "through (do_CommitThrough ops cts) kb = (True, sink_b s')"
  then show ?thesis by (auto simp: same_sinks_def dest!: write_all_keeps through_Commit)
qed simp

lemma same_sinks_stable: "FlushStablePackets ops s = (ok, s') \<Longrightarrow> same_sinks s s'"
proof -
  assume "FlushStablePackets ops s = (ok, s')"
  from FlushStable_cases [OF this] have "same_sinks (InferSourceCtsStep s) s'"
    using same_sinks_flush by auto
  then show ?thesis by (simp add: same_sinks_def)
qed

lemma same_sinks_establish: "same_sinks s (snd (EstablishCommonStart ops s))"
proof -
  have "(sink_a (snd (FlushStablePackets ops u)) = None) = (sink_a u = None)"
    "(sink_b (snd (FlushStablePackets ops u)) = None) = (sink_b u = None)" for u
    using same_sinks_stable [of ops u, OF prod.collapse [symmetric]] by (simp_all add: same_sinks_def)
  then show ?thesis
    unfolding EstablishCommonStart_def Let_def
    by (auto simp: same_sinks_def Fail_def dest!: through_Open split: option.split prod.splits)
qed

lemma same_sinks_finalize: "same_sinks s (snd (FinalizeAt ops e s))"
  unfolding FinalizeAt_def Let_def
  by (auto simp: same_sinks_def Fail_def dest!: through_Finalize split: prod.splits)

text \<open>A drain is refused, or it is one last flush followed by the finalization.\<close>

lemma drain_outcome:
  obtains (refused) "snd (CompleteDrain ops s) = s" "fst (CompleteDrain ops s) \<longrightarrow> state s = Stopped"
  | (drained) e r ok t where "state s = Draining" "selected_range s = Some r" "FlushThrough ops e s = (ok, t)"
      "CompleteDrain ops s = (if e < start_cts r then Fail ops MissingCommonRange s
        else if \<not> ok then (False, t) else FinalizeAt ops e t)"
proof (cases "state s = Draining \<and> selected_range s \<noteq> None")
  case False
  then show thesis by (intro refused) (auto simp: CompleteDrain_def split: option.split)
next
  case True
  then obtain r where r: "selected_range s = Some r" "state s = Draining" by auto
  define e where "e = (case SelectCommonPrefixEnd (buffer_a s) (buffer_b s) (start_cts r)
      (requested_stop_cts s) (source_cts_step s) of
    Some c \<Rightarrow> c | None \<Rightarrow> (if has_flushed_cts s then last_flushed_cts s else 0))"
  obtain ok t where f: "FlushThrough ops e s = (ok, t)" by fastforce
  show thesis
    by (rule drained [OF r(2,1) f]) (use r f in \<open>simp add: CompleteDrain_def Let_def flip: e_def\<close>)
qed

lemma same_sinks_drain: "same_sinks s (snd (CompleteDrain ops s))"
proof (cases rule: drain_outcome [of ops s])
  case (drained e r ok t)
  have "same_sinks t (snd (FinalizeAt ops e t))" by (rule same_sinks_finalize)
  with same_sinks_trans [OF same_sinks_flush [OF drained(3)]] same_sinks_flush [OF drained(3)] show ?thesis
    unfolding drained(4) by (simp add: Fail_def) (simp add: same_sinks_def)
qed simp

lemma same_sinks_submit: "same_sinks s (snd (SubmitPacket ops st p s))"
proof -
  obtain res t where t: "push_into st p s = (res, t)" by fastforce
  let ?u = "retain_accounting st p t"
  have u: "same_sinks s t" "same_sinks s ?u" using push_keeps [OF t] by (simp_all add: same_sinks_def)
  have stable: "same_sinks ?u (snd (FlushStablePackets ops ?u))"
    using same_sinks_stable [OF prod.collapse [symmetric]] .
  have failed: "same_sinks s (snd (Fail ops f v))" if "same_sinks s v" for f v
    using that by (simp add: Fail_def same_sinks_def)
  show ?thesis
    unfolding SubmitPacket_def Let_def t prod.case
    using u failed same_sinks_trans [OF u(2) stable] same_sinks_trans [OF u(2) same_sinks_establish]
    by (simp split: EncodedPacketBufferResult.split)
qed

lemma same_sinks_step: "same_sinks s (snd (session_step ops op s))"
proof (cases op)
  case (OpPollStart c)
  obtain ok t where t: "EstablishCommonStart ops s = (ok, t)" by fastforce
  with same_sinks_establish [of s ops] have "same_sinks s t" by simp
  with t show ?thesis by (simp add: OpPollStart session_step_def PollStart_def) (simp add: same_sinks_def Fail_def)
next
  case (OpSetExtraData st d)
  then show ?thesis
    by (simp add: session_step_def SetStreamExtraData_def same_sinks_def split: RecordingStream.split)
qed (simp_all add: session_step_def same_sinks_submit same_sinks_drain,
  simp_all add: same_sinks_def Start_def RequestStop_def Abort_def Fail_def Let_def)

lemma same_sinks_run: "same_sinks s (fold (\<lambda>c s. snd (session_step ops c s)) cs s)"
proof (induction cs arbitrary: s)
  case (Cons c cs)
  from same_sinks_trans [OF same_sinks_step Cons.IH] show ?case by simp
qed simp

locale sink_contract =
  fixes ops :: "'s sink_ops"
    and fresh :: "'s sink_obj \<Rightarrow> bool" and active :: "'s sink_obj \<Rightarrow> bool"
    and finished :: "'s sink_obj \<Rightarrow> bool"
  assumes opened: "fresh k \<Longrightarrow> do_Open ops cfg c k = (True, k') \<Longrightarrow> active k'"
    and written_to: "active k \<Longrightarrow> do_Write ops p k = (True, k') \<Longrightarrow> active k'"
    and committed_to: "active k \<Longrightarrow> do_CommitThrough ops c k = (True, k') \<Longrightarrow> active k'"
    and finalized_at: "active k \<Longrightarrow> do_Finalize ops c k = (True, k') \<Longrightarrow> finished k'"
begin

definition both :: "('s sink_obj \<Rightarrow> bool) \<Rightarrow> 's session \<Rightarrow> bool" where
  "both P s \<longleftrightarrow> pred_option P (sink_a s) \<and> pred_option P (sink_b s)"

definition phase_ok :: "'s session \<Rightarrow> bool" where
  "phase_ok s \<longleftrightarrow> (state s = Idle \<or> state s = Starting \<longrightarrow> both fresh s) \<and>
     (state s = Running \<or> state s = Draining \<longrightarrow> both active s) \<and>
     (state s = Stopped \<longrightarrow> both finished s)"

lemma through_step:
  assumes "through f k = (True, k')" and "pred_option P k"
    and "\<And>x y. P x \<Longrightarrow> f x = (True, y) \<Longrightarrow> Q y"
  shows "pred_option Q k'"
  using assms by (auto simp: through_def split: option.splits prod.splits)

lemmas through_open = through_step [OF _ _ opened]
lemmas through_commit = through_step [OF _ _ committed_to]
lemmas through_final = through_step [OF _ _ finalized_at]

lemma write_all_active:
  "write_all ops ps k = (True, k') \<Longrightarrow> pred_option active k \<Longrightarrow> pred_option active k'"
proof (induction ps arbitrary: k)
  case (Cons p ps)
  obtain ok k1 where k1: "through (do_Write ops p) k = (ok, k1)" by fastforce
  with Cons.prems(1) have ok: "ok" "write_all ops ps k1 = (True, k')" by (auto split: if_splits)
  from k1 ok(1) Cons.prems(2) have "pred_option active k1"
    by (auto intro: through_step [OF _ _ written_to])
  with Cons.IH ok(2) show ?case by blast
qed simp

lemma phase_Fail [simp]: "phase_ok (snd (Fail ops f s))"
  by (simp add: phase_ok_def Fail_def)

lemma phase_same:
  "state t = state s \<Longrightarrow> sink_a t = sink_a s \<Longrightarrow> sink_b t = sink_b s \<Longrightarrow> phase_ok t = phase_ok s"
  by (simp add: phase_ok_def both_def)

lemma phase_Infer [simp]: "phase_ok (InferSourceCtsStep s) = phase_ok s"
  by (rule phase_same) simp_all

text \<open>A flush that answers true keeps the sinks in use.\<close>

lemma flush_active:
  assumes flush: "FlushThrough ops cts s = (ok, s')" and act: "both active s"
  shows "if ok then both active s' \<and> state s' = state s else state s' = Failed"
  using flush
proof (cases rule: flush_outcome)
  case (flushed pa pb ka kb)
  have "pred_option active ka" "pred_option active kb"
    using write_all_active flushed act by (auto simp: both_def)
  with through_commit flushed show ?thesis by (auto simp: both_def)
qed (use act in \<open>auto simp: Fail_def\<close>)

lemma stable_active:
  assumes "FlushStablePackets ops s = (ok, s')" and "both active s"
  shows "if ok then both active s' \<and> state s' = state s else state s' = Failed"
proof -
  from FlushStable_cases [OF assms(1)] consider "ok" "s' = InferSourceCtsStep s"
    | c where "FlushThrough ops c (InferSourceCtsStep s) = (ok, s')" by blast
  then show ?thesis
  proof cases
    case 1
    with assms(2) show ?thesis by (simp add: both_def)
  next
    case 2
    have "both active (InferSourceCtsStep s)" using assms(2) by (simp add: both_def)
    from flush_active [OF 2 this] show ?thesis by simp
  qed
qed

lemma phase_Stable:
  assumes "phase_ok s" and "state s = Running"
  shows "phase_ok (snd (FlushStablePackets ops s))"
proof -
  obtain ok s' where f: "FlushStablePackets ops s = (ok, s')" by fastforce
  have "both active s" using assms by (simp add: phase_ok_def)
  from stable_active [OF f this] assms(2) f show ?thesis
    by (auto simp: phase_ok_def split: if_splits)
qed

lemma phase_Establish:
  assumes inv: "phase_ok s"
  shows "phase_ok (snd (EstablishCommonStart ops s))"
proof (cases "state s = Starting \<and> result_range
    (SelectCommonStart (buffer_a s) (buffer_b s) (requested_start_cts s)) \<noteq> None")
  case False
  then show ?thesis using inv by (auto simp: EstablishCommonStart_def split: option.split)
next
  case True
  then obtain r where st: "(state s \<noteq> Starting) = False" "state s = Starting"
    and r: "result_range (SelectCommonStart (buffer_a s) (buffer_b s) (requested_start_cts s)) = Some r"
    by auto
  let ?c = "start_cts r"
  obtain fa ba where ca: "SetCapacityBytes (tail_capacity_bytes (config s)) (DiscardBefore ?c (buffer_a s)) = (fa, ba)"
    by fastforce
  obtain fb bb where cb: "SetCapacityBytes (tail_capacity_bytes (config s)) (DiscardBefore ?c (buffer_b s)) = (fb, bb)"
    by fastforce
  obtain oa ka where oa: "through (do_Open ops (stream_a s) ?c) (sink_a s) = (oa, ka)" by fastforce
  obtain ob kb where ob: "through (do_Open ops (stream_b s) ?c) (sink_b s) = (ob, kb)" by fastforce
  show ?thesis
  proof (cases "fa \<and> fb \<and> oa \<and> ob")
    case False
    have "\<exists>f t. EstablishCommonStart ops s = Fail ops f t"
      unfolding EstablishCommonStart_def st(1) if_False r option.case Let_def
      using ca cb oa ob False by (cases fa; cases fb; cases oa) (simp; blast)+
    then show ?thesis by auto
  next
    case True
    let ?t = "(InferSourceCtsStep (s\<lparr>selected_range := Some r, buffer_a := ba, buffer_b := bb,
       sink_a := ka, sink_b := kb, max_observed_cts_a := newest_cts ?c ba,
       max_observed_cts_b := newest_cts ?c bb\<rparr>))\<lparr>state := Running\<rparr>"
    have "EstablishCommonStart ops s = FlushStablePackets ops ?t"
      unfolding EstablishCommonStart_def st(1) if_False r option.case Let_def
      using ca cb oa ob True by simp
    moreover have "phase_ok ?t"
      using inv st(2) oa ob True by (auto simp: phase_ok_def both_def intro: through_open)
    ultimately show ?thesis by (simp add: phase_Stable)
  qed
qed

lemma phase_Finalize:
  assumes "both active s"
  shows "phase_ok (snd (FinalizeAt ops e s))"
proof -
  obtain oa ka where oa: "through (do_Finalize ops e) (sink_a s) = (oa, ka)" by fastforce
  obtain ob kb where ob: "through (do_Finalize ops e) (sink_b s) = (ob, kb)" by fastforce
  show ?thesis
  proof (cases "oa \<and> ob")
    case True
    with oa ob assms have "pred_option finished ka" "pred_option finished kb"
      by (auto simp: both_def intro: through_final)
    with oa ob True show ?thesis by (simp add: FinalizeAt_def phase_ok_def both_def)
  next
    case False
    then have "\<exists>t. FinalizeAt ops e s = Fail ops SinkFinalize t"
      using oa ob by (cases oa) (auto simp: FinalizeAt_def)
    then show ?thesis by auto
  qed
qed

lemma phase_Drain:
  assumes "phase_ok s"
  shows "phase_ok (snd (CompleteDrain ops s))"
proof (cases rule: drain_outcome [of ops s])
  case refused
  with assms show ?thesis by simp
next
  case (drained e r ok t)
  have "both active s" using assms drained(1) by (simp add: phase_ok_def)
  from flush_active [OF drained(3) this] have "if ok then both active t else state t = Failed" by auto
  then show ?thesis
    unfolding drained(4) using phase_Finalize [of t e] by (auto simp: phase_ok_def)
qed

lemma phase_Submit:
  assumes inv: "phase_ok s"
  shows "phase_ok (snd (SubmitPacket ops st p s))"
proof -
  obtain res t where t: "push_into st p s = (res, t)" by fastforce
  have keep: "state t = state s" "sink_a t = sink_a s" "sink_b t = sink_b s"
    using push_keeps [OF t] by simp_all
  let ?u = "retain_accounting st p t"
  have u: "phase_ok ?u" using inv phase_same [of ?u s] keep by simp
  define deliver where "deliver = (if state ?u = Starting then EstablishCommonStart ops ?u
      else if state ?u = Running then FlushStablePackets ops ?u else (True, ?u))"
  have "phase_ok (snd deliver)"
    using u phase_Establish phase_Stable unfolding deliver_def by simp
  then show ?thesis
    unfolding SubmitPacket_def Let_def t prod.case deliver_def [symmetric]
    using inv by (simp split: EncodedPacketBufferResult.split)
qed

lemma phase_step: "phase_ok s \<Longrightarrow> phase_ok (snd (session_step ops op s))"
proof (cases op)
  case (OpStart c)
  assume "phase_ok s"
  with OpStart show ?thesis
    by (simp add: session_step_def Start_def) (auto simp: phase_ok_def both_def)
next
  case (OpSetExtraData st d)
  assume "phase_ok s"
  then have "phase_ok (snd (SetStreamExtraData st d s))"
    by (auto simp: SetStreamExtraData_def phase_ok_def both_def split: RecordingStream.split)
  then show ?thesis by (simp add: OpSetExtraData session_step_def)
next
  case (OpPollStart c)
  assume inv: "phase_ok s"
  obtain ok t where t: "EstablishCommonStart ops s = (ok, t)" by fastforce
  with phase_Establish [OF inv] have "phase_ok t" by simp
  with inv t show ?thesis by (simp add: OpPollStart session_step_def PollStart_def Let_def)
next
  case (OpRequestStop c)
  assume "phase_ok s"
  then show ?thesis
    by (simp add: OpRequestStop session_step_def RequestStop_def Let_def)
      (auto simp: phase_ok_def both_def)
next
  case OpAbort
  assume "phase_ok s"
  then show ?thesis by (simp add: OpAbort session_step_def Abort_def) (auto simp: phase_ok_def)
qed (simp_all add: session_step_def phase_Submit phase_Drain)

text \<open>A stopped session has two finished sinks, when it was created over fresh ones.\<close>

lemma stopped_sinks:
  assumes start: "pred_option fresh (sink_a s)" "pred_option fresh (sink_b s)" "state s = Idle"
    and stopped: "state (fold (\<lambda>c s. snd (session_step ops c s)) cs s) = Stopped"
  shows "both finished (fold (\<lambda>c s. snd (session_step ops c s)) cs s)"
proof -
  have "phase_ok s' \<Longrightarrow> phase_ok (fold (\<lambda>c s. snd (session_step ops c s)) cs s')" for s'
    by (induction cs arbitrary: s') (simp_all add: phase_step)
  moreover have "phase_ok s" using start by (simp add: phase_ok_def both_def)
  ultimately show ?thesis using stopped by (simp add: phase_ok_def)
qed

end

text \<open>
  What a session that is over leaves behind: when an aborted sink and a finished sink are both closed, so
  are the two sinks of every session that has stopped or failed, whatever made it fail.
\<close>

locale closing_contract = sink_contract ops fresh active finished
  for ops :: "'s sink_ops" and fresh active finished +
  fixes closed :: "'s sink_obj \<Rightarrow> bool"
  assumes aborted: "closed (do_Abort ops k)"
    and finished_closed: "finished k \<Longrightarrow> closed k"
begin

definition closes :: "bool \<times> 's session \<Rightarrow> bool" where
  "closes out \<longleftrightarrow> (state (snd out) = Failed \<longrightarrow> both closed (snd out))"

lemma closes_Fail [simp]: "closes (Fail ops f s)"
  by (simp add: closes_def Fail_def both_def option.pred_map option.pred_True comp_def aborted)

lemma closes_live [simp]: "state s \<noteq> Failed \<Longrightarrow> closes (b, s)"
  by (simp add: closes_def)

lemma closes_flush:
  assumes "state s \<noteq> Failed"
  shows "closes (FlushThrough ops cts s)"
proof -
  obtain ok t where f: "FlushThrough ops cts s = (ok, t)" by fastforce
  then show ?thesis
  proof (cases rule: flush_outcome)
    case (failed g u)
    then show ?thesis using f closes_Fail [of g u] by simp
  qed (use f assms in \<open>simp_all add: closes_def\<close>)
qed

lemma closes_stable: "state s \<noteq> Failed \<Longrightarrow> closes (FlushStablePackets ops s)"
  unfolding FlushStablePackets_def Let_def
  by (simp add: closes_flush split: option.split)

lemma closes_establish: "state s \<noteq> Failed \<Longrightarrow> closes (EstablishCommonStart ops s)"
  unfolding EstablishCommonStart_def Let_def
  by (simp add: closes_stable split: option.split prod.split)

lemma closes_finalize: "closes (FinalizeAt ops e s)"
  unfolding FinalizeAt_def Let_def by (simp split: prod.split)

lemma closes_drain:
  assumes "closes (True, s)"
  shows "closes (CompleteDrain ops s)"
proof (cases rule: drain_outcome [of ops s])
  case refused
  with assms show ?thesis by (simp add: closes_def)
next
  case (drained e r ok t)
  have "closes (False, t)" using closes_flush [of s e] drained by (simp add: closes_def)
  then show ?thesis unfolding drained(4) by (simp add: closes_finalize)
qed

lemma closes_submit: "closes (SubmitPacket ops st p s)"
proof -
  obtain res t where t: "push_into st p s = (res, t)" by fastforce
  have u: "state t = state s" using push_keeps [OF t] by simp
  show ?thesis
    unfolding SubmitPacket_def Let_def t prod.case
    by (simp add: closes_establish closes_stable u split: EncodedPacketBufferResult.split)
qed

lemma closes_poll:
  assumes "closes (True, s)"
  shows "closes (PollStart ops c s)"
proof -
  obtain ok t where t: "EstablishCommonStart ops s = (ok, t)" by fastforce
  have "closes (True, t)" if "state s = Starting"
    using closes_establish [of s] that t by (simp add: closes_def)
  moreover have "closes (b, s)" for b using assms by (simp add: closes_def)
  ultimately show ?thesis by (simp add: PollStart_def t)
qed

lemma closes_step:
  assumes "closes (True, s)"
  shows "closes (session_step ops op s)"
proof -
  have same: "closes (b, s)" for b using assms by (simp add: closes_def)
  show ?thesis
  proof (cases op)
    case (OpStart c)
    then show ?thesis by (simp add: session_step_def Start_def)
  next
    case (OpSetExtraData st d)
    with assms show ?thesis
      by (auto simp: session_step_def SetStreamExtraData_def closes_def both_def split: RecordingStream.split)
  next
    case (OpRequestStop c)
    with same show ?thesis by (simp add: session_step_def RequestStop_def Let_def)
  next
    case OpAbort
    with assms show ?thesis
      by (auto simp: session_step_def Abort_def closes_def both_def aborted option.pred_map option.pred_True comp_def)
  qed (simp_all add: session_step_def closes_submit closes_poll closes_drain assms)
qed

text \<open>The same over a whole run, with the stopped sessions.\<close>

lemma ended_sinks:
  assumes start: "pred_option fresh (sink_a s)" "pred_option fresh (sink_b s)" "state s = Idle"
    and over: "state (fold (\<lambda>c s. snd (session_step ops c s)) cs s) \<in> {Stopped, Failed}"
  shows "both closed (fold (\<lambda>c s. snd (session_step ops c s)) cs s)"
proof -
  have "closes (True, s') \<Longrightarrow> closes (True, fold (\<lambda>c s. snd (session_step ops c s)) cs s')" for s'
  proof (induction cs arbitrary: s')
    case (Cons c cs)
    from Cons.IH [of "snd (session_step ops c s')"] closes_step [OF Cons.prems, of c] show ?case
      by (simp add: closes_def)
  qed simp
  moreover have "closes (True, s)" using start by simp
  moreover have "both closed (fold (\<lambda>c s. snd (session_step ops c s)) cs s)"
    if "state (fold (\<lambda>c s. snd (session_step ops c s)) cs s) = Stopped"
    using stopped_sinks [OF start that] finished_closed
    by (auto simp: both_def intro: option.pred_mono_strong)
  ultimately show ?thesis using over by (auto simp: closes_def)
qed

end

end
