(* ===== verification/MkvWriter.thy ===== *)
theory MkvWriter
  imports PacketSink CommonRange
begin

text \<open>
  \<open>src/muxing/mkv-packet-writer\<close>: \<open>MkvPacketWriter\<close>, which hands compressed packets to
  libavformat, and \<open>MkvPacketSink\<close>, which puts the packets of a common range into decode order in
  front of it. libavformat, libavutil and the clock are the record \<open>mkv_env\<close> of functions on the
  muxer's own state (the format context, its file and the clock); nothing is assumed of them here.
  A writer also carries the ghost list of the packets the muxer took, with their muxed DTS, which no
  operation reads.
\<close>

subsection \<open>What the code calls\<close>

type_synonym rational = "i32 \<times> i32"

record MuxPacket =
  mux_pts :: i64
  mux_dts :: i64
  mux_key :: bool
  mux_data :: bytes

record 'w mkv_env =
  steady_now :: "'w \<Rightarrow> u64 \<times> 'w"
  av_alloc_context :: "string \<Rightarrow> 'w \<Rightarrow> (int \<times> bool) \<times> 'w"
  av_new_stream :: "'w \<Rightarrow> bool \<times> 'w"
  av_alloc_extradata :: "bytes \<Rightarrow> 'w \<Rightarrow> bool \<times> 'w"
  av_nofile :: bool
  av_open_file :: "string \<Rightarrow> 'w \<Rightarrow> int \<times> 'w"
  av_write_header :: "rational \<Rightarrow> u32 \<Rightarrow> u32 \<Rightarrow> bytes \<Rightarrow> 'w \<Rightarrow> int \<times> 'w"
  av_time_base :: "'w \<Rightarrow> rational"
  av_alloc_packet :: "bytes \<Rightarrow> 'w \<Rightarrow> bool \<times> 'w"
  av_write_frame :: "MuxPacket \<Rightarrow> 'w \<Rightarrow> int \<times> 'w"
  av_write_trailer :: "'w \<Rightarrow> int \<times> 'w"
  av_close_file :: "'w \<Rightarrow> 'w"
  av_free_context :: "'w \<Rightarrow> 'w"
  av_strerror :: "int \<Rightarrow> string"
  av_rescale_q :: "i64 \<Rightarrow> rational \<Rightarrow> rational \<Rightarrow> i64"

text \<open>\<open>std::to_string\<close> and \<open>operator<<\<close> of an integer.\<close>

fun dec :: "nat \<Rightarrow> string" where
  "dec n = (if n < 10 then [char_of (48 + n)] else dec (n div 10) @ [char_of (48 + n mod 10)])"

definition dec_signed :: "int \<Rightarrow> string" where
  "dec_signed n = (if n < 0 then ''-'' @ dec (nat (- n)) else dec (nat n))"

declare dec.simps [simp del]

subsection \<open>The writer\<close>

record MkvWriteResult =
  mkv_success :: bool
  mkv_first_cts :: u64
  mkv_last_cts :: u64
  mkv_packets :: u64
  mkv_bytes :: u64
  mkv_wall_ms :: u64
  mkv_finalization_ms :: u64
  mkv_result_error :: string

definition empty_mkv_result :: MkvWriteResult where
  "empty_mkv_result = \<lparr>mkv_success = False, mkv_first_cts = 0, mkv_last_cts = 0, mkv_packets = 0,
     mkv_bytes = 0, mkv_wall_ms = 0, mkv_finalization_ms = 0, mkv_result_error = []\<rparr>"

record 'w MkvPacketWriter =
  muxer :: 'w
  mkv_path :: string
  format_open :: bool
  timestamp_origin :: i64
  has_timestamp_origin :: bool
  has_last_written_dts :: bool
  last_written_dts :: i64
  has_packet :: bool
  first_written_cts :: u64
  last_written_cts :: u64
  written_count :: u64
  written_bytes :: u64
  start_time_ns :: u64
  mkv_error :: string
  muxed :: "(EncodedPacket \<times> i64) list"

definition new_writer :: "'w \<Rightarrow> 'w MkvPacketWriter" where
  "new_writer m = \<lparr>muxer = m, mkv_path = [], format_open = False, timestamp_origin = 0,
     has_timestamp_origin = False, has_last_written_dts = False, last_written_dts = 0, has_packet = False,
     first_written_cts = 0, last_written_cts = 0, written_count = 0, written_bytes = 0,
     start_time_ns = 0, mkv_error = [], muxed = []\<rparr>"

definition ReleaseFormat :: "'w mkv_env \<Rightarrow> 'w MkvPacketWriter \<Rightarrow> 'w MkvPacketWriter" where
  "ReleaseFormat env w =
     (if \<not> format_open w then w
      else w\<lparr>muxer := av_free_context env
                (if \<not> av_nofile env then av_close_file env (muxer w) else muxer w),
             format_open := False\<rparr>)"

definition open_failed :: "'w mkv_env \<Rightarrow> string \<Rightarrow> 'w MkvPacketWriter \<Rightarrow> bool \<times> 'w MkvPacketWriter" where
  "open_failed env why w = (False, ReleaseFormat env (w\<lparr>mkv_error := why\<rparr>))"

text \<open>The file, the header and the start time.\<close>

definition open_file_and_header :: "'w mkv_env \<Rightarrow> string \<Rightarrow> PacketStreamConfig \<Rightarrow> 'w MkvPacketWriter \<Rightarrow>
    bool \<times> 'w MkvPacketWriter" where
  "open_file_and_header env path cfg w =
     (let (error, m) = (if \<not> av_nofile env then av_open_file env path (muxer w) else (0, muxer w));
          w = w\<lparr>muxer := m\<rparr>
      in if error < 0 then open_failed env (''mkv-open-failed:'' @ av_strerror env error) w
         else
           (let (error, m) = av_write_header env (cfg_timebase_num cfg, cfg_timebase_den cfg)
                  (cfg_width cfg) (cfg_height cfg) (extra_data cfg) (muxer w);
                w = w\<lparr>muxer := m\<rparr>
            in if error < 0 then open_failed env (''mkv-header-failed:'' @ av_strerror env error) w
               else (let (now, m) = steady_now env (muxer w)
                     in (True, w\<lparr>muxer := m, start_time_ns := now\<rparr>))))"

definition mkv_Open :: "'w mkv_env \<Rightarrow> string \<Rightarrow> PacketStreamConfig \<Rightarrow> 'w MkvPacketWriter \<Rightarrow>
    bool \<times> 'w MkvPacketWriter" where
  "mkv_Open env path cfg w =
     (if format_open w \<or> path = [] \<or> cfg_width cfg = 0 \<or> cfg_height cfg = 0 \<or> extra_data cfg = []
      then (False, w\<lparr>mkv_error := ''invalid-mkv-writer-configuration''\<rparr>)
      else
        (let ((error, made), m) = av_alloc_context env path (muxer w);
             w = w\<lparr>mkv_error := [], mkv_path := path, muxer := m\<rparr>
         in if error < 0 \<or> \<not> made
            then (False, w\<lparr>mkv_error := ''mkv-context-failed:'' @ av_strerror env error\<rparr>)
            else
              (let (made, m) = av_new_stream env (muxer w);
                   w = w\<lparr>muxer := m, format_open := True\<rparr>
               in if \<not> made then open_failed env ''mkv-stream-failed'' w
                  else if sint (cfg_timebase_num cfg) \<le> 0 \<or> sint (cfg_timebase_den cfg) \<le> 0
                  then open_failed env ''invalid-mkv-timebase'' w
                  else
                    (let (made, m) = av_alloc_extradata env (extra_data cfg) (muxer w);
                         w = w\<lparr>muxer := m\<rparr>
                     in if \<not> made then open_failed env ''mkv-extradata-allocation-failed'' w
                        else open_file_and_header env path cfg w))))"

text \<open>The first error is kept.\<close>

definition mkv_Fail :: "string \<Rightarrow> 'w MkvPacketWriter \<Rightarrow> bool \<times> 'w MkvPacketWriter" where
  "mkv_Fail why w = (False, if mkv_error w = [] then w\<lparr>mkv_error := why\<rparr> else w)"

definition signed_min :: "i64 \<Rightarrow> i64 \<Rightarrow> i64" where
  "signed_min a b = (if sint b < sint a then b else a)"

definition dts_order_error :: "EncodedPacket \<Rightarrow> i64 \<Rightarrow> i64 \<Rightarrow> string" where
  "dts_order_error p d latest =
     ''packet-dts-order-invalid:source_cts='' @ dec (unat (source_cts p)) @ '':dts='' @
     dec_signed (sint (dts p)) @ '':muxed_dts='' @ dec_signed (sint d) @ '':last_muxed_dts='' @
     dec_signed (sint latest)"

definition write_error :: "'w mkv_env \<Rightarrow> int \<Rightarrow> EncodedPacket \<Rightarrow> 'w MkvPacketWriter \<Rightarrow> string" where
  "write_error env e p w =
     ''mkv-write-failed:'' @ av_strerror env e @ '':source_cts='' @ dec (unat (source_cts p)) @ '':pts='' @
     dec_signed (sint (pts p)) @ '':dts='' @ dec_signed (sint (dts p)) @ '':last_written_dts_target='' @
     (if has_last_written_dts w then dec_signed (sint (last_written_dts w)) else ''none'')"

text \<open>The packet with its timestamps relative to the origin, in the time base of the stream.\<close>

definition mux_packet :: "'w mkv_env \<Rightarrow> EncodedPacket \<Rightarrow> 'w MkvPacketWriter \<Rightarrow> MuxPacket" where
  "mux_packet env p w =
     (let source = (timebase_num p, timebase_den p); target = av_time_base env (muxer w)
      in \<lparr>mux_pts = av_rescale_q env (pts p - timestamp_origin w) source target,
          mux_dts = av_rescale_q env (dts p - timestamp_origin w) source target,
          mux_key = keyframe p, mux_data = payload p\<rparr>)"

definition account_written :: "EncodedPacket \<Rightarrow> i64 \<Rightarrow> 'w MkvPacketWriter \<Rightarrow> 'w MkvPacketWriter" where
  "account_written p d w = w\<lparr>
     first_written_cts := (if \<not> has_packet w then source_cts p
                           else min (first_written_cts w) (source_cts p)),
     has_packet := True,
     last_written_cts := max (last_written_cts w) (source_cts p),
     last_written_dts := d, has_last_written_dts := True,
     written_count := written_count w + 1,
     written_bytes := written_bytes w + vsize (payload p),
     muxed := muxed w @ [(p, d)]\<rparr>"

definition mkv_Write :: "'w mkv_env \<Rightarrow> EncodedPacket \<Rightarrow> 'w MkvPacketWriter \<Rightarrow> bool \<times> 'w MkvPacketWriter" where
  "mkv_Write env p w =
     (if \<not> format_open w \<or> payload p = [] \<or> sint (timebase_num p) \<le> 0 \<or> sint (timebase_den p) \<le> 0
      then mkv_Fail ''invalid-mkv-packet'' w
      else
        (let w = (if \<not> has_timestamp_origin w
                  then w\<lparr>timestamp_origin := signed_min (pts p) (dts p), has_timestamp_origin := True\<rparr>
                  else w);
             (made, m) = av_alloc_packet env (payload p) (muxer w);
             w = w\<lparr>muxer := m\<rparr>
         in if \<not> made then mkv_Fail ''mkv-packet-allocation-failed'' w
            else
              (let q = mux_packet env p w
               in if has_last_written_dts w \<and> sint (mux_dts q) < sint (last_written_dts w)
                  then mkv_Fail (dts_order_error p (mux_dts q) (last_written_dts w)) w
                  else
                    (let (error, m) = av_write_frame env q (muxer w);
                         w = w\<lparr>muxer := m\<rparr>
                     in if error < 0 then mkv_Fail (write_error env error p w) w
                        else (True, account_written p (mux_dts q) w)))))"

definition mkv_Finalize :: "'w mkv_env \<Rightarrow> 'w MkvPacketWriter \<Rightarrow> MkvWriteResult \<times> 'w MkvPacketWriter" where
  "mkv_Finalize env w =
     (let (wall, m) = (if start_time_ns w = 0 then (0, muxer w)
                       else (let (now, m) = steady_now env (muxer w)
                             in ((now - start_time_ns w) div 1000000, m)));
          w = w\<lparr>muxer := m\<rparr>;
          r = \<lparr>mkv_success = False, mkv_first_cts = first_written_cts w, mkv_last_cts = last_written_cts w,
               mkv_packets = written_count w, mkv_bytes = written_bytes w, mkv_wall_ms = wall,
               mkv_finalization_ms = 0, mkv_result_error = mkv_error w\<rparr>
      in if \<not> format_open w then (r\<lparr>mkv_success := (mkv_error w = [])\<rparr>, w)
         else
           (let (error, m) = av_write_trailer env (muxer w);
                w = w\<lparr>muxer := m\<rparr>;
                w = (if error < 0 then w\<lparr>mkv_error := ''mkv-trailer-failed:'' @ av_strerror env error\<rparr> else w)
            in (r\<lparr>mkv_success := (error \<ge> 0 \<and> mkv_error w = []), mkv_result_error := mkv_error w\<rparr>,
                ReleaseFormat env w)))"

definition mkv_Abort :: "'w mkv_env \<Rightarrow> 'w MkvPacketWriter \<Rightarrow> 'w MkvPacketWriter" where
  "mkv_Abort env w = ReleaseFormat env w"

subsection \<open>The sink\<close>

record 'w MkvPacketSink =
  snk_writer :: "'w MkvPacketWriter"
  snk_path :: string
  snk_result :: MkvWriteResult
  snk_pending :: "EncodedPacket list"
  snk_pending_bytes :: usize
  snk_capacity :: usize
  snk_reorder_safety :: u64
  snk_common_start :: u64
  snk_timebase_num :: i32
  snk_timebase_den :: i32
  snk_has_max_dts :: bool
  snk_max_dts :: i64
  snk_error :: string

definition new_sink :: "'w \<Rightarrow> string \<Rightarrow> 'w MkvPacketSink" where
  "new_sink m path = \<lparr>snk_writer = new_writer m, snk_path = path, snk_result = empty_mkv_result,
     snk_pending = [], snk_pending_bytes = 0, snk_capacity = 0, snk_reorder_safety = 0,
     snk_common_start = 0, snk_timebase_num = 0, snk_timebase_den = 0, snk_has_max_dts = False,
     snk_max_dts = 0, snk_error = []\<rparr>"

definition snk_Fail :: "string \<Rightarrow> 'w MkvPacketSink \<Rightarrow> bool \<times> 'w MkvPacketSink" where
  "snk_Fail why s = (False, if snk_error s = [] then s\<lparr>snk_error := why\<rparr> else s)"

definition snk_Open :: "'w mkv_env \<Rightarrow> PacketStreamConfig \<Rightarrow> u64 \<Rightarrow> 'w MkvPacketSink \<Rightarrow>
    bool \<times> 'w MkvPacketSink" where
  "snk_Open env cfg start s =
     (let s = s\<lparr>snk_error := [], snk_pending := [], snk_pending_bytes := 0,
              snk_capacity := muxer_tail_capacity_bytes cfg,
              snk_reorder_safety := muxer_reorder_safety_cts cfg, snk_common_start := start,
              snk_timebase_num := 0, snk_timebase_den := 0, snk_has_max_dts := False, snk_max_dts := 0\<rparr>
      in if snk_capacity s > 0
         then (let (ok, w) = mkv_Open env (snk_path s) cfg (snk_writer s) in (ok, s\<lparr>snk_writer := w\<rparr>))
         else (False, s))"

definition snk_Write :: "EncodedPacket \<Rightarrow> 'w MkvPacketSink \<Rightarrow> bool \<times> 'w MkvPacketSink" where
  "snk_Write p s =
     (if payload p = [] \<or> vsize (payload p) >
         snk_capacity s - (if snk_pending_bytes s \<le> snk_capacity s then snk_pending_bytes s
                           else snk_capacity s)
      then snk_Fail ''mkv-reorder-buffer-capacity'' s
      else if snk_timebase_num s \<noteq> 0 \<and>
         (timebase_num p \<noteq> snk_timebase_num s \<or> timebase_den p \<noteq> snk_timebase_den s)
      then snk_Fail ''mkv-reorder-buffer-timebase-mismatch'' s
      else
        (let s = (if snk_timebase_num s = 0
                  then s\<lparr>snk_timebase_num := timebase_num p, snk_timebase_den := timebase_den p\<rparr> else s);
             s = (if \<not> snk_has_max_dts s \<or> sint (dts p) > sint (snk_max_dts s)
                  then s\<lparr>snk_max_dts := dts p, snk_has_max_dts := True\<rparr> else s)
         in (True, s\<lparr>snk_pending_bytes := snk_pending_bytes s + vsize (payload p),
                     snk_pending := snk_pending s @ [p]\<rparr>)))"

fun mkv_write_all :: "'w mkv_env \<Rightarrow> EncodedPacket list \<Rightarrow> 'w MkvPacketWriter \<Rightarrow> bool \<times> 'w MkvPacketWriter" where
  "mkv_write_all env [] w = (True, w)"
| "mkv_write_all env (p # ps) w =
     (let (ok, w) = mkv_Write env p w in if ok then mkv_write_all env ps w else (False, w))"

definition below_watermark :: "i64 option \<Rightarrow> EncodedPacket \<Rightarrow> bool" where
  "below_watermark mark p \<longleftrightarrow> (case mark of None \<Rightarrow> True | Some d \<Rightarrow> sint (dts p) \<le> sint d)"

definition FlushPendingThroughDts :: "'w mkv_env \<Rightarrow> i64 option \<Rightarrow> 'w MkvPacketSink \<Rightarrow>
    bool \<times> 'w MkvPacketSink" where
  "FlushPendingThroughDts env mark s =
     (let selected = filter (below_watermark mark) (snk_pending s);
          remaining = filter (\<lambda>p. \<not> below_watermark mark p) (snk_pending s);
          bytes = fold (\<lambda>p n. n + vsize (payload p)) remaining 0;
          (ok, w) = mkv_write_all env (SortForDecodeOrder selected) (snk_writer s)
      in (ok, s\<lparr>snk_pending := remaining, snk_pending_bytes := bytes, snk_writer := w\<rparr>))"

definition max_i64 :: u64 where
  "max_i64 = 0x7FFFFFFFFFFFFFFF"

definition min_i64 :: i64 where
  "min_i64 = 0x8000000000000000"

definition snk_CommitThrough :: "'w mkv_env \<Rightarrow> u64 \<Rightarrow> 'w MkvPacketSink \<Rightarrow> bool \<times> 'w MkvPacketSink" where
  "snk_CommitThrough env c s =
     (if \<not> snk_has_max_dts s \<or> sint (snk_timebase_num s) \<le> 0 \<or> sint (snk_timebase_den s) \<le> 0 then (True, s)
      else
        (let safety = av_rescale_q env (min (snk_reorder_safety s) max_i64) (1, 1000000000)
               (snk_timebase_num s, snk_timebase_den s)
         in if sint (snk_max_dts s) \<le> sint (min_i64 + safety) then (True, s)
            else FlushPendingThroughDts env (Some (snk_max_dts s - safety)) s))"

definition snk_Finalize :: "'w mkv_env \<Rightarrow> u64 \<Rightarrow> 'w MkvPacketSink \<Rightarrow> bool \<times> 'w MkvPacketSink" where
  "snk_Finalize env c s =
     (let (began, m) = steady_now env (muxer (snk_writer s));
          s = s\<lparr>snk_writer := snk_writer s\<lparr>muxer := m\<rparr>\<rparr>;
          (flushed, s) = FlushPendingThroughDts env None s
      in if \<not> flushed
         then (let (now, m) = steady_now env (muxer (snk_writer s))
               in (False, s\<lparr>snk_writer := snk_writer s\<lparr>muxer := m\<rparr>,
                     snk_result := snk_result s\<lparr>mkv_finalization_ms := (now - began) div 1000000\<rparr>\<rparr>))
         else
           (let (r, w) = mkv_Finalize env (snk_writer s);
                (now, m) = steady_now env (muxer w);
                r = r\<lparr>mkv_finalization_ms := (now - began) div 1000000\<rparr>
            in (mkv_success r \<and> mkv_first_cts r = snk_common_start s \<and> mkv_last_cts r = c,
                s\<lparr>snk_writer := w\<lparr>muxer := m\<rparr>, snk_result := r\<rparr>)))"

definition snk_Abort :: "'w mkv_env \<Rightarrow> 'w MkvPacketSink \<Rightarrow> 'w MkvPacketSink" where
  "snk_Abort env s =
     s\<lparr>snk_pending := [], snk_pending_bytes := 0, snk_capacity := 0, snk_reorder_safety := 0,
       snk_timebase_num := 0, snk_timebase_den := 0, snk_has_max_dts := False, snk_max_dts := 0,
       snk_writer := mkv_Abort env (snk_writer s)\<rparr>"

text \<open>The sink as an implementation of the interface of \<open>packet-sink.hpp\<close>.\<close>

definition mkv_sink_ops :: "'w mkv_env \<Rightarrow> 'w MkvPacketSink sink_ops" where
  "mkv_sink_ops env = \<lparr>sink_Open = snk_Open env, sink_Write = snk_Write,
     sink_CommitThrough = snk_CommitThrough env, sink_Finalize = snk_Finalize env,
     sink_Abort = snk_Abort env\<rparr>"

end
