(* ===== verification/MkvProperties.thy ===== *)
theory MkvProperties
  imports MkvWriter
begin

text \<open>
  What the muxing sink writes: the accounting of a writer, and every packet the sink accepts reaching
  the muxer exactly once, in DTS order, whatever libavformat answers.
\<close>

subsection \<open>The writer's accounting\<close>

text \<open>The part of a writer that only an accepted packet changes.\<close>

definition same_output :: "'w MkvPacketWriter \<Rightarrow> 'w MkvPacketWriter \<Rightarrow> bool" where
  "same_output w w' \<longleftrightarrow> has_packet w' = has_packet w \<and> first_written_cts w' = first_written_cts w \<and>
     last_written_cts w' = last_written_cts w \<and> has_last_written_dts w' = has_last_written_dts w \<and>
     last_written_dts w' = last_written_dts w \<and> written_count w' = written_count w \<and>
     written_bytes w' = written_bytes w \<and> muxed w' = muxed w"

definition muxed_packets :: "'w MkvPacketWriter \<Rightarrow> EncodedPacket list" where
  "muxed_packets w = map fst (muxed w)"

definition muxed_cts :: "'w MkvPacketWriter \<Rightarrow> u64 set" where
  "muxed_cts w = source_cts ` set (muxed_packets w)"

definition writer_inv :: "'w MkvPacketWriter \<Rightarrow> bool" where
  "writer_inv w \<longleftrightarrow>
     (has_packet w \<longleftrightarrow> muxed w \<noteq> []) \<and> (has_last_written_dts w \<longleftrightarrow> muxed w \<noteq> []) \<and>
     (muxed w \<noteq> [] \<longrightarrow> first_written_cts w = Min (muxed_cts w) \<and> last_written_cts w = Max (muxed_cts w) \<and>
        last_written_dts w = snd (last (muxed w))) \<and>
     (muxed w = [] \<longrightarrow> last_written_cts w = 0) \<and>
     written_count w = word_of_nat (length (muxed w)) \<and>
     written_bytes w = word_of_nat (\<Sum>p\<leftarrow>muxed_packets w. length (payload p)) \<and>
     sorted (map (\<lambda>e. sint (snd e)) (muxed w))"

lemma same_output_refl [simp]: "same_output w w"
  by (simp add: same_output_def)

lemma same_output_trans: "same_output u v \<Longrightarrow> same_output v w \<Longrightarrow> same_output u w"
  by (simp add: same_output_def)

lemma same_output_update [simp]:
  "same_output w (w\<lparr>muxer := m\<rparr>)" "same_output w (w\<lparr>mkv_error := why\<rparr>)"
  "same_output w (w\<lparr>format_open := on\<rparr>)" "same_output w (w\<lparr>mkv_path := path\<rparr>)"
  "same_output w (w\<lparr>start_time_ns := t\<rparr>)" "same_output w (w\<lparr>timestamp_origin := o'\<rparr>)"
  "same_output w (w\<lparr>has_timestamp_origin := on\<rparr>)"
  by (simp_all add: same_output_def)

lemma same_output_inv: "same_output w w' \<Longrightarrow> writer_inv w' = writer_inv w"
  by (simp add: same_output_def writer_inv_def muxed_cts_def muxed_packets_def)

lemma writer_inv_new: "writer_inv (new_writer m)"
  by (simp add: writer_inv_def new_writer_def muxed_packets_def)

lemma same_output_Release [simp]: "same_output w (ReleaseFormat env w)"
  by (simp add: ReleaseFormat_def same_output_def)

lemma same_output_open_failed: "open_failed env why w = (ok, w') \<Longrightarrow> same_output w w' \<and> \<not> ok"
  by (auto simp: open_failed_def ReleaseFormat_def same_output_def split: if_split_asm)

lemma same_output_header: "open_file_and_header env path cfg w = (ok, w') \<Longrightarrow> same_output w w'"
  by (auto simp: open_file_and_header_def Let_def open_failed_def ReleaseFormat_def same_output_def
      split: prod.splits if_split_asm)

lemma same_output_Open:
  assumes "mkv_Open env path cfg w = (ok, w')"
  shows "same_output w w'"
proof -
  obtain error made m where a: "av_alloc_context env path (muxer w) = ((error, made), m)"
    by (metis prod.collapse)
  obtain made2 m2 where b: "av_new_stream env m = (made2, m2)" by fastforce
  obtain made3 m3 where c: "av_alloc_extradata env (extra_data cfg) m2 = (made3, m3)" by fastforce
  let ?w = "w\<lparr>mkv_error := [], mkv_path := path, muxer := m2, format_open := True\<rparr>"
  have base: "same_output w ?w" "same_output w (?w\<lparr>muxer := m3\<rparr>)" by (simp_all add: same_output_def)
  from assms show ?thesis
    unfolding mkv_Open_def Let_def a
    by (auto simp: a b c same_output_def split: if_split_asm
        dest!: same_output_header same_output_open_failed)
qed

lemma mkv_Finalize_closed: "mkv_Finalize env w = (res, w') \<Longrightarrow> \<not> format_open w'"
  by (auto simp: mkv_Finalize_def ReleaseFormat_def Let_def split: prod.splits if_split_asm)

lemma same_output_Fail: "mkv_Fail why w = (ok, w') \<Longrightarrow> same_output w w' \<and> \<not> ok"
  by (auto simp: mkv_Fail_def same_output_def split: if_split_asm)

lemma mkv_Write_cases:
  assumes "mkv_Write env p w = (ok, w')"
  obtains (refused) "\<not> ok" "same_output w w'"
  | (taken) d w0 where "ok" "same_output w w0" "w' = account_written p d w0"
      "has_last_written_dts w \<Longrightarrow> sint (last_written_dts w) \<le> sint d"
      "\<exists>tb. d = av_rescale_q env (dts p - timestamp_origin w0) (timebase_num p, timebase_den p) tb"
      "timestamp_origin w0 =
         (if has_timestamp_origin w then timestamp_origin w else signed_min (pts p) (dts p))"
      "has_timestamp_origin w0"
proof (cases "\<not> format_open w \<or> payload p = [] \<or> sint (timebase_num p) \<le> 0 \<or> sint (timebase_den p) \<le> 0")
  case True
  from assms [unfolded mkv_Write_def if_P [OF True]] have "same_output w w' \<and> \<not> ok"
    by (rule same_output_Fail)
  then show thesis using refused by blast
next
  case ready: False
  let ?o = "if \<not> has_timestamp_origin w
     then w\<lparr>timestamp_origin := signed_min (pts p) (dts p), has_timestamp_origin := True\<rparr> else w"
  obtain made m where a: "av_alloc_packet env (payload p) (muxer ?o) = (made, m)" by fastforce
  let ?w = "?o\<lparr>muxer := m\<rparr>"
  let ?q = "mux_packet env p ?w"
  obtain error m2 where b: "av_write_frame env ?q m = (error, m2)" by fastforce
  have same: "same_output w ?w" "same_output w (?w\<lparr>muxer := m2\<rparr>)" "has_last_written_dts ?w = has_last_written_dts w"
    "last_written_dts ?w = last_written_dts w"
    by (simp_all add: same_output_def)
  note eval = assms [unfolded mkv_Write_def if_not_P [OF ready] Let_def a prod.case]
  show thesis
  proof (cases "made \<and> \<not> (has_last_written_dts ?w \<and> sint (mux_dts ?q) < sint (last_written_dts ?w)) \<and> 0 \<le> error")
    case True
    let ?v = "?w\<lparr>muxer := m2\<rparr>"
    have "w' = account_written p (mux_dts ?q) ?v" "ok"
      using eval b True by (auto simp: not_less split: if_split_asm)
    moreover have "\<exists>tb. mux_dts ?q =
        av_rescale_q env (dts p - timestamp_origin ?v) (timebase_num p, timebase_den p) tb"
      by (intro exI [of _ "av_time_base env m"]) (simp add: mux_packet_def Let_def)
    ultimately show thesis
      using same True by (intro taken [of ?v "mux_dts ?q"]) (auto simp: not_less)
  next
    case False
    from eval b False have "mkv_Fail ''mkv-packet-allocation-failed'' ?w = (ok, w') \<or>
        mkv_Fail (dts_order_error p (mux_dts ?q) (last_written_dts ?w)) ?w = (ok, w') \<or>
        mkv_Fail (write_error env error p (?w\<lparr>muxer := m2\<rparr>)) (?w\<lparr>muxer := m2\<rparr>) = (ok, w')"
      by (auto simp: not_le split: if_split_asm)
    then have "same_output w w' \<and> \<not> ok"
      using same_output_Fail same_output_trans same by blast
    then show thesis using refused by blast
  qed
qed

lemma account_written_muxed [simp]: "muxed (account_written p d w) = muxed w @ [(p, d)]"
  by (simp add: account_written_def)

lemma sorted_le_last: "sorted xs \<Longrightarrow> x \<in> set xs \<Longrightarrow> x \<le> last xs"
  by (induction xs) auto

lemma writer_inv_account:
  assumes inv: "writer_inv w" and order: "has_last_written_dts w \<Longrightarrow> sint (last_written_dts w) \<le> sint d"
  shows "writer_inv (account_written p d w)"
proof -
  have cts: "muxed_cts (account_written p d w) = insert (source_cts p) (muxed_cts w)"
    by (auto simp: muxed_cts_def muxed_packets_def)
  have fin: "finite (muxed_cts w)" "muxed w \<noteq> [] \<Longrightarrow> muxed_cts w \<noteq> {}"
    by (simp_all add: muxed_cts_def muxed_packets_def)
  have sorted: "sorted (map (\<lambda>e. sint (snd e)) (muxed w @ [(p, d)]))"
  proof (cases "muxed w = []")
    case False
    then have last: "sint (snd (last (muxed w))) \<le> sint d"
      using inv order by (simp add: writer_inv_def)
    have "sint (snd e) \<le> sint (snd (last (muxed w)))" if "e \<in> set (muxed w)" for e
    proof -
      have "sorted (map (\<lambda>e. sint (snd e)) (muxed w))" using inv by (simp add: writer_inv_def)
      from sorted_le_last [OF this] that show ?thesis by (simp add: last_map False)
    qed
    with last inv show ?thesis by (fastforce simp: writer_inv_def sorted_append)
  qed simp
  show ?thesis
  proof (cases "muxed w = []")
    case True
    then show ?thesis using inv
      by (simp add: writer_inv_def account_written_def muxed_packets_def muxed_cts_def vsize_def)
  next
    case False
    with inv sorted show ?thesis
      unfolding writer_inv_def cts
      by (simp add: account_written_def muxed_packets_def vsize_def fin min.commute max.commute)
  qed
qed

lemma mkv_Write_step:
  assumes "mkv_Write env p w = (ok, w')" and "writer_inv w"
  shows "writer_inv w' \<and> muxed_packets w' = muxed_packets w @ (if ok then [p] else [])"
  using assms(1)
proof (cases rule: mkv_Write_cases)
  case refused
  with assms(2) show ?thesis using same_output_inv by (auto simp: same_output_def muxed_packets_def)
next
  case (taken d w0)
  have inv0: "writer_inv w0" "muxed w0 = muxed w" "has_last_written_dts w0 = has_last_written_dts w"
    "last_written_dts w0 = last_written_dts w"
    using same_output_inv [OF taken(2)] assms(2) taken(2) by (simp_all add: same_output_def)
  have "writer_inv (account_written p d w0)"
    by (rule writer_inv_account [OF inv0(1)]) (use inv0 taken(4) in simp)
  with taken inv0 show ?thesis by (simp add: muxed_packets_def)
qed

lemma mkv_write_all_step:
  "mkv_write_all env ps w = (ok, w') \<Longrightarrow> writer_inv w \<Longrightarrow>
     writer_inv w' \<and> (ok \<longrightarrow> muxed_packets w' = muxed_packets w @ ps)"
proof (induction ps arbitrary: w)
  case (Cons p ps)
  obtain ok1 w1 where w1: "mkv_Write env p w = (ok1, w1)" by fastforce
  note step = mkv_Write_step [OF w1 Cons.prems(2)]
  with Cons w1 show ?case by (cases ok1) auto
qed simp

lemma mkv_Finalize_output:
  assumes "mkv_Finalize env w = (r, w')"
  shows "same_output w w' \<and> mkv_first_cts r = first_written_cts w \<and> mkv_last_cts r = last_written_cts w \<and>
    mkv_packets r = written_count w \<and> mkv_bytes r = written_bytes w \<and> (mkv_success r \<longrightarrow> mkv_error w = [])"
proof -
  have err: "mkv_error (ReleaseFormat env v) = mkv_error v" for v by (simp add: ReleaseFormat_def)
  have out: "same_output w (ReleaseFormat env v) \<longleftrightarrow> same_output w v" for v
    using same_output_Release [of v env] by (auto simp: same_output_def)
  obtain wall m where now: "(if start_time_ns w = 0 then (0, muxer w)
      else (let (now, m) = steady_now env (muxer w) in ((now - start_time_ns w) div 1000000, m))) = (wall, m)"
    by fastforce
  note eval = assms [unfolded mkv_Finalize_def Let_def now [unfolded Let_def] prod.case]
  show ?thesis
  proof (cases "format_open w")
    case False
    with eval show ?thesis by auto
  next
    case True
    obtain e m2 where trailer: "av_write_trailer env m = (e, m2)" by fastforce
    have "same_output w (w\<lparr>muxer := m2, mkv_error := why\<rparr>)" for why by (simp add: same_output_def)
    with eval trailer True out err show ?thesis by auto
  qed
qed

subsection \<open>The sink's accounting\<close>

text \<open>The packets a sink has accepted, from the ghost list of its calls.\<close>

definition accepted_calls :: "sink_call list \<Rightarrow> EncodedPacket list" where
  "accepted_calls cs = concat (map (\<lambda>c. case c of WriteCall p True \<Rightarrow> [p] | _ \<Rightarrow> []) cs)"

lemma accepted_calls_append [simp]: "accepted_calls (cs @ ds) = accepted_calls cs @ accepted_calls ds"
  by (simp add: accepted_calls_def)

lemma accepted_calls_one [simp]:
  "accepted_calls [] = []" "accepted_calls [OpenCall c ok] = []" "accepted_calls [CommitCall c ok] = []"
  "accepted_calls [FinalizeCall c ok] = []" "accepted_calls [AbortCall] = []"
  "accepted_calls [WriteCall p ok] = (if ok then [p] else [])"
  by (simp_all add: accepted_calls_def split: bool.split)

lemma accepted_written: "map source_cts (accepted_calls cs) = written_calls cs"
proof (induction cs)
  case (Cons c cs)
  have "map source_cts (accepted_calls [c]) = written_calls [c]"
    by (cases c) (simp_all add: accepted_calls_def written_calls_def split: bool.split)
  with Cons accepted_calls_append [of "[c]" cs] written_calls_append [of "[c]" cs] show ?case by simp
qed simp

text \<open>A sink in use: what it accepted is in the muxer or still pending, and its bytes are exact.\<close>

definition sink_active :: "'w MkvPacketSink sink_obj \<Rightarrow> bool" where
  "sink_active k \<longleftrightarrow> writer_inv (snk_writer (sk_state k)) \<and>
     mset (accepted_calls (sk_calls k)) =
       mset (muxed_packets (snk_writer (sk_state k))) + mset (snk_pending (sk_state k))"

text \<open>A sink finalized with success at a CTS: all it accepted is in the file, in DTS order.\<close>

definition sink_done :: "'w MkvPacketSink sink_obj \<Rightarrow> bool" where
  "sink_done k \<longleftrightarrow> writer_inv (snk_writer (sk_state k)) \<and> mkv_success (snk_result (sk_state k)) \<and>
     mset (accepted_calls (sk_calls k)) = mset (muxed_packets (snk_writer (sk_state k))) \<and>
     mkv_packets (snk_result (sk_state k)) = written_count (snk_writer (sk_state k))"

definition sink_fresh :: "'w MkvPacketSink sink_obj \<Rightarrow> bool" where
  "sink_fresh k \<longleftrightarrow> sk_calls k = [] \<and> muxed (snk_writer (sk_state k)) = [] \<and>
     writer_inv (snk_writer (sk_state k))"

lemma Flush_step:
  assumes "FlushPendingThroughDts env mark s = (ok, s')" and "writer_inv (snk_writer s)"
  shows "writer_inv (snk_writer s') \<and>
    snk_pending s' = filter (\<lambda>p. \<not> below_watermark mark p) (snk_pending s) \<and>
    (ok \<longrightarrow> muxed_packets (snk_writer s') =
       muxed_packets (snk_writer s) @ SortForDecodeOrder (filter (below_watermark mark) (snk_pending s)))"
proof -
  obtain ok1 w where w: "mkv_write_all env
      (SortForDecodeOrder (filter (below_watermark mark) (snk_pending s))) (snk_writer s) = (ok1, w)"
    by fastforce
  with assms mkv_write_all_step [OF w assms(2)] show ?thesis
    by (auto simp: FlushPendingThroughDts_def Let_def)
qed

lemma Flush_mset:
  assumes "FlushPendingThroughDts env mark s = (True, s')" and "writer_inv (snk_writer s)"
  shows "mset (muxed_packets (snk_writer s')) + mset (snk_pending s') =
    mset (muxed_packets (snk_writer s)) + mset (snk_pending s)"
proof -
  have "mset (snk_pending s) = mset (filter (below_watermark mark) (snk_pending s)) +
      mset (filter (\<lambda>p. \<not> below_watermark mark p) (snk_pending s))"
    by (simp flip: multiset_partition)
  with Flush_step [OF assms] show ?thesis
    by (simp add: SortForDecodeOrder_def)
qed

text \<open>A muxer that takes everything, without a state of its own.\<close>

definition plain_muxer :: "unit mkv_env" where
  "plain_muxer = \<lparr>steady_now = (\<lambda>t. (1, t)), av_alloc_context = (\<lambda>_ t. ((0, True), t)),
     av_new_stream = (\<lambda>t. (True, t)), av_alloc_extradata = (\<lambda>_ t. (True, t)), av_nofile = False,
     av_open_file = (\<lambda>_ t. (0, t)), av_write_header = (\<lambda>_ _ _ _ t. (0, t)), av_time_base = (\<lambda>_. (1, 1000)),
     av_alloc_packet = (\<lambda>_ t. (True, t)), av_write_frame = (\<lambda>_ t. (0, t)),
     av_write_trailer = (\<lambda>t. (0, t)), av_close_file = (\<lambda>t. t), av_free_context = (\<lambda>t. t),
     av_strerror = (\<lambda>_. ''error''), av_rescale_q = (\<lambda>t _ _. t)\<rparr>"

end
