(* ===== verification/MkvRecording.thy ===== *)
theory MkvRecording
  imports SinkContract MkvProperties RecordingProperties
begin

text \<open>
  The recording session over the MKV sink: the sink keeps the contract of \<open>SinkContract\<close>, so a
  stopped recording leaves two files with the same frames.
\<close>

subsection \<open>The sink keeps the contract\<close>

lemma mkv_sink_simps [simp]:
  "sink_Open (mkv_sink_ops env) = snk_Open env" "sink_Write (mkv_sink_ops env) = snk_Write"
  "sink_CommitThrough (mkv_sink_ops env) = snk_CommitThrough env"
  "sink_Finalize (mkv_sink_ops env) = snk_Finalize env" "sink_Abort (mkv_sink_ops env) = snk_Abort env"
  by (simp_all add: mkv_sink_ops_def)

lemma snk_Open_active:
  assumes "snk_Open env cfg c s = (True, s')" and "muxed (snk_writer s) = []" and "writer_inv (snk_writer s)"
  shows "writer_inv (snk_writer s') \<and> muxed_packets (snk_writer s') = [] \<and> snk_pending s' = []"
proof -
  obtain ok w where w: "mkv_Open env (snk_path s) cfg (snk_writer s) = (ok, w)" by fastforce
  from same_output_Open [OF w] have "writer_inv w \<longleftrightarrow> writer_inv (snk_writer s)" "muxed w = muxed (snk_writer s)"
    using same_output_inv by (auto simp: same_output_def)
  with assms w show ?thesis
    by (auto simp: snk_Open_def Let_def muxed_packets_def split: if_splits)
qed

lemma snk_Write_active:
  "snk_Write p s = (True, s') \<Longrightarrow> snk_writer s' = snk_writer s \<and> snk_pending s' = snk_pending s @ [p]"
  by (auto simp: snk_Write_def snk_Fail_def Let_def split: if_splits)

lemma snk_Commit_active:
  assumes "snk_CommitThrough env c s = (True, s')" and "writer_inv (snk_writer s)"
  shows "writer_inv (snk_writer s') \<and> mset (muxed_packets (snk_writer s')) + mset (snk_pending s') =
    mset (muxed_packets (snk_writer s)) + mset (snk_pending s)"
proof -
  have "snk_CommitThrough env c s = (True, s) \<or>
      (\<exists>mark. snk_CommitThrough env c s = FlushPendingThroughDts env mark s)"
    unfolding snk_CommitThrough_def Let_def by (simp only: split: if_split) blast
  with assms(1) consider "s' = s" | mark where "FlushPendingThroughDts env mark s = (True, s')"
    by fastforce
  then show ?thesis
  proof cases
    case 2
    then show ?thesis using Flush_step [OF 2 assms(2)] Flush_mset [OF 2 assms(2)] by simp
  qed (use assms(2) in simp)
qed

lemma muxer_update [simp]:
  "writer_inv (w\<lparr>muxer := m\<rparr>) = writer_inv w" "muxed_packets (w\<lparr>muxer := m\<rparr>) = muxed_packets w"
  "written_count (w\<lparr>muxer := m\<rparr>) = written_count w"
  using same_output_inv [of w "w\<lparr>muxer := m\<rparr>"] by (simp_all add: muxed_packets_def)

lemma snk_Finalize_done:
  assumes fin: "snk_Finalize env c s = (True, s')" and inv: "writer_inv (snk_writer s)"
  shows "writer_inv (snk_writer s') \<and> mkv_success (snk_result s') \<and>
    mset (muxed_packets (snk_writer s')) = mset (muxed_packets (snk_writer s)) + mset (snk_pending s) \<and>
    mkv_packets (snk_result s') = written_count (snk_writer s')"
proof -
  obtain began m where now: "steady_now env (muxer (snk_writer s)) = (began, m)" by fastforce
  let ?s = "s\<lparr>snk_writer := snk_writer s\<lparr>muxer := m\<rparr>\<rparr>"
  obtain ok t where f: "FlushPendingThroughDts env None ?s = (ok, t)" by fastforce
  obtain r w where r: "mkv_Finalize env (snk_writer t) = (r, w)" by fastforce
  obtain later m2 where now2: "steady_now env (muxer w) = (later, m2)" by fastforce
  note eval = fin [unfolded snk_Finalize_def Let_def now prod.case f r now2]
  have ok: "ok" using eval by (auto split: if_splits prod.splits)
  have s': "s' = t\<lparr>snk_writer := w\<lparr>muxer := m2\<rparr>,
      snk_result := r\<lparr>mkv_finalization_ms := (later - began) div 1000000\<rparr>\<rparr>" "mkv_success r"
    using eval ok by auto
  have inv': "writer_inv (snk_writer ?s)" using inv by simp
  have flushed: "FlushPendingThroughDts env None ?s = (True, t)" using f ok by simp
  note step = Flush_step [OF flushed inv'] and all = Flush_mset [OF flushed inv']
  have pending: "snk_pending t = []" using step by (simp add: below_watermark_def)
  note out = mkv_Finalize_output [OF r]
  have "writer_inv w" "muxed w = muxed (snk_writer t)" "written_count w = written_count (snk_writer t)"
    using out step same_output_inv by (auto simp: same_output_def)
  with s' all pending out show ?thesis by (simp add: muxed_packets_def)
qed

interpretation mkv: sink_contract "mkv_sink_ops env" sink_fresh sink_active sink_done
  for env :: "'w mkv_env"
proof unfold_locales
  fix k k' :: "'w MkvPacketSink sink_obj" and cfg c p
  show "sink_active k'" if "sink_fresh k" "do_Open (mkv_sink_ops env) cfg c k = (True, k')"
    using that snk_Open_active [of env cfg c "sk_state k"]
    by (auto simp: do_Open_def sink_fresh_def sink_active_def Let_def split: prod.splits)
  show "sink_active k'" if "sink_active k" "do_Write (mkv_sink_ops env) p k = (True, k')"
    using that snk_Write_active [of p "sk_state k"]
    by (auto simp: do_Write_def sink_active_def Let_def split: prod.splits)
  show "sink_active k'" if "sink_active k" "do_CommitThrough (mkv_sink_ops env) c k = (True, k')"
    using that snk_Commit_active [of env c "sk_state k"]
    by (auto simp: do_CommitThrough_def sink_active_def Let_def split: prod.splits)
  show "sink_done k'" if "sink_active k" "do_Finalize (mkv_sink_ops env) c k = (True, k')"
    using that snk_Finalize_done [of env c "sk_state k"]
    by (auto simp: do_Finalize_def sink_active_def sink_done_def Let_def split: prod.splits)
qed

text \<open>An aborted sink and a finalized one have released their format context.\<close>

definition sink_closed :: "'w MkvPacketSink sink_obj \<Rightarrow> bool" where
  "sink_closed k \<longleftrightarrow> \<not> format_open (snk_writer (sk_state k))"

lemma closed_Release [simp]: "\<not> format_open (ReleaseFormat env w)"
  by (simp add: ReleaseFormat_def)

lemma snk_Finalize_closed:
  assumes "snk_Finalize env c s = (True, s')"
  shows "\<not> format_open (snk_writer s')"
  using assms by (auto simp: snk_Finalize_def Let_def split: prod.splits if_splits dest: mkv_Finalize_closed)

interpretation mkv_closing: closing_contract "mkv_sink_ops env" "\<lambda>_. True" "\<lambda>_. True" sink_closed sink_closed
  for env :: "'w mkv_env"
proof unfold_locales
  fix k k' :: "'w MkvPacketSink sink_obj" and c
  show "sink_closed k'" if "do_Finalize (mkv_sink_ops env) c k = (True, k')"
    using that snk_Finalize_closed [of env c "sk_state k"]
    by (auto simp: do_Finalize_def sink_closed_def Let_def split: prod.splits)
  show "sink_closed (do_Abort (mkv_sink_ops env) k)"
    by (simp add: do_Abort_def sink_closed_def snk_Abort_def mkv_Abort_def)
qed simp_all

subsection \<open>Two files with the same frames\<close>

definition mkv_session :: "SynchronizedRecordingConfig \<Rightarrow> PacketStreamConfig \<Rightarrow> PacketStreamConfig \<Rightarrow>
    'w MkvPacketSink \<Rightarrow> 'w MkvPacketSink \<Rightarrow> 'w MkvPacketSink session" where
  "mkv_session cfg sa sb a b = new_session cfg sa sb (Some a) (Some b)"

definition file_of :: "'w MkvPacketSink sink_obj option \<Rightarrow> 'w MkvPacketWriter" where
  "file_of k = snk_writer (sk_state (the k))"

lemma sink_done_file:
  assumes "sink_done k"
  shows "muxed_cts (file_of (Some k)) = set (written (Some k)) \<and>
    (distinct (map source_cts (muxed_packets (file_of (Some k)))) \<longleftrightarrow> distinct (written (Some k)))"
proof -
  let ?w = "file_of (Some k)"
  have "mset (map source_cts (accepted_calls (sk_calls k))) = mset (map source_cts (muxed_packets ?w))"
    using assms by (simp add: sink_done_def file_of_def)
  then have "mset (written (Some k)) = mset (map source_cts (muxed_packets ?w))"
    by (simp add: accepted_written written_def)
  from mset_eq_setD [OF this] mset_eq_imp_distinct_iff [OF this] show ?thesis
    by (simp add: muxed_cts_def)
qed

lemma sink_done_nonempty:
  assumes "sink_done k" and "c \<in> set (written (Some k))"
  shows "muxed (file_of (Some k)) \<noteq> []"
  using sink_done_file [OF assms(1)] assms(2) by (auto simp: muxed_cts_def muxed_packets_def)

lemma stopped_sessions_files:
  assumes s: "s = session_run (mkv_sink_ops env) cs (mkv_session cfg sa sb (new_sink ma pa) (new_sink mb pb))"
    and "state s = Stopped" and "last_flushed_cts s \<noteq> max_u64"
  obtains r ka kb where "selected_range s = Some r" "sink_a s = Some ka" "sink_b s = Some kb" "sink_done ka" "sink_done kb"
    "set (written (sink_a s)) = set (written (sink_b s))" "distinct (written (sink_a s))"
    "distinct (written (sink_b s))" "start_cts r \<in> set (written (sink_a s))"
    "Min (set (written (sink_a s))) = start_cts r" "Max (set (written (sink_a s))) = end_cts r"
proof -
  let ?s0 = "mkv_session cfg sa sb (new_sink ma pa) (new_sink mb pb)"
  have reach: "session_reachable (mkv_sink_ops env) s"
    unfolding s mkv_session_def by (rule reachable_run) (rule session_reachable.created)
  from stopped_recording_is_one_common_range_facts [OF reach assms(2,3)] obtain r where r: "selected_range s = Some r"
    "set (written (sink_a s)) = set (written (sink_b s))" "distinct (written (sink_a s))"
    "distinct (written (sink_b s))" "start_cts r \<in> set (written (sink_a s))"
    "Min (set (written (sink_a s))) = start_cts r" "Max (set (written (sink_a s))) = end_cts r" by blast
  have fresh: "pred_option sink_fresh (sink_a ?s0)" "pred_option sink_fresh (sink_b ?s0)" "state ?s0 = Idle"
    by (simp_all add: mkv_session_def new_session_def sink_fresh_def new_sink_def writer_inv_new)
      (simp_all add: new_writer_def)
  have "mkv.both sink_done s"
    using mkv.stopped_sinks [OF fresh, of env cs] assms(2) by (simp add: s session_run_def)
  then have fin: "pred_option sink_done (sink_a s)" "pred_option sink_done (sink_b s)"
    by (simp_all add: mkv.both_def)
  moreover have "sink_a s \<noteq> None" "sink_b s \<noteq> None"
    using r(2,5) by (cases "sink_a s"; cases "sink_b s"; simp)+
  ultimately show thesis using r that by auto
qed

text \<open>C4. A recording session over two MKV sinks that has stopped leaves two files of the same
  frames: whatever the order of calls and whatever libavformat answered on the way, both muxers were
  given the same set of CTS values, each once, the first the selected start and the last the selected
  end, in an order in which the muxed DTS never decreases, and both files were completed without error.\<close>

theorem stopped_recording_files_agree:
  assumes s: "s = session_run (mkv_sink_ops env) cs (mkv_session cfg sa sb (new_sink ma pa) (new_sink mb pb))"
    and "state s = Stopped" and "last_flushed_cts s \<noteq> max_u64"
  shows "\<exists>r. selected_range s = Some r \<and>
    muxed_cts (file_of (sink_a s)) = muxed_cts (file_of (sink_b s)) \<and>
    (\<forall>k \<in> {sink_a s, sink_b s}.
       distinct (map source_cts (muxed_packets (file_of k))) \<and>
       first_written_cts (file_of k) = start_cts r \<and> last_written_cts (file_of k) = end_cts r \<and>
       sorted (map (\<lambda>e. sint (snd e)) (muxed (file_of k))) \<and>
       mkv_success (snk_result (sk_state (the k))))"
proof -
  obtain r ka kb where r: "selected_range s = Some r" "sink_a s = Some ka" "sink_b s = Some kb" "sink_done ka" "sink_done kb"
    "set (written (sink_a s)) = set (written (sink_b s))" "distinct (written (sink_a s))"
    "distinct (written (sink_b s))" "start_cts r \<in> set (written (sink_a s))"
    "Min (set (written (sink_a s))) = start_cts r" "Max (set (written (sink_a s))) = end_cts r"
    using stopped_sessions_files [OF assms] .
  have file_ok: "muxed_cts (file_of k) = set (written k) \<and> distinct (map source_cts (muxed_packets (file_of k))) \<and>
       first_written_cts (file_of k) = start_cts r \<and> last_written_cts (file_of k) = end_cts r \<and>
       sorted (map (\<lambda>e. sint (snd e)) (muxed (file_of k))) \<and>
       mkv_success (snk_result (sk_state (the k)))" if k: "k = sink_a s \<or> k = sink_b s" for k
  proof -
    obtain x where x: "k = Some x" "sink_done x" using k r(2-5) by metis
    have w: "set (written k) = set (written (sink_a s))" "distinct (written k)" using k r(6-8) by auto
    have "writer_inv (file_of k)" "mkv_success (snk_result (sk_state x))"
      using x by (simp_all add: sink_done_def file_of_def)
    moreover have "muxed (file_of k) \<noteq> []"
      using sink_done_nonempty [OF x(2), of "start_cts r"] r(9) w x(1) by simp
    ultimately show ?thesis
      using sink_done_file [OF x(2)] w r(10,11) x(1) by (simp add: writer_inv_def)
  qed
  from file_ok [of "sink_a s"] file_ok [of "sink_b s"] r(1,6) show ?thesis by simp
qed

text \<open>A muxer that takes everything, with a running clock.\<close>

definition taking_muxer :: "u64 mkv_env" where
  "taking_muxer = \<lparr>steady_now = (\<lambda>t. (t + 1, t + 1)), av_alloc_context = (\<lambda>_ t. ((0, True), t)),
     av_new_stream = (\<lambda>t. (True, t)), av_alloc_extradata = (\<lambda>_ t. (True, t)), av_nofile = False,
     av_open_file = (\<lambda>_ t. (0, t)), av_write_header = (\<lambda>_ _ _ _ t. (0, t)), av_time_base = (\<lambda>_. (1, 1000)),
     av_alloc_packet = (\<lambda>_ t. (True, t)), av_write_frame = (\<lambda>_ t. (0, t)),
     av_write_trailer = (\<lambda>t. (0, t)), av_close_file = (\<lambda>t. t), av_free_context = (\<lambda>t. t),
     av_strerror = (\<lambda>_. ''error''), av_rescale_q = (\<lambda>t _ _. t)\<rparr>"

definition demo_mkv_session :: "u64 MkvPacketSink session" where
  "demo_mkv_session = mkv_session \<lparr>pre_roll_capacity_bytes = 8, tail_capacity_bytes = 8,
     reorder_safety_cts = 0, expected_source_cts_step = 1, max_start_wait_cts = 5\<rparr>
     demo_stream demo_stream (new_sink 0 ''a.mkv'') (new_sink 0 ''b.mkv'')"

definition demo_stopped :: "u64 MkvPacketSink session" where
  "demo_stopped = session_run (mkv_sink_ops taking_muxer)
     (demo_calls @ [OpRequestStop 2, OpCompleteDrain]) demo_mkv_session"

theorem stopped_recording_files_agree_witness:
  "muxed_cts (file_of (sink_a demo_stopped)) = muxed_cts (file_of (sink_b demo_stopped))"
proof -
  have "state demo_stopped = Stopped" "last_flushed_cts demo_stopped \<noteq> max_u64" by code_simp+
  from stopped_recording_files_agree [OF demo_stopped_def [unfolded demo_mkv_session_def] this]
  show ?thesis by blast
qed

subsection \<open>Opening a file\<close>

lemma header_open:
  assumes "open_file_and_header env path cfg w = (ok, w')" and "format_open w" and "mkv_error w = []"
  shows "format_open w' = ok \<and> (mkv_error w' = [] \<longleftrightarrow> ok)"
  using assms
  by (auto simp: open_file_and_header_def open_failed_def ReleaseFormat_def Let_def
      split: prod.splits if_split_asm)

text \<open>Opening a writer is all or nothing: on a writer that is not open, the call answers true
  exactly when a format context is left open and no error is recorded; on every error path (bad
  configuration, context, stream, timebase, extra data, file or header refused) the context is
  released again, the reason is recorded, and nothing that was counted or written changes. On a
  writer that is open the call is refused and the file stays open.\<close>

theorem open_is_all_or_nothing:
  assumes "mkv_Open env path cfg w = (ok, w')"
  shows "(if format_open w then \<not> ok \<and> format_open w' else format_open w' = ok) \<and>
    (mkv_error w' = [] \<longleftrightarrow> ok) \<and> (ok \<longrightarrow> mkv_path w' = path) \<and>
    muxed w' = muxed w \<and> written_count w' = written_count w"
proof -
  have same: "muxed w' = muxed w" "written_count w' = written_count w"
    using same_output_Open [OF assms] by (simp_all add: same_output_def)
  show ?thesis
  proof (cases "format_open w \<or> path = [] \<or> cfg_width cfg = 0 \<or> cfg_height cfg = 0 \<or> extra_data cfg = []")
    case True
    with assms same show ?thesis by (auto simp: mkv_Open_def)
  next
    case ready: False
    obtain e made m where a: "av_alloc_context env path (muxer w) = ((e, made), m)"
      by (metis prod.collapse)
    obtain made2 m2 where b: "av_new_stream env m = (made2, m2)" by fastforce
    obtain made3 m3 where c: "av_alloc_extradata env (extra_data cfg) m2 = (made3, m3)" by fastforce
    let ?w = "w\<lparr>mkv_error := [], mkv_path := path, format_open := True, muxer := m3\<rparr>"
    obtain ok2 w2 where d: "open_file_and_header env path cfg ?w = (ok2, w2)" by fastforce
    have header: "format_open w2 = ok2" "mkv_error w2 = [] \<longleftrightarrow> ok2"
      using header_open [OF d] by simp_all
    have path: "mkv_path w2 = path"
      using d by (auto simp: open_file_and_header_def open_failed_def ReleaseFormat_def Let_def
          split: prod.splits if_split_asm)
    note eval = assms [unfolded mkv_Open_def if_not_P [OF ready] Let_def a prod.case]
    show ?thesis
    proof (cases "0 \<le> e \<and> made \<and> made2 \<and> \<not> (sint (cfg_timebase_num cfg) \<le> 0 \<or> sint (cfg_timebase_den cfg) \<le> 0) \<and> made3")
      case True
      then have "ok = ok2" "w' = w2" using eval b c d by (auto simp: not_less)
      with header path same ready show ?thesis by auto
    next
      case False
      then have "\<not> ok \<and> \<not> format_open w' \<and> mkv_error w' \<noteq> []"
        using eval b c d ready by (auto simp: open_failed_def ReleaseFormat_def split: if_split_asm)
      with same ready show ?thesis by auto
    qed
  qed
qed

theorem open_is_all_or_nothing_witness:
  "fst (mkv_Open (taking_muxer\<lparr>av_write_header := \<lambda>_ _ _ _ t. (- 5, t)\<rparr>) ''a.mkv'' demo_stream (new_writer 0)) = False \<and>
   \<not> format_open (snd (mkv_Open (taking_muxer\<lparr>av_write_header := \<lambda>_ _ _ _ t. (- 5, t)\<rparr>) ''a.mkv'' demo_stream (new_writer 0)))"
proof -
  let ?env = "taking_muxer\<lparr>av_write_header := \<lambda>_ _ _ _ t. (- 5, t)\<rparr>"
  obtain ok w' where o: "mkv_Open ?env ''a.mkv'' demo_stream (new_writer 0) = (ok, w')" by fastforce
  have "fst (mkv_Open ?env ''a.mkv'' demo_stream (new_writer 0)) = False" by code_simp
  with o open_is_all_or_nothing [OF o] show ?thesis by (simp add: new_writer_def)
qed

end
