(* ===== verification/ReplayConsumer.thy ===== *)
theory ReplayConsumer
  imports CaptureProperties MkvProperties
begin

text \<open>
  \<open>src/replay/synchronized-replay-consumer\<close>: saving a snapshot of the packet ring to one MKV file
  per stream. A save runs on its own thread; the thread that was started and has not finished is the
  field \<open>save_job\<close>, and \<open>worker_done\<close> is its completion. Each file has its own muxer state, given by
  \<open>fresh\<close>; the writers of a save, as they are when they are destroyed, are returned beside its result.
\<close>

subsection \<open>Data\<close>

record ReplaySaveResult =
  save_success :: bool
  save_range :: ReplayFrameRange
  save_paths :: "string list"
  save_streams :: "MkvWriteResult list"
  snapshot_payload_bytes :: u64
  save_wall_ms :: u64
  save_error :: string

record SynchronizedReplayConsumer =
  save_job :: "(ReplaySnapshot \<times> string list) option"
  save_active :: bool
  last_result :: "ReplaySaveResult option"
  last_request_error :: string

definition new_replay :: SynchronizedReplayConsumer where
  "new_replay = \<lparr>save_job = None, save_active = False, last_result = None, last_request_error = []\<rparr>"

subsection \<open>Writing a snapshot\<close>

definition rebase_packet :: "'w mkv_env \<Rightarrow> ReplayFrameRange \<Rightarrow> EncodedPacket \<Rightarrow> EncodedPacket \<Rightarrow> EncodedPacket" where
  "rebase_packet env rng first p =
     p\<lparr>pts := av_rescale_q env (source_cts p - range_start_cts rng) (1, 1000000000)
         (timebase_num first, timebase_den first),
       dts := dts p - dts first\<rparr>"

definition MuxPackets :: "'w mkv_env \<Rightarrow> CapturedEncodedPacket list \<Rightarrow> ReplayFrameRange \<Rightarrow> EncodedPacket list" where
  "MuxPackets env owned rng =
     (let ps = SortForDecodeOrder (map captured_packet owned)
      in if ps = [] \<or> sint (timebase_num (hd ps)) \<le> 0 \<or> sint (timebase_den (hd ps)) \<le> 0 then ps
         else map (rebase_packet env rng (hd ps)) ps)"

definition payload_sum :: "CapturedEncodedPacket list \<Rightarrow> u64 \<Rightarrow> u64" where
  "payload_sum qs n = fold (\<lambda>q n. n + vsize (payload (captured_packet q))) qs n"

text \<open>One stream of the snapshot: false ends the save with the error of the result.\<close>

definition save_stream :: "'w mkv_env \<Rightarrow> 'w \<Rightarrow> nat \<Rightarrow> string \<Rightarrow> ReplaySnapshot \<Rightarrow> ReplaySaveResult \<Rightarrow>
    bool \<times> ReplaySaveResult \<times> 'w MkvPacketWriter" where
  "save_stream env m i path snap r =
     (let r = r\<lparr>snapshot_payload_bytes := payload_sum (snapshot_packets snap ! i) (snapshot_payload_bytes r)\<rparr>;
          (opened, w) = mkv_Open env path (stream_configs snap ! i) (new_writer m)
      in if \<not> opened then (False, r\<lparr>save_error := ''stream-open-failed:'' @ mkv_error w\<rparr>, mkv_Abort env w)
         else
           (let ps = MuxPackets env (snapshot_packets snap ! i) (snapshot_range snap)
            in if ps = [] then (False, r\<lparr>save_error := ''empty-snapshot-stream''\<rparr>, mkv_Abort env w)
               else
                 (let (written, w) = mkv_write_all env ps w
                  in if \<not> written
                     then (False, r\<lparr>save_error := ''stream-write-failed:'' @ mkv_error w\<rparr>, mkv_Abort env w)
                     else
                       (let (res, w) = mkv_Finalize env w;
                            r = r\<lparr>save_streams := (save_streams r)[i := res]\<rparr>
                        in if \<not> mkv_success res \<or> mkv_first_cts res \<noteq> range_start_cts (snapshot_range snap) \<or>
                              mkv_last_cts res \<noteq> range_end_cts (snapshot_range snap)
                           then (False, r\<lparr>save_error := ''stream-range-mismatch:'' @ mkv_result_error res\<rparr>,
                                 mkv_Abort env w)
                           else (True, r, mkv_Abort env w)))))"

fun save_streams_from :: "'w mkv_env \<Rightarrow> (nat \<Rightarrow> 'w) \<Rightarrow> nat \<Rightarrow> string list \<Rightarrow> ReplaySnapshot \<Rightarrow>
    ReplaySaveResult \<Rightarrow> bool \<times> ReplaySaveResult \<times> 'w MkvPacketWriter list" where
  "save_streams_from env fresh i [] snap r = (True, r, [])"
| "save_streams_from env fresh i (path # paths) snap r =
     (let (ok, r, w) = save_stream env (fresh i) i path snap r
      in if \<not> ok then (False, r, [w])
         else (let (ok, r, ws) = save_streams_from env fresh (Suc i) paths snap r in (ok, r, w # ws)))"

text \<open>\<open>t0\<close> and \<open>t1\<close> are the clock readings at the start and at the end.\<close>

definition WriteSnapshot :: "'w mkv_env \<Rightarrow> (nat \<Rightarrow> 'w) \<Rightarrow> u64 \<Rightarrow> u64 \<Rightarrow> ReplaySnapshot \<Rightarrow> string list \<Rightarrow>
    ReplaySaveResult \<times> 'w MkvPacketWriter list" where
  "WriteSnapshot env fresh t0 t1 snap paths =
     (let r = \<lparr>save_success = False, save_range = snapshot_range snap, save_paths = paths,
               save_streams = replicate (length (snapshot_packets snap)) empty_mkv_result,
               snapshot_payload_bytes = 0, save_wall_ms = 0, save_error = []\<rparr>
      in if length (snapshot_packets snap) \<noteq> length (stream_configs snap) \<or>
            length (snapshot_packets snap) \<noteq> length paths
         then (r\<lparr>save_error := ''snapshot-stream-count-mismatch''\<rparr>, [])
         else
           (let (ok, r, ws) = save_streams_from env fresh 0 paths snap r
            in if \<not> ok then (r, ws)
               else (r\<lparr>save_wall_ms := (t1 - t0) div 1000000, save_success := True\<rparr>, ws)))"

subsection \<open>Requests\<close>

definition reject :: "string \<Rightarrow> SynchronizedReplayConsumer \<Rightarrow> bool \<times> SynchronizedReplayConsumer" where
  "reject why c = (False, c\<lparr>last_request_error := why\<rparr>)"

text \<open>
  The request reads the capture session at the call; \<open>None\<close> is a snapshot over all streams that does
  not return. A finished thread is joined at once, so it leaves no trace.
\<close>

definition RequestSave :: "string list \<Rightarrow> u64 \<Rightarrow> CaptureStreamId list \<Rightarrow> capture_session \<Rightarrow>
    SynchronizedReplayConsumer \<Rightarrow> (bool \<times> SynchronizedReplayConsumer) option" where
  "RequestSave paths duration ids s c =
     (if paths = [] then Some (reject ''invalid-paths'' c)
      else
        (case (if ids = [] then SnapshotCommonRangeAll duration s
               else Some (SnapshotCommonRangeDetailed ids duration s)) of
           None \<Rightarrow> None
         | Some attempt \<Rightarrow> Some
             (case attempt_snapshot attempt of
                None \<Rightarrow> reject (if attempt_reason attempt = [] then ''snapshot-rejected''
                                else attempt_reason attempt) c
              | Some snap \<Rightarrow>
                  (if length (snapshot_packets snap) \<noteq> length paths
                   then reject ''snapshot-stream-count-mismatch'' c
                   else if save_active c
                   then (False, c\<lparr>last_request_error := ''save-already-active''\<rparr>)
                   else (True, c\<lparr>save_job := Some (snap, paths), save_active := True,
                                last_request_error := [], last_result := None\<rparr>)))))"

text \<open>The end of the thread; \<open>Wait\<close> joins it when there is one.\<close>

definition worker_done :: "'w mkv_env \<Rightarrow> (nat \<Rightarrow> 'w) \<Rightarrow> u64 \<Rightarrow> u64 \<Rightarrow> SynchronizedReplayConsumer \<Rightarrow>
    SynchronizedReplayConsumer \<times> 'w MkvPacketWriter list" where
  "worker_done env fresh t0 t1 c =
     (case save_job c of
        None \<Rightarrow> (c, [])
      | Some (snap, paths) \<Rightarrow>
          (let (r, ws) = WriteSnapshot env fresh t0 t1 snap paths
           in (c\<lparr>last_result := Some r, save_active := False, save_job := None\<rparr>, ws)))"

definition replay_Wait :: "'w mkv_env \<Rightarrow> (nat \<Rightarrow> 'w) \<Rightarrow> u64 \<Rightarrow> u64 \<Rightarrow> SynchronizedReplayConsumer \<Rightarrow>
    SynchronizedReplayConsumer \<times> 'w MkvPacketWriter list" where
  "replay_Wait env fresh t0 t1 c = worker_done env fresh t0 t1 c"

subsection \<open>A saved stream\<close>

text \<open>Rebasing only touches the timestamps, sorting only the order.\<close>

lemma mset_rebased:
  assumes "\<And>first p. f (rebase_packet env rng first p) = f p"
  shows "image_mset f (mset (MuxPackets env owned rng)) = {#f (captured_packet q). q \<in># mset owned#}"
  by (simp add: MuxPackets_def Let_def SortForDecodeOrder_def multiset.map_comp comp_def assms)

text \<open>A stream that is saved is in its file: every packet, the first and last CTS those of the range.\<close>

definition saved_file :: "'w mkv_env \<Rightarrow> ReplayFrameRange \<Rightarrow> CapturedEncodedPacket list \<Rightarrow> 'w MkvPacketWriter \<Rightarrow> bool" where
  "saved_file env rng qs w \<longleftrightarrow> writer_inv w \<and> \<not> format_open w \<and>
     muxed_packets w = MuxPackets env qs rng \<and> muxed w \<noteq> [] \<and>
     first_written_cts w = range_start_cts rng \<and> last_written_cts w = range_end_cts rng"

lemma Release_fields [simp]:
  "\<not> format_open (ReleaseFormat env w)" "mkv_error (ReleaseFormat env w) = mkv_error w"
  "muxed (ReleaseFormat env w) = muxed w" "first_written_cts (ReleaseFormat env w) = first_written_cts w"
  "last_written_cts (ReleaseFormat env w) = last_written_cts w"
  "muxed_packets (ReleaseFormat env w) = muxed_packets w" "writer_inv (ReleaseFormat env w) = writer_inv w"
  using same_output_inv [OF same_output_Release, of env w]
  by (simp_all add: ReleaseFormat_def muxed_packets_def)

lemma Abort_eq: "mkv_Abort env w = ReleaseFormat env w"
  by (simp add: mkv_Abort_def)

lemma MuxPackets_length: "length (MuxPackets env qs rng) = length qs"
  by (simp add: MuxPackets_def Let_def SortForDecodeOrder_def)

lemma writer_inv_opened:
  assumes "mkv_Open env path cfg (new_writer m) = (ok, w)"
  shows "writer_inv w \<and> muxed w = []"
  using same_output_Open [OF assms] same_output_inv [OF same_output_Open [OF assms]] writer_inv_new [of m]
  by (simp add: same_output_def new_writer_def)

lemma save_stream_out:
  assumes "save_stream env m i path snap r = (ok, r', w)"
  shows "save_range r' = save_range r \<and> save_paths r' = save_paths r \<and> save_success r' = save_success r \<and>
    length (save_streams r') = length (save_streams r) \<and> \<not> format_open w \<and>
    (ok \<longrightarrow> save_error r' = save_error r \<and> saved_file env (snapshot_range snap) (snapshot_packets snap ! i) w \<and>
       (\<exists>res. save_streams r' = (save_streams r)[i := res] \<and> mkv_success res \<and>
          mkv_packets res = word_of_nat (length (snapshot_packets snap ! i))))"
proof -
  let ?qs = "snapshot_packets snap ! i" and ?rng = "snapshot_range snap"
  obtain opened w1 where o: "mkv_Open env path (stream_configs snap ! i) (new_writer m) = (opened, w1)" by fastforce
  obtain done' w2 where wr: "mkv_write_all env (MuxPackets env ?qs ?rng) w1 = (done', w2)" by fastforce
  obtain res w3 where f: "mkv_Finalize env w2 = (res, w3)" by fastforce
  note eval = assms [unfolded save_stream_def Let_def o prod.case wr f]
  show ?thesis
  proof (cases "opened \<and> MuxPackets env ?qs ?rng \<noteq> [] \<and> done' \<and> mkv_success res \<and>
      mkv_first_cts res = range_start_cts ?rng \<and> mkv_last_cts res = range_end_cts ?rng")
    case True
    then have r': "ok" "w = mkv_Abort env w3" "save_streams r' = (save_streams r)[i := res]"
      "save_range r' = save_range r" "save_paths r' = save_paths r" "save_success r' = save_success r"
      "save_error r' = save_error r"
      using eval by auto
    note opened = writer_inv_opened [OF o]
    then have w2: "writer_inv w2" "muxed_packets w2 = MuxPackets env ?qs ?rng"
      using mkv_write_all_step [OF wr] True by (auto simp: muxed_packets_def)
    note out = mkv_Finalize_output [OF f]
    then have w3: "writer_inv w3" "muxed_packets w3 = muxed_packets w2"
      using same_output_inv w2(1) by (auto simp: same_output_def muxed_packets_def)
    have "first_written_cts w3 = range_start_cts ?rng" "last_written_cts w3 = range_end_cts ?rng"
      using out True by (auto simp: same_output_def)
    moreover have "mkv_packets res = word_of_nat (length ?qs)"
      using out w2 by (metis MuxPackets_length length_map muxed_packets_def writer_inv_def)
    moreover have "muxed w3 \<noteq> []" using w2 w3 True by (auto simp: muxed_packets_def)
    ultimately show ?thesis using r' w2 w3 True by (auto simp: saved_file_def Abort_eq)
  next
    case False
    then show ?thesis using eval by (auto simp: Abort_eq split: if_split_asm)
  qed
qed

lemma save_streams_from_out:
  "save_streams_from env fresh i paths snap r = (ok, r', ws) \<Longrightarrow>
     save_range r' = save_range r \<and> save_paths r' = save_paths r \<and> save_success r' = save_success r \<and>
     (\<forall>w \<in> set ws. \<not> format_open w) \<and> length ws \<le> length paths \<and>
     (ok \<longrightarrow> save_error r' = save_error r \<and> length ws = length paths \<and>
        (\<forall>j < length paths. saved_file env (snapshot_range snap) (snapshot_packets snap ! (i + j)) (ws ! j)))"
proof (induction paths arbitrary: i r ws ok r')
  case (Cons path paths)
  obtain ok1 r1 w where s: "save_stream env (fresh i) i path snap r = (ok1, r1, w)" by (metis prod_cases3)
  note out = save_stream_out [OF s]
  obtain ok2 r2 vs where rest: "save_streams_from env fresh (Suc i) paths snap r1 = (ok2, r2, vs)"
    by (metis prod_cases3)
  note ih = Cons.IH [OF rest]
  show ?case
  proof (cases ok1)
    case True
    then have "ok = ok2" "r' = r2" "ws = w # vs" using Cons.prems s rest by auto
    with ih out True show ?thesis by (auto simp: nth_Cons split: nat.split)
  next
    case False
    with Cons.prems s out show ?thesis by auto
  qed
qed simp

text \<open>C5. A save that succeeds is complete: there is one file per stream of the snapshot, each was
  closed without error, was given every packet of its stream exactly once with its CTS and payload
  unchanged, in an order in which the muxed DTS never decreases, and its least and greatest CTS are
  the ends of the snapshot's range. A save that fails leaves no file open.\<close>

theorem saved_snapshot_is_complete:
  assumes "WriteSnapshot env fresh t0 t1 snap paths = (r, ws)"
  shows "save_range r = snapshot_range snap \<and> save_paths r = paths \<and> (\<forall>w \<in> set ws. \<not> format_open w) \<and>
    (save_success r \<longrightarrow> save_error r = [] \<and> length ws = length (snapshot_packets snap) \<and>
      length paths = length (snapshot_packets snap) \<and>
      (\<forall>i < length ws. mset (map source_cts (muxed_packets (ws ! i))) =
           mset (map (\<lambda>q. source_cts (captured_packet q)) (snapshot_packets snap ! i)) \<and>
         mset (map payload (muxed_packets (ws ! i))) =
           mset (map (\<lambda>q. payload (captured_packet q)) (snapshot_packets snap ! i)) \<and>
         sorted (map (\<lambda>e. sint (snd e)) (muxed (ws ! i))) \<and>
         Min (muxed_cts (ws ! i)) = range_start_cts (snapshot_range snap) \<and>
         Max (muxed_cts (ws ! i)) = range_end_cts (snapshot_range snap)))"
proof -
  let ?r = "\<lparr>save_success = False, save_range = snapshot_range snap, save_paths = paths,
     save_streams = replicate (length (snapshot_packets snap)) empty_mkv_result,
     snapshot_payload_bytes = 0, save_wall_ms = 0, save_error = []\<rparr>"
  obtain ok r1 vs where s: "save_streams_from env fresh 0 paths snap ?r = (ok, r1, vs)" by (metis prod_cases3)
  note out = save_streams_from_out [OF s]
  have file_ok: "mset (map source_cts (muxed_packets w)) = mset (map (\<lambda>q. source_cts (captured_packet q)) qs) \<and>
      mset (map payload (muxed_packets w)) = mset (map (\<lambda>q. payload (captured_packet q)) qs) \<and>
      sorted (map (\<lambda>e. sint (snd e)) (muxed w)) \<and> Min (muxed_cts w) = range_start_cts rng \<and>
      Max (muxed_cts w) = range_end_cts rng"
    if "saved_file env rng qs w" for w qs rng
  proof -
    have w: "writer_inv w" "muxed w \<noteq> []" "first_written_cts w = range_start_cts rng"
      "last_written_cts w = range_end_cts rng" "muxed_packets w = MuxPackets env qs rng"
      using that by (simp_all add: saved_file_def)
    then have "Min (muxed_cts w) = first_written_cts w" "Max (muxed_cts w) = last_written_cts w"
      "sorted (map (\<lambda>e. sint (snd e)) (muxed w))" by (simp_all add: writer_inv_def)
    with w mset_rebased [of source_cts env rng qs] mset_rebased [of payload env rng qs]
    show ?thesis by (simp add: rebase_packet_def)
  qed
  show ?thesis
  proof (cases "length (snapshot_packets snap) \<noteq> length (stream_configs snap) \<or>
      length (snapshot_packets snap) \<noteq> length paths")
    case True
    with assms show ?thesis by (auto simp: WriteSnapshot_def)
  next
    case False
    with assms s have "r = (if ok then r1\<lparr>save_wall_ms := (t1 - t0) div 1000000, save_success := True\<rparr> else r1)"
      "ws = vs" by (auto simp: WriteSnapshot_def split: if_split_asm)
    with out False file_ok show ?thesis by (auto split: if_splits)
  qed
qed

definition demo_snapshot :: ReplaySnapshot where
  "demo_snapshot = build_snapshot
     (map (\<lambda>st. st\<lparr>stream_config := (stream_config st)\<lparr>extra_data := [1]\<rparr>\<rparr>) (streams demo_history)) [0, 1] 10 30"

theorem saved_snapshot_is_complete_witness:
  "save_success (fst (WriteSnapshot plain_muxer (\<lambda>_. ()) 0 1 demo_snapshot [''a.mkv'', ''b.mkv''])) \<and>
   length (snd (WriteSnapshot plain_muxer (\<lambda>_. ()) 0 1 demo_snapshot [''a.mkv'', ''b.mkv''])) = 2"
proof -
  obtain r ws where w: "WriteSnapshot plain_muxer (\<lambda>_. ()) 0 1 demo_snapshot [''a.mkv'', ''b.mkv''] = (r, ws)"
    by fastforce
  have "save_success (fst (WriteSnapshot plain_muxer (\<lambda>_. ()) 0 1 demo_snapshot [''a.mkv'', ''b.mkv'']))"
    by code_simp
  moreover have "length (snapshot_packets demo_snapshot) = 2" by code_simp
  ultimately show ?thesis using saved_snapshot_is_complete [OF w] w by simp
qed

subsection \<open>Requests, branch by branch\<close>

text \<open>A request is answered true exactly when there are paths, the session gives a snapshot with
  one stream per path, and no save is running; then the save of that snapshot is the running one and
  the last result and error are cleared. Every other answer is false, leaves the running save and the
  last result alone, and records the reason, the snapshot's own where it was refused there. A save is
  running exactly while its thread has not finished.\<close>

theorem replay_request_behaviour:
  assumes "save_active c \<longleftrightarrow> save_job c \<noteq> None" and "RequestSave paths d ids s c = Some (ok, c')"
  shows "(save_active c' \<longleftrightarrow> save_job c' \<noteq> None) \<and>
    (ok \<longrightarrow> (\<exists>snap. save_job c' = Some (snap, paths) \<and> length (snapshot_packets snap) = length paths \<and>
         paths \<noteq> [] \<and> \<not> save_active c \<and> last_result c' = None \<and> last_request_error c' = [] \<and>
         (ids \<noteq> [] \<longrightarrow> SnapshotCommonRange ids d s = Some snap))) \<and>
    (\<not> ok \<longrightarrow> save_job c' = save_job c \<and> last_result c' = last_result c \<and> last_request_error c' \<noteq> [] \<and>
       (paths \<noteq> [] \<and> ids \<noteq> [] \<and> SnapshotCommonRange ids d s = None \<longrightarrow>
          last_request_error c' = attempt_reason (SnapshotCommonRangeDetailed ids d s))) \<and>
    (\<not> save_active c \<and> paths \<noteq> [] \<and> (\<exists>snap. SnapshotCommonRange ids d s = Some snap \<and>
         length (snapshot_packets snap) = length paths) \<and> ids \<noteq> [] \<longrightarrow> ok)"
proof -
  have reason: "attempt_reason (SnapshotCommonRangeDetailed is d s) \<noteq> []"
    if "attempt_snapshot (SnapshotCommonRangeDetailed is d s) = None" for "is"
    using that by (auto simp: SnapshotCommonRangeDetailed_def snapshot_failed_def Let_def
        split: if_splits option.splits prod.splits)
  show ?thesis
  proof (cases "paths = []")
    case True
    with assms show ?thesis by (auto simp: RequestSave_def reject_def)
  next
    case False
    then obtain a where a: "(if ids = [] then SnapshotCommonRangeAll d s
        else Some (SnapshotCommonRangeDetailed ids d s)) = Some a"
      using assms(2) by (auto simp: RequestSave_def split: option.splits if_splits)
    note eval = assms(2) [unfolded RequestSave_def if_not_P [OF False] a option.case]
    have why: "attempt_snapshot a = None \<Longrightarrow> attempt_reason a \<noteq> []"
      using a reason by (auto simp: SnapshotCommonRangeAll_def split: if_splits)
    have same: "ids \<noteq> [] \<Longrightarrow> a = SnapshotCommonRangeDetailed ids d s" using a by simp
    show ?thesis
    proof (cases "attempt_snapshot a")
      case None
      with eval assms(1) False why same show ?thesis
        by (auto simp: reject_def SnapshotCommonRange_def)
    next
      case (Some snap)
      with eval assms(1) False same show ?thesis
        by (auto simp: reject_def SnapshotCommonRange_def split: if_splits)
    qed
  qed
qed

theorem replay_request_behaviour_witness:
  "\<exists>c. RequestSave [''a.mkv'', ''b.mkv''] 20 [0, 1] demo_history new_replay = Some (True, c) \<and>
     save_active c \<and> \<not> save_active (fst (worker_done plain_muxer (\<lambda>_. ()) 0 1 c))"
proof -
  have "map_option fst (RequestSave [''a.mkv'', ''b.mkv''] 20 [0, 1] demo_history new_replay) = Some True"
    by code_simp
  then obtain c where c: "RequestSave [''a.mkv'', ''b.mkv''] 20 [0, 1] demo_history new_replay = Some (True, c)"
    by auto
  have "save_active new_replay \<longleftrightarrow> save_job new_replay \<noteq> None" by (simp add: new_replay_def)
  from replay_request_behaviour [OF this c] c show ?thesis
    by (auto simp: worker_done_def case_prod_beta split: option.splits)
qed

end
