(* ===== verification/RecordingConsumer.thy ===== *)
theory RecordingConsumer
  imports CaptureInvariant MkvProperties
begin

text \<open>
  \<open>src/recording/synchronized-recording-consumer\<close>: the live recording of captured packets, one MKV
  writer per stream. \<open>OnPacket\<close> runs on the capture threads and only touches the queue and the
  failure flags, under the mutex; everything else belongs to the worker thread. A step of the worker
  is one locked region with the unlocked work that follows it: that work shares no state with
  \<open>OnPacket\<close> but the failure it may report at its end. \<open>rec_phase\<close> is where the worker stands.
\<close>

subsection \<open>Data\<close>

record SynchronizedRecordingConsumerResult =
  rec_success :: bool
  rec_range :: ReplayFrameRange
  rec_paths :: "string list"
  rec_streams :: "MkvWriteResult list"
  rec_packet_count :: u64
  rec_wall_ms :: u64
  rec_error :: string

definition empty_recording_result :: SynchronizedRecordingConsumerResult where
  "empty_recording_result = \<lparr>rec_success = False, rec_range = \<lparr>range_start_cts = 0, range_end_cts = 0\<rparr>,
     rec_paths = [], rec_streams = [], rec_packet_count = 0, rec_wall_ms = 0, rec_error = []\<rparr>"

datatype worker_phase = NoWorker | Waiting | Holding CapturedEncodedPacket | Finishing | Exited

record 'w SynchronizedRecordingConsumer =
  rc_configs :: "PacketStreamConfig list"
  rc_paths :: "string list"
  rc_stream_ids :: "CaptureStreamId list"
  rc_queue :: "CapturedEncodedPacket list"
  rc_pending :: "(u64, CapturedEncodedPacket) omap list"
  rc_writers :: "'w MkvPacketWriter option list"
  rc_dts_origins :: "i64 list"
  rc_joinable :: bool
  rc_phase :: worker_phase
  rc_running :: bool
  rc_stop_requested :: bool
  rc_failed :: bool
  rc_started :: bool
  rc_range :: ReplayFrameRange
  rc_packet_count :: u64
  rc_start_ns :: u64
  rc_result :: "SynchronizedRecordingConsumerResult option"

definition kMaxQueuePackets :: nat where
  "kMaxQueuePackets = 8192"

definition at_limit :: "nat \<Rightarrow> bool" where
  "at_limit n \<longleftrightarrow> n \<ge> kMaxQueuePackets"

definition over_limit :: "nat \<Rightarrow> bool" where
  "over_limit n \<longleftrightarrow> n > kMaxQueuePackets"

lemma at_limit_code [code]: "at_limit n \<longleftrightarrow> int n \<ge> 8192"
  by (simp add: at_limit_def kMaxQueuePackets_def)

lemma over_limit_code [code]: "over_limit n \<longleftrightarrow> int n > 8192"
  by (simp add: over_limit_def kMaxQueuePackets_def)

definition new_recording :: "PacketStreamConfig list \<Rightarrow> string list \<Rightarrow> CaptureStreamId list \<Rightarrow>
    'w SynchronizedRecordingConsumer" where
  "new_recording cfgs paths ids = \<lparr>rc_configs = cfgs, rc_paths = paths, rc_stream_ids = ids,
     rc_queue = [], rc_pending = replicate (length cfgs) [], rc_writers = replicate (length cfgs) None,
     rc_dts_origins = replicate (length cfgs) 0, rc_joinable = False, rc_phase = NoWorker,
     rc_running = False, rc_stop_requested = False, rc_failed = False, rc_started = False,
     rc_range = \<lparr>range_start_cts = 0, range_end_cts = 0\<rparr>, rc_packet_count = 0, rc_start_ns = 0,
     rc_result = None\<rparr>"

subsection \<open>The capture threads\<close>

text \<open>The first position of the id.\<close>

fun position :: "'a \<Rightarrow> 'a list \<Rightarrow> nat option" where
  "position x [] = None"
| "position x (y # ys) = (if y = x then Some 0 else map_option Suc (position x ys))"

definition LocalStreamIndex :: "CaptureStreamId \<Rightarrow> 'w SynchronizedRecordingConsumer \<Rightarrow> nat option" where
  "LocalStreamIndex i c = position i (rc_stream_ids c)"

definition rc_Start :: "u64 \<Rightarrow> 'w SynchronizedRecordingConsumer \<Rightarrow> bool \<times> 'w SynchronizedRecordingConsumer" where
  "rc_Start now c =
     (if rc_running c \<or> rc_joinable c \<or> rc_configs c = [] \<or> length (rc_configs c) \<noteq> length (rc_paths c) \<or>
         (rc_stream_ids c \<noteq> [] \<and> length (rc_stream_ids c) \<noteq> length (rc_configs c))
      then (False, c)
      else (True, c\<lparr>
        rc_stream_ids := (if rc_stream_ids c = [] then map word_of_nat [0..<length (rc_configs c)]
                          else rc_stream_ids c),
        rc_queue := [], rc_pending := map (\<lambda>_. []) (rc_pending c), rc_writers := map (\<lambda>_. None) (rc_writers c),
        rc_range := \<lparr>range_start_cts = 0, range_end_cts = 0\<rparr>,
        rc_dts_origins := map (\<lambda>_. 0) (rc_dts_origins c), rc_running := True, rc_stop_requested := False,
        rc_failed := False, rc_started := False, rc_packet_count := 0, rc_start_ns := now,
        rc_result := None, rc_joinable := True, rc_phase := Waiting\<rparr>))"

definition OnPacket :: "CapturedEncodedPacket \<Rightarrow> 'w SynchronizedRecordingConsumer \<Rightarrow>
    'w SynchronizedRecordingConsumer" where
  "OnPacket q c =
     (if \<not> rc_running c \<or> rc_stop_requested c \<or> rc_failed c \<or> LocalStreamIndex (captured_stream_id q) c = None
      then c
      else if at_limit (length (rc_queue c))
      then c\<lparr>rc_failed := True, rc_result := Some (empty_recording_result\<lparr>rec_paths := rc_paths c,
               rec_error := ''recording-queue-overflow''\<rparr>)\<rparr>
      else c\<lparr>rc_queue := rc_queue c @ [q]\<rparr>)"

text \<open>The locked part of \<open>Stop\<close>; the join that follows it waits for the phase \<open>Exited\<close>.\<close>

definition rc_Stop :: "'w SynchronizedRecordingConsumer \<Rightarrow> 'w SynchronizedRecordingConsumer" where
  "rc_Stop c = (if \<not> rc_running c \<and> \<not> rc_joinable c then c
     else c\<lparr>rc_stop_requested := True, rc_joinable := False\<rparr>)"

subsection \<open>The worker's operations\<close>

definition rc_Fail :: "string \<Rightarrow> 'w SynchronizedRecordingConsumer \<Rightarrow> bool \<times> 'w SynchronizedRecordingConsumer" where
  "rc_Fail why c = (False, if rc_failed c then c
     else c\<lparr>rc_failed := True, rc_result := Some (empty_recording_result\<lparr>rec_error := why\<rparr>)\<rparr>)"

text \<open>A CTS at which every stream has a keyframe, the first of the front stream.\<close>

definition common_start :: "(u64, CapturedEncodedPacket) omap list \<Rightarrow> u64 option" where
  "common_start pending =
     (case pending of
        [] \<Rightarrow> None
      | front # _ \<Rightarrow> map_option fst (find (\<lambda>(cts, q). keyframe (captured_packet q) \<and>
          list_all (\<lambda>m. case om_find m cts of None \<Rightarrow> False | Some r \<Rightarrow> keyframe (captured_packet r))
            pending) front))"

fun open_writers :: "'w mkv_env \<Rightarrow> (nat \<Rightarrow> 'w) \<Rightarrow> u64 \<Rightarrow> nat list \<Rightarrow> 'w SynchronizedRecordingConsumer \<Rightarrow>
    bool \<times> 'w SynchronizedRecordingConsumer" where
  "open_writers env fresh cts [] c = (True, c)"
| "open_writers env fresh cts (i # is) c =
     (let (ok, w) = mkv_Open env (rc_paths c ! i) (rc_configs c ! i) (new_writer (fresh i));
          c = c\<lparr>rc_writers := (rc_writers c)[i := Some w]\<rparr>
      in if \<not> ok then rc_Fail (''recording-open-failed:'' @ mkv_error w) c
         else (case om_find (rc_pending c ! i) cts of
             None \<Rightarrow> rc_Fail ''recording-start-packet-missing'' c
           | Some q \<Rightarrow> open_writers env fresh cts is
               (c\<lparr>rc_dts_origins := (rc_dts_origins c)[i := dts (captured_packet q)]\<rparr>)))"

definition rc_EstablishCommonStart :: "'w mkv_env \<Rightarrow> (nat \<Rightarrow> 'w) \<Rightarrow> 'w SynchronizedRecordingConsumer \<Rightarrow>
    bool \<times> 'w SynchronizedRecordingConsumer" where
  "rc_EstablishCommonStart env fresh c =
     (if rc_started c \<or> rc_pending c = [] then (rc_started c, c)
      else (case common_start (rc_pending c) of
          None \<Rightarrow> (False, c)
        | Some cts \<Rightarrow>
            (let c = c\<lparr>rc_range := (rc_range c)\<lparr>range_start_cts := cts\<rparr>,
                       rc_pending := map (om_drop_below cts) (rc_pending c)\<rparr>;
                 (ok, c) = open_writers env fresh cts [0..<length (rc_configs c)] c
             in if \<not> ok then (False, c) else (True, c\<lparr>rc_started := True\<rparr>))))"

text \<open>The packet handed to a writer: PTS from the common start, DTS from the stream's own first.\<close>

definition recording_packet :: "'w mkv_env \<Rightarrow> u64 \<Rightarrow> u64 \<Rightarrow> i64 \<Rightarrow> EncodedPacket \<Rightarrow> EncodedPacket" where
  "recording_packet env start cts origin p =
     p\<lparr>pts := av_rescale_q env (cts - start) (1, 1000000000) (timebase_num p, timebase_den p),
       dts := dts p - origin\<rparr>"

fun write_common :: "'w mkv_env \<Rightarrow> u64 \<Rightarrow> nat list \<Rightarrow> 'w SynchronizedRecordingConsumer \<Rightarrow>
    bool \<times> 'w SynchronizedRecordingConsumer" where
  "write_common env cts [] c = (True, c)"
| "write_common env cts (i # is) c =
     (case (om_find (rc_pending c ! i) cts, rc_writers c ! i) of
        (Some q, Some w) \<Rightarrow>
          (let out = recording_packet env (range_start_cts (rc_range c)) cts (rc_dts_origins c ! i)
                       (captured_packet q);
               (ok, w) = mkv_Write env out w;
               c = c\<lparr>rc_writers := (rc_writers c)[i := Some w]\<rparr>
           in if \<not> ok then rc_Fail (''recording-write-failed:'' @ mkv_error w) c
              else write_common env cts is
                     (c\<lparr>rc_pending := (rc_pending c)[i := om_erase cts (rc_pending c ! i)]\<rparr>))
      | _ \<Rightarrow> (False, c))"

lemma write_common_pending:
  "write_common env cts is c = (True, c') \<Longrightarrow> distinct is \<Longrightarrow> \<forall>i \<in> set is. i < length (rc_pending c) \<Longrightarrow>
     length (rc_pending c') = length (rc_pending c) \<and>
     (\<forall>i < length (rc_pending c). rc_pending c' ! i =
        (if i \<in> set is then om_erase cts (rc_pending c ! i) else rc_pending c ! i))"
proof (induction "is" arbitrary: c)
  case (Cons i "is")
  from Cons.prems(1) obtain q w ok w' where q: "om_find (rc_pending c ! i) cts = Some q"
    "rc_writers c ! i = Some w" and wr: "mkv_Write env (recording_packet env
      (range_start_cts (rc_range c)) cts (rc_dts_origins c ! i) (captured_packet q)) w = (ok, w')"
    by (auto split: option.splits prod.splits)
  with Cons.prems(1) have "ok" and rest: "write_common env cts is (c\<lparr>rc_writers := (rc_writers c)[i := Some w'],
      rc_pending := (rc_pending c)[i := om_erase cts (rc_pending c ! i)]\<rparr>) = (True, c')"
    by (auto simp: Let_def rc_Fail_def split: if_splits)
  from Cons.IH [OF rest] Cons.prems(2,3) show ?case by (auto simp: nth_list_update)
qed simp

lemma om_erase_shorter: "om_find m k \<noteq> None \<Longrightarrow> length (om_erase k m) < length m"
  by (induction m) (auto simp: om_find_def split: if_splits)

text \<open>The flush: every CTS of the front stream that all streams hold, as long as there is one.\<close>

function flush_common :: "'w mkv_env \<Rightarrow> 'w SynchronizedRecordingConsumer \<Rightarrow> bool \<times> 'w SynchronizedRecordingConsumer" where
  "flush_common env c =
     (if rc_pending c = [] \<or> hd (rc_pending c) = [] then (True, c)
      else
        (let cts = fst (hd (hd (rc_pending c)))
         in if list_ex (\<lambda>m. om_find m cts = None) (rc_pending c) then (True, c)
            else
              (case write_common env cts [0..<length (rc_pending c)] c of
                 (False, c') \<Rightarrow> (False, c')
               | (True, c') \<Rightarrow> flush_common env (c'\<lparr>rc_range := (rc_range c')\<lparr>range_end_cts := cts\<rparr>,
                     rc_packet_count := rc_packet_count c' + 1\<rparr>))))"
  by pat_completeness auto
termination
proof (relation "measure (\<lambda>(env, c). length (hd (rc_pending c)))")
  fix env :: "'w mkv_env" and c c' :: "'w SynchronizedRecordingConsumer" and cts ok
  assume "\<not> (rc_pending c = [] \<or> hd (rc_pending c) = [])" and cts: "cts = fst (hd (hd (rc_pending c)))"
    and all: "\<not> list_ex (\<lambda>m. om_find m cts = None) (rc_pending c)"
    and w: "(ok, c') = write_common env cts [0..<length (rc_pending c)] c" and ok: "ok = True"
  then have ne: "rc_pending c \<noteq> []" by simp
  from w ok have "write_common env cts [0..<length (rc_pending c)] c = (True, c')" by simp
  from write_common_pending [OF this] have len: "length (rc_pending c') = length (rc_pending c)"
    and nth: "rc_pending c' ! 0 = om_erase cts (rc_pending c ! 0)" using ne by auto
  have "hd (rc_pending c') = om_erase cts (hd (rc_pending c))"
    using len nth ne by (metis hd_conv_nth length_0_conv)
  moreover have "om_find (hd (rc_pending c)) cts \<noteq> None" using all ne by (simp add: list_ex_iff)
  ultimately show "((env, c'\<lparr>rc_range := (rc_range c')\<lparr>range_end_cts := cts\<rparr>,
      rc_packet_count := rc_packet_count c' + 1\<rparr>), env, c) \<in> measure (\<lambda>(env, c). length (hd (rc_pending c)))"
    using om_erase_shorter [of "hd (rc_pending c)" cts] by simp
qed simp

declare flush_common.simps [simp del]

definition rc_FlushCommonPrefix :: "'w mkv_env \<Rightarrow> 'w SynchronizedRecordingConsumer \<Rightarrow>
    bool \<times> 'w SynchronizedRecordingConsumer" where
  "rc_FlushCommonPrefix env c = (if \<not> rc_started c then (False, c) else flush_common env c)"

text \<open>The packet in hand is filed under its CTS, unless the stream already holds that CTS.\<close>

definition file_packet :: "CapturedEncodedPacket \<Rightarrow> 'w SynchronizedRecordingConsumer \<Rightarrow>
    'w SynchronizedRecordingConsumer" where
  "file_packet q c =
     (case LocalStreamIndex (captured_stream_id q) c of
        None \<Rightarrow> c
      | Some i \<Rightarrow>
          (if om_find (rc_pending c ! i) (source_cts (captured_packet q)) \<noteq> None then c
           else
             (let c = (if extra_data (rc_configs c ! i) = [] \<and> codec_extra_data q \<noteq> []
                       then c\<lparr>rc_configs := (rc_configs c)[i := (rc_configs c ! i)\<lparr>extra_data := codec_extra_data q\<rparr>]\<rparr>
                       else c)
              in c\<lparr>rc_pending := (rc_pending c)[i :=
                   om_emplace (source_cts (captured_packet q)) q (rc_pending c ! i)]\<rparr>)))"

definition pending_count :: "'w SynchronizedRecordingConsumer \<Rightarrow> nat" where
  "pending_count c = (\<Sum>m\<leftarrow>rc_pending c. length m)"

text \<open>One turn of the loop after a packet was taken: the worker waits again, or leaves the loop.\<close>

definition process_packet :: "'w mkv_env \<Rightarrow> (nat \<Rightarrow> 'w) \<Rightarrow> CapturedEncodedPacket \<Rightarrow>
    'w SynchronizedRecordingConsumer \<Rightarrow> 'w SynchronizedRecordingConsumer" where
  "process_packet env fresh q c =
     (let c = file_packet q c
      in if over_limit (pending_count c)
         then (snd (rc_Fail ''recording-pending-overflow'' c))\<lparr>rc_phase := Finishing\<rparr>
         else
           (let c = (if \<not> rc_started c then snd (rc_EstablishCommonStart env fresh c) else c);
                (ok, c) = (if rc_started c then rc_FlushCommonPrefix env c else (True, c))
            in c\<lparr>rc_phase := (if ok then Waiting else Finishing)\<rparr>))"

text \<open>The wait and the pop, enabled when the wait's condition holds.\<close>

definition wait_over :: "'w SynchronizedRecordingConsumer \<Rightarrow> bool" where
  "wait_over c \<longleftrightarrow> rc_stop_requested c \<or> rc_failed c \<or> rc_queue c \<noteq> []"

definition take_packet :: "'w SynchronizedRecordingConsumer \<Rightarrow> 'w SynchronizedRecordingConsumer" where
  "take_packet c =
     (if rc_failed c \<or> (rc_queue c = [] \<and> rc_stop_requested c) then c\<lparr>rc_phase := Finishing\<rparr>
      else c\<lparr>rc_phase := Holding (hd (rc_queue c)), rc_queue := tl (rc_queue c)\<rparr>)"

text \<open>After the loop: the last attempt to start and flush, unless the recording has failed.\<close>

definition last_flush :: "'w mkv_env \<Rightarrow> (nat \<Rightarrow> 'w) \<Rightarrow> 'w SynchronizedRecordingConsumer \<Rightarrow>
    'w SynchronizedRecordingConsumer" where
  "last_flush env fresh c =
     (if rc_failed c then c
      else
        (let (established, c) = (if \<not> rc_started c then rc_EstablishCommonStart env fresh c else (True, c))
         in if \<not> established then snd (rc_Fail ''no-common-recording-start-keyframe'' c)
            else
              (let (flushed, c) = (if rc_started c then rc_FlushCommonPrefix env c else (True, c))
               in if \<not> flushed then snd (rc_Fail ''no-common-recording-prefix'' c)
                  else if rc_started c \<and> list_ex (\<lambda>m. m \<noteq> []) (rc_pending c)
                  then snd (rc_Fail ''recording-unresolved-common-prefix'' c)
                  else c)))"

fun finalize_writers :: "'w mkv_env \<Rightarrow> nat list \<Rightarrow> SynchronizedRecordingConsumerResult \<Rightarrow>
    'w SynchronizedRecordingConsumer \<Rightarrow>
    SynchronizedRecordingConsumerResult \<times> 'w SynchronizedRecordingConsumer" where
  "finalize_writers env [] r c = (r, c)"
| "finalize_writers env (i # is) r c =
     (case rc_writers c ! i of
        None \<Rightarrow> finalize_writers env is r c
      | Some w \<Rightarrow>
          (if rc_failed c
           then finalize_writers env is r (c\<lparr>rc_writers := (rc_writers c)[i := Some (mkv_Abort env w)]\<rparr>)
           else
             (let (res, w) = mkv_Finalize env w;
                  c = c\<lparr>rc_writers := (rc_writers c)[i := Some w]\<rparr>;
                  r = r\<lparr>rec_streams := (rec_streams r)[i := res]\<rparr>
              in if \<not> mkv_success res \<or> mkv_first_cts res \<noteq> range_start_cts (rc_range c) \<or>
                    mkv_last_cts res \<noteq> range_end_cts (rc_range c)
                 then finalize_writers env is
                        (r\<lparr>rec_error := ''recording-range-mismatch:'' @ mkv_result_error res\<rparr>)
                        (c\<lparr>rc_failed := True\<rparr>)
                 else finalize_writers env is r c)))"

definition rc_Finalize :: "'w mkv_env \<Rightarrow> u64 \<Rightarrow> 'w SynchronizedRecordingConsumer \<Rightarrow>
    'w SynchronizedRecordingConsumer" where
  "rc_Finalize env now c =
     (let r = empty_recording_result\<lparr>rec_paths := rc_paths c, rec_range := rc_range c,
                rec_packet_count := rc_packet_count c,
                rec_streams := replicate (length (rc_writers c)) empty_mkv_result\<rparr>;
          (r, c) = finalize_writers env [0..<length (rc_writers c)] r c;
          r = r\<lparr>rec_success := (\<not> rc_failed c \<and> rc_started c \<and>
                   range_end_cts (rc_range c) \<ge> range_start_cts (rc_range c)),
                rec_wall_ms := (now - rc_start_ns c) div 1000000\<rparr>
      in if (case rc_result c of None \<Rightarrow> True | Some old \<Rightarrow> rec_error old = [])
         then c\<lparr>rc_result := Some r\<rparr> else c)"

definition finish_recording :: "'w mkv_env \<Rightarrow> (nat \<Rightarrow> 'w) \<Rightarrow> u64 \<Rightarrow> 'w SynchronizedRecordingConsumer \<Rightarrow>
    'w SynchronizedRecordingConsumer" where
  "finish_recording env fresh now c =
     (rc_Finalize env now (last_flush env fresh c))\<lparr>rc_running := False, rc_phase := Exited\<rparr>"

text \<open>One turn of the worker, when it can take one.\<close>

definition worker_turn :: "'w mkv_env \<Rightarrow> (nat \<Rightarrow> 'w) \<Rightarrow> u64 \<Rightarrow> 'w SynchronizedRecordingConsumer \<Rightarrow>
    'w SynchronizedRecordingConsumer" where
  "worker_turn env fresh now c = (case rc_phase c of
       Waiting \<Rightarrow> if wait_over c then take_packet c else c
     | Holding q \<Rightarrow> process_packet env fresh q c
     | Finishing \<Rightarrow> finish_recording env fresh now c
     | _ \<Rightarrow> c)"

fun worker_turns :: "'w mkv_env \<Rightarrow> (nat \<Rightarrow> 'w) \<Rightarrow> u64 \<Rightarrow> nat \<Rightarrow> 'w SynchronizedRecordingConsumer \<Rightarrow>
    'w SynchronizedRecordingConsumer" where
  "worker_turns env fresh now 0 c = c"
| "worker_turns env fresh now (Suc n) c = worker_turns env fresh now n (worker_turn env fresh now c)"

text \<open>
  \<open>Stop\<close> as its caller sees it: the stop request and, for the caller that finds the worker joinable, the join, during
  which the worker runs to its end. A caller that comes later returns at once. Every queued packet takes two turns, a
  packet in hand one, leaving the loop and finishing one each.
\<close>

definition join_turns :: "'w SynchronizedRecordingConsumer \<Rightarrow> nat" where
  "join_turns c = 2 * length (rc_queue c) + 3"

definition rc_StopAndJoin :: "'w mkv_env \<Rightarrow> (nat \<Rightarrow> 'w) \<Rightarrow> u64 \<Rightarrow> 'w SynchronizedRecordingConsumer \<Rightarrow>
    'w SynchronizedRecordingConsumer" where
  "rc_StopAndJoin env fresh now c =
     (let joins = rc_joinable c; c = rc_Stop c
      in if joins then worker_turns env fresh now (join_turns c) c else c)"

subsection \<open>Interleavings\<close>

text \<open>The steps of the capture threads, the controlling thread and the worker, in any order.\<close>

inductive rc_step :: "'w mkv_env \<Rightarrow> (nat \<Rightarrow> 'w) \<Rightarrow> 'w SynchronizedRecordingConsumer \<Rightarrow>
    'w SynchronizedRecordingConsumer \<Rightarrow> bool" for env fresh where
  start: "rc_step env fresh c (snd (rc_Start now c))"
| packet: "rc_step env fresh c (OnPacket q c)"
| stop: "rc_step env fresh c (rc_Stop c)"
| take: "rc_phase c = Waiting \<Longrightarrow> wait_over c \<Longrightarrow> rc_step env fresh c (take_packet c)"
| process: "rc_phase c = Holding q \<Longrightarrow> rc_step env fresh c (process_packet env fresh q c)"
| finish: "rc_phase c = Finishing \<Longrightarrow> rc_step env fresh c (finish_recording env fresh now c)"

inductive rc_reachable :: "'w mkv_env \<Rightarrow> (nat \<Rightarrow> 'w) \<Rightarrow> 'w SynchronizedRecordingConsumer \<Rightarrow> bool"
  for env fresh where
  created: "rc_reachable env fresh (new_recording cfgs paths ids)"
| stepped: "rc_reachable env fresh c \<Longrightarrow> rc_step env fresh c c' \<Longrightarrow> rc_reachable env fresh c'"

end
