(* ===== verification/RecordingConsumerProperties.thy ===== *)
theory RecordingConsumerProperties
  imports RecordingConsumer
begin

text \<open>
  The live recording over every interleaving of capture threads, controller and worker: what a
  successful recording holds, what bounds its memory, and when a stop loses the recording.
\<close>

subsection \<open>The invariant\<close>

definition sizes_ok :: "'w SynchronizedRecordingConsumer \<Rightarrow> bool" where
  "sizes_ok c \<longleftrightarrow> length (rc_pending c) = length (rc_configs c) \<and>
     length (rc_writers c) = length (rc_configs c) \<and> length (rc_dts_origins c) = length (rc_configs c)"

text \<open>All writers have been given the packets of the CTS sequence \<open>cs\<close>.\<close>

definition in_step :: "u64 list \<Rightarrow> 'w SynchronizedRecordingConsumer \<Rightarrow> bool" where
  "in_step cs c \<longleftrightarrow> rc_packet_count c = word_of_nat (length cs) \<and>
     (cs \<noteq> [] \<longrightarrow> range_end_cts (rc_range c) = last cs) \<and>
     (\<forall>i < length (rc_writers c). \<exists>w. rc_writers c ! i = Some w \<and> writer_inv w \<and>
        map source_cts (muxed_packets w) = cs)"

text \<open>What a recording that succeeded leaves behind.\<close>

definition complete_recording :: "SynchronizedRecordingConsumerResult \<Rightarrow> u64 list \<Rightarrow>
    'w SynchronizedRecordingConsumer \<Rightarrow> bool" where
  "complete_recording r cs c \<longleftrightarrow> rec_error r = [] \<and> rec_packet_count r = word_of_nat (length cs) \<and>
     (\<forall>m \<in> set (rc_pending c). m = []) \<and> rec_range r = rc_range c \<and>
     range_start_cts (rec_range r) \<le> range_end_cts (rec_range r) \<and>
     (\<forall>i < length (rc_writers c). \<exists>w. rc_writers c ! i = Some w \<and> \<not> format_open w \<and> writer_inv w \<and>
        map source_cts (muxed_packets w) = cs \<and> mkv_success (rec_streams r ! i) \<and>
        first_written_cts w = range_start_cts (rec_range r) \<and>
        last_written_cts w = range_end_cts (rec_range r))"

definition failure_recorded :: "'w SynchronizedRecordingConsumer \<Rightarrow> bool" where
  "failure_recorded c \<longleftrightarrow> (rc_failed c \<longrightarrow> rc_result c \<noteq> None) \<and>
     (\<forall>r. rc_result c = Some r \<longrightarrow> \<not> rec_success r \<and> rec_error r \<noteq> [])"

definition stores_filed :: "'w SynchronizedRecordingConsumer \<Rightarrow> bool" where
  "stores_filed c \<longleftrightarrow> (\<forall>m \<in> set (rc_pending c). om_filed (source_cts \<circ> captured_packet) m)"

text \<open>The worker is in order: what it flushed is in step, what it has not started is not counted.\<close>

definition worker_ok :: "'w SynchronizedRecordingConsumer \<Rightarrow> bool" where
  "worker_ok c \<longleftrightarrow> stores_filed c \<and> (rc_started c \<longrightarrow> (\<exists>cs. in_step cs c)) \<and>
     (\<not> rc_started c \<longrightarrow> rc_packet_count c = 0)"

definition rc_inv :: "'w SynchronizedRecordingConsumer \<Rightarrow> bool" where
  "rc_inv c \<longleftrightarrow> sizes_ok c \<and> length (rc_queue c) \<le> kMaxQueuePackets \<and>
     pending_count c \<le> kMaxQueuePackets + 1 \<and>
     (rc_running c \<longleftrightarrow> rc_phase c \<noteq> NoWorker \<and> rc_phase c \<noteq> Exited) \<and>
     (rc_running c \<and> rc_phase c \<noteq> Finishing \<longrightarrow> pending_count c \<le> kMaxQueuePackets \<and> worker_ok c) \<and>
     (rc_phase c = Finishing \<and> \<not> rc_failed c \<longrightarrow> worker_ok c) \<and>
     (rc_running c \<longrightarrow> failure_recorded c) \<and>
     (rc_phase c = NoWorker \<longrightarrow> rc_result c = None) \<and>
     (\<forall>r. rc_phase c = Exited \<and> rc_result c = Some r \<and> rec_success r \<longrightarrow>
        (\<exists>cs. complete_recording r cs c))"

subsection \<open>The worker's operations\<close>

lemma rc_Fail_simps [simp]:
  "\<not> fst (rc_Fail why c)" "rc_failed (snd (rc_Fail why c))" "rc_pending (snd (rc_Fail why c)) = rc_pending c"
  "rc_queue (snd (rc_Fail why c)) = rc_queue c" "rc_phase (snd (rc_Fail why c)) = rc_phase c"
  "rc_running (snd (rc_Fail why c)) = rc_running c" "rc_started (snd (rc_Fail why c)) = rc_started c"
  "rc_writers (snd (rc_Fail why c)) = rc_writers c" "rc_range (snd (rc_Fail why c)) = rc_range c"
  "rc_packet_count (snd (rc_Fail why c)) = rc_packet_count c"
  "sizes_ok (snd (rc_Fail why c)) = sizes_ok c" "pending_count (snd (rc_Fail why c)) = pending_count c"
  by (simp_all add: rc_Fail_def sizes_ok_def pending_count_def)

lemma rc_Fail_recorded: "failure_recorded c \<Longrightarrow> why \<noteq> [] \<Longrightarrow> failure_recorded (snd (rc_Fail why c))"
  by (auto simp: failure_recorded_def rc_Fail_def empty_recording_result_def)

text \<open>The part of the consumer the worker's operations never touch, with what they keep.\<close>

definition kept :: "'w SynchronizedRecordingConsumer \<Rightarrow> 'w SynchronizedRecordingConsumer \<Rightarrow> bool" where
  "kept c c' \<longleftrightarrow> rc_queue c' = rc_queue c \<and> rc_running c' = rc_running c \<and> rc_phase c' = rc_phase c \<and>
     (sizes_ok c \<longrightarrow> sizes_ok c') \<and> pending_count c' \<le> pending_count c \<and>
     (failure_recorded c \<longrightarrow> failure_recorded c') \<and> (rc_failed c \<longrightarrow> rc_failed c') \<and>
     length (rc_writers c') = length (rc_writers c) \<and> length (rc_pending c') = length (rc_pending c)"

lemma kept_refl [simp]: "kept c c"
  by (simp add: kept_def)

lemma kept_trans: "kept a b \<Longrightarrow> kept b c \<Longrightarrow> kept a c"
  by (auto simp: kept_def)

lemma kept_Fail [simp]: "why \<noteq> [] \<Longrightarrow> kept c (snd (rc_Fail why c))"
  by (simp add: kept_def rc_Fail_recorded)

lemma kept_Fail_out: "rc_Fail why c = (ok, c') \<Longrightarrow> why \<noteq> [] \<Longrightarrow> kept c c' \<and> \<not> ok \<and> rc_failed c'"
  using kept_Fail [of why c] rc_Fail_simps(1,2) [of why c] by simp

lemma pending_count_update:
  "i < length (rc_pending c) \<Longrightarrow> length m \<le> length (rc_pending c ! i) \<Longrightarrow>
     pending_count (c\<lparr>rc_pending := (rc_pending c)[i := m]\<rparr>) \<le> pending_count c"
proof -
  have "i < length ms \<Longrightarrow> length m \<le> length (ms ! i) \<Longrightarrow>
      (\<Sum>x\<leftarrow>ms[i := m]. length x) \<le> (\<Sum>x\<leftarrow>ms. length x)"
    for ms :: "(u64, CapturedEncodedPacket) omap list"
  proof (induction ms arbitrary: i)
    case (Cons x ms)
    then show ?case by (cases i) auto
  qed simp
  then show "i < length (rc_pending c) \<Longrightarrow> length m \<le> length (rc_pending c ! i) \<Longrightarrow> ?thesis"
    by (simp add: pending_count_def)
qed

lemma kept_writer [simp]: "kept c (c\<lparr>rc_writers := (rc_writers c)[i := w]\<rparr>)"
  by (simp add: kept_def sizes_ok_def pending_count_def failure_recorded_def)

lemma kept_origin [simp]: "kept c (c\<lparr>rc_dts_origins := (rc_dts_origins c)[i := d]\<rparr>)"
  by (simp add: kept_def sizes_ok_def pending_count_def failure_recorded_def)

lemma kept_range [simp]: "kept c (c\<lparr>rc_range := r, rc_packet_count := n\<rparr>)" "kept c (c\<lparr>rc_range := r\<rparr>)"
  "kept c (c\<lparr>rc_started := on\<rparr>)"
  by (simp_all add: kept_def sizes_ok_def pending_count_def failure_recorded_def)

lemma om_erase_length: "length (om_erase k m) \<le> length m"
  by (induction m) auto

lemma kept_erase:
  "i < length (rc_pending c) \<Longrightarrow> kept c (c\<lparr>rc_pending := (rc_pending c)[i := om_erase k (rc_pending c ! i)]\<rparr>)"
  using pending_count_update [of i c "om_erase k (rc_pending c ! i)"]
  by (simp add: kept_def sizes_ok_def failure_recorded_def om_erase_length)

lemma kept_drop: "kept c (c\<lparr>rc_pending := map (om_drop_below k) (rc_pending c)\<rparr>)"
proof -
  have "(\<Sum>x\<leftarrow>map (om_drop_below k) ms. length x) \<le> (\<Sum>x\<leftarrow>ms. length x)"
    for ms :: "(u64, CapturedEncodedPacket) omap list"
    by (induction ms) (simp_all add: om_drop_below_def add_mono length_dropWhile_le)
  then show ?thesis by (simp add: kept_def sizes_ok_def failure_recorded_def pending_count_def)
qed

text \<open>Opening the writers: on success every writer is open and empty.\<close>

lemma open_writers_out:
  "open_writers env fresh cts is c = (ok, c') \<Longrightarrow>
     kept c c' \<and> rc_range c' = rc_range c \<and> rc_pending c' = rc_pending c \<and> rc_started c' = rc_started c \<and>
     rc_packet_count c' = rc_packet_count c \<and> (\<not> ok \<longrightarrow> rc_failed c') \<and>
     (ok \<longrightarrow> rc_failed c' = rc_failed c \<and> (\<forall>i < length (rc_writers c).
        (i \<in> set is \<longrightarrow> (\<exists>w. rc_writers c' ! i = Some w \<and> writer_inv w \<and> muxed w = [])) \<and>
        (i \<notin> set is \<longrightarrow> rc_writers c' ! i = rc_writers c ! i)))"
proof (induction "is" arbitrary: c)
  case (Cons i "is")
  obtain ok1 w where o: "mkv_Open env (rc_paths c ! i) (rc_configs c ! i) (new_writer (fresh i)) = (ok1, w)"
    by fastforce
  have w: "writer_inv w \<and> muxed w = []"
    using same_output_Open [OF o] same_output_inv [OF same_output_Open [OF o]] writer_inv_new [of "fresh i"]
    by (simp add: same_output_def new_writer_def)
  let ?c = "c\<lparr>rc_writers := (rc_writers c)[i := Some w]\<rparr>"
  show ?case
  proof (cases "ok1 \<and> om_find (rc_pending c ! i) cts \<noteq> None")
    case False
    then obtain why where "rc_Fail why ?c = (ok, c')" "why \<noteq> []"
      using Cons.prems o by (auto simp: Let_def split: option.splits if_splits)
    from kept_Fail_out [OF this] kept_trans [OF kept_writer, of c i "Some w" c']
      arg_cong [OF this(1), of snd] rc_Fail_simps [of why ?c]
    show ?thesis by auto
  next
    case True
    then obtain q where q: "om_find (rc_pending c ! i) cts = Some q" "ok1" by auto
    let ?d = "?c\<lparr>rc_dts_origins := (rc_dts_origins ?c)[i := dts (captured_packet q)]\<rparr>"
    have "open_writers env fresh cts is ?d = (ok, c')" using Cons.prems o q by simp
    from Cons.IH [OF this] have ih: "kept ?d c'" "rc_range c' = rc_range c" "rc_pending c' = rc_pending c"
      "rc_started c' = rc_started c" "rc_packet_count c' = rc_packet_count c" "\<not> ok \<longrightarrow> rc_failed c'"
      "ok \<longrightarrow> rc_failed c' = rc_failed c \<and> (\<forall>j < length (rc_writers c).
        (j \<in> set is \<longrightarrow> (\<exists>w. rc_writers c' ! j = Some w \<and> writer_inv w \<and> muxed w = [])) \<and>
        (j \<notin> set is \<longrightarrow> rc_writers c' ! j = ((rc_writers c)[i := Some w]) ! j))" by simp_all
    have "kept c c'"
      using kept_trans [OF kept_trans [OF kept_writer kept_origin] ih(1)] .
    with ih w show ?thesis by (auto simp: nth_list_update)
  qed
qed simp

lemma Establish_out:
  assumes "rc_EstablishCommonStart env fresh c = (ok, c')" and "\<not> rc_started c"
    and "sizes_ok c" and "rc_packet_count c = 0"
  shows "kept c c' \<and> rc_started c' = ok \<and> (stores_filed c \<longrightarrow> stores_filed c') \<and>
    (ok \<longrightarrow> rc_failed c' = rc_failed c \<and> in_step [] c') \<and> rc_packet_count c' = 0"
proof (cases "rc_pending c = [] \<or> common_start (rc_pending c) = None")
  case True
  then have "rc_EstablishCommonStart env fresh c = (False, c)"
    using assms(2) by (auto simp: rc_EstablishCommonStart_def Let_def)
  with assms show ?thesis by auto
next
  case False
  then obtain cts where cts: "common_start (rc_pending c) = Some cts" by auto
  let ?c = "c\<lparr>rc_range := (rc_range c)\<lparr>range_start_cts := cts\<rparr>, rc_pending := map (om_drop_below cts) (rc_pending c)\<rparr>"
  obtain ok1 d where o: "open_writers env fresh cts [0..<length (rc_configs ?c)] ?c = (ok1, d)" by fastforce
  have c': "ok = ok1" "c' = (if ok1 then d\<lparr>rc_started := True\<rparr> else d)"
    using assms(1,2) False cts o by (auto simp: rc_EstablishCommonStart_def Let_def split: if_splits)
  have "kept c ?c" using kept_trans [OF kept_range(2) kept_drop] by simp
  note out = open_writers_out [OF o]
  with \<open>kept c ?c\<close> have k: "kept c d" using kept_trans by blast
  have "kept c c'" using c' kept_trans [OF k kept_range(3)] k by auto
  moreover have "in_step [] c'" if "ok"
  proof -
    have len: "length (rc_writers d) = length (rc_configs c)" "length (rc_writers ?c) = length (rc_configs c)"
      using k assms(3) by (simp_all add: kept_def sizes_ok_def)
    have "\<exists>w. rc_writers d ! i = Some w \<and> writer_inv w \<and> muxed w = []" if "i < length (rc_writers d)" for i
      using out c' \<open>ok\<close> that len by simp
    then show ?thesis using out c' that assms(4) by (auto simp: in_step_def muxed_packets_def)
  qed
  moreover have "stores_filed c'" if "stores_filed c"
  proof -
    have "rc_pending c' = map (om_drop_below cts) (rc_pending c)" using out c' by simp
    with that oms.filed_drop_below show ?thesis by (auto simp: stores_filed_def)
  qed
  ultimately show ?thesis using out c' assms(2,4) by (auto split: if_splits)
qed

text \<open>One common CTS: all writers are given its packet, or the recording has failed.\<close>

lemma write_common_out:
  "write_common env cts is c = (ok, c') \<Longrightarrow> distinct is \<Longrightarrow> \<forall>i \<in> set is. i < length (rc_pending c) \<Longrightarrow>
     sizes_ok c \<Longrightarrow> (\<forall>i \<in> set is. om_find (rc_pending c ! i) cts \<noteq> None) \<Longrightarrow>
     (\<forall>i \<in> set is. \<exists>w. rc_writers c ! i = Some w \<and> writer_inv w) \<Longrightarrow>
     (\<forall>i \<in> set is. \<forall>q. om_find (rc_pending c ! i) cts = Some q \<longrightarrow> source_cts (captured_packet q) = cts) \<Longrightarrow>
     kept c c' \<and> rc_range c' = rc_range c \<and> rc_packet_count c' = rc_packet_count c \<and>
     rc_started c' = rc_started c \<and> (\<not> ok \<longrightarrow> rc_failed c') \<and>
     (ok \<longrightarrow> rc_failed c' = rc_failed c \<and> (\<forall>i < length (rc_writers c).
        (i \<notin> set is \<longrightarrow> rc_writers c' ! i = rc_writers c ! i) \<and>
        (i \<in> set is \<longrightarrow> (\<exists>w w'. rc_writers c ! i = Some w \<and> rc_writers c' ! i = Some w' \<and>
           writer_inv w' \<and> map source_cts (muxed_packets w') = map source_cts (muxed_packets w) @ [cts]))))"
proof (induction "is" arbitrary: c)
  case (Cons i "is")
  obtain q w where q: "om_find (rc_pending c ! i) cts = Some q" "rc_writers c ! i = Some w" "writer_inv w"
    "source_cts (captured_packet q) = cts" using Cons.prems(5-7) by auto
  let ?out = "recording_packet env (range_start_cts (rc_range c)) cts (rc_dts_origins c ! i) (captured_packet q)"
  obtain ok1 w1 where wr: "mkv_Write env ?out w = (ok1, w1)" by fastforce
  note step = mkv_Write_step [OF wr q(3)]
  let ?c = "c\<lparr>rc_writers := (rc_writers c)[i := Some w1]\<rparr>"
  show ?case
  proof (cases ok1)
    case False
    then have "rc_Fail (''recording-write-failed:'' @ mkv_error w1) ?c = (ok, c')"
      using Cons.prems(1) q wr by simp
    from kept_Fail_out [OF this] kept_trans [OF kept_writer, of c i "Some w1" c'] arg_cong [OF this, of snd]
      rc_Fail_simps [of "''recording-write-failed:'' @ mkv_error w1" ?c]
    show ?thesis by auto
  next
    case True
    let ?d = "?c\<lparr>rc_pending := (rc_pending ?c)[i := om_erase cts (rc_pending ?c ! i)]\<rparr>"
    have i: "i < length (rc_pending ?c)" "i < length (rc_writers c)"
      using Cons.prems(3,4) by (auto simp: sizes_ok_def)
    have k: "kept c ?d" using kept_trans [OF kept_writer kept_erase [OF i(1)]] .
    have rest: "write_common env cts is ?d = (ok, c')" using Cons.prems(1) q wr True by simp
    have ih: "kept ?d c' \<and> rc_range c' = rc_range ?d \<and> rc_packet_count c' = rc_packet_count ?d \<and>
     rc_started c' = rc_started ?d \<and> (\<not> ok \<longrightarrow> rc_failed c') \<and>
     (ok \<longrightarrow> rc_failed c' = rc_failed ?d \<and> (\<forall>j < length (rc_writers ?d).
        (j \<notin> set is \<longrightarrow> rc_writers c' ! j = rc_writers ?d ! j) \<and>
        (j \<in> set is \<longrightarrow> (\<exists>w w'. rc_writers ?d ! j = Some w \<and> rc_writers c' ! j = Some w' \<and>
           writer_inv w' \<and> map source_cts (muxed_packets w') = map source_cts (muxed_packets w) @ [cts]))))"
    proof (rule Cons.IH [OF rest])
      have same: "rc_pending ?d ! j = rc_pending c ! j \<and> rc_writers ?d ! j = rc_writers c ! j"
        if "j \<in> set is" for j
      proof -
        have "i \<noteq> j" using that Cons.prems(2) by auto
        then show ?thesis by simp
      qed
      show "distinct is" using Cons.prems(2) by simp
      show "\<forall>j \<in> set is. j < length (rc_pending ?d)" using Cons.prems(3) by simp
      show "sizes_ok ?d" using k Cons.prems(4) by (simp add: kept_def)
      show "\<forall>j \<in> set is. om_find (rc_pending ?d ! j) cts \<noteq> None"
        using Cons.prems(5) same by (metis list.set_intros(2))
      show "\<forall>j \<in> set is. \<exists>w. rc_writers ?d ! j = Some w \<and> writer_inv w"
        using Cons.prems(6) same by (metis list.set_intros(2))
      show "\<forall>j \<in> set is. \<forall>q. om_find (rc_pending ?d ! j) cts = Some q \<longrightarrow> source_cts (captured_packet q) = cts"
        using Cons.prems(7) same by (metis list.set_intros(2))
    qed
    have new: "map source_cts (muxed_packets w1) = map source_cts (muxed_packets w) @ [cts]" "writer_inv w1"
      using step True q(4) by (simp_all add: recording_packet_def)
    have "kept c c'" using kept_trans [OF k] ih by blast
    moreover have "i \<notin> set is" using Cons.prems(2) by simp
    moreover have "(j \<notin> set (i # is) \<longrightarrow> rc_writers c' ! j = rc_writers c ! j) \<and>
        (j \<in> set (i # is) \<longrightarrow> (\<exists>w w'. rc_writers c ! j = Some w \<and> rc_writers c' ! j = Some w' \<and>
           writer_inv w' \<and> map source_cts (muxed_packets w') = map source_cts (muxed_packets w) @ [cts]))"
      if "ok" "j < length (rc_writers c)" for j
    proof (cases "j = i")
      case True
      then have "rc_writers c' ! j = Some w1" using ih that \<open>i \<notin> set is\<close> by simp
      with True q(2) new show ?thesis by simp
    next
      case False
      then have ij: "i \<noteq> j" by simp
      from ih that(1) have "(j \<notin> set is \<longrightarrow> rc_writers c' ! j = rc_writers ?d ! j) \<and>
          (j \<in> set is \<longrightarrow> (\<exists>w w'. rc_writers ?d ! j = Some w \<and> rc_writers c' ! j = Some w' \<and>
             writer_inv w' \<and> map source_cts (muxed_packets w') = map source_cts (muxed_packets w) @ [cts]))"
        using that(2) by simp
      moreover have "rc_writers ?d ! j = rc_writers c ! j" using ij by simp
      ultimately show ?thesis using False by simp
    qed
    ultimately show ?thesis using ih by simp
  qed
qed simp

text \<open>The flush keeps the writers in step, and only takes packets that every stream has.\<close>

lemma flush_common_out:
  "flush_common env c = (ok, c') \<Longrightarrow> sizes_ok c \<Longrightarrow> stores_filed c \<Longrightarrow> in_step cs c \<Longrightarrow>
     kept c c' \<and> (ok \<longrightarrow> stores_filed c') \<and> rc_started c' = rc_started c \<and> range_start_cts (rc_range c') = range_start_cts (rc_range c) \<and>
     (\<not> ok \<longrightarrow> rc_failed c') \<and> (ok \<longrightarrow> rc_failed c' = rc_failed c \<and> (\<exists>ds. in_step (cs @ ds) c')) \<and>
     (ok \<longrightarrow> (\<forall>i < length (rc_pending c). \<forall>k. om_find (rc_pending c ! i) k \<noteq> None \<longrightarrow>
        (\<exists>j < length (rc_pending c). om_find (rc_pending c ! j) k = None) \<longrightarrow>
        om_find (rc_pending c' ! i) k \<noteq> None))"
proof (induction env c arbitrary: cs rule: flush_common.induct)
  case (1 env c)
  let ?n = "length (rc_pending c)"
  show ?case
  proof (cases "rc_pending c = [] \<or> hd (rc_pending c) = [] \<or>
      list_ex (\<lambda>m. om_find m (fst (hd (hd (rc_pending c)))) = None) (rc_pending c)")
    case True
    then have "ok" "c' = c" using "1.prems"(1) by (auto simp: flush_common.simps [of env c] Let_def split: if_splits)
    with "1.prems" show ?thesis by (auto intro: exI [of _ "[]"])
  next
    case False
    define k where "k = fst (hd (hd (rc_pending c)))"
    have g: "\<not> (rc_pending c = [] \<or> hd (rc_pending c) = [])"
      "\<not> list_ex (\<lambda>m. om_find m k = None) (rc_pending c)" using False by (auto simp: k_def)
    obtain ok1 d where w: "write_common env k [0..<?n] c = (ok1, d)" by fastforce
    have found: "\<forall>i < ?n. om_find (rc_pending c ! i) k \<noteq> None" using g(2) by (simp add: list_ex_iff)
    have sizes: "length (rc_writers c) = ?n" using "1.prems"(2) by (simp add: sizes_ok_def)
    have filed: "om_filed (source_cts \<circ> captured_packet) (rc_pending c ! i)" if "i < ?n" for i
      using "1.prems"(3) that by (simp add: stores_filed_def)
    have out: "kept c d \<and> rc_range d = rc_range c \<and> rc_packet_count d = rc_packet_count c \<and>
     rc_started d = rc_started c \<and> (\<not> ok1 \<longrightarrow> rc_failed d) \<and>
     (ok1 \<longrightarrow> rc_failed d = rc_failed c \<and> (\<forall>i < length (rc_writers c).
        (i \<notin> set [0..<?n] \<longrightarrow> rc_writers d ! i = rc_writers c ! i) \<and>
        (i \<in> set [0..<?n] \<longrightarrow> (\<exists>w w'. rc_writers c ! i = Some w \<and> rc_writers d ! i = Some w' \<and>
           writer_inv w' \<and> map source_cts (muxed_packets w') = map source_cts (muxed_packets w) @ [k]))))"
    proof (rule write_common_out [OF w])
      show "\<forall>i \<in> set [0..<?n]. \<exists>w. rc_writers c ! i = Some w \<and> writer_inv w"
        using "1.prems"(4) sizes by (auto simp: in_step_def)
      show "\<forall>i \<in> set [0..<?n]. \<forall>q. om_find (rc_pending c ! i) k = Some q \<longrightarrow> source_cts (captured_packet q) = k"
        using oms.filed_find [OF filed] by auto
    qed (use found "1.prems"(2) in auto)
    note eval = "1.prems"(1) [unfolded flush_common.simps [of env c] if_not_P [OF g(1)] Let_def,
        folded k_def, unfolded if_not_P [OF g(2)] w prod.case]
    show ?thesis
    proof (cases ok1)
      case False
      with eval have "ok = False" "c' = d" by auto
      with out False show ?thesis by simp
    next
      case True
      let ?e = "d\<lparr>rc_range := (rc_range d)\<lparr>range_end_cts := k\<rparr>, rc_packet_count := rc_packet_count d + 1\<rparr>"
      have rec: "flush_common env ?e = (ok, c')" using eval True by simp
      have "write_common env k [0..<?n] c = (True, d)" using w True by simp
      note wd = write_common_pending [OF this]
      have pend: "rc_pending d ! i = om_erase k (rc_pending c ! i)" if "i < ?n" for i
        using wd that by auto
      have len: "length (rc_pending d) = ?n" "length (rc_writers d) = ?n"
        using out sizes by (simp_all add: kept_def)
      have filed': "stores_filed ?e"
        unfolding stores_filed_def
      proof
        fix m assume "m \<in> set (rc_pending ?e)"
        then obtain i where "i < ?n" "m = rc_pending d ! i" using len by (auto simp: in_set_conv_nth)
        then show "om_filed (source_cts \<circ> captured_packet) m"
          using pend oms.filed_erase [OF filed] by simp
      qed
      have step: "in_step (cs @ [k]) ?e"
        unfolding in_step_def
      proof (intro conjI allI impI)
        show "rc_packet_count ?e = word_of_nat (length (cs @ [k]))"
          using out "1.prems"(4) by (simp add: in_step_def)
        fix i assume i: "i < length (rc_writers ?e)"
        then have "i < ?n" using len by simp
        with out True sizes obtain w w' where ww: "rc_writers c ! i = Some w" "rc_writers d ! i = Some w'"
          "writer_inv w'" "map source_cts (muxed_packets w') = map source_cts (muxed_packets w) @ [k]" by auto
        moreover have "map source_cts (muxed_packets w) = cs"
          using "1.prems"(4) ww(1) \<open>i < ?n\<close> sizes by (auto simp: in_step_def)
        ultimately show "\<exists>w. rc_writers ?e ! i = Some w \<and> writer_inv w \<and>
            map source_cts (muxed_packets w) = cs @ [k]" by simp
      qed simp
      have ke: "kept c ?e" using kept_trans [OF _ kept_range(1)] out by blast
      have "sizes_ok ?e" using ke "1.prems"(2) by (simp add: kept_def)
      from "1.IH" [OF g(1) k_def g(2) w [symmetric] iffD2 [OF eq_True True] rec this filed' step]
      have ih: "kept ?e c'" "ok \<longrightarrow> stores_filed c'" "rc_started c' = rc_started c"
        "range_start_cts (rc_range c') = range_start_cts (rc_range c)" "\<not> ok \<longrightarrow> rc_failed c'"
        "ok \<longrightarrow> rc_failed c' = rc_failed c \<and> (\<exists>ds. in_step ((cs @ [k]) @ ds) c')"
        "ok \<longrightarrow> (\<forall>i < ?n. \<forall>l. om_find (rc_pending d ! i) l \<noteq> None \<longrightarrow>
           (\<exists>j < ?n. om_find (rc_pending d ! j) l = None) \<longrightarrow> om_find (rc_pending c' ! i) l \<noteq> None)"
        using out True len by simp_all
      have "om_find (rc_pending c' ! i) l \<noteq> None"
        if "ok" "i < ?n" "om_find (rc_pending c ! i) l \<noteq> None" "j < ?n" "om_find (rc_pending c ! j) l = None"
        for i j l
      proof -
        have "l \<noteq> k" using found that(4,5) by auto
        then have "om_find (rc_pending d ! i) l \<noteq> None" "om_find (rc_pending d ! j) l = None"
          using pend that om.find_erase [OF oms.filed_wf [OF filed]] by simp_all
        with ih(7) that show ?thesis by blast
      qed
      moreover have "kept c c'" using kept_trans [OF ke ih(1)] .
      ultimately show ?thesis using ih by auto
    qed
  qed
qed

lemma flush_worker:
  assumes "flush_common env c = (ok, c')" and "sizes_ok c" and "worker_ok c" and "rc_started c"
  shows "kept c c' \<and> rc_started c' \<and> (ok \<longrightarrow> worker_ok c' \<and> rc_failed c' = rc_failed c) \<and>
    (\<not> ok \<longrightarrow> rc_failed c')"
proof -
  obtain cs where cs: "in_step cs c" using assms(3,4) by (auto simp: worker_ok_def)
  have "stores_filed c" using assms(3) by (simp add: worker_ok_def)
  from flush_common_out [OF assms(1,2) this cs] assms(4) show ?thesis
    unfolding worker_ok_def by blast
qed

subsection \<open>Finalizing\<close>

lemma finalize_writers_out:
  "finalize_writers env is r c = (r', c') \<Longrightarrow> distinct is \<Longrightarrow> \<forall>i \<in> set is. i < length (rc_writers c) \<Longrightarrow>
     length (rec_streams r) = length (rc_writers c) \<Longrightarrow>
     rc_queue c' = rc_queue c \<and> rc_pending c' = rc_pending c \<and> rc_phase c' = rc_phase c \<and>
     rc_running c' = rc_running c \<and> rc_started c' = rc_started c \<and> rc_range c' = rc_range c \<and>
     rc_result c' = rc_result c \<and> rc_configs c' = rc_configs c \<and> rc_dts_origins c' = rc_dts_origins c \<and>
     length (rc_writers c') = length (rc_writers c) \<and> (rc_failed c \<longrightarrow> rc_failed c') \<and>
     rec_range r' = rec_range r \<and> rec_packet_count r' = rec_packet_count r \<and>
     (\<not> rc_failed c' \<longrightarrow> rec_error r' = rec_error r \<and> (\<forall>i < length (rc_writers c).
        (i \<notin> set is \<longrightarrow> rc_writers c' ! i = rc_writers c ! i \<and> rec_streams r' ! i = rec_streams r ! i) \<and>
        (i \<in> set is \<longrightarrow> (\<forall>w. rc_writers c ! i = Some w \<longrightarrow> (\<exists>w'. rc_writers c' ! i = Some w' \<and>
           same_output w w' \<and> \<not> format_open w' \<and> mkv_success (rec_streams r' ! i) \<and>
           first_written_cts w = range_start_cts (rc_range c) \<and>
           last_written_cts w = range_end_cts (rc_range c))))))"
proof (induction "is" arbitrary: r c)
  case (Cons i "is")
  have i: "i < length (rc_writers c)" "i \<notin> set is" "distinct is" using Cons.prems by auto
  show ?case
  proof (cases "rc_writers c ! i")
    case None
    with Cons.prems have "finalize_writers env is r c = (r', c')" by simp
    from Cons.IH [OF this] Cons.prems None show ?thesis by auto
  next
    case (Some w)
    show ?thesis
    proof (cases "rc_failed c")
      case True
      let ?c = "c\<lparr>rc_writers := (rc_writers c)[i := Some (mkv_Abort env w)]\<rparr>"
      have "finalize_writers env is r ?c = (r', c')" using Cons.prems(1) Some True by simp
      from Cons.IH [OF this] Cons.prems(2-4) True show ?thesis by simp
    next
      case ok: False
      obtain res w' where f: "mkv_Finalize env w = (res, w')" by fastforce
      let ?c = "c\<lparr>rc_writers := (rc_writers c)[i := Some w']\<rparr>"
      let ?r = "r\<lparr>rec_streams := (rec_streams r)[i := res]\<rparr>"
      let ?bad = "\<not> mkv_success res \<or> mkv_first_cts res \<noteq> range_start_cts (rc_range c) \<or>
                    mkv_last_cts res \<noteq> range_end_cts (rc_range c)"
      show ?thesis
      proof (cases ?bad)
        case True
        have "finalize_writers env is (?r\<lparr>rec_error := ''recording-range-mismatch:'' @ mkv_result_error res\<rparr>)
            (?c\<lparr>rc_failed := True\<rparr>) = (r', c')"
          using Cons.prems(1) Some ok f True by simp
        from Cons.IH [OF this] Cons.prems(2-4) show ?thesis by simp
      next
        case False
        have rest: "finalize_writers env is ?r ?c = (r', c')" using Cons.prems(1) Some ok f False by simp
        note out = mkv_Finalize_output [OF f] and closed = mkv_Finalize_closed [OF f]
        from Cons.IH [OF rest] Cons.prems(2-4)
        have ih: "rc_queue c' = rc_queue c \<and> rc_pending c' = rc_pending c \<and> rc_phase c' = rc_phase c \<and>
          rc_running c' = rc_running c \<and> rc_started c' = rc_started c \<and> rc_range c' = rc_range c \<and>
          rc_result c' = rc_result c \<and> rc_configs c' = rc_configs c \<and> rc_dts_origins c' = rc_dts_origins c \<and>
          length (rc_writers c') = length (rc_writers c) \<and>
          rec_range r' = rec_range r \<and> rec_packet_count r' = rec_packet_count r"
          and step: "\<not> rc_failed c' \<Longrightarrow> rec_error r' = rec_error r \<and> (\<forall>j < length (rc_writers c).
            (j \<notin> set is \<longrightarrow> rc_writers c' ! j = (rc_writers c)[i := Some w'] ! j \<and>
               rec_streams r' ! j = (rec_streams r)[i := res] ! j) \<and>
            (j \<in> set is \<longrightarrow> (\<forall>w. (rc_writers c)[i := Some w'] ! j = Some w \<longrightarrow>
               (\<exists>w'. rc_writers c' ! j = Some w' \<and> same_output w w' \<and> \<not> format_open w' \<and>
                  mkv_success (rec_streams r' ! j) \<and> first_written_cts w = range_start_cts (rc_range c) \<and>
                  last_written_cts w = range_end_cts (rc_range c)))))"
          by simp_all
        have "(j \<notin> set (i # is) \<longrightarrow> rc_writers c' ! j = rc_writers c ! j \<and> rec_streams r' ! j = rec_streams r ! j) \<and>
            (j \<in> set (i # is) \<longrightarrow> (\<forall>w. rc_writers c ! j = Some w \<longrightarrow> (\<exists>w'. rc_writers c' ! j = Some w' \<and>
               same_output w w' \<and> \<not> format_open w' \<and> mkv_success (rec_streams r' ! j) \<and>
               first_written_cts w = range_start_cts (rc_range c) \<and>
               last_written_cts w = range_end_cts (rc_range c))))"
          if "\<not> rc_failed c'" "j < length (rc_writers c)" for j
        proof (cases "j = i")
          case True
          with step [OF that(1)] i Cons.prems(4) have "rc_writers c' ! j = Some w'" "rec_streams r' ! j = res" by simp_all
          with True Some out closed False show ?thesis by simp
        next
          case False
          then have "i \<noteq> j" by simp
          with step [OF that(1)] that(2) False show ?thesis by simp
        qed
        with ih step ok show ?thesis by blast
      qed
    qed
  qed
qed simp

subsection \<open>Every step keeps the invariant\<close>

lemma in_step_cong:
  "rc_packet_count c' = rc_packet_count c \<Longrightarrow> rc_range c' = rc_range c \<Longrightarrow> rc_writers c' = rc_writers c \<Longrightarrow>
     in_step cs c' = in_step cs c"
  by (simp add: in_step_def)

lemma worker_ok_phase [simp]: "worker_ok (c\<lparr>rc_phase := p\<rparr>) = worker_ok c"
  by (simp add: worker_ok_def stores_filed_def in_step_def)

lemma position_less: "position x xs = Some i \<Longrightarrow> i < length xs"
  by (induction xs arbitrary: i) (auto split: if_splits)

lemma sum_length_update:
  "i < length ms \<Longrightarrow> (\<Sum>x\<leftarrow>ms[i := m]. length x) + length (ms ! i) = (\<Sum>x\<leftarrow>ms. length x) + length m"
proof (induction ms arbitrary: i)
  case (Cons x ms)
  then show ?case by (cases i) auto
qed simp

lemma om_emplace_length: "length (om_emplace k v m) \<le> Suc (length m)"
  by (induction k v m rule: om_emplace.induct) auto

lemma file_packet_out:
  fixes c :: "'w SynchronizedRecordingConsumer" and q :: CapturedEncodedPacket
  defines "d \<equiv> file_packet q c"
  shows "rc_queue d = rc_queue c \<and> rc_running d = rc_running c \<and> rc_phase d = rc_phase c \<and>
     (sizes_ok c \<longrightarrow> sizes_ok d) \<and> pending_count d \<le> pending_count c + 1 \<and>
     (worker_ok c \<longrightarrow> worker_ok d) \<and> rc_failed d = rc_failed c \<and> rc_result d = rc_result c \<and>
     rc_started d = rc_started c"
proof (cases "LocalStreamIndex (captured_stream_id q) c")
  case None
  then show ?thesis by (simp add: d_def file_packet_def)
next
  case (Some i)
  let ?k = "source_cts (captured_packet q)"
  show ?thesis
  proof (cases "om_find (rc_pending c ! i) ?k = None")
    case False
    with Some show ?thesis by (auto simp: d_def file_packet_def)
  next
    case True
    let ?cfgs = "if extra_data (rc_configs c ! i) = [] \<and> codec_extra_data q \<noteq> []
       then (rc_configs c)[i := (rc_configs c ! i)\<lparr>extra_data := codec_extra_data q\<rparr>] else rc_configs c"
    let ?m = "om_emplace ?k q (rc_pending c ! i)"
    have d: "d = c\<lparr>rc_configs := ?cfgs, rc_pending := (rc_pending c)[i := ?m]\<rparr>"
      using Some True by (simp add: d_def file_packet_def)
    have "pending_count d \<le> pending_count c + 1"
    proof (cases "i < length (rc_pending c)")
      case True
      have "length ?m \<le> Suc (length (rc_pending c ! i))" by (rule om_emplace_length)
      with sum_length_update [OF True, of ?m] show ?thesis by (simp add: d pending_count_def)
    next
      case False
      then show ?thesis by (simp add: d pending_count_def list_update_beyond)
    qed
    moreover have "worker_ok d" if w: "worker_ok c"
    proof -
      have "stores_filed d"
      proof (cases "i < length (rc_pending c)")
        case True
        have "om_filed (source_cts \<circ> captured_packet) (rc_pending c ! i)"
          using w True by (simp add: worker_ok_def stores_filed_def)
        from oms.filed_emplace [OF this, of q] w show ?thesis
          by (auto simp: d worker_ok_def stores_filed_def dest!: set_update_subset_insert [THEN subsetD])
      next
        case False
        with w show ?thesis by (simp add: d worker_ok_def stores_filed_def list_update_beyond)
      qed
      with w show ?thesis by (simp add: d worker_ok_def in_step_def)
    qed
    ultimately show ?thesis by (simp add: d sizes_ok_def)
  qed
qed

lemma rc_inv_process:
  assumes inv: "rc_inv c" and ph: "rc_phase c = Holding q"
  shows "rc_inv (process_packet env fresh q c)"
proof -
  have run: "rc_running c" and w: "worker_ok c" and small: "pending_count c \<le> kMaxQueuePackets"
    and rec: "failure_recorded c" and sz: "sizes_ok c" and qu: "length (rc_queue c) \<le> kMaxQueuePackets"
    using inv ph by (auto simp: rc_inv_def)
  let ?c = "file_packet q c"
  note fo = file_packet_out [of q c]
  have rec1: "failure_recorded ?c" using fo rec by (simp add: failure_recorded_def)
  show ?thesis
  proof (cases "over_limit (pending_count ?c)")
    case True
    let ?e = "(snd (rc_Fail ''recording-pending-overflow'' ?c))\<lparr>rc_phase := Finishing\<rparr>"
    have "failure_recorded ?e" using rc_Fail_recorded [OF rec1, of "''recording-pending-overflow''"]
      by (simp add: failure_recorded_def)
    moreover have "sizes_ok ?e" "pending_count ?e \<le> kMaxQueuePackets + 1"
      using fo sz small by (simp_all add: sizes_ok_def pending_count_def rc_Fail_def)
    ultimately have "rc_inv ?e" using fo run qu by (simp add: rc_inv_def)
    then show ?thesis using True by (simp add: process_packet_def)
  next
    case False
    then have le: "pending_count ?c \<le> kMaxQueuePackets" by (simp add: over_limit_def)
    obtain b d where e: "rc_EstablishCommonStart env fresh ?c = (b, d)" by fastforce
    let ?d = "if \<not> rc_started ?c then d else ?c"
    have d: "kept ?c ?d \<and> worker_ok ?d"
    proof (cases "rc_started ?c")
      case True
      then show ?thesis using fo w by simp
    next
      case no: False
      have "rc_packet_count ?c = 0" using fo w no by (simp add: worker_ok_def)
      from Establish_out [OF e no _ this] fo sz have
        "kept ?c d" "rc_started d = b" "b \<longrightarrow> in_step [] d" "rc_packet_count d = 0" "stores_filed ?c \<longrightarrow> stores_filed d" by simp_all
      moreover have "stores_filed ?c" using fo w by (simp add: worker_ok_def)
      ultimately show ?thesis using no by (auto simp: worker_ok_def)
    qed
    obtain ok g where f: "(if rc_started ?d then rc_FlushCommonPrefix env ?d else (True, ?d)) = (ok, g)" by fastforce
    have g: "kept ?d g \<and> (ok \<longrightarrow> worker_ok g) \<and> (\<not> ok \<longrightarrow> rc_failed g)"
    proof (cases "rc_started ?d")
      case False
      then show ?thesis using f d by auto
    next
      case True
      then have fl: "flush_common env ?d = (ok, g)" using f by (simp add: rc_FlushCommonPrefix_def)
      have "sizes_ok ?d" using d fo sz by (simp add: kept_def)
      from flush_worker [OF fl this _ True] d show ?thesis by blast
    qed
    have k: "kept ?c g" using kept_trans d g by blast
    have out: "process_packet env fresh q c = g\<lparr>rc_phase := (if ok then Waiting else Finishing)\<rparr>"
      using False e f by (simp add: process_packet_def Let_def split: if_splits)
    have "sizes_ok g" "failure_recorded g" "rc_queue g = rc_queue c" "rc_running g"
      "pending_count g \<le> kMaxQueuePackets"
      using k fo sz rec1 run le by (simp_all add: kept_def)
    then show ?thesis using g qu unfolding out
      by (auto simp: rc_inv_def sizes_ok_def failure_recorded_def pending_count_def)
  qed
qed

lemma kept_inv:
  assumes "kept c c'" and "sizes_ok c" "failure_recorded c"
  shows "sizes_ok c'" "failure_recorded c'" "pending_count c' \<le> pending_count c" "rc_queue c' = rc_queue c"
    "rc_running c' = rc_running c" "rc_phase c' = rc_phase c"
  using assms by (simp_all add: kept_def)

text \<open>After the loop: unless it has failed, everything is flushed and the writers are in step.\<close>

lemma last_flush_out:
  assumes c': "c' = last_flush env fresh c" and sz: "sizes_ok c"
    and w: "\<not> rc_failed c \<longrightarrow> worker_ok c"
  shows "kept c c' \<and> (\<not> rc_failed c' \<longrightarrow> \<not> rc_failed c \<and> worker_ok c' \<and>
    rc_started c' \<and> (\<forall>m \<in> set (rc_pending c'). m = []))"
proof (cases "rc_failed c")
  case True
  then show ?thesis by (simp add: c' last_flush_def)
next
  case nf: False
  obtain b d where e: "rc_EstablishCommonStart env fresh c = (b, d)" by fastforce
  let ?b = "if \<not> rc_started c then b else True" and ?d = "if \<not> rc_started c then d else c"
  have d: "kept c ?d \<and> (?b \<longrightarrow> worker_ok ?d \<and> rc_started ?d \<and> rc_failed ?d = rc_failed c)"
  proof (cases "rc_started c")
    case True
    then show ?thesis using w nf by simp
  next
    case False
    have "rc_packet_count c = 0" "stores_filed c" using w nf False by (auto simp: worker_ok_def)
    from Establish_out [OF e False sz this(1)] this(2) False show ?thesis by (auto simp: worker_ok_def)
  qed
  have est: "(if \<not> rc_started c then rc_EstablishCommonStart env fresh c else (True, c)) = (?b, ?d)"
    using e by simp
  note eval = c' [unfolded last_flush_def if_not_P [OF nf] Let_def est prod.case]
  show ?thesis
  proof (cases "?b")
    case False
    then have "c' = snd (rc_Fail ''no-common-recording-start-keyframe'' ?d)" using eval by simp
    moreover have "kept c ?d" using d by blast
    from kept_trans [OF this kept_Fail] have "kept c (snd (rc_Fail ''no-common-recording-start-keyframe'' ?d))"
      by simp
    ultimately show ?thesis by simp
  next
    case True
    then have st: "rc_started ?d" "worker_ok ?d" "rc_failed ?d = rc_failed c" using d by blast+
    obtain ok g where f: "flush_common env ?d = (ok, g)" by fastforce
    have "sizes_ok ?d" using d sz by (simp add: kept_def)
    note fl = flush_worker [OF f this st(2,1)]
    have flush: "(if rc_started ?d then rc_FlushCommonPrefix env ?d else (True, ?d)) = (ok, g)"
      using st(1) f by (simp add: rc_FlushCommonPrefix_def)
    note eval2 = eval [unfolded flush prod.case]
    have k: "kept c g" using d fl kept_trans by blast
    show ?thesis
    proof (cases "ok \<and> \<not> list_ex (\<lambda>m. m \<noteq> []) (rc_pending g)")
      case ok: True
      then have "c' = g" using eval2 True by simp
      with k fl st nf ok show ?thesis by (auto simp: list_ex_iff)
    next
      case False
      let ?why = "if \<not> ok then ''no-common-recording-prefix'' else ''recording-unresolved-common-prefix''"
      have "rc_started g" using fl by blast
      with False True eval2 have why: "c' = snd (rc_Fail ?why g)" "?why \<noteq> []"
        by (cases ok; simp)+
      with kept_trans [OF k kept_Fail [OF why(2)]] show ?thesis by simp
    qed
  qed
qed

lemma rc_Finalize_out:
  assumes "sizes_ok c" and "failure_recorded c" and "\<not> rc_failed c \<longrightarrow> worker_ok c \<and> (\<forall>m \<in> set (rc_pending c). m = [])"
  shows "sizes_ok (rc_Finalize env now c) \<and> rc_queue (rc_Finalize env now c) = rc_queue c \<and>
    pending_count (rc_Finalize env now c) = pending_count c \<and>
    (\<forall>r. rc_result (rc_Finalize env now c) = Some r \<and> rec_success r \<longrightarrow>
       (\<exists>cs. complete_recording r cs (rc_Finalize env now c)))"
proof -
  let ?n = "length (rc_writers c)"
  let ?r = "empty_recording_result\<lparr>rec_paths := rc_paths c, rec_range := rc_range c,
    rec_packet_count := rc_packet_count c, rec_streams := replicate ?n empty_mkv_result\<rparr>"
  obtain r d where f: "finalize_writers env [0..<?n] ?r c = (r, d)" by fastforce
  note out = finalize_writers_out [OF f, simplified]
  let ?s = "r\<lparr>rec_success := (\<not> rc_failed d \<and> rc_started d \<and>
       range_end_cts (rc_range d) \<ge> range_start_cts (rc_range d)),
     rec_wall_ms := (now - rc_start_ns d) div 1000000\<rparr>"
  have fin: "rc_Finalize env now c = (if case rc_result d of None \<Rightarrow> True | Some old \<Rightarrow> rec_error old = []
      then d\<lparr>rc_result := Some ?s\<rparr> else d)"
    unfolding rc_Finalize_def Let_def f prod.case by simp
  have complete: "\<exists>cs. complete_recording ?s cs (d\<lparr>rc_result := Some ?s\<rparr>)"
    if ok: "\<not> rc_failed d" "rc_started d" "range_start_cts (rc_range d) \<le> range_end_cts (rc_range d)"
  proof -
    have nf: "\<not> rc_failed c" using out ok(1) by blast
    then obtain cs where cs: "in_step cs c" using assms(3) out ok(2) by (auto simp: worker_ok_def)
    have files: "\<exists>w'. rc_writers d ! i = Some w' \<and> \<not> format_open w' \<and> writer_inv w' \<and>
        map source_cts (muxed_packets w') = cs \<and> mkv_success (rec_streams r ! i) \<and>
        first_written_cts w' = range_start_cts (rc_range c) \<and> last_written_cts w' = range_end_cts (rc_range c)"
      if "i < ?n" for i
    proof -
      from cs that obtain w where w: "rc_writers c ! i = Some w" "writer_inv w"
        "map source_cts (muxed_packets w) = cs" by (auto simp: in_step_def)
      from out ok(1) that w(1) obtain w' where w': "rc_writers d ! i = Some w'" "same_output w w'"
        "\<not> format_open w'" "mkv_success (rec_streams r ! i)"
        "first_written_cts w = range_start_cts (rc_range c)" "last_written_cts w = range_end_cts (rc_range c)"
        by auto
      moreover have "first_written_cts w' = first_written_cts w" "last_written_cts w' = last_written_cts w"
        "muxed_packets w' = muxed_packets w"
        using w'(2) by (simp_all add: same_output_def muxed_packets_def)
      ultimately show ?thesis using w same_output_inv [OF w'(2)] by simp
    qed
    have "rec_error r = []" "rec_range r = rc_range c" "rec_packet_count r = rc_packet_count c"
      using out ok(1) by (simp_all add: empty_recording_result_def)
    then show ?thesis
      using files out ok nf assms(3) cs
      by (intro exI [of _ cs]) (simp add: complete_recording_def in_step_def)
  qed
  have bad: "\<not> rec_success old" if "rc_result d = Some old" for old
    using assms(2) out that by (auto simp: failure_recorded_def)
  show ?thesis
    using out assms(1) complete bad unfolding fin
    by (auto simp: sizes_ok_def pending_count_def)
qed

lemma rc_inv_finish:
  assumes inv: "rc_inv c" and ph: "rc_phase c = Finishing"
  shows "rc_inv (finish_recording env fresh now c)"
proof -
  have sz: "sizes_ok c" and rec: "failure_recorded c" and w: "\<not> rc_failed c \<longrightarrow> worker_ok c"
    and qu: "length (rc_queue c) \<le> kMaxQueuePackets" and pc: "pending_count c \<le> kMaxQueuePackets + 1"
    using inv ph by (auto simp: rc_inv_def)
  let ?d = "last_flush env fresh c"
  note out = last_flush_out [OF refl sz w, of env fresh]
  note k = kept_inv [OF conjunct1 [OF out] sz rec]
  have "\<not> rc_failed ?d \<longrightarrow> worker_ok ?d \<and> (\<forall>m \<in> set (rc_pending ?d). m = [])" using out by blast
  note fin = rc_Finalize_out [OF k(1,2) this, of env now]
  show ?thesis
    using fin k qu pc unfolding finish_recording_def
    by (auto simp: rc_inv_def sizes_ok_def pending_count_def complete_recording_def)
qed

lemma rc_inv_Start: "rc_inv c \<Longrightarrow> rc_inv (snd (rc_Start now c))"
  by (auto simp: rc_Start_def rc_inv_def sizes_ok_def pending_count_def worker_ok_def stores_filed_def
      failure_recorded_def comp_def)

lemma rc_inv_OnPacket: "rc_inv c \<Longrightarrow> rc_inv (OnPacket q c)"
proof -
  assume inv: "rc_inv c"
  have ok: "worker_ok (c\<lparr>rc_failed := True, rc_result := x\<rparr>) = worker_ok c"
    "worker_ok (c\<lparr>rc_queue := qs\<rparr>) = worker_ok c" for x qs
    by (simp_all add: worker_ok_def stores_filed_def in_step_def)
  show ?thesis
    using inv unfolding OnPacket_def
    by (auto simp: rc_inv_def sizes_ok_def pending_count_def ok failure_recorded_def
        empty_recording_result_def at_limit_def)
qed

lemma rc_inv_Stop: "rc_inv c \<Longrightarrow> rc_inv (rc_Stop c)"
proof -
  assume inv: "rc_inv c"
  have ok: "worker_ok (c\<lparr>rc_stop_requested := True, rc_joinable := False\<rparr>) = worker_ok c"
    by (simp add: worker_ok_def stores_filed_def in_step_def)
  show ?thesis
    using inv unfolding rc_Stop_def
    by (auto simp: rc_inv_def sizes_ok_def pending_count_def ok failure_recorded_def complete_recording_def)
qed

lemma rc_inv_take:
  assumes "rc_inv c" and "rc_phase c = Waiting" and "wait_over c"
  shows "rc_inv (take_packet c)"
proof -
  have ok: "worker_ok (c\<lparr>rc_phase := p, rc_queue := qs\<rparr>) = worker_ok c" for p qs
    by (simp add: worker_ok_def stores_filed_def in_step_def)
  show ?thesis
    using assms unfolding take_packet_def
    by (auto simp: rc_inv_def sizes_ok_def pending_count_def ok failure_recorded_def)
qed

lemma rc_inv_new: "rc_inv (new_recording cfgs paths ids)"
  by (simp add: rc_inv_def new_recording_def sizes_ok_def pending_count_def failure_recorded_def
      map_replicate sum_list_replicate)

lemma rc_inv_step: "rc_step env fresh c c' \<Longrightarrow> rc_inv c \<Longrightarrow> rc_inv c'"
  by (induction rule: rc_step.induct)
    (simp_all add: rc_inv_Start rc_inv_OnPacket rc_inv_Stop rc_inv_take rc_inv_process rc_inv_finish)

lemma rc_reachable_inv: "rc_reachable env fresh c \<Longrightarrow> rc_inv c"
  by (induction rule: rc_reachable.induct) (auto intro: rc_inv_new rc_inv_step)

subsection \<open>The join\<close>

text \<open>What the worker's operations leave alone: what belongs to the other threads and what the consumer was made with.
  A configuration without codec data takes the data of the first packet.\<close>

definition plain_config :: "PacketStreamConfig \<Rightarrow> PacketStreamConfig" where
  "plain_config cfg = cfg\<lparr>extra_data := []\<rparr>"

definition made_with :: "'w SynchronizedRecordingConsumer \<Rightarrow>
    bool \<times> string list \<times> CaptureStreamId list \<times> PacketStreamConfig list" where
  "made_with c = (rc_joinable c, rc_paths c, rc_stream_ids c, map plain_config (rc_configs c))"

definition outside :: "'w SynchronizedRecordingConsumer \<Rightarrow> (CapturedEncodedPacket list \<times> bool) \<times>
    bool \<times> string list \<times> CaptureStreamId list \<times> PacketStreamConfig list" where
  "outside c = ((rc_queue c, rc_stop_requested c), made_with c)"

lemma outside_Fail [simp]: "outside (snd (rc_Fail why c)) = outside c"
  by (simp add: rc_Fail_def outside_def made_with_def)

lemma outside_updates [simp]:
  "outside (c\<lparr>rc_writers := w\<rparr>) = outside c" "outside (c\<lparr>rc_dts_origins := d\<rparr>) = outside c"
  "outside (c\<lparr>rc_pending := m\<rparr>) = outside c" "outside (c\<lparr>rc_range := r\<rparr>) = outside c"
  "outside (c\<lparr>rc_started := b\<rparr>) = outside c" "outside (c\<lparr>rc_packet_count := n\<rparr>) = outside c"
  "outside (c\<lparr>rc_failed := b\<rparr>) = outside c"
  "outside (c\<lparr>rc_result := x\<rparr>) = outside c" "outside (c\<lparr>rc_phase := ph\<rparr>) = outside c"
  "outside (c\<lparr>rc_running := b\<rparr>) = outside c"
  by (simp_all add: outside_def made_with_def)

lemma outside_configs [simp]:
  "outside (c\<lparr>rc_configs := (rc_configs c)[i := (rc_configs c ! i)\<lparr>extra_data := x\<rparr>]\<rparr>) = outside c"
proof -
  have "(map plain_config (rc_configs c))[i := plain_config (rc_configs c ! i)] = map plain_config (rc_configs c)"
    by (cases "i < length (rc_configs c)") (simp_all add: list_update_same_conv list_update_beyond)
  then show ?thesis by (simp add: outside_def made_with_def map_update) (simp add: plain_config_def)
qed

lemma outside_open: "outside (snd (open_writers env fresh cts is c)) = outside c"
  by (induction "is" arbitrary: c) (simp_all add: case_prod_beta Let_def split: option.split)

lemma outside_Establish: "outside (snd (rc_EstablishCommonStart env fresh c)) = outside c"
  by (simp add: rc_EstablishCommonStart_def case_prod_beta Let_def outside_open split: option.split)

lemma outside_write: "outside (snd (write_common env cts is c)) = outside c"
  by (induction "is" arbitrary: c) (simp_all add: case_prod_beta Let_def split: option.split)

lemma outside_flush: "outside (snd (flush_common env c)) = outside c"
proof (induction env c rule: flush_common.induct)
  case (1 env c)
  let ?k = "fst (hd (hd (rc_pending c)))"
  obtain ok d where w: "write_common env ?k [0..<length (rc_pending c)] c = (ok, d)" by fastforce
  with outside_write [of env ?k "[0..<length (rc_pending c)]" c] have "outside d = outside c" by simp
  with 1 w show ?case by (cases ok) (auto simp: flush_common.simps [of env c] Let_def)
qed

lemma outside_FlushCommonPrefix: "outside (snd (rc_FlushCommonPrefix env c)) = outside c"
  by (simp add: rc_FlushCommonPrefix_def outside_flush)

lemma outside_file: "outside (file_packet q c) = outside c"
  by (simp add: file_packet_def Let_def split: option.split)

lemma outside_process: "outside (process_packet env fresh q c) = outside c"
  by (simp add: process_packet_def Let_def case_prod_beta outside_file outside_Establish outside_FlushCommonPrefix)

lemma outside_finalize: "outside (snd (finalize_writers env is r c)) = outside c"
  by (induction "is" arbitrary: r c) (simp_all add: case_prod_beta Let_def split: option.split)

lemma outside_last_flush: "outside (last_flush env fresh c) = outside c"
  by (simp add: last_flush_def case_prod_beta Let_def outside_Establish outside_FlushCommonPrefix)

lemma outside_finish: "outside (finish_recording env fresh now c) = outside c"
  by (simp add: finish_recording_def rc_Finalize_def case_prod_beta Let_def outside_finalize outside_last_flush
      split: option.split)

lemma made_with_turn: "made_with (worker_turn env fresh now c) = made_with c"
proof (cases "rc_phase c")
  case Waiting
  then show ?thesis by (simp add: worker_turn_def take_packet_def made_with_def)
next
  case (Holding q)
  with outside_process [of env fresh q c] show ?thesis by (simp add: worker_turn_def outside_def)
next
  case Finishing
  with outside_finish [of env fresh now c] show ?thesis by (simp add: worker_turn_def outside_def)
qed (simp_all add: worker_turn_def)

lemma made_with_OnPacket: "made_with (OnPacket q c) = made_with c"
  by (simp add: OnPacket_def made_with_def)

lemma process_phase: "rc_phase (process_packet env fresh q c) \<in> {Waiting, Finishing}"
  by (simp add: process_packet_def Let_def case_prod_beta)

text \<open>After a stop request every turn of the worker brings its end nearer.\<close>

fun turns_left :: "worker_phase \<Rightarrow> nat \<Rightarrow> nat" where
  "turns_left NoWorker n = 0"
| "turns_left Waiting n = 2 * n + 2"
| "turns_left (Holding q) n = 2 * n + 3"
| "turns_left Finishing n = 1"
| "turns_left Exited n = 0"

lemma turn_ends:
  assumes "rc_stop_requested c" and "rc_phase c \<noteq> NoWorker" and d: "d = worker_turn env fresh now c"
  shows "rc_phase d \<noteq> NoWorker \<and> (rc_phase d = Exited \<or> rc_stop_requested d) \<and>
    turns_left (rc_phase d) (length (rc_queue d)) \<le> turns_left (rc_phase c) (length (rc_queue c)) - 1"
proof (cases "rc_phase c")
  case Waiting
  then have "d = take_packet c" using assms by (simp add: worker_turn_def wait_over_def)
  with assms(1) Waiting show ?thesis by (cases "rc_queue c") (auto simp: take_packet_def)
next
  case (Holding q)
  then have d: "d = process_packet env fresh q c" using assms by (simp add: worker_turn_def)
  with outside_process [of env fresh q c] process_phase [of env fresh q c] Holding assms(1)
  show ?thesis by (auto simp: outside_def)
next
  case Finishing
  then have "d = finish_recording env fresh now c" using assms by (simp add: worker_turn_def)
  with Finishing show ?thesis by (simp add: finish_recording_def)
qed (use assms in \<open>simp_all add: worker_turn_def\<close>)

lemma turns_end:
  "rc_phase c \<noteq> NoWorker \<Longrightarrow> rc_phase c = Exited \<or> rc_stop_requested c \<Longrightarrow>
     turns_left (rc_phase c) (length (rc_queue c)) \<le> n \<Longrightarrow> rc_phase (worker_turns env fresh now n c) = Exited"
proof (induction n arbitrary: c)
  case 0
  then show ?case by (cases "rc_phase c") auto
next
  case (Suc n)
  show ?case
  proof (cases "rc_phase c = Exited")
    case True
    then have "worker_turn env fresh now c = c" by (simp add: worker_turn_def)
    with Suc.IH [of c] True show ?thesis by simp
  next
    case False
    then have "rc_stop_requested c" using Suc.prems by simp
    note d = turn_ends [OF this Suc.prems(1) refl, of env fresh now]
    then have "turns_left (rc_phase (worker_turn env fresh now c))
        (length (rc_queue (worker_turn env fresh now c))) \<le> n" using Suc.prems(3) by linarith
    with d Suc.IH show ?thesis by simp
  qed
qed

lemma finish_result: "rc_result (finish_recording env fresh now c) \<noteq> None"
  by (simp add: finish_recording_def rc_Finalize_def Let_def case_prod_beta split: option.splits)

lemma finish_running: "\<not> rc_running (finish_recording env fresh now c)"
  by (simp add: finish_recording_def)

lemma reachable_exited:
  "rc_reachable env fresh c \<Longrightarrow> rc_phase c = Exited \<longrightarrow> rc_result c \<noteq> None \<and> \<not> rc_running c"
proof (induction rule: rc_reachable.induct)
  case (stepped c c')
  from stepped(2) stepped(3) show ?case
  proof (induction rule: rc_step.induct)
    case (process c q)
    then show ?case using process_phase [of env fresh q c] by auto
  next
    case (finish c now)
    show ?case using finish_result [of env fresh now c] finish_running [of env fresh now c] by blast
  qed (auto simp: rc_Start_def OnPacket_def rc_Stop_def take_packet_def)
qed (simp add: new_recording_def)

lemma reachable_joinable: "rc_reachable env fresh c \<Longrightarrow> rc_joinable c \<longrightarrow> rc_phase c \<noteq> NoWorker"
proof (induction rule: rc_reachable.induct)
  case (stepped c c')
  from stepped(2) stepped(3) show ?case
  proof (induction rule: rc_step.induct)
    case (process c q)
    then show ?case using process_phase [of env fresh q c] by auto
  qed (auto simp: rc_Start_def OnPacket_def rc_Stop_def take_packet_def finish_recording_def)
qed (simp add: new_recording_def)

subsection \<open>A concrete recording\<close>

lemma reachable_turn: "rc_reachable env fresh c \<Longrightarrow> rc_reachable env fresh (worker_turn env fresh now c)"
  unfolding worker_turn_def
  by (cases "rc_phase c") (auto intro: rc_reachable.stepped rc_step.intros)

lemma reachable_turns:
  "rc_reachable env fresh c \<Longrightarrow> rc_reachable env fresh (worker_turns env fresh now n c)"
  by (induction n arbitrary: c) (simp_all add: reachable_turn)

lemma worker_turns_last:
  "worker_turns env fresh now (Suc n) c = worker_turn env fresh now (worker_turns env fresh now n c)"
proof (induction n arbitrary: c)
  case (Suc n)
  then show ?case by (metis worker_turns.simps(2))
qed simp

lemma reachable_packets:
  "rc_reachable env fresh c \<Longrightarrow> rc_reachable env fresh (fold OnPacket qs c)"
  by (induction qs arbitrary: c) (auto intro: rc_reachable.stepped rc_step.packet)

definition demo_recording :: "(u8 \<times> u64) list \<Rightarrow> unit SynchronizedRecordingConsumer" where
  "demo_recording cs = fold OnPacket
     (map (\<lambda>(i, c). \<lparr>captured_stream_id = i, captured_packet = demo_packet c (c = 10) [1, 2],
         codec_extra_data = [3]\<rparr>) cs)
     (snd (rc_Start 0 (new_recording (replicate 2 \<lparr>cfg_width = 2, cfg_height = 2, cfg_timebase_num = 1,
        cfg_timebase_den = 60, extra_data = [], muxer_tail_capacity_bytes = 0,
        muxer_reorder_safety_cts = 0\<rparr>) [''a.mkv'', ''b.mkv''] [])))"

definition demo_turns :: "nat \<Rightarrow> unit SynchronizedRecordingConsumer \<Rightarrow> unit SynchronizedRecordingConsumer" where
  "demo_turns n c = worker_turns plain_muxer (\<lambda>_. ()) 5 n c"

definition demo_outcome :: "unit SynchronizedRecordingConsumer \<Rightarrow> worker_phase \<times> bool option" where
  "demo_outcome c = (rc_phase c, map_option rec_success (rc_result c))"

lemma demo_outcome_success:
  "demo_outcome c = (Exited, Some True) \<Longrightarrow>
     \<exists>r. rc_phase c = Exited \<and> rc_result c = Some r \<and> rec_success r"
  by (auto simp: demo_outcome_def)

lemma demo_recording_reachable: "rc_reachable env fresh (demo_recording cs)"
  unfolding demo_recording_def
  by (intro reachable_packets rc_reachable.stepped [OF _ rc_step.start] rc_reachable.created)

lemma demo_reachable: "rc_reachable plain_muxer (\<lambda>_. ()) (demo_turns n (rc_Stop (demo_recording cs)))"
  unfolding demo_turns_def
  by (intro reachable_turns rc_reachable.stepped [OF _ rc_step.stop] demo_recording_reachable)

lemma packets_phase: "rc_phase (fold OnPacket qs c) = rc_phase c"
  by (induction qs arbitrary: c) (simp_all add: OnPacket_def)

lemma demo_recording_phase: "rc_phase (demo_recording cs) = Waiting"
  by (simp add: demo_recording_def packets_phase rc_Start_def new_recording_def)

lemma demo_recording_joinable: "rc_joinable (demo_recording cs)"
proof -
  have "made_with (fold OnPacket qs c) = made_with c" for qs and c :: "unit SynchronizedRecordingConsumer"
    by (induction qs arbitrary: c) (simp_all add: made_with_OnPacket)
  then have "rc_joinable (fold OnPacket qs c) = rc_joinable c" for qs and c :: "unit SynchronizedRecordingConsumer"
    by (simp add: made_with_def)
  then show ?thesis by (simp add: demo_recording_def rc_Start_def new_recording_def)
qed

subsection \<open>The promises of a recording\<close>

text \<open>C3. Whatever the interleaving of capture threads, controller and worker, and whatever libav
  answers: when the worker has ended and its result says success, every writer was given the packets
  of the same CTS sequence, one for each counted packet, its file was completed and its least and
  greatest CTS are the ends of the recorded range, in an order in which the muxed DTS never
  decreases; and no packet of any stream was left over.\<close>

theorem recording_success_is_complete:
  assumes "rc_reachable env fresh c" and "rc_phase c = Exited" and "rc_result c = Some r" and "rec_success r"
  shows "\<exists>cs. rec_packet_count r = word_of_nat (length cs) \<and> (\<forall>m \<in> set (rc_pending c). m = []) \<and>
    (\<forall>i < length (rc_configs c). \<exists>w. rc_writers c ! i = Some w \<and> \<not> format_open w \<and>
       map source_cts (muxed_packets w) = cs \<and> mkv_success (rec_streams r ! i) \<and>
       sorted (map (\<lambda>e. sint (snd e)) (muxed w)) \<and>
       (cs \<noteq> [] \<longrightarrow> Min (set cs) = range_start_cts (rec_range r) \<and> Max (set cs) = range_end_cts (rec_range r)))"
proof -
  note inv = rc_reachable_inv [OF assms(1)]
  then obtain cs where cs: "complete_recording r cs c" using assms(2-4) by (auto simp: rc_inv_def)
  have sizes: "length (rc_writers c) = length (rc_configs c)" using inv by (simp add: rc_inv_def sizes_ok_def)
  have "\<exists>w. rc_writers c ! i = Some w \<and> \<not> format_open w \<and>
       map source_cts (muxed_packets w) = cs \<and> mkv_success (rec_streams r ! i) \<and>
       sorted (map (\<lambda>e. sint (snd e)) (muxed w)) \<and>
       (cs \<noteq> [] \<longrightarrow> Min (set cs) = range_start_cts (rec_range r) \<and> Max (set cs) = range_end_cts (rec_range r))"
    if "i < length (rc_configs c)" for i
  proof -
    from cs that sizes obtain w where w: "rc_writers c ! i = Some w" "\<not> format_open w" "writer_inv w"
      "map source_cts (muxed_packets w) = cs" "mkv_success (rec_streams r ! i)"
      "first_written_cts w = range_start_cts (rec_range r)" "last_written_cts w = range_end_cts (rec_range r)"
      by (auto simp: complete_recording_def)
    have "muxed_cts w = set cs" using w(4) by (auto simp: muxed_cts_def)
    moreover have "cs \<noteq> [] \<longleftrightarrow> muxed w \<noteq> []" using w(4) by (auto simp: muxed_packets_def)
    ultimately have "cs \<noteq> [] \<longrightarrow> Min (set cs) = first_written_cts w \<and> Max (set cs) = last_written_cts w"
      "sorted (map (\<lambda>e. sint (snd e)) (muxed w))"
      using w(3) by (simp_all add: writer_inv_def)
    with w show ?thesis by simp
  qed
  with cs show ?thesis by (auto simp: complete_recording_def)
qed

theorem recording_success_is_complete_witness:
  "\<exists>r. rc_result (demo_turns 6 (rc_Stop (demo_recording [(0, 10), (1, 10)]))) = Some r \<and>
     rec_success r \<and> (\<exists>cs :: u64 list. rec_packet_count r = word_of_nat (length cs))"
proof -
  let ?c = "demo_turns 6 (rc_Stop (demo_recording [(0, 10), (1, 10)]))"
  have "demo_outcome ?c = (Exited, Some True)" by code_simp
  from demo_outcome_success [OF this] obtain r where r: "rc_phase ?c = Exited" "rc_result ?c = Some r"
    "rec_success r" by (elim exE conjE)
  from recording_success_is_complete [OF demo_reachable r]
  have "\<exists>cs :: u64 list. rec_packet_count r = word_of_nat (length cs)" by (elim exE conjE) (rule exI)
  with r(2,3) show ?thesis by (intro exI [of _ r] conjI) assumption+
qed

text \<open>C29. The memory of a recording is bounded over every interleaving: the queue never holds more
  than 8192 packets, and the packets waiting for their partners are at most 8192 between two turns of
  the worker and never more than 8193.\<close>

theorem recording_memory_is_bounded:
  assumes "rc_reachable env fresh c"
  shows "length (rc_queue c) \<le> kMaxQueuePackets \<and> pending_count c \<le> kMaxQueuePackets + 1 \<and>
    (rc_phase c = Waiting \<longrightarrow> pending_count c \<le> kMaxQueuePackets)"
  using rc_reachable_inv [OF assms] by (auto simp: rc_inv_def)

theorem recording_memory_is_bounded_witness:
  "pending_count (demo_turns 2 (rc_Stop (demo_recording [(0, 10), (1, 10)]))) \<le> 8193"
  using recording_memory_is_bounded [OF demo_reachable, of 2 "[(0, 10), (1, 10)]"]
  by (simp add: kMaxQueuePackets_def)

text \<open>C30. A recording that has started and is stopped while one stream holds a packet that another
  has not delivered is lost as a whole: the result is a failure with an error and every writer is
  aborted without a trailer, however many frames were already recorded.\<close>

theorem unpaired_packet_loses_recording:
  assumes "rc_reachable env fresh c" and ph: "rc_phase c = Finishing" and nf: "\<not> rc_failed c"
    and st: "rc_started c" and ij: "i < length (rc_pending c)" "j < length (rc_pending c)"
    and k: "om_find (rc_pending c ! i) k \<noteq> None" "om_find (rc_pending c ! j) k = None"
  shows "\<exists>r. rc_result (finish_recording env fresh now c) = Some r \<and> \<not> rec_success r \<and> rec_error r \<noteq> []"
proof -
  note inv = rc_reachable_inv [OF assms(1)]
  have sz: "sizes_ok c" and rec: "failure_recorded c" and w: "worker_ok c"
    using inv ph nf by (auto simp: rc_inv_def)
  obtain ok g where f: "flush_common env c = (ok, g)" by fastforce
  let ?d = "last_flush env fresh c"
  note out = last_flush_out [OF refl sz, of env fresh] and recd = kept_inv [OF _ sz rec]
  have failed: "rc_failed ?d"
  proof (rule ccontr)
    assume nfd: "\<not> rc_failed ?d"
    have eval: "?d = (if \<not> ok then snd (rc_Fail ''no-common-recording-prefix'' g)
        else if rc_started g \<and> list_ex (\<lambda>m. m \<noteq> []) (rc_pending g)
        then snd (rc_Fail ''recording-unresolved-common-prefix'' g) else g)"
      using nf st f by (simp add: last_flush_def rc_FlushCommonPrefix_def)
    with nfd have ok: "ok" "?d = g" by (auto split: if_splits)
    obtain cs where cs: "in_step cs c" using w st by (auto simp: worker_ok_def)
    have "stores_filed c" using w by (simp add: worker_ok_def)
    from flush_common_out [OF f sz this cs] ok(1) ij k have "om_find (rc_pending g ! i) k \<noteq> None"
      "length (rc_pending g) = length (rc_pending c)" by (auto simp: kept_def)
    moreover have "\<forall>m \<in> set (rc_pending g). m = []" using out w nfd ok(2) by auto
    ultimately have "rc_pending g ! i = []" using ij(1) by (metis nth_mem)
    with \<open>om_find (rc_pending g ! i) k \<noteq> None\<close> show False by (simp add: om_find_def)
  qed
  have "failure_recorded ?d" using out w recd by blast
  with failed obtain old where old: "rc_result ?d = Some old" "\<not> rec_success old" "rec_error old \<noteq> []"
    by (auto simp: failure_recorded_def)
  let ?n = "length (rc_writers ?d)"
  let ?r = "empty_recording_result\<lparr>rec_paths := rc_paths ?d, rec_range := rc_range ?d,
    rec_packet_count := rc_packet_count ?d, rec_streams := replicate ?n empty_mkv_result\<rparr>"
  obtain r e where fw: "finalize_writers env [0..<?n] ?r ?d = (r, e)" by fastforce
  have "rc_result e = rc_result ?d" using finalize_writers_out [OF fw] by simp
  then have "rc_Finalize env now ?d = e"
    unfolding rc_Finalize_def Let_def fw prod.case using old by simp
  then show ?thesis using old \<open>rc_result e = rc_result ?d\<close> by (simp add: finish_recording_def)
qed

theorem unpaired_packet_loses_recording_witness:
  "\<exists>r. rc_result (demo_turns (Suc 7) (rc_Stop (demo_recording [(0, 10), (1, 10), (0, 30)]))) = Some r \<and>
     \<not> rec_success r"
proof -
  let ?c = "demo_turns 7 (rc_Stop (demo_recording [(0, 10), (1, 10), (0, 30)]))"
  have "(rc_phase ?c, rc_failed ?c, rc_started ?c, map (map fst) (rc_pending ?c)) =
      (Finishing, False, True, [[30], []])" by code_simp
  then have ev: "rc_phase ?c = Finishing" "\<not> rc_failed ?c" "rc_started ?c" "0 < length (rc_pending ?c)"
    "1 < length (rc_pending ?c)" "om_find (rc_pending ?c ! 0) 30 \<noteq> None" "om_find (rc_pending ?c ! 1) 30 = None"
    by (auto simp: om_find_def map_of_eq_None_iff map_eq_Cons_conv)
  have "demo_turns (Suc 7) c = worker_turn plain_muxer (\<lambda>_. ()) 5 (demo_turns 7 c)" for c
    unfolding demo_turns_def by (rule worker_turns_last)
  then have "demo_turns (Suc 7) (rc_Stop (demo_recording [(0, 10), (1, 10), (0, 30)])) =
      finish_recording plain_muxer (\<lambda>_. ()) 5 ?c"
    by (simp only: worker_turn_def ev(1) worker_phase.case)
  with unpaired_packet_loses_recording [OF demo_reachable ev, of 5] show ?thesis by auto
qed

lemma stop_and_join:
  assumes "rc_reachable env fresh c" and "rc_joinable c"
  shows "rc_phase (rc_StopAndJoin env fresh now c) = Exited \<and> \<not> rc_running (rc_StopAndJoin env fresh now c) \<and>
    (\<exists>r. rc_result (rc_StopAndJoin env fresh now c) = Some r) \<and>
    rc_reachable env fresh (rc_StopAndJoin env fresh now c)"
proof -
  let ?s = "rc_Stop c"
  have run: "rc_StopAndJoin env fresh now c = worker_turns env fresh now (join_turns ?s) ?s"
    using assms(2) by (simp add: rc_StopAndJoin_def Let_def)
  have reach: "rc_reachable env fresh (rc_StopAndJoin env fresh now c)"
    unfolding run by (intro reachable_turns rc_reachable.stepped [OF assms(1) rc_step.stop])
  have ph: "rc_phase c \<noteq> NoWorker" using reachable_joinable [OF assms(1)] assms(2) by blast
  then have "rc_phase ?s \<noteq> NoWorker" "rc_stop_requested ?s" "rc_queue ?s = rc_queue c"
    using assms(2) by (auto simp: rc_Stop_def)
  then have "rc_phase (rc_StopAndJoin env fresh now c) = Exited"
    unfolding run by (intro turns_end) (auto simp: join_turns_def split: worker_phase.splits intro: worker_phase.exhaust [of "rc_phase ?s"])
  with reachable_exited [OF reach] reach show ?thesis by auto
qed

lemma made_with_turns: "made_with (worker_turns env fresh now n c) = made_with c"
  by (induction n arbitrary: c) (simp_all add: made_with_turn)

lemma made_with_join: "made_with (rc_StopAndJoin env fresh now c) = (False, snd (made_with c))"
  by (simp add: rc_StopAndJoin_def Let_def made_with_turns) (simp add: made_with_def rc_Stop_def)

lemma stopped_is_left_alone:
  assumes "rc_reachable env fresh c" and "rc_joinable c"
  shows "rc_StopAndJoin env fresh now' (rc_StopAndJoin env fresh now c) = rc_StopAndJoin env fresh now c"
proof -
  have "\<not> rc_joinable (rc_StopAndJoin env fresh now c)"
    using made_with_join [of env fresh now c] by (simp add: made_with_def)
  with stop_and_join [OF assms, of now] show ?thesis
    by (simp add: rc_StopAndJoin_def [where now = now'] Let_def rc_Stop_def)
qed

text \<open>C19. Stopping a recording that was started and not yet stopped returns with a result: whatever the worker is
  doing and however many packets are queued, after the stop request it empties the queue, finishes and exits
  within two turns per queued packet and three more, and a further stop changes nothing. A stop by a caller that finds
  no worker to join, because another caller's stop has taken it or none was started, returns at once, without
  waiting for the worker: it leaves everything as it is but the request.\<close>

theorem stop_returns_with_a_result:
  assumes "rc_reachable env fresh c" and d: "d = rc_StopAndJoin env fresh now c"
  shows "if rc_joinable c
    then rc_phase d = Exited \<and> \<not> rc_running d \<and> rc_result d \<noteq> None \<and> rc_reachable env fresh d \<and>
      rc_StopAndJoin env fresh now' d = d
    else d = c \<or> d = c\<lparr>rc_stop_requested := True\<rparr>"
proof (cases "rc_joinable c")
  case True
  with stop_and_join [OF assms(1), of now] stopped_is_left_alone [OF assms(1)] show ?thesis
    by (auto simp: d)
next
  case False
  then have "c\<lparr>rc_joinable := False\<rparr> = c" by (cases c) simp
  then have "c\<lparr>rc_stop_requested := True, rc_joinable := False\<rparr> = c\<lparr>rc_stop_requested := True\<rparr>" by (cases c) simp
  with False show ?thesis by (simp add: d rc_StopAndJoin_def rc_Stop_def)
qed

theorem stop_returns_with_a_result_witness:
  "rc_result (rc_StopAndJoin plain_muxer (\<lambda>_. ()) 5 (demo_recording [(0, 10), (1, 10), (0, 30)])) \<noteq> None"
  using stop_returns_with_a_result [OF demo_recording_reachable refl, of "[(0, 10), (1, 10), (0, 30)]"
      plain_muxer "\<lambda>_. ()" 5 6] by (simp add: demo_recording_joinable)

end
