(* ===== verification/ReplayConfig.thy ===== *)
theory ReplayConfig
  imports Prelude
begin

text \<open>
  \<open>src/config\<close>: the replay settings of the OBS profile and the configuration derived from them. The
  profile (\<open>config_get_*\<close>, the profile path and the encoder settings file) is libobs and the file
  system: a record of readings. A null C string is \<open>None\<close>.
\<close>

subsection \<open>Data\<close>

datatype ReplayOutputMode = Simple | Advanced

definition kDefaultReplayDurationSeconds :: u32 where
  "kDefaultReplayDurationSeconds = 20"

definition kDefaultReplayMemoryMegabytes :: usize where
  "kDefaultReplayMemoryMegabytes = 512"

definition kReplayEmergencyMemoryBudgetBytes :: usize where
  "kReplayEmergencyMemoryBudgetBytes = 30 * 1024 * 1024"

record ReplayProfileValues =
  output_mode :: ReplayOutputMode
  profile_replay_enabled :: bool
  stock_backend_available :: bool
  stock_memory_limit_applies :: bool
  duration_seconds :: u32
  memory_megabytes :: usize

definition default_profile_values :: ReplayProfileValues where
  "default_profile_values = \<lparr>output_mode = Simple, profile_replay_enabled = False,
     stock_backend_available = True, stock_memory_limit_applies = True,
     duration_seconds = kDefaultReplayDurationSeconds, memory_megabytes = kDefaultReplayMemoryMegabytes\<rparr>"

record ReplayConfiguration =
  replay_enabled :: bool
  target_duration_ns :: u64
  memory_budget_bytes :: usize
  memory_limit_configured :: bool

subsection \<open>Deriving the configuration\<close>

definition MakeReplayConfiguration :: "ReplayProfileValues \<Rightarrow> ReplayConfiguration" where
  "MakeReplayConfiguration v =
     (let seconds = (if duration_seconds v = 0 then 1 else ucast (duration_seconds v)) :: u64;
          megabytes = (if memory_megabytes v = 0 then 1 else memory_megabytes v);
          fits = stock_memory_limit_applies v \<and> megabytes \<le> max_u64 div (1024 * 1024)
      in \<lparr>replay_enabled = profile_replay_enabled v \<and> stock_backend_available v,
          target_duration_ns = (if seconds > max_u64 div 1000000000 then max_u64 else seconds * 1000000000),
          memory_budget_bytes = (if fits then megabytes * 1024 * 1024 else kReplayEmergencyMemoryBudgetBytes),
          memory_limit_configured = (if fits then stock_memory_limit_applies v else False)\<rparr>)"

subsection \<open>Reading the profile\<close>

record obs_profile =
  config_get_string :: "string \<Rightarrow> string \<Rightarrow> string option"
  config_get_bool :: "string \<Rightarrow> string \<Rightarrow> bool"
  config_get_int :: "string \<Rightarrow> string \<Rightarrow> i64"
  profile_path :: "string option"
  settings_rate_control :: "string \<Rightarrow> string \<Rightarrow> string option option"

definition IsBitrateRateControl :: "string option \<Rightarrow> bool" where
  "IsBitrateRateControl rate_control =
     (case rate_control of
        None \<Rightarrow> False
      | Some r \<Rightarrow> r = ''CBR'' \<or> r = ''VBR'' \<or> r = ''ABR'' \<or> r = ''cbr'' \<or> r = ''vbr'' \<or> r = ''abr'')"

text \<open>\<open>settings_rate_control path name\<close> is \<open>None\<close> when the settings file cannot be loaded.\<close>

definition ReadAdvancedMemoryLimitApplies :: "obs_profile \<Rightarrow> string option \<Rightarrow> string option \<Rightarrow> bool" where
  "ReadAdvancedMemoryLimitApplies p path record_encoder =
     (let settings_name = (if record_encoder = Some ''none'' then ''streamEncoder.json'' else ''recordEncoder.json'')
      in case path of
           None \<Rightarrow> True
         | Some dir \<Rightarrow>
             (if dir = [] then True
              else (case settings_rate_control p dir settings_name of
                  None \<Rightarrow> True
                | Some rate_control \<Rightarrow> \<not> IsBitrateRateControl rate_control)))"

definition ReadObsReplayConfiguration :: "obs_profile option \<Rightarrow> ReplayConfiguration" where
  "ReadObsReplayConfiguration profile =
     (case profile of
        None \<Rightarrow> MakeReplayConfiguration default_profile_values
      | Some p \<Rightarrow>
          (let mode = (if config_get_string p ''Output'' ''Mode'' = Some ''Advanced'' then Advanced else Simple);
               v = default_profile_values\<lparr>output_mode := mode\<rparr>
           in MakeReplayConfiguration
                (if mode = Simple
                 then
                   (let quality = config_get_string p ''SimpleOutput'' ''RecQuality''
                    in v\<lparr>profile_replay_enabled := config_get_bool p ''SimpleOutput'' ''RecRB'',
                         duration_seconds := ucast (config_get_int p ''SimpleOutput'' ''RecRBTime''),
                         memory_megabytes := config_get_int p ''SimpleOutput'' ''RecRBSize'',
                         stock_memory_limit_applies := quality \<noteq> Some ''Stream'',
                         stock_backend_available := quality \<noteq> Some ''Lossless''\<rparr>)
                 else
                   v\<lparr>profile_replay_enabled := config_get_bool p ''AdvOut'' ''RecRB'',
                     duration_seconds := ucast (config_get_int p ''AdvOut'' ''RecRBTime''),
                     memory_megabytes := config_get_int p ''AdvOut'' ''RecRBSize'',
                     stock_backend_available := config_get_string p ''AdvOut'' ''RecType'' \<noteq> Some ''FFmpeg'',
                     stock_memory_limit_applies := ReadAdvancedMemoryLimitApplies p (profile_path p)
                       (config_get_string p ''AdvOut'' ''RecEncoder'')\<rparr>)))"

subsection \<open>The arithmetic never wraps\<close>

lemma unat_seconds: "unat (ucast s :: u64) = unat s" for s :: u32
  by (simp add: unsigned_ucast_eq take_bit_nat_eq_self unsigned_less [THEN less_le_trans])

lemma unat_mult_bound: "unat a * unat b < 2 ^ 64 \<Longrightarrow> unat (a * b) = unat a * unat b" for a b :: u64
  using unat_mult_lem [of a b] by simp

definition seconds_of :: "ReplayProfileValues \<Rightarrow> u64" where
  "seconds_of v = (if duration_seconds v = 0 then 1 else ucast (duration_seconds v))"

definition megabytes_of :: "ReplayProfileValues \<Rightarrow> usize" where
  "megabytes_of v = (if memory_megabytes v = 0 then 1 else memory_megabytes v)"

lemma unat_seconds_of: "unat (seconds_of v) = max 1 (unat (duration_seconds v))" "unat (seconds_of v) < 2 ^ 32"
proof -
  have "0 < unat (duration_seconds v)" if "duration_seconds v \<noteq> 0" using that by (simp add: unat_gt_0)
  then show "unat (seconds_of v) = max 1 (unat (duration_seconds v))"
    by (auto simp: seconds_of_def unat_seconds)
  then show "unat (seconds_of v) < 2 ^ 32" using unsigned_less [of "duration_seconds v"] by simp
qed

lemma unat_megabytes_of: "unat (megabytes_of v) = max 1 (unat (memory_megabytes v))"
proof -
  have "0 < unat (memory_megabytes v)" if "memory_megabytes v \<noteq> 0" using that by (simp add: unat_gt_0)
  then show ?thesis by (auto simp: megabytes_of_def)
qed

lemma limits: "unat (max_u64 div 1000000000) = 18446744073" "unat (max_u64 div (1024 * 1024)) = 2 ^ 44 - 1"
  by (simp_all add: unat_div_distrib unat_max_u64)

text \<open>The derived configuration is the exact product of what the profile says: the duration of any
  32-bit number of seconds fits (the code's saturation is never taken), the budget is the whole
  number of megabytes whenever the limit is reported as configured, and otherwise the emergency
  budget; a zero in the profile counts as one.\<close>

theorem replay_configuration_is_exact:
  "unat (target_duration_ns (MakeReplayConfiguration v)) = max 1 (unat (duration_seconds v)) * 10 ^ 9 \<and>
   unat (memory_budget_bytes (MakeReplayConfiguration v)) =
     (if memory_limit_configured (MakeReplayConfiguration v)
      then max 1 (unat (memory_megabytes v)) * 2 ^ 20 else 30 * 2 ^ 20) \<and>
   (memory_limit_configured (MakeReplayConfiguration v) \<longleftrightarrow>
      stock_memory_limit_applies v \<and> unat (memory_megabytes v) < 2 ^ 44)"
proof -
  let ?s = "seconds_of v" and ?m = "megabytes_of v"
  have make: "MakeReplayConfiguration v =
      (let fits = stock_memory_limit_applies v \<and> ?m \<le> max_u64 div (1024 * 1024)
       in \<lparr>replay_enabled = profile_replay_enabled v \<and> stock_backend_available v,
          target_duration_ns = (if ?s > max_u64 div 1000000000 then max_u64 else ?s * 1000000000),
          memory_budget_bytes = (if fits then ?m * 1024 * 1024 else kReplayEmergencyMemoryBudgetBytes),
          memory_limit_configured = (if fits then stock_memory_limit_applies v else False)\<rparr>)"
    by (simp only: MakeReplayConfiguration_def Let_def seconds_of_def megabytes_of_def)
  have "unat ?s \<le> 18446744073" using unat_seconds_of(2) [of v] by simp
  then have "\<not> ?s > max_u64 div 1000000000" by (simp add: word_less_nat_alt limits)
  moreover have "unat (?s * 1000000000) = unat ?s * 10 ^ 9"
    using unat_mult_bound [of ?s 1000000000] unat_seconds_of(2) [of v] by simp
  moreover have fits: "?m \<le> max_u64 div (1024 * 1024) \<longleftrightarrow> unat (memory_megabytes v) < 2 ^ 44"
    by (simp only: word_le_nat_alt limits unat_megabytes_of) auto
  moreover have "unat (?m * 1024 * 1024) = max 1 (unat (memory_megabytes v)) * 2 ^ 20"
    if "unat (memory_megabytes v) < 2 ^ 44"
    using that unat_mult_bound [of ?m "1024 * 1024"] by (simp add: unat_megabytes_of mult.assoc)
  ultimately show ?thesis
    unfolding make Let_def using unat_seconds_of(1) [of v]
    by (auto simp: kReplayEmergencyMemoryBudgetBytes_def)
qed

end
