(* ===== verification/Topology.thy ===== *)
theory Topology
  imports Prelude
begin

text \<open>
  \<open>src/topology\<close>: which streams there are. Discovery lists the top-level scenes of the collection; the
  model turns the list into a snapshot (Master first), keeps the participant set of a running capture
  epoch fixed and stages what changes meanwhile.
\<close>

subsection \<open>Data\<close>

datatype StreamKind = Master | Scene

record StreamIdentity =
  kind :: StreamKind
  key :: string

definition StreamIdentity_Master :: StreamIdentity where
  "StreamIdentity_Master = \<lparr>kind = Master, key = ''master''\<rparr>"

definition StreamIdentity_Scene :: "string \<Rightarrow> StreamIdentity" where
  "StreamIdentity_Scene uuid = \<lparr>kind = Scene, key = uuid\<rparr>"

record DiscoveredScene =
  uuid :: string
  scene_name :: string

record SceneTopologyEntry =
  identity :: StreamIdentity
  display_name :: string
  collection_order :: nat
  recording_enabled :: bool
  entry_replay_enabled :: bool

record SceneTopologySnapshot =
  entries :: "SceneTopologyEntry list"
  generation :: u64

datatype TopologyUpdateResult = Unchanged | Applied | Staged

record SceneTopologyModel =
  current :: SceneTopologySnapshot
  active_epoch :: SceneTopologySnapshot
  pending_topology :: "SceneTopologySnapshot option"
  capture_epoch_active :: bool

definition StreamKindName :: "StreamKind \<Rightarrow> string" where
  "StreamKindName k = (if k = Master then ''master'' else ''scene'')"

definition StreamIdentityLabel :: "StreamIdentity \<Rightarrow> string" where
  "StreamIdentityLabel i = (if kind i = Master then ''master'' else ''scene:'' @ key i)"

subsection \<open>Discovery\<close>

text \<open>
  The callback of \<open>obs_enum_scenes\<close>: scenes without a public UUID or name, or whose reference cannot
  be taken, are skipped. A scene is what libobs answers for it.
\<close>

record obs_scene =
  source_uuid :: "string option"
  source_name :: "string option"
  source_ref :: bool

definition CollectScene :: "obs_scene \<Rightarrow> DiscoveredScene list \<Rightarrow> DiscoveredScene list" where
  "CollectScene s scenes =
     (case (source_uuid s, source_name s) of
        (Some u, Some n) \<Rightarrow>
          (if u = [] \<or> n = [] then scenes
           else if \<not> source_ref s then scenes
           else scenes @ [\<lparr>uuid = u, scene_name = n\<rparr>])
      | _ \<Rightarrow> scenes)"

definition DiscoverObsScenes :: "obs_scene list \<Rightarrow> DiscoveredScene list" where
  "DiscoverObsScenes ss = fold CollectScene ss []"

definition master_entry :: SceneTopologyEntry where
  "master_entry = \<lparr>identity = StreamIdentity_Master, display_name = ''Master/Program'', collection_order = 0,
     recording_enabled = True, entry_replay_enabled = True\<rparr>"

definition names_scene :: "string \<Rightarrow> SceneTopologyEntry \<Rightarrow> bool" where
  "names_scene u e \<longleftrightarrow> kind (identity e) = Scene \<and> key (identity e) = u"

fun add_scenes :: "nat \<Rightarrow> DiscoveredScene list \<Rightarrow> SceneTopologyEntry list \<Rightarrow> SceneTopologyEntry list" where
  "add_scenes i [] es = es"
| "add_scenes i (s # ss) es =
     (if uuid s = [] \<or> list_ex (names_scene (uuid s)) es then add_scenes (Suc i) ss es
      else add_scenes (Suc i) ss (es @ [\<lparr>identity = StreamIdentity_Scene (uuid s), display_name = scene_name s,
             collection_order = i + 1, recording_enabled = True, entry_replay_enabled = True\<rparr>]))"

definition BuildSnapshot :: "DiscoveredScene list \<Rightarrow> u64 \<Rightarrow> SceneTopologySnapshot" where
  "BuildSnapshot scenes gen = \<lparr>entries = add_scenes 0 scenes [master_entry], generation = gen\<rparr>"

definition new_topology :: SceneTopologyModel where
  "new_topology = \<lparr>current = BuildSnapshot [] 0, active_epoch = BuildSnapshot [] 0,
     pending_topology = None, capture_epoch_active = False\<rparr>"

subsection \<open>Updates\<close>

definition same_entry :: "SceneTopologyEntry \<Rightarrow> SceneTopologyEntry \<Rightarrow> bool" where
  "same_entry a b \<longleftrightarrow> \<not> (identity a \<noteq> identity b \<or> collection_order a \<noteq> collection_order b \<or>
     recording_enabled a \<noteq> recording_enabled b \<or> entry_replay_enabled a \<noteq> entry_replay_enabled b)"

definition SameTopology :: "SceneTopologySnapshot \<Rightarrow> SceneTopologySnapshot \<Rightarrow> bool" where
  "SameTopology l r \<longleftrightarrow> length (entries l) = length (entries r) \<and>
     list_all (\<lambda>(a, b). same_entry a b) (zip (entries l) (entries r))"

definition UpdateDisplayNames :: "SceneTopologySnapshot \<Rightarrow> SceneTopologySnapshot \<Rightarrow> SceneTopologySnapshot" where
  "UpdateDisplayNames target discovered =
     target\<lparr>entries := map (\<lambda>e. case find (\<lambda>d. identity d = identity e) (entries discovered) of
         None \<Rightarrow> e | Some d \<Rightarrow> e\<lparr>display_name := display_name d\<rparr>) (entries target)\<rparr>"

definition ApplyDiscovery :: "DiscoveredScene list \<Rightarrow> bool \<Rightarrow> SceneTopologyModel \<Rightarrow>
    TopologyUpdateResult \<times> SceneTopologyModel" where
  "ApplyDiscovery scenes epoch_active m =
     (let discovered = BuildSnapshot scenes (generation (current m) + 1);
          same = SameTopology (current m) discovered \<and>
            list_all (\<lambda>(l, r). display_name l = display_name r) (zip (entries (current m)) (entries discovered))
      in if same then (Unchanged, m)
         else if \<not> epoch_active then (Applied, m\<lparr>current := discovered, pending_topology := None\<rparr>)
         else (Staged, m\<lparr>current := UpdateDisplayNames (current m) discovered,
                        pending_topology := Some discovered\<rparr>))"

definition BeginCaptureEpoch :: "SceneTopologyModel \<Rightarrow> SceneTopologyModel" where
  "BeginCaptureEpoch m =
     (if \<not> capture_epoch_active m then m\<lparr>active_epoch := current m, capture_epoch_active := True\<rparr> else m)"

definition EndCaptureEpoch :: "SceneTopologyModel \<Rightarrow> SceneTopologySnapshot option \<times> SceneTopologyModel" where
  "EndCaptureEpoch m =
     (if \<not> capture_epoch_active m then (None, m)
      else
        (let m = m\<lparr>capture_epoch_active := False\<rparr>
         in case pending_topology m of
              None \<Rightarrow> (None, m)
            | Some p \<Rightarrow> (Some p, m\<lparr>current := p, pending_topology := None, active_epoch := p\<rparr>)))"

definition has_pending :: "SceneTopologyModel \<Rightarrow> bool" where
  "has_pending m \<longleftrightarrow> pending_topology m \<noteq> None"

end
