(* ===== verification/TopologyProperties.thy ===== *)
theory TopologyProperties
  imports Topology
begin

text \<open>
  The snapshots discovery builds, the participant set of a capture epoch over every sequence of
  calls, and the staged topology that outlives the change it stood for.
\<close>

subsection \<open>Snapshots\<close>

text \<open>The scenes that become streams: the first of every non-empty UUID, with its position.\<close>

fun first_scenes :: "nat \<Rightarrow> string list \<Rightarrow> DiscoveredScene list \<Rightarrow> (nat \<times> DiscoveredScene) list" where
  "first_scenes i seen [] = []"
| "first_scenes i seen (s # ss) =
     (if uuid s = [] \<or> uuid s \<in> set seen then first_scenes (Suc i) seen ss
      else (i, s) # first_scenes (Suc i) (uuid s # seen) ss)"

definition scene_entry :: "nat \<times> DiscoveredScene \<Rightarrow> SceneTopologyEntry" where
  "scene_entry e = \<lparr>identity = StreamIdentity_Scene (uuid (snd e)), display_name = scene_name (snd e),
     collection_order = fst e + 1, recording_enabled = True, entry_replay_enabled = True\<rparr>"

lemma add_scenes_first:
  "(\<And>u. list_ex (names_scene u) es \<longleftrightarrow> u \<in> set seen) \<Longrightarrow>
     add_scenes i ss es = es @ map scene_entry (first_scenes i seen ss)"
proof (induction ss arbitrary: i es seen)
  case (Cons s ss)
  let ?e = "scene_entry (i, s)"
  have step: "list_ex (names_scene u) (es @ [?e]) \<longleftrightarrow> u \<in> set (uuid s # seen)" for u
    unfolding list_ex_append Cons.prems by (auto simp: names_scene_def scene_entry_def StreamIdentity_Scene_def)
  show ?case
    using Cons.IH [OF Cons.prems] Cons.IH [of "es @ [?e]" "uuid s # seen", OF step] Cons.prems
    by (simp add: scene_entry_def)
qed simp

lemma snapshot_entries:
  "entries (BuildSnapshot scenes g) = master_entry # map scene_entry (first_scenes 0 [] scenes)"
  using add_scenes_first [of "[master_entry]" "[]" 0 scenes]
  by (simp add: BuildSnapshot_def names_scene_def master_entry_def StreamIdentity_Master_def)

lemma first_scenes_facts:
  "e \<in> set (first_scenes i seen ss) \<Longrightarrow> i \<le> fst e \<and> fst e < i + length ss \<and> snd e = ss ! (fst e - i) \<and>
     uuid (snd e) \<noteq> [] \<and> uuid (snd e) \<notin> set seen"
proof (induction ss arbitrary: i seen)
  case (Cons s ss)
  show ?case
  proof (cases "e = (i, s) \<and> uuid s \<noteq> [] \<and> uuid s \<notin> set seen")
    case False
    with Cons.prems have "e \<in> set (first_scenes (Suc i) seen ss) \<or>
        e \<in> set (first_scenes (Suc i) (uuid s # seen) ss)" by (auto split: if_splits)
    then obtain seen' where "e \<in> set (first_scenes (Suc i) seen' ss)" "set seen \<subseteq> set seen'"
      using set_subset_Cons subset_refl by metis
    with Cons.IH [OF this(1)] show ?thesis by (auto simp: nth_Cons' Suc_diff_le)
  qed auto
qed simp

lemma first_scenes_distinct:
  "distinct (map (uuid \<circ> snd) (first_scenes i seen ss)) \<and> sorted_wrt (<) (map fst (first_scenes i seen ss))"
proof (induction ss arbitrary: i seen)
  case (Cons s ss)
  have "i < fst e \<and> uuid (snd e) \<noteq> uuid s" if "e \<in> set (first_scenes (Suc i) (uuid s # seen) ss)" for e
    using first_scenes_facts [OF that] by auto
  then have "list_all (\<lambda>e. i < fst e \<and> uuid (snd e) \<noteq> uuid s) (first_scenes (Suc i) (uuid s # seen) ss)"
    by (simp add: list_all_iff)
  with Cons.IH [of "Suc i" seen] Cons.IH [of "Suc i" "uuid s # seen"] show ?case
    by (auto simp: list_all_iff)
qed simp

lemma first_scenes_cover:
  "u \<noteq> [] \<Longrightarrow> u \<notin> set seen \<Longrightarrow> u \<in> uuid ` set ss \<Longrightarrow> u \<in> (uuid \<circ> snd) ` set (first_scenes i seen ss)"
proof (induction ss arbitrary: i seen)
  case (Cons s ss)
  then show ?case by (cases "uuid s = u") auto
qed simp

lemma first_scenes_uuids: "(uuid \<circ> snd) ` set (first_scenes 0 [] scenes) = uuid ` set scenes - {[]}"
proof (intro equalityI subsetI)
  fix u assume "u \<in> (uuid \<circ> snd) ` set (first_scenes 0 [] scenes)"
  then obtain e where e: "e \<in> set (first_scenes 0 [] scenes)" "u = uuid (snd e)" by auto
  from first_scenes_facts [OF e(1)] have "snd e \<in> set scenes" "uuid (snd e) \<noteq> []"
    by (metis add_0 diff_zero nth_mem, blast)
  with e(2) show "u \<in> uuid ` set scenes - {[]}" by simp
next
  fix u assume "u \<in> uuid ` set scenes - {[]}"
  then show "u \<in> (uuid \<circ> snd) ` set (first_scenes 0 [] scenes)" by (intro first_scenes_cover) auto
qed

lemma snapshot_identities_distinct: "distinct (map identity (entries (BuildSnapshot scenes g)))"
proof -
  let ?fs = "first_scenes 0 [] scenes"
  have ids: "map identity (map scene_entry ?fs) = map StreamIdentity_Scene (map (uuid \<circ> snd) ?fs)"
    by (simp add: scene_entry_def)
  have "distinct (map StreamIdentity_Scene us)" if "distinct us" for us
    using that by (simp add: distinct_map inj_on_def StreamIdentity_Scene_def)
  then have "distinct (map identity (map scene_entry ?fs))"
    unfolding ids using first_scenes_distinct [of 0 "[]" scenes] by blast
  moreover have "StreamIdentity_Master \<notin> set (map identity (map scene_entry ?fs))"
    by (auto simp: scene_entry_def StreamIdentity_Master_def StreamIdentity_Scene_def)
  ultimately show ?thesis
    unfolding snapshot_entries by (simp add: master_entry_def)
qed

text \<open>A topology snapshot is Master followed by one stream per distinct non-empty UUID of the
  discovered scenes, in collection order, each with the name it was discovered under at its position;
  no two streams have the same identity.\<close>

theorem snapshot_is_master_and_scenes:
  "\<exists>es. entries (BuildSnapshot scenes g) = master_entry # es \<and>
     distinct (map identity (master_entry # es)) \<and> sorted_wrt (<) (map collection_order (master_entry # es)) \<and>
     key ` identity ` set es = uuid ` set scenes - {[]} \<and>
     (\<forall>e \<in> set es. kind (identity e) = Scene \<and> collection_order e \<le> length scenes \<and>
        uuid (scenes ! (collection_order e - 1)) = key (identity e) \<and>
        scene_name (scenes ! (collection_order e - 1)) = display_name e)"
proof -
  let ?fs = "first_scenes 0 [] scenes"
  have distinct: "distinct (map identity (master_entry # map scene_entry ?fs))"
    using snapshot_identities_distinct [of scenes g] unfolding snapshot_entries .
  have order: "map collection_order (map scene_entry ?fs) = map Suc (map fst ?fs)"
    by (simp add: scene_entry_def)
  have "sorted_wrt (<) (map collection_order (map scene_entry ?fs))"
    unfolding order using first_scenes_distinct [of 0 "[]" scenes] by (simp add: sorted_wrt_map)
  moreover have "\<forall>n \<in> set (map collection_order (map scene_entry ?fs)). 0 < n" unfolding order by simp
  ultimately have sorted: "sorted_wrt (<) (map collection_order (master_entry # map scene_entry ?fs))"
    unfolding list.map(2) sorted_wrt.simps by (simp add: master_entry_def)
  have "key ` identity ` set (map scene_entry ?fs) = (uuid \<circ> snd) ` set ?fs"
    by (force simp: scene_entry_def StreamIdentity_Scene_def)
  then have keys: "key ` identity ` set (map scene_entry ?fs) = uuid ` set scenes - {[]}"
    using first_scenes_uuids by (rule trans)
  have facts: "kind (identity e) = Scene \<and> collection_order e \<le> length scenes \<and>
        uuid (scenes ! (collection_order e - 1)) = key (identity e) \<and>
        scene_name (scenes ! (collection_order e - 1)) = display_name e"
    if e: "e \<in> set (map scene_entry ?fs)" for e
  proof -
    from e obtain x where x: "x \<in> set ?fs" "e = scene_entry x" by auto
    from first_scenes_facts [OF x(1)] have "fst x < length scenes" "scenes ! fst x = snd x" by simp_all
    with x(2) show ?thesis by (simp add: scene_entry_def StreamIdentity_Scene_def)
  qed
  show ?thesis
    unfolding snapshot_entries using distinct sorted keys facts
    by (intro exI [of _ "map scene_entry ?fs"] conjI ballI) (rule refl | assumption | blast)+
qed

theorem snapshot_is_master_and_scenes_witness:
  "\<exists>es. entries (BuildSnapshot [\<lparr>uuid = ''u'', scene_name = ''A''\<rparr>, \<lparr>uuid = [], scene_name = ''B''\<rparr>] 0) =
     master_entry # es \<and> key ` identity ` set es = {''u''}"
proof -
  let ?ds = "[\<lparr>uuid = ''u'', scene_name = ''A''\<rparr>, \<lparr>uuid = [], scene_name = ''B''\<rparr>] :: DiscoveredScene list"
  obtain es where "entries (BuildSnapshot ?ds 0) = master_entry # es" "key ` identity ` set es = uuid ` set ?ds - {[]}"
    using snapshot_is_master_and_scenes [of ?ds 0] by blast
  then show ?thesis by (intro exI [of _ es]) auto
qed

subsection \<open>Capture epochs\<close>

text \<open>The calls of the runtime: discovery is told whether an epoch is active by the model itself.\<close>

inductive topology_run :: "SceneTopologyModel \<Rightarrow> bool" where
  created: "topology_run new_topology"
| discovered: "topology_run m \<Longrightarrow> topology_run (snd (ApplyDiscovery scenes (capture_epoch_active m) m))"
| began: "topology_run m \<Longrightarrow> topology_run (BeginCaptureEpoch m)"
| ended: "topology_run m \<Longrightarrow> topology_run (snd (EndCaptureEpoch m))"

definition participants :: "SceneTopologySnapshot \<Rightarrow> (StreamIdentity \<times> nat \<times> bool \<times> bool) list" where
  "participants s = map (\<lambda>e. (identity e, collection_order e, recording_enabled e, entry_replay_enabled e)) (entries s)"

lemma SameTopology_participants: "SameTopology l r \<longleftrightarrow> participants l = participants r"
proof -
  have "length xs = length ys \<Longrightarrow> list_all (\<lambda>(a, b). same_entry a b) (zip xs ys) \<longleftrightarrow>
      map (\<lambda>e. (identity e, collection_order e, recording_enabled e, entry_replay_enabled e)) xs =
      map (\<lambda>e. (identity e, collection_order e, recording_enabled e, entry_replay_enabled e)) ys" for xs ys
    by (induction xs ys rule: list_induct2) (auto simp: same_entry_def)
  then show ?thesis
    unfolding SameTopology_def participants_def
    by (cases "length (entries l) = length (entries r)") (auto dest: map_eq_imp_length_eq)
qed

lemma UpdateDisplayNames_participants [simp]: "participants (UpdateDisplayNames t d) = participants t"
  by (simp add: participants_def UpdateDisplayNames_def split: option.split)

text \<open>The comparison of \<open>ApplyDiscovery\<close>: the streams are the same, names included.\<close>

lemma same_snapshot:
  "SameTopology l r \<and> list_all (\<lambda>(a, b). display_name a = display_name b) (zip (entries l) (entries r)) \<longleftrightarrow>
     entries l = entries r"
proof -
  have "length xs = length ys \<Longrightarrow> list_all (\<lambda>(a, b). same_entry a b) (zip xs ys) \<and>
      list_all (\<lambda>(a, b). display_name a = display_name b) (zip xs ys) \<longleftrightarrow> xs = ys" for xs ys
    by (induction xs ys rule: list_induct2) (auto simp: same_entry_def)
  then show ?thesis
    unfolding SameTopology_def using arg_cong [of "entries l" "entries r" length] by blast
qed

definition topology_ok :: "SceneTopologyModel \<Rightarrow> bool" where
  "topology_ok m \<longleftrightarrow> (capture_epoch_active m \<longrightarrow> participants (current m) = participants (active_epoch m)) \<and>
     (\<not> capture_epoch_active m \<longrightarrow> pending_topology m = None) \<and>
     (\<exists>scenes. participants (current m) = participants (BuildSnapshot scenes 0)) \<and>
     (\<forall>p. pending_topology m = Some p \<longrightarrow> (\<exists>scenes g. p = BuildSnapshot scenes g))"

lemma participants_generation: "participants (BuildSnapshot scenes g) = participants (BuildSnapshot scenes 0)"
  by (simp add: participants_def BuildSnapshot_def)

lemma topology_run_ok: "topology_run m \<Longrightarrow> topology_ok m"
proof (induction rule: topology_run.induct)
  case created
  then show ?case by (auto simp: topology_ok_def new_topology_def)
next
  case (discovered m scenes)
  then show ?case
    by (auto simp: topology_ok_def ApplyDiscovery_def Let_def intro: participants_generation)
next
  case (began m)
  then show ?case by (auto simp: topology_ok_def BeginCaptureEpoch_def)
next
  case (ended m)
  then show ?case
    by (auto simp: topology_ok_def EndCaptureEpoch_def Let_def split: option.splits intro: participants_generation)
qed

text \<open>C11. The participants of a capture epoch are fixed from its begin to its end: whatever is
  discovered while it runs, the active snapshot is untouched, the current one keeps the same streams
  in the same order with the same participation, and a different stream set is only staged; outside
  an epoch nothing is staged.\<close>

theorem epoch_participants_are_fixed:
  assumes "topology_run m"
  shows "(capture_epoch_active m \<longrightarrow>
      participants (current m) = participants (active_epoch m) \<and>
      active_epoch (snd (ApplyDiscovery scenes True m)) = active_epoch m \<and>
      (fst (ApplyDiscovery scenes True m) = Staged \<longleftrightarrow> current m \<noteq> BuildSnapshot scenes (generation (current m))) \<and>
      fst (ApplyDiscovery scenes True m) \<noteq> Applied \<and> BeginCaptureEpoch m = m) \<and>
    (\<not> capture_epoch_active m \<longrightarrow> \<not> has_pending m \<and>
      active_epoch (BeginCaptureEpoch m) = current m \<and> EndCaptureEpoch m = (None, m) \<and>
      participants (current (snd (ApplyDiscovery scenes False m))) = participants (BuildSnapshot scenes 0))"
proof -
  have gen: "BuildSnapshot scenes g = (BuildSnapshot scenes h)\<lparr>generation := g\<rparr>" for g h
    by (simp add: BuildSnapshot_def)
  have eq: "entries (current m) = entries (BuildSnapshot scenes g) \<longleftrightarrow>
      current m = BuildSnapshot scenes (generation (current m))" for g
    by (cases "current m") (auto simp: BuildSnapshot_def)
  have parts: "participants (current m) = participants (BuildSnapshot scenes 0)"
    if "current m = BuildSnapshot scenes (generation (current m))"
    by (subst that) (rule participants_generation)
  note run = topology_run_ok [OF assms, unfolded topology_ok_def]
  show ?thesis
    using run unfolding ApplyDiscovery_def Let_def same_snapshot eq
    by (auto simp: BeginCaptureEpoch_def EndCaptureEpoch_def has_pending_def intro: participants_generation dest: parts)
qed

theorem epoch_participants_are_fixed_witness:
  "fst (ApplyDiscovery [\<lparr>uuid = ''u'', scene_name = ''A''\<rparr>] True (BeginCaptureEpoch new_topology)) = Staged"
proof -
  have "topology_run (BeginCaptureEpoch new_topology)" by (intro topology_run.intros)
  from epoch_participants_are_fixed [OF this, of "[\<lparr>uuid = ''u'', scene_name = ''A''\<rparr>]"]
  show ?thesis by (simp add: BeginCaptureEpoch_def new_topology_def BuildSnapshot_def names_scene_def
      master_entry_def StreamIdentity_Master_def)
qed

text \<open>A staged topology is never withdrawn: when a later discovery of the same epoch finds the
  current streams again (a scene was added and removed, or removed and restored by an undo), the
  answer is \<open>Unchanged\<close> and the end of the epoch still installs the topology of the earlier
  discovery, which the collection no longer has.\<close>

theorem staged_topology_is_never_withdrawn:
  assumes "capture_epoch_active m" and "ApplyDiscovery added True m = (Staged, m1)"
    and "ApplyDiscovery back True m1 = (Unchanged, m2)" and "EndCaptureEpoch m2 = (installed, m3)"
  shows "m2 = m1 \<and> installed = Some (BuildSnapshot added (generation (current m) + 1)) \<and>
    current m3 = BuildSnapshot added (generation (current m) + 1) \<and>
    entries (current m1) = entries (BuildSnapshot back 0)"
proof -
  have "pending_topology m1 = Some (BuildSnapshot added (generation (current m) + 1))"
    "capture_epoch_active m1"
    using assms(1,2) by (auto simp: ApplyDiscovery_def Let_def split: if_splits)
  moreover have "m2 = m1" and same: "SameTopology (current m1) (BuildSnapshot back (generation (current m1) + 1))"
    "list_all (\<lambda>(l, r). display_name l = display_name r)
       (zip (entries (current m1)) (entries (BuildSnapshot back (generation (current m1) + 1))))"
    using assms(3) by (auto simp: ApplyDiscovery_def Let_def split: if_splits)
  moreover from same have "entries (current m1) = entries (BuildSnapshot back 0)"
    using same_snapshot [of "current m1" "BuildSnapshot back (generation (current m1) + 1)"]
    by (simp add: BuildSnapshot_def)
  ultimately show ?thesis using assms(4) by (auto simp: EndCaptureEpoch_def Let_def)
qed

theorem staged_topology_is_never_withdrawn_witness:
  "\<exists>m1 m2 installed m3.
     ApplyDiscovery [\<lparr>uuid = ''u'', scene_name = ''A''\<rparr>] True (BeginCaptureEpoch new_topology) = (Staged, m1) \<and>
     ApplyDiscovery [] True m1 = (Unchanged, m2) \<and> EndCaptureEpoch m2 = (installed, m3) \<and>
     length (entries (current m3)) = 2"
proof -
  let ?m = "BeginCaptureEpoch new_topology"
  obtain r1 m1 where 1: "ApplyDiscovery [\<lparr>uuid = ''u'', scene_name = ''A''\<rparr>] True ?m = (r1, m1)" by fastforce
  obtain r2 m2 where 2: "ApplyDiscovery [] True m1 = (r2, m2)" by fastforce
  obtain i m3 where 3: "EndCaptureEpoch m2 = (i, m3)" by fastforce
  have "fst (ApplyDiscovery [\<lparr>uuid = ''u'', scene_name = ''A''\<rparr>] True ?m) = Staged"
    "fst (ApplyDiscovery [] True (snd (ApplyDiscovery [\<lparr>uuid = ''u'', scene_name = ''A''\<rparr>] True ?m))) = Unchanged"
    by (simp_all add: ApplyDiscovery_def Let_def BeginCaptureEpoch_def new_topology_def BuildSnapshot_def
        names_scene_def master_entry_def StreamIdentity_Master_def SameTopology_def same_entry_def
        UpdateDisplayNames_def StreamIdentity_Scene_def)
  with 1 2 have r: "r1 = Staged" "r2 = Unchanged" by simp_all
  from staged_topology_is_never_withdrawn [OF _ 1 [unfolded r(1)] 2 [unfolded r(2)] 3]
  have "current m3 = BuildSnapshot [\<lparr>uuid = ''u'', scene_name = ''A''\<rparr>] (generation (current ?m) + 1)"
    by (simp add: BeginCaptureEpoch_def new_topology_def)
  then have "length (entries (current m3)) = 2"
    by (simp add: BuildSnapshot_def names_scene_def master_entry_def StreamIdentity_Master_def)
  with 1 [unfolded r(1)] 2 [unfolded r(2)] 3 show ?thesis by (intro exI conjI)
qed

end
