(* ===== verification/CaptureConfig.thy ===== *)
theory CaptureConfig
  imports ReplayConfig Topology CaptureSession
begin

text \<open>
  \<open>src/control/capture-configuration\<close>: the configured streams and which consumer each takes part in.
\<close>

datatype StreamParticipationMode = Disabled | Recording | Replay | Both

datatype CaptureConsumer = Recording | Replay

record ConfiguredStream =
  stream_identity :: StreamIdentity
  configured_name :: string
  mode :: StreamParticipationMode
  packet_config :: PacketStreamConfig

record CaptureConfiguration =
  replay_configuration :: ReplayConfiguration
  configured :: "ConfiguredStream list"

fun StreamParticipates :: "StreamParticipationMode \<Rightarrow> CaptureConsumer \<Rightarrow> bool" where
  "StreamParticipates Disabled u = False"
| "StreamParticipates StreamParticipationMode.Recording u = (u = CaptureConsumer.Recording)"
| "StreamParticipates StreamParticipationMode.Replay u = (u = CaptureConsumer.Replay)"
| "StreamParticipates Both u = True"

definition StreamNeedsEncoder :: "StreamParticipationMode \<Rightarrow> bool \<Rightarrow> bool \<Rightarrow> bool" where
  "StreamNeedsEncoder m recording_active replay_active \<longleftrightarrow>
     (recording_active \<and> StreamParticipates m CaptureConsumer.Recording) \<or>
     (replay_active \<and> StreamParticipates m CaptureConsumer.Replay)"

fun StreamParticipationModeName :: "StreamParticipationMode \<Rightarrow> string" where
  "StreamParticipationModeName Disabled = ''disabled''"
| "StreamParticipationModeName StreamParticipationMode.Recording = ''recording''"
| "StreamParticipationModeName StreamParticipationMode.Replay = ''replay''"
| "StreamParticipationModeName Both = ''both''"

definition StreamIdentityName :: "StreamIdentity \<Rightarrow> string" where
  "StreamIdentityName i = StreamIdentityLabel i"

fun selected_indexes :: "nat \<Rightarrow> ConfiguredStream list \<Rightarrow> CaptureConsumer \<Rightarrow> nat list" where
  "selected_indexes i [] u = []"
| "selected_indexes i (s # ss) u =
     (if StreamParticipates (mode s) u then i # selected_indexes (Suc i) ss u else selected_indexes (Suc i) ss u)"

definition SelectedStreamIndexes :: "CaptureConfiguration \<Rightarrow> CaptureConsumer \<Rightarrow> nat list" where
  "SelectedStreamIndexes c u = selected_indexes 0 (configured c) u"

lemma participates_enabled: "StreamParticipates m u \<Longrightarrow> m \<noteq> Disabled"
  by (cases m) auto

lemma needs_enabled: "StreamNeedsEncoder m r p \<Longrightarrow> m \<noteq> Disabled"
  by (auto simp: StreamNeedsEncoder_def dest: participates_enabled)

lemma not_needed [simp]: "\<not> StreamNeedsEncoder m False False"
  by (simp add: StreamNeedsEncoder_def)

lemma needs_mono: "StreamNeedsEncoder m r p \<Longrightarrow> (r \<longrightarrow> r') \<Longrightarrow> (p \<longrightarrow> p') \<Longrightarrow> StreamNeedsEncoder m r' p'"
  by (auto simp: StreamNeedsEncoder_def)

end
