(* ===== verification/CaptureControl.thy ===== *)
theory CaptureControl
  imports CaptureConfig RecordingConsumerProperties ReplayConsumer
begin

text \<open>
  \<open>src/control/capture-control\<close>: the engine that starts and stops the recording and the replay over
  one capture session and one set of encoders. The encoders are behind the virtual interface
  \<open>EncoderController\<close>, a record of functions on the controller's own state. A stop of the recording
  consumer includes the join of its worker, a wait for the replay consumer the join of its save.
\<close>

subsection \<open>Data\<close>

datatype CaptureInfrastructureState = Idle | Active | Stopping | Failed

datatype RecordingConsumerState = Off | Starting | Running | Stopping

datatype ReplayConsumerState = Off | Starting | Running | Saving | Stopping

datatype ControlCommandStatus = Succeeded | NoOp | InvalidState | Failed

record ControlCommandResult =
  status :: ControlCommandStatus
  reason :: string

definition command_ok :: "ControlCommandResult \<Rightarrow> bool" where
  "command_ok r \<longleftrightarrow> status r = Succeeded \<or> status r = NoOp"

definition answer :: "ControlCommandStatus \<Rightarrow> string \<Rightarrow> ControlCommandResult" where
  "answer s why = \<lparr>status = s, reason = why\<rparr>"

definition Invalid :: "string \<Rightarrow> ControlCommandResult" where
  "Invalid why = answer InvalidState why"

fun ControlCommandStatusName :: "ControlCommandStatus \<Rightarrow> string" where
  "ControlCommandStatusName Succeeded = ''succeeded''"
| "ControlCommandStatusName NoOp = ''no-op''"
| "ControlCommandStatusName InvalidState = ''invalid-state''"
| "ControlCommandStatusName ControlCommandStatus.Failed = ''failed''"

datatype EncoderLifecycleEvent = Created | Activated | Retained | Released

record EncoderLifecycleDiagnostic =
  lifecycle_event :: EncoderLifecycleEvent
  lifecycle_stream :: CaptureStreamId
  active_encoders :: nat

record 'e EncoderController =
  EnsureCreated :: "CaptureStreamId \<Rightarrow> ConfiguredStream \<Rightarrow> 'e \<Rightarrow> bool \<times> 'e"
  Activate :: "CaptureStreamId \<Rightarrow> ConfiguredStream \<Rightarrow> 'e \<Rightarrow> bool \<times> 'e"
  Release :: "CaptureStreamId \<Rightarrow> ConfiguredStream \<Rightarrow> 'e \<Rightarrow> 'e"
  IsActive :: "CaptureStreamId \<Rightarrow> 'e \<Rightarrow> bool"
  active_count :: "'e \<Rightarrow> nat"

text \<open>\<open>recording_address\<close> is the address of the recording consumer while there is one.\<close>

record ('w, 'e) CaptureControlEngine =
  configuration :: CaptureConfiguration
  capture :: capture_session
  encoders :: 'e
  diagnostics :: "EncoderLifecycleDiagnostic list"
  recording_consumer :: "'w SynchronizedRecordingConsumer option"
  recording_address :: consumer_ref
  replay_consumer :: "SynchronizedReplayConsumer option"
  recording_result :: "SynchronizedRecordingConsumerResult option"
  replay_result :: "ReplaySaveResult option"
  capture_state :: CaptureInfrastructureState
  recording_state :: RecordingConsumerState
  replay_state :: ReplayConsumerState
  initialized :: bool
  capture_epoch :: u64

definition new_engine :: "CaptureConfiguration \<Rightarrow> capture_session \<Rightarrow> 'e \<Rightarrow> ('w, 'e) CaptureControlEngine" where
  "new_engine cfg cap e = \<lparr>configuration = cfg, capture = cap, encoders = e, diagnostics = [],
     recording_consumer = None, recording_address = 0, replay_consumer = None, recording_result = None,
     replay_result = None, capture_state = Idle, recording_state = RecordingConsumerState.Off,
     replay_state = ReplayConsumerState.Off, initialized = False, capture_epoch = 0\<rparr>"

definition IsRecordingActive :: "RecordingConsumerState \<Rightarrow> bool" where
  "IsRecordingActive s \<longleftrightarrow> s \<noteq> RecordingConsumerState.Off"

definition IsReplayActive :: "ReplayConsumerState \<Rightarrow> bool" where
  "IsReplayActive s \<longleftrightarrow> s \<noteq> ReplayConsumerState.Off"

subsection \<open>Stream ids\<close>

text \<open>The ids count the enabled streams in order, in 8 bits.\<close>

fun capture_id_from :: "CaptureStreamId \<Rightarrow> ConfiguredStream list \<Rightarrow> StreamIdentity \<Rightarrow> CaptureStreamId option" where
  "capture_id_from i [] ident = None"
| "capture_id_from i (s # ss) ident =
     (if mode s = Disabled then capture_id_from i ss ident
      else if stream_identity s = ident then Some i
      else capture_id_from (i + 1) ss ident)"

definition CaptureIdFor :: "('w, 'e) CaptureControlEngine \<Rightarrow> StreamIdentity \<Rightarrow> CaptureStreamId option" where
  "CaptureIdFor g ident = capture_id_from 0 (configured (configuration g)) ident"

fun selected_ids :: "CaptureStreamId \<Rightarrow> ConfiguredStream list \<Rightarrow> CaptureConsumer \<Rightarrow> CaptureStreamId list" where
  "selected_ids i [] u = []"
| "selected_ids i (s # ss) u =
     (if mode s = Disabled then selected_ids i ss u
      else if StreamParticipates (mode s) u then i # selected_ids (i + 1) ss u
      else selected_ids (i + 1) ss u)"

definition SelectedCaptureIds :: "('w, 'e) CaptureControlEngine \<Rightarrow> CaptureConsumer \<Rightarrow> CaptureStreamId list" where
  "SelectedCaptureIds g u = selected_ids 0 (configured (configuration g)) u"

definition SelectedPacketConfigs :: "('w, 'e) CaptureControlEngine \<Rightarrow> CaptureConsumer \<Rightarrow> PacketStreamConfig list" where
  "SelectedPacketConfigs g u =
     map packet_config (filter (\<lambda>s. StreamParticipates (mode s) u) (configured (configuration g)))"

fun register_streams :: "CaptureStreamId \<Rightarrow> ConfiguredStream list \<Rightarrow> capture_session \<Rightarrow> bool \<times> capture_session" where
  "register_streams i [] cap = (i > 0, cap)"
| "register_streams i (s # ss) cap =
     (if mode s = Disabled then register_streams i ss cap
      else (let (ok, cap) = RegisterStream i (configured_name s) (packet_config s) cap
            in if \<not> ok then (False, cap) else register_streams (i + 1) ss cap))"

definition Initialize :: "('w, 'e) CaptureControlEngine \<Rightarrow> bool \<times> ('w, 'e) CaptureControlEngine" where
  "Initialize g =
     (if initialized g then (True, g)
      else
        (let (ok, cap) = register_streams 0 (configured (configuration g)) (capture g);
             g = g\<lparr>capture := cap, initialized := ok\<rparr>
         in (ok, if ok then g else g\<lparr>capture_state := CaptureInfrastructureState.Failed\<rparr>)))"

subsection \<open>Encoder demand\<close>

definition Emit :: "'e EncoderController \<Rightarrow> EncoderLifecycleEvent \<Rightarrow> CaptureStreamId \<Rightarrow>
    ('w, 'e) CaptureControlEngine \<Rightarrow> ('w, 'e) CaptureControlEngine" where
  "Emit ops ev i g = g\<lparr>diagnostics := diagnostics g @
     [\<lparr>lifecycle_event = ev, lifecycle_stream = i, active_encoders = active_count ops (encoders g)\<rparr>]\<rparr>"

fun create_pass :: "'e EncoderController \<Rightarrow> ConfiguredStream list \<Rightarrow> ('w, 'e) CaptureControlEngine \<Rightarrow>
    bool \<times> ('w, 'e) CaptureControlEngine" where
  "create_pass ops [] g = (True, g)"
| "create_pass ops (s # ss) g =
     (case CaptureIdFor g (stream_identity s) of
        None \<Rightarrow> create_pass ops ss g
      | Some i \<Rightarrow>
          (if mode s = Disabled then create_pass ops ss g
           else if \<not> IsActive ops i (encoders g)
           then (let (ok, e) = EnsureCreated ops i s (encoders g); g = g\<lparr>encoders := e\<rparr>
                 in if \<not> ok then (False, g) else create_pass ops ss g)
           else create_pass ops ss g))"

fun activate_pass :: "'e EncoderController \<Rightarrow> bool \<Rightarrow> bool \<Rightarrow> ConfiguredStream list \<Rightarrow>
    ('w, 'e) CaptureControlEngine \<Rightarrow> bool \<times> ('w, 'e) CaptureControlEngine" where
  "activate_pass ops rec rep [] g = (True, g)"
| "activate_pass ops rec rep (s # ss) g =
     (case CaptureIdFor g (stream_identity s) of
        None \<Rightarrow> activate_pass ops rec rep ss g
      | Some i \<Rightarrow>
          (if \<not> StreamNeedsEncoder (mode s) rec rep then activate_pass ops rec rep ss g
           else if \<not> IsActive ops i (encoders g)
           then (let (ok, e) = Activate ops i s (encoders g); g = g\<lparr>encoders := e\<rparr>
                 in if \<not> ok then (False, g) else activate_pass ops rec rep ss (Emit ops Activated i g))
           else activate_pass ops rec rep ss (Emit ops Retained i g)))"

definition ReconcileEncoderDemand :: "'e EncoderController \<Rightarrow> ('w, 'e) CaptureControlEngine \<Rightarrow>
    bool \<times> ('w, 'e) CaptureControlEngine" where
  "ReconcileEncoderDemand ops g =
     (let rec = IsRecordingActive (recording_state g); rep = IsReplayActive (replay_state g);
          (ok, g) = create_pass ops (configured (configuration g)) g
      in if \<not> ok then (False, g) else activate_pass ops rec rep (configured (configuration g)) g)"

fun release_pass :: "'e EncoderController \<Rightarrow> bool \<Rightarrow> bool \<Rightarrow> ConfiguredStream list \<Rightarrow>
    ('w, 'e) CaptureControlEngine \<Rightarrow> ('w, 'e) CaptureControlEngine" where
  "release_pass ops rec rep [] g = g"
| "release_pass ops rec rep (s # ss) g =
     (case CaptureIdFor g (stream_identity s) of
        None \<Rightarrow> release_pass ops rec rep ss g
      | Some i \<Rightarrow>
          (if StreamNeedsEncoder (mode s) rec rep \<or> \<not> IsActive ops i (encoders g)
           then release_pass ops rec rep ss g
           else release_pass ops rec rep ss
                  (Emit ops Released i (g\<lparr>encoders := Release ops i s (encoders g)\<rparr>))))"

definition ReleaseUndemandedEncoders :: "'e EncoderController \<Rightarrow> ('w, 'e) CaptureControlEngine \<Rightarrow>
    ('w, 'e) CaptureControlEngine" where
  "ReleaseUndemandedEncoders ops g =
     release_pass ops (IsRecordingActive (recording_state g)) (IsReplayActive (replay_state g))
       (configured (configuration g)) g"

subsection \<open>The capture session\<close>

definition EnsureCaptureActive :: "('w, 'e) CaptureControlEngine \<Rightarrow> bool \<times> ('w, 'e) CaptureControlEngine" where
  "EnsureCaptureActive g =
     (if capture_state g = Active \<and> capture_running (capture g) then (True, g)
      else if capture_state g = CaptureInfrastructureState.Failed
      then (False, g\<lparr>capture_state := CaptureInfrastructureState.Failed\<rparr>)
      else
        (let (ok, cap) = capture_Start (capture g); g = g\<lparr>capture := cap\<rparr>
         in if \<not> ok then (False, g\<lparr>capture_state := CaptureInfrastructureState.Failed\<rparr>)
            else (True, g\<lparr>capture_epoch := capture_epoch g + 1, capture_state := Active\<rparr>)))"

definition StopCaptureIfUnused :: "'e EncoderController \<Rightarrow> ('w, 'e) CaptureControlEngine \<Rightarrow>
    ('w, 'e) CaptureControlEngine" where
  "StopCaptureIfUnused ops g =
     (if IsRecordingActive (recording_state g) \<or> IsReplayActive (replay_state g) then g
      else
        (let g = g\<lparr>capture_state := CaptureInfrastructureState.Stopping\<rparr>;
             g = g\<lparr>capture := SetReplayRetentionEnabled False (capture_Stop (capture g))\<rparr>
         in (ReleaseUndemandedEncoders ops g)\<lparr>capture_state := Idle\<rparr>))"

text \<open>\<open>EnsureCaptureActive() && ReconcileEncoderDemand()\<close>.\<close>

definition activate_capture :: "'e EncoderController \<Rightarrow> ('w, 'e) CaptureControlEngine \<Rightarrow>
    bool \<times> ('w, 'e) CaptureControlEngine" where
  "activate_capture ops g =
     (let (ok, g) = EnsureCaptureActive g in if \<not> ok then (False, g) else ReconcileEncoderDemand ops g)"

subsection \<open>Recording\<close>

text \<open>
  The paths after a failure: the consumer is unsubscribed, stopped and destroyed; what its worker still
  does to its own writers is not seen by the engine.
\<close>

definition abandon_recording :: "'e EncoderController \<Rightarrow> ('w, 'e) CaptureControlEngine \<Rightarrow>
    ControlCommandResult \<times> ('w, 'e) CaptureControlEngine" where
  "abandon_recording ops g =
     (let g = g\<lparr>capture := snd (Unsubscribe (recording_address g) (capture g)), recording_consumer := None,
                recording_state := RecordingConsumerState.Off\<rparr>
      in (answer ControlCommandStatus.Failed ''capture-failed'', StopCaptureIfUnused ops g))"

definition StartRecording :: "'e EncoderController \<Rightarrow> u64 \<Rightarrow> consumer_ref \<Rightarrow> string list \<Rightarrow>
    ('w, 'e) CaptureControlEngine \<Rightarrow> ControlCommandResult \<times> ('w, 'e) CaptureControlEngine" where
  "StartRecording ops now addr paths g =
     (let ids = SelectedCaptureIds g CaptureConsumer.Recording in
      if \<not> initialized g then (Invalid ''not-initialized'', g)
      else if recording_state g = RecordingConsumerState.Running \<or> recording_state g = RecordingConsumerState.Starting
      then (answer NoOp ''recording-already-active'', g)
      else if recording_state g \<noteq> RecordingConsumerState.Off \<or> length paths \<noteq> length ids \<or> paths = []
      then (Invalid ''recording-path-count-or-state'', g)
      else
        (let g = g\<lparr>recording_state := RecordingConsumerState.Starting, recording_result := None\<rparr>;
             (started, c) = rc_Start now (new_recording (SelectedPacketConfigs g CaptureConsumer.Recording) paths ids);
             (subscribed, cap) = (if started then Subscribe addr (capture g) else (False, capture g));
             g = g\<lparr>recording_consumer := Some c, recording_address := addr, capture := cap\<rparr>
         in if \<not> started \<or> \<not> subscribed
            then (answer ControlCommandStatus.Failed ''recording-consumer-start'',
                  g\<lparr>recording_consumer := None, recording_state := RecordingConsumerState.Off\<rparr>)
            else
              (let g = g\<lparr>capture := SetReplayRetentionEnabled (IsReplayActive (replay_state g)) (capture g)\<rparr>;
                   (ok, g) = activate_capture ops g
               in if \<not> ok then abandon_recording ops g
                  else if \<not> capture_running (capture g) then abandon_recording ops g
                  else (answer Succeeded ''recording-started'',
                        g\<lparr>recording_state := RecordingConsumerState.Running\<rparr>))))"

definition StopRecording :: "'e EncoderController \<Rightarrow> 'w mkv_env \<Rightarrow> (nat \<Rightarrow> 'w) \<Rightarrow> u64 \<Rightarrow>
    ('w, 'e) CaptureControlEngine \<Rightarrow> ControlCommandResult \<times> ('w, 'e) CaptureControlEngine" where
  "StopRecording ops env fresh now g =
     (if recording_state g = RecordingConsumerState.Off then (answer NoOp ''recording-already-off'', g)
      else
        (case recording_consumer g of
           None \<Rightarrow> (answer ControlCommandStatus.Failed ''recording-consumer-missing'',
                    g\<lparr>recording_state := RecordingConsumerState.Off\<rparr>)
         | Some c \<Rightarrow>
             (let g = g\<lparr>recording_state := RecordingConsumerState.Stopping,
                        capture := snd (Unsubscribe (recording_address g) (capture g))\<rparr>;
                  c = rc_StopAndJoin env fresh now c;
                  g = g\<lparr>recording_result := rc_result c, recording_consumer := None,
                        recording_state := RecordingConsumerState.Off\<rparr>;
                  g = ReleaseUndemandedEncoders ops g
              in (answer Succeeded ''recording-stopped'', StopCaptureIfUnused ops g))))"

subsection \<open>Replay\<close>

definition give_up_replay :: "'e EncoderController \<Rightarrow> ('w, 'e) CaptureControlEngine \<Rightarrow>
    ControlCommandResult \<times> ('w, 'e) CaptureControlEngine" where
  "give_up_replay ops g =
     (let g = g\<lparr>replay_state := ReplayConsumerState.Off, capture := SetReplayRetentionEnabled False (capture g)\<rparr>
      in (answer ControlCommandStatus.Failed ''capture-failed'', StopCaptureIfUnused ops g))"

definition StartReplay :: "'e EncoderController \<Rightarrow> ('w, 'e) CaptureControlEngine \<Rightarrow>
    ControlCommandResult \<times> ('w, 'e) CaptureControlEngine" where
  "StartReplay ops g =
     (if \<not> initialized g then (Invalid ''not-initialized'', g)
      else if \<not> replay_enabled (replay_configuration (configuration g))
      then (Invalid ''replay-unavailable-by-obs-config'', g)
      else if replay_state g = ReplayConsumerState.Starting \<or> replay_state g = ReplayConsumerState.Running \<or>
              replay_state g = Saving
      then (answer NoOp ''replay-already-active'', g)
      else if replay_state g \<noteq> ReplayConsumerState.Off \<or> SelectedCaptureIds g CaptureConsumer.Replay = []
      then (Invalid ''replay-state-or-no-streams'', g)
      else
        (let g = g\<lparr>replay_state := ReplayConsumerState.Starting, replay_result := None,
                   replay_consumer := (if replay_consumer g = None then Some new_replay else replay_consumer g),
                   capture := SetReplayRetentionEnabled True (capture g)\<rparr>;
             (ok, g) = activate_capture ops g
         in if \<not> ok then give_up_replay ops g
            else if \<not> capture_running (capture g) then give_up_replay ops g
            else (answer Succeeded ''replay-started'', g\<lparr>replay_state := ReplayConsumerState.Running\<rparr>)))"

definition WaitForReplaySave :: "'w mkv_env \<Rightarrow> (nat \<Rightarrow> 'w) \<Rightarrow> u64 \<Rightarrow> u64 \<Rightarrow> ('w, 'e) CaptureControlEngine \<Rightarrow>
    ('w, 'e) CaptureControlEngine" where
  "WaitForReplaySave env fresh t0 t1 g =
     (case replay_consumer g of
        None \<Rightarrow> g
      | Some c \<Rightarrow>
          (let c = fst (replay_Wait env fresh t0 t1 c); g = g\<lparr>replay_consumer := Some c\<rparr>
           in if replay_state g = Saving
              then g\<lparr>replay_result := last_result c, replay_state := ReplayConsumerState.Running\<rparr> else g))"

definition PollReplaySave :: "'w mkv_env \<Rightarrow> (nat \<Rightarrow> 'w) \<Rightarrow> u64 \<Rightarrow> u64 \<Rightarrow> ('w, 'e) CaptureControlEngine \<Rightarrow>
    ('w, 'e) CaptureControlEngine" where
  "PollReplaySave env fresh t0 t1 g =
     (case replay_consumer g of
        None \<Rightarrow> g
      | Some c \<Rightarrow>
          (if replay_state g \<noteq> Saving \<or> save_active c then g
           else (let c = fst (replay_Wait env fresh t0 t1 c)
                 in g\<lparr>replay_consumer := Some c, replay_result := last_result c,
                      replay_state := ReplayConsumerState.Running\<rparr>)))"

definition StopReplay :: "'e EncoderController \<Rightarrow> 'w mkv_env \<Rightarrow> (nat \<Rightarrow> 'w) \<Rightarrow> u64 \<Rightarrow> u64 \<Rightarrow>
    ('w, 'e) CaptureControlEngine \<Rightarrow> ControlCommandResult \<times> ('w, 'e) CaptureControlEngine" where
  "StopReplay ops env fresh t0 t1 g =
     (if replay_state g = ReplayConsumerState.Off then (answer NoOp ''replay-already-off'', g)
      else
        (let g = g\<lparr>replay_state := ReplayConsumerState.Stopping\<rparr>;
             g = WaitForReplaySave env fresh t0 t1 g;
             g = g\<lparr>replay_state := ReplayConsumerState.Off, capture := SetReplayRetentionEnabled False (capture g)\<rparr>;
             g = ReleaseUndemandedEncoders ops g
         in (answer Succeeded ''replay-stopped'', StopCaptureIfUnused ops g)))"

text \<open>\<open>None\<close> is a request that does not return.\<close>

definition SaveReplay :: "string list \<Rightarrow> ('w, 'e) CaptureControlEngine \<Rightarrow>
    (ControlCommandResult \<times> ('w, 'e) CaptureControlEngine) option" where
  "SaveReplay paths g =
     (let cfg = replay_configuration (configuration g); ids = SelectedCaptureIds g CaptureConsumer.Replay in
      if \<not> replay_enabled cfg then Some (Invalid ''replay-unavailable-by-obs-config'', g)
      else if replay_state g = ReplayConsumerState.Off then Some (Invalid ''replay-not-active'', g)
      else if replay_state g \<noteq> ReplayConsumerState.Running \<and> replay_state g \<noteq> Saving
      then Some (Invalid ''replay-not-running'', g)
      else if replay_state g = Saving then Some (Invalid ''save-already-active'', g)
      else if length paths \<noteq> length ids \<or> paths = [] then Some (Invalid ''replay-path-count'', g)
      else if capture_state g = CaptureInfrastructureState.Failed \<or> \<not> capture_running (capture g)
      then Some (answer ControlCommandStatus.Failed ''capture-failed'', g)
      else
        (let c = (case replay_consumer g of None \<Rightarrow> new_replay | Some c \<Rightarrow> c)
         in map_option (\<lambda>(ok, c).
              (let g = g\<lparr>replay_consumer := Some c\<rparr>
               in if \<not> ok
                  then (answer ControlCommandStatus.Failed
                          (if last_request_error c = [] then ''replay-save-rejected:snapshot-rejected''
                           else ''replay-save-rejected:'' @ last_request_error c), g)
                  else (answer Succeeded ''replay-save-started'', g\<lparr>replay_state := Saving\<rparr>)))
              (RequestSave paths (target_duration_ns cfg) ids (capture g) c)))"

subsection \<open>Configuration and shutdown\<close>

definition ApplyReplayConfiguration :: "'e EncoderController \<Rightarrow> 'w mkv_env \<Rightarrow> (nat \<Rightarrow> 'w) \<Rightarrow> u64 \<Rightarrow> u64 \<Rightarrow>
    ReplayConfiguration \<Rightarrow> ('w, 'e) CaptureControlEngine \<Rightarrow>
    ControlCommandResult \<times> ('w, 'e) CaptureControlEngine" where
  "ApplyReplayConfiguration ops env fresh t0 t1 cfg g =
     (let was_active = IsReplayActive (replay_state g);
          stops = was_active \<and> \<not> replay_enabled cfg;
          (stopped, g) = (if stops then StopReplay ops env fresh t0 t1 g else (answer Succeeded [], g))
      in if stops \<and> \<not> command_ok stopped
         then (answer ControlCommandStatus.Failed ''replay-config-stop-failed'', g)
         else (answer Succeeded (if stops then ''replay-disabled-and-stopped'' else ''replay-config-applied''),
               g\<lparr>configuration := (configuration g)\<lparr>replay_configuration := cfg\<rparr>,
                 capture := SetRingCapacityBytes (memory_budget_bytes cfg) (capture g)\<rparr>))"

fun release_all :: "'e EncoderController \<Rightarrow> ConfiguredStream list \<Rightarrow> ('w, 'e) CaptureControlEngine \<Rightarrow>
    ('w, 'e) CaptureControlEngine" where
  "release_all ops [] g = g"
| "release_all ops (s # ss) g =
     (case CaptureIdFor g (stream_identity s) of
        None \<Rightarrow> release_all ops ss g
      | Some i \<Rightarrow>
          (if IsActive ops i (encoders g)
           then release_all ops ss (Emit ops Released i (g\<lparr>encoders := Release ops i s (encoders g)\<rparr>))
           else release_all ops ss g))"

definition Shutdown :: "'e EncoderController \<Rightarrow> 'w mkv_env \<Rightarrow> (nat \<Rightarrow> 'w) \<Rightarrow> u64 \<Rightarrow> u64 \<Rightarrow>
    ('w, 'e) CaptureControlEngine \<Rightarrow> ('w, 'e) CaptureControlEngine" where
  "Shutdown ops env fresh t0 t1 g =
     (if \<not> initialized g \<and> capture_state g = Idle then g
      else
        (let g = snd (StopReplay ops env fresh t0 t1 g);
             g = snd (StopRecording ops env fresh t1 g);
             g = g\<lparr>capture := SetReplayRetentionEnabled False (capture_Stop (capture g))\<rparr>
         in (release_all ops (configured (configuration g)) g)\<lparr>capture_state := Idle\<rparr>))"

subsection \<open>The running system\<close>

text \<open>
  Beside the commands, the capture threads ingest packets, the recording worker takes its turns and a
  save ends. The fan-out of a packet runs after the session's lock is released, over the addresses that
  were subscribed then: \<open>in_flight\<close> holds what a capture thread has still to hand over. An address is
  only dereferenced in \<open>hand_over\<close>.
\<close>

record ('w, 'e) capture_system =
  engine :: "('w, 'e) CaptureControlEngine"
  in_flight :: "(consumer_ref \<times> CapturedEncodedPacket) list"

definition system_ingest :: "CaptureStreamId \<Rightarrow> EncodedPacket \<Rightarrow> bytes \<Rightarrow> ('w, 'e) capture_system \<Rightarrow>
    ('w, 'e) capture_system" where
  "system_ingest i p extra y =
     (let (ok, cap, ds) = Ingest i p extra (capture (engine y))
      in y\<lparr>engine := (engine y)\<lparr>capture := cap\<rparr>, in_flight := in_flight y @ ds\<rparr>)"

definition live_consumer :: "consumer_ref \<Rightarrow> ('w, 'e) CaptureControlEngine \<Rightarrow> bool" where
  "live_consumer a g \<longleftrightarrow> recording_consumer g \<noteq> None \<and> recording_address g = a"

definition hand_over :: "CapturedEncodedPacket \<Rightarrow> ('w, 'e) CaptureControlEngine \<Rightarrow> ('w, 'e) CaptureControlEngine" where
  "hand_over q g = g\<lparr>recording_consumer := map_option (OnPacket q) (recording_consumer g)\<rparr>"

text \<open>
  One step of the engine or of a thread. A hand-over to an address without a consumer has no step: the behaviour
  of the code is undefined there.
\<close>

inductive system_step :: "'e EncoderController \<Rightarrow> 'w mkv_env \<Rightarrow> (nat \<Rightarrow> 'w) \<Rightarrow>
    ('w, 'e) capture_system \<Rightarrow> ('w, 'e) capture_system \<Rightarrow> bool" for ops env fresh where
  start_recording: "system_step ops env fresh y (y\<lparr>engine := snd (StartRecording ops now addr paths (engine y))\<rparr>)"
| stop_recording: "system_step ops env fresh y (y\<lparr>engine := snd (StopRecording ops env fresh now (engine y))\<rparr>)"
| start_replay: "system_step ops env fresh y (y\<lparr>engine := snd (StartReplay ops (engine y))\<rparr>)"
| stop_replay: "system_step ops env fresh y (y\<lparr>engine := snd (StopReplay ops env fresh t0 t1 (engine y))\<rparr>)"
| save_replay: "SaveReplay paths (engine y) = Some (r, g) \<Longrightarrow> system_step ops env fresh y (y\<lparr>engine := g\<rparr>)"
| apply_configuration: "system_step ops env fresh y
    (y\<lparr>engine := snd (ApplyReplayConfiguration ops env fresh t0 t1 rcfg (engine y))\<rparr>)"
| poll_save: "system_step ops env fresh y (y\<lparr>engine := PollReplaySave env fresh t0 t1 (engine y)\<rparr>)"
| wait_save: "system_step ops env fresh y (y\<lparr>engine := WaitForReplaySave env fresh t0 t1 (engine y)\<rparr>)"
| shut_down: "system_step ops env fresh y (y\<lparr>engine := Shutdown ops env fresh t0 t1 (engine y)\<rparr>)"
| ingest: "system_step ops env fresh y (system_ingest i p x y)"
| hand: "in_flight y = ds @ (a, q) # es \<Longrightarrow> live_consumer a (engine y) \<Longrightarrow>
    system_step ops env fresh y (y\<lparr>engine := hand_over q (engine y), in_flight := ds @ es\<rparr>)"
| worker: "recording_consumer (engine y) = Some c \<Longrightarrow>
    system_step ops env fresh y
      (y\<lparr>engine := (engine y)\<lparr>recording_consumer := Some (worker_turn env fresh now c)\<rparr>\<rparr>)"
| saved: "replay_consumer (engine y) = Some c \<Longrightarrow>
    system_step ops env fresh y
      (y\<lparr>engine := (engine y)\<lparr>replay_consumer := Some (fst (worker_done env fresh t0 t1 c))\<rparr>\<rparr>)"

text \<open>
  A run starts as the runtime builds it: a new engine over a new capture session, initialised once, the
  identities of its streams distinct; \<open>start\<close> says which controllers a run starts with.
\<close>

inductive system_run :: "'e EncoderController \<Rightarrow> 'w mkv_env \<Rightarrow> (nat \<Rightarrow> 'w) \<Rightarrow> ('e \<Rightarrow> bool) \<Rightarrow>
    ('w, 'e) capture_system \<Rightarrow> bool" for ops env fresh start where
  built: "start e \<Longrightarrow> distinct (map stream_identity (configured cfg)) \<Longrightarrow>
    system_run ops env fresh start
      \<lparr>engine = snd (Initialize (new_engine cfg (new_capture ccfg) e)), in_flight = []\<rparr>"
| stepped: "system_run ops env fresh start y \<Longrightarrow> system_step ops env fresh y z \<Longrightarrow> system_run ops env fresh start z"

lemmas run_start_recording = system_run.stepped [OF _ system_step.start_recording]
lemmas run_stop_recording = system_run.stepped [OF _ system_step.stop_recording]
lemmas run_start_replay = system_run.stepped [OF _ system_step.start_replay]
lemmas run_stop_replay = system_run.stepped [OF _ system_step.stop_replay]
lemmas run_save_replay = system_run.stepped [OF _ system_step.save_replay]
lemmas run_apply_configuration = system_run.stepped [OF _ system_step.apply_configuration]
lemmas run_poll_save = system_run.stepped [OF _ system_step.poll_save]
lemmas run_ingest = system_run.stepped [OF _ system_step.ingest]
lemmas run_hand = system_run.stepped [OF _ system_step.hand]
lemmas run_worker = system_run.stepped [OF _ system_step.worker]
lemmas run_saved = system_run.stepped [OF _ system_step.saved]

end
