(* ===== verification/EncoderDemand.thy ===== *)
theory EncoderDemand
  imports CaptureControl
begin

text \<open>
  The contract between the engine and its encoders as a locale, and what the engine's passes over the
  configured streams do to the set of active encoders.
\<close>

subsection \<open>Ids of streams\<close>

definition enabled_streams :: "ConfiguredStream list \<Rightarrow> ConfiguredStream list" where
  "enabled_streams ss = filter (\<lambda>s. mode s \<noteq> Disabled) ss"

lemma capture_id_position:
  "capture_id_from k ss x =
     map_option (\<lambda>n. k + word_of_nat n) (position x (map stream_identity (enabled_streams ss)))"
  by (induction ss arbitrary: k)
    (auto simp: enabled_streams_def option.map_comp comp_def add.assoc)

lemma position_Some: "position x xs = Some n \<Longrightarrow> n < length xs \<and> xs ! n = x"
  by (induction xs arbitrary: n) (auto split: if_splits)

lemma capture_id_inj:
  assumes "length (enabled_streams ss) \<le> 256"
    and "capture_id_from 0 ss x = Some i" and "capture_id_from 0 ss y = Some i"
  shows "x = y"
proof -
  let ?ids = "map stream_identity (enabled_streams ss)"
  from assms(2,3) obtain n m where n: "position x ?ids = Some n" "position y ?ids = Some m"
    "(word_of_nat n :: u8) = word_of_nat m" by (auto simp: capture_id_position)
  from position_Some [OF n(1)] position_Some [OF n(2)] assms(1) have "n < 256" "m < 256" by auto
  then have "n = m" using n(3) by (simp add: of_nat_eq_iff [symmetric] unsigned_of_nat word_unat_eq_iff take_bit_nat_eq_self)
  with position_Some [OF n(1)] position_Some [OF n(2)] show ?thesis by simp
qed

subsection \<open>The contract\<close>

locale encoder_controller =
  fixes ops :: "'e EncoderController" and ok :: "'e \<Rightarrow> bool"
  assumes created: "ok e \<Longrightarrow> EnsureCreated ops i s e = (b, e') \<Longrightarrow>
      ok e' \<and> (\<forall>j. IsActive ops j e' = IsActive ops j e)"
    and activated: "ok e \<Longrightarrow> Activate ops i s e = (b, e') \<Longrightarrow>
      ok e' \<and> (\<forall>j. IsActive ops j e' = (IsActive ops j e \<or> b \<and> j = i))"
    and released: "ok e \<Longrightarrow> ok (Release ops i s e) \<and>
      (\<forall>j. IsActive ops j (Release ops i s e) = (IsActive ops j e \<and> j \<noteq> i))"

definition active :: "'e EncoderController \<Rightarrow> ('w, 'e) CaptureControlEngine \<Rightarrow> CaptureStreamId \<Rightarrow> bool" where
  "active ops g i \<longleftrightarrow> IsActive ops i (encoders g)"

definition demanded :: "bool \<Rightarrow> bool \<Rightarrow> ConfiguredStream list \<Rightarrow> ('w, 'e) CaptureControlEngine \<Rightarrow>
    CaptureStreamId \<Rightarrow> bool" where
  "demanded rec rep ss g i \<longleftrightarrow>
     (\<exists>s \<in> set ss. CaptureIdFor g (stream_identity s) = Some i \<and> StreamNeedsEncoder (mode s) rec rep)"

definition undemanded :: "bool \<Rightarrow> bool \<Rightarrow> ConfiguredStream list \<Rightarrow> ('w, 'e) CaptureControlEngine \<Rightarrow>
    CaptureStreamId \<Rightarrow> bool" where
  "undemanded rec rep ss g i \<longleftrightarrow>
     (\<exists>s \<in> set ss. CaptureIdFor g (stream_identity s) = Some i \<and> \<not> StreamNeedsEncoder (mode s) rec rep)"

text \<open>A pass touches nothing but the encoders and the diagnostics.\<close>

definition but_encoders :: "('w, 'e) CaptureControlEngine \<Rightarrow> ('w, 'e) CaptureControlEngine \<Rightarrow> bool" where
  "but_encoders g g' \<longleftrightarrow> (\<exists>e d. g' = g\<lparr>encoders := e, diagnostics := d\<rparr>)"

lemma but_encoders_refl [simp]: "but_encoders g g"
  unfolding but_encoders_def by (rule exI [of _ "encoders g"], rule exI [of _ "diagnostics g"]) simp

lemma but_encoders_trans: "but_encoders a b \<Longrightarrow> but_encoders b c \<Longrightarrow> but_encoders a c"
  unfolding but_encoders_def by (elim exE) (simp, blast)

lemma but_encoders_step [simp]: "but_encoders g (g\<lparr>encoders := e\<rparr>)" "but_encoders g (Emit ops ev i g)"
  unfolding but_encoders_def Emit_def
  by (rule exI [of _ e], rule exI [of _ "diagnostics g"], simp)
    (rule exI [of _ "encoders g"], rule exI, simp)

lemma but_encoders_fields:
  "but_encoders g g' \<Longrightarrow> configuration g' = configuration g \<and> capture g' = capture g \<and>
     recording_consumer g' = recording_consumer g \<and> recording_address g' = recording_address g \<and>
     replay_consumer g' = replay_consumer g \<and> recording_result g' = recording_result g \<and>
     replay_result g' = replay_result g \<and> capture_state g' = capture_state g \<and>
     recording_state g' = recording_state g \<and> replay_state g' = replay_state g \<and>
     initialized g' = initialized g \<and> capture_epoch g' = capture_epoch g"
  unfolding but_encoders_def by (elim exE) simp

lemma ids_of_configuration: "configuration g' = configuration g \<Longrightarrow> CaptureIdFor g' = CaptureIdFor g"
  by (rule ext) (simp add: CaptureIdFor_def)

lemma demanded_configuration:
  "configuration g' = configuration g \<Longrightarrow> demanded rec rep ss g' = demanded rec rep ss g"
  "configuration g' = configuration g \<Longrightarrow> undemanded rec rep ss g' = undemanded rec rep ss g"
proof -
  assume "configuration g' = configuration g"
  then have "CaptureIdFor g' = CaptureIdFor g" by (rule ids_of_configuration)
  then show "demanded rec rep ss g' = demanded rec rep ss g" "undemanded rec rep ss g' = undemanded rec rep ss g"
    by (simp_all add: demanded_def undemanded_def fun_eq_iff)
qed

lemma Emit_active [simp]: "encoders (Emit ops ev i g) = encoders g" "configuration (Emit ops ev i g) = configuration g"
  by (simp_all add: Emit_def)

subsection \<open>The passes\<close>

context encoder_controller
begin

lemma create_pass_out:
  "create_pass ops ss g = (b, g') \<Longrightarrow> ok (encoders g) \<Longrightarrow>
     ok (encoders g') \<and> but_encoders g g' \<and> active ops g' = active ops g"
proof (induction ss arbitrary: g)
  case (Cons s ss)
  show ?case
  proof (cases "\<exists>i. CaptureIdFor g (stream_identity s) = Some i \<and> mode s \<noteq> Disabled \<and> \<not> IsActive ops i (encoders g)")
    case False
    then have "create_pass ops ss g = (b, g')"
      using Cons.prems(1) by (auto split: option.splits if_splits)
    with Cons show ?thesis by blast
  next
    case True
    then obtain i where i: "CaptureIdFor g (stream_identity s) = Some i" "mode s \<noteq> Disabled"
      "\<not> IsActive ops i (encoders g)" by blast
    obtain b1 e where e: "EnsureCreated ops i s (encoders g) = (b1, e)" by fastforce
    from created [OF Cons.prems(2) e] have ok: "ok e" and same: "active ops (g\<lparr>encoders := e\<rparr>) = active ops g"
      by (auto simp: active_def fun_eq_iff)
    show ?thesis
    proof (cases b1)
      case False
      with Cons.prems(1) i e have "g' = g\<lparr>encoders := e\<rparr>" by simp
      with ok same show ?thesis by simp
    next
      case b1: True
      with Cons.prems(1) i e have "create_pass ops ss (g\<lparr>encoders := e\<rparr>) = (b, g')" by simp
      from Cons.IH [OF this] ok same but_encoders_trans [OF but_encoders_step(1) [of g e]] show ?thesis by auto
    qed
  qed
qed simp

lemma activate_pass_out:
  "activate_pass ops rec rep ss g = (b, g') \<Longrightarrow> ok (encoders g) \<Longrightarrow>
     ok (encoders g') \<and> but_encoders g g' \<and> (\<forall>i. active ops g i \<longrightarrow> active ops g' i) \<and>
     (\<forall>i. active ops g' i \<longrightarrow> active ops g i \<or> demanded rec rep ss g i) \<and>
     (b \<longrightarrow> (\<forall>i. demanded rec rep ss g i \<longrightarrow> active ops g' i))"
proof (induction ss arbitrary: g)
  case (Cons s ss)
  show ?case
  proof (cases "\<exists>i. CaptureIdFor g (stream_identity s) = Some i \<and> StreamNeedsEncoder (mode s) rec rep")
    case False
    then have "activate_pass ops rec rep ss g = (b, g')"
      using Cons.prems(1) by (auto split: option.splits)
    from Cons.IH [OF this Cons.prems(2)] False show ?thesis by (auto simp: demanded_def)
  next
    case True
    then obtain i where i: "CaptureIdFor g (stream_identity s) = Some i" "StreamNeedsEncoder (mode s) rec rep" by blast
    have dem: "demanded rec rep (s # ss) g j \<longleftrightarrow> j = i \<or> demanded rec rep ss g j" for j
      using i by (auto simp: demanded_def)
    show ?thesis
    proof (cases "IsActive ops i (encoders g)")
      case True
      let ?g = "Emit ops Retained i g"
      from Cons.prems(1) i True have "activate_pass ops rec rep ss ?g = (b, g')" by simp
      from Cons.IH [OF this] Cons.prems(2) but_encoders_trans [OF but_encoders_step(2)] True
      show ?thesis unfolding dem by (auto simp: active_def demanded_configuration [of ?g g])
    next
      case False
      obtain b1 e where e: "Activate ops i s (encoders g) = (b1, e)" by fastforce
      note act = activated [OF Cons.prems(2) e]
      show ?thesis
      proof (cases b1)
        case False
        with Cons.prems(1) i e \<open>\<not> IsActive ops i (encoders g)\<close> have "g' = g\<lparr>encoders := e\<rparr>" "\<not> b" by simp_all
        with act False show ?thesis by (simp add: active_def)
      next
        case True
        let ?g = "Emit ops Activated i (g\<lparr>encoders := e\<rparr>)"
        from Cons.prems(1) i e True \<open>\<not> IsActive ops i (encoders g)\<close>
        have "activate_pass ops rec rep ss ?g = (b, g')" by simp
        from Cons.IH [OF this] act but_encoders_trans [OF but_encoders_trans [OF but_encoders_step(1) but_encoders_step(2)]] True
        show ?thesis unfolding dem by (auto simp: active_def demanded_configuration [of ?g g])
      qed
    qed
  qed
qed (simp add: demanded_def)

lemma release_pass_out:
  "ok (encoders g) \<Longrightarrow> ok (encoders (release_pass ops rec rep ss g)) \<and>
     but_encoders g (release_pass ops rec rep ss g) \<and>
     (\<forall>i. active ops (release_pass ops rec rep ss g) i \<longleftrightarrow> active ops g i \<and> \<not> undemanded rec rep ss g i)"
proof (induction ss arbitrary: g)
  case (Cons s ss)
  show ?case
  proof (cases "\<exists>i. CaptureIdFor g (stream_identity s) = Some i \<and> \<not> StreamNeedsEncoder (mode s) rec rep \<and>
      IsActive ops i (encoders g)")
    case False
    then have "release_pass ops rec rep (s # ss) g = release_pass ops rec rep ss g"
      by (auto split: option.splits)
    with Cons.IH [OF Cons.prems] False show ?thesis by (auto simp: undemanded_def active_def)
  next
    case True
    then obtain i where i: "CaptureIdFor g (stream_identity s) = Some i" "\<not> StreamNeedsEncoder (mode s) rec rep"
      "IsActive ops i (encoders g)" by blast
    let ?e = "Release ops i s (encoders g)"
    let ?g = "Emit ops Released i (g\<lparr>encoders := ?e\<rparr>)"
    have eq: "release_pass ops rec rep (s # ss) g = release_pass ops rec rep ss ?g" using i by simp
    note rel = released [OF Cons.prems, of i s]
    have "undemanded rec rep (s # ss) g j \<longleftrightarrow> j = i \<or> undemanded rec rep ss g j" for j
      using i by (auto simp: undemanded_def)
    moreover have "undemanded rec rep ss ?g = undemanded rec rep ss g" by (rule demanded_configuration(2)) simp
    moreover have "active ops ?g j \<longleftrightarrow> active ops g j \<and> j \<noteq> i" for j using rel by (simp add: active_def)
    moreover have "but_encoders g ?g" using but_encoders_trans [OF but_encoders_step(1) but_encoders_step(2)] .
    moreover have "ok (encoders ?g)" using rel by simp
    ultimately show ?thesis unfolding eq using Cons.IH [of ?g] but_encoders_trans by simp blast
  qed
qed (simp add: undemanded_def)

lemma release_all_out:
  "ok (encoders g) \<Longrightarrow> ok (encoders (release_all ops ss g)) \<and> but_encoders g (release_all ops ss g) \<and>
     (\<forall>i. active ops (release_all ops ss g) i \<longleftrightarrow> active ops g i \<and> \<not> undemanded False False ss g i)"
proof (induction ss arbitrary: g)
  case (Cons s ss)
  show ?case
  proof (cases "\<exists>i. CaptureIdFor g (stream_identity s) = Some i \<and> IsActive ops i (encoders g)")
    case False
    then have "release_all ops (s # ss) g = release_all ops ss g"
      by (auto split: option.splits)
    with Cons.IH [OF Cons.prems] False show ?thesis by (auto simp: undemanded_def active_def)
  next
    case True
    then obtain i where i: "CaptureIdFor g (stream_identity s) = Some i" "IsActive ops i (encoders g)" by blast
    let ?e = "Release ops i s (encoders g)"
    let ?g = "Emit ops Released i (g\<lparr>encoders := ?e\<rparr>)"
    have eq: "release_all ops (s # ss) g = release_all ops ss ?g" using i by simp
    note rel = released [OF Cons.prems, of i s]
    have "undemanded False False (s # ss) g j \<longleftrightarrow> j = i \<or> undemanded False False ss g j" for j
      using i by (auto simp: undemanded_def)
    moreover have "undemanded False False ss ?g = undemanded False False ss g" by (rule demanded_configuration(2)) simp
    moreover have "active ops ?g j \<longleftrightarrow> active ops g j \<and> j \<noteq> i" for j using rel by (simp add: active_def)
    moreover have "but_encoders g ?g" using but_encoders_trans [OF but_encoders_step(1) but_encoders_step(2)] .
    moreover have "ok (encoders ?g)" using rel by simp
    ultimately show ?thesis unfolding eq using Cons.IH [of ?g] but_encoders_trans by simp blast
  qed
qed (simp add: undemanded_def)

lemma Reconcile_out:
  assumes "ReconcileEncoderDemand ops g = (b, g')" and "ok (encoders g)"
  defines "rec \<equiv> IsRecordingActive (recording_state g)" and "rep \<equiv> IsReplayActive (replay_state g)"
    and "ss \<equiv> configured (configuration g)"
  shows "ok (encoders g') \<and> but_encoders g g' \<and> (\<forall>i. active ops g i \<longrightarrow> active ops g' i) \<and>
     (\<forall>i. active ops g' i \<longrightarrow> active ops g i \<or> demanded rec rep ss g i) \<and>
     (b \<longrightarrow> (\<forall>i. demanded rec rep ss g i \<longrightarrow> active ops g' i))"
proof -
  obtain b1 h where h: "create_pass ops ss g = (b1, h)" by fastforce
  note c = create_pass_out [OF h assms(2)]
  show ?thesis
  proof (cases b1)
    case False
    with assms(1) h have "g' = h" "\<not> b" by (simp_all add: ReconcileEncoderDemand_def ss_def)
    with c show ?thesis by simp
  next
    case True
    have conf: "configuration h = configuration g" using c but_encoders_fields by blast
    from assms(1) h True have "activate_pass ops rec rep ss h = (b, g')"
      by (simp add: ReconcileEncoderDemand_def ss_def rec_def rep_def conf)
    from activate_pass_out [OF this] c but_encoders_trans show ?thesis
      by (simp add: demanded_configuration [OF conf]) blast
  qed
qed

lemma Release_out:
  assumes "ok (encoders g)"
  shows "ok (encoders (ReleaseUndemandedEncoders ops g)) \<and> but_encoders g (ReleaseUndemandedEncoders ops g) \<and>
    (\<forall>i. active ops (ReleaseUndemandedEncoders ops g) i \<longleftrightarrow> active ops g i \<and>
       \<not> undemanded (IsRecordingActive (recording_state g)) (IsReplayActive (replay_state g))
           (configured (configuration g)) g i)"
  unfolding ReleaseUndemandedEncoders_def using release_pass_out [OF assms] .

end

end
