(* ===== verification/CaptureControlInvariant.thy ===== *)
theory CaptureControlInvariant
  imports EncoderDemand
begin

text \<open>
  The invariant of the capture engine between commands, and that every command and every step of the
  capture threads, the recording worker and the save keeps it.
\<close>

subsection \<open>The invariant\<close>

abbreviation rec_on :: "('w, 'e) CaptureControlEngine \<Rightarrow> bool" where
  "rec_on g \<equiv> IsRecordingActive (recording_state g)"

abbreviation rep_on :: "('w, 'e) CaptureControlEngine \<Rightarrow> bool" where
  "rep_on g \<equiv> IsReplayActive (replay_state g)"

abbreviation engine_streams :: "('w, 'e) CaptureControlEngine \<Rightarrow> ConfiguredStream list" where
  "engine_streams g \<equiv> configured (configuration g)"

definition ring_empty :: "capture_session \<Rightarrow> bool" where
  "ring_empty cap \<longleftrightarrow> (\<forall>st \<in> set (streams cap). stream_packets st = [])"

definition flow_ok :: "('w, 'e) CaptureControlEngine \<Rightarrow> bool" where
  "flow_ok g \<longleftrightarrow>
     recording_state g \<in> {RecordingConsumerState.Off, RecordingConsumerState.Running} \<and>
     (recording_consumer g \<noteq> None \<longleftrightarrow> rec_on g) \<and>
     replay_state g \<in> {ReplayConsumerState.Off, ReplayConsumerState.Running, Saving} \<and>
     (replay_state g = Saving \<longrightarrow> replay_consumer g \<noteq> None) \<and>
     consumers (capture g) = (if rec_on g then [recording_address g] else []) \<and>
     capture_running (capture g) = (rec_on g \<or> rep_on g) \<and>
     (if rec_on g \<or> rep_on g then capture_state g = Active
      else capture_state g = Idle \<or> capture_state g = CaptureInfrastructureState.Failed) \<and>
     (initialized g \<longrightarrow> capture_state g \<noteq> CaptureInfrastructureState.Failed) \<and>
     (rec_on g \<or> rep_on g \<longrightarrow> initialized g \<and> replay_retention_enabled (capture g) = rep_on g) \<and>
     (initialized g \<longrightarrow> streams (capture g) \<noteq> []) \<and>
     (\<not> rep_on g \<longrightarrow> ring_empty (capture g)) \<and>
     (rep_on g \<longrightarrow> replay_enabled (replay_configuration (configuration g)))"

definition stream_set_ok :: "('w, 'e) CaptureControlEngine \<Rightarrow> bool" where
  "stream_set_ok g \<longleftrightarrow> distinct (map stream_identity (engine_streams g)) \<and>
     (initialized g \<longrightarrow> length (enabled_streams (engine_streams g)) < 256)"

definition encoders_ok :: "'e EncoderController \<Rightarrow> ('e \<Rightarrow> bool) \<Rightarrow> ('w, 'e) CaptureControlEngine \<Rightarrow> bool" where
  "encoders_ok ops ok g \<longleftrightarrow> ok (encoders g) \<and>
     (\<forall>i. active ops g i \<longrightarrow> undemanded False False (engine_streams g) g i) \<and>
     (\<forall>i. demanded (rec_on g) (rep_on g) (engine_streams g) g i \<longrightarrow> active ops g i) \<and>
     (\<not> rec_on g \<and> \<not> rep_on g \<longrightarrow> (\<forall>i. \<not> active ops g i))"

definition consumers_ok :: "'w mkv_env \<Rightarrow> (nat \<Rightarrow> 'w) \<Rightarrow> ('w, 'e) CaptureControlEngine \<Rightarrow> bool" where
  "consumers_ok env fresh g \<longleftrightarrow>
     (\<forall>c. recording_consumer g = Some c \<longrightarrow> rc_reachable env fresh c \<and> rc_joinable c) \<and>
     (\<forall>r. recording_result g = Some r \<longrightarrow>
        (\<exists>c. rc_reachable env fresh c \<and> rc_phase c = Exited \<and> rc_result c = Some r))"

lemma on_states [simp]:
  "\<not> IsRecordingActive RecordingConsumerState.Off" "IsRecordingActive RecordingConsumerState.Running"
  "IsRecordingActive RecordingConsumerState.Starting" "IsRecordingActive RecordingConsumerState.Stopping"
  "\<not> IsReplayActive ReplayConsumerState.Off" "IsReplayActive ReplayConsumerState.Running"
  "IsReplayActive ReplayConsumerState.Starting" "IsReplayActive ReplayConsumerState.Stopping"
  "IsReplayActive Saving"
  by (simp_all add: IsRecordingActive_def IsReplayActive_def)

subsection \<open>The capture session\<close>

lemma retention_off [simp]:
  "ring_empty (SetReplayRetentionEnabled False cap)"
  "replay_retention_enabled (SetReplayRetentionEnabled on cap) = on"
  "consumers (SetReplayRetentionEnabled on cap) = consumers cap"
  "capture_running (SetReplayRetentionEnabled on cap) = capture_running cap"
  "streams (SetReplayRetentionEnabled on cap) = [] \<longleftrightarrow> streams cap = []"
  "ring_empty cap \<Longrightarrow> ring_empty (SetReplayRetentionEnabled on cap)"
  by (auto simp: SetReplayRetentionEnabled_def Let_def ring_empty_def)

lemma capture_Stop_simps [simp]:
  "streams (capture_Stop cap) = streams cap" "consumers (capture_Stop cap) = consumers cap"
  "\<not> capture_running (capture_Stop cap)" "ring_empty (capture_Stop cap) = ring_empty cap"
  by (simp_all add: capture_Stop_def ring_empty_def)

lemma Unsubscribe_simps [simp]:
  "streams (snd (Unsubscribe a cap)) = streams cap"
  "capture_running (snd (Unsubscribe a cap)) = capture_running cap"
  "replay_retention_enabled (snd (Unsubscribe a cap)) = replay_retention_enabled cap"
  "consumers cap = [a] \<Longrightarrow> consumers (snd (Unsubscribe a cap)) = []"
  "ring_empty (snd (Unsubscribe a cap)) = ring_empty cap"
  by (auto simp: Unsubscribe_def ring_empty_def)

lemma ring_empty_updates [simp]:
  "ring_empty (cap\<lparr>capture_running := b\<rparr>) = ring_empty cap"
  "ring_empty (cap\<lparr>consumers := cs\<rparr>) = ring_empty cap"
  by (simp_all add: ring_empty_def)

lemma evict_empty:
  assumes "\<forall>st \<in> set ss. stream_packets st = []"
  shows "\<forall>st \<in> set (fst (EvictToCapacity n ss k)). stream_packets st = []"
proof -
  have "fold (\<lambda>s oldest. case stream_packets s of
       [] \<Rightarrow> oldest
     | (c, _) # _ \<Rightarrow> Some (case oldest of Some o' \<Rightarrow> min o' c | None \<Rightarrow> c)) ss acc = acc" for acc :: "u64 option"
    using assms by (induction ss arbitrary: acc) auto
  then have "oldest_cts ss = None" by (simp add: oldest_cts_def)
  then have "evict_loop n ss k = (ss, k)" by (simp add: evict_loop.simps [of n ss k])
  then have "EvictToCapacity n ss k =
      over_streams (erase_while (\<lambda>_ p. \<not> keyframe (captured_packet p))) ss k"
    by (simp add: EvictToCapacity_def)
  moreover have "st \<in> set (fst (over_streams (erase_while P) ts m)) \<Longrightarrow>
      \<forall>st \<in> set ts. stream_packets st = [] \<Longrightarrow> stream_packets st = []" for st ts m P
  proof (induction ts arbitrary: m)
    case (Cons t ts)
    then show ?case by (auto simp: case_prod_beta Let_def erase_while_packets)
  qed simp
  ultimately show ?thesis using assms by auto
qed

lemma SetRing_simps [simp]:
  "consumers (SetRingCapacityBytes n cap) = consumers cap"
  "capture_running (SetRingCapacityBytes n cap) = capture_running cap"
  "replay_retention_enabled (SetRingCapacityBytes n cap) = replay_retention_enabled cap"
  by (simp_all add: SetRingCapacityBytes_def Let_def case_prod_beta)

lemma evict_length: "length (fst (EvictToCapacity k ss m)) = length ss"
proof -
  have "length (fst (evict_loop k ss m)) = length ss"
  proof (induction k ss m rule: evict_loop.induct)
    case (1 k ss m)
    obtain c where c: "oldest_cts ss = Some c \<or> oldest_cts ss = None" by (cases "oldest_cts ss") auto
    obtain ts l where e: "evict_common_prefix c ss m = (ts, l)" by fastforce
    have "length ts = length ss" using over_streams_length [of "erase_while (\<lambda>k _. k \<le> c)" ss m] e
      by (simp add: evict_common_prefix_def)
    with 1 c e show ?case by (auto simp: evict_loop.simps [of k ss m] split: option.split)
  qed
  then show ?thesis by (simp add: EvictToCapacity_def case_prod_beta over_streams_length)
qed

lemma evict_Nil: "fst (EvictToCapacity k ss m) = [] \<longleftrightarrow> ss = []"
  using evict_length [of k ss m] by (metis length_0_conv)

lemma SetRing_streams: "streams (SetRingCapacityBytes n cap) = [] \<longleftrightarrow> streams cap = []"
  by (simp add: SetRingCapacityBytes_def Let_def case_prod_beta evict_Nil)

lemma SetRing_ring: "ring_empty cap \<Longrightarrow> ring_empty (SetRingCapacityBytes n cap)"
  using evict_empty [of "streams cap" n "evicted_packet_count cap"]
  by (simp add: ring_empty_def SetRingCapacityBytes_def Let_def case_prod_beta)

lemma Ingest_simps:
  assumes "Ingest i p x cap = (b, cap', ds)"
  shows "consumers cap' = consumers cap \<and> capture_running cap' = capture_running cap \<and>
    replay_retention_enabled cap' = replay_retention_enabled cap \<and> (streams cap \<noteq> [] \<longrightarrow> streams cap' \<noteq> []) \<and>
    (ring_empty cap \<longrightarrow> \<not> (capture_running cap \<and> replay_retention_enabled cap) \<longrightarrow> ring_empty cap')"
proof (cases "\<not> capture_running cap \<or> unat i \<ge> length (streams cap) \<or> payload p = [] \<or>
    sint (timebase_num p) \<le> 0 \<or> sint (timebase_den p) \<le> 0 \<or>
    om_find (stream_packets (streams cap ! unat i)) (source_cts p) \<noteq> None")
  case True
  then have "\<exists>m n. cap' = cap\<lparr>rejected_packet_count := m\<rparr> \<or> cap' = cap\<lparr>duplicate_packet_count := n\<rparr>"
    using assms by (auto simp: Ingest_def split: if_splits)
  then show ?thesis by (auto simp: ring_empty_def)
next
  case False
  let ?st = "observe_stream_config p x (streams cap ! unat i)"
  have st: "stream_packets ?st = stream_packets (streams cap ! unat i)"
    by (simp add: observe_stream_config_def Let_def)
  show ?thesis
  proof (cases "replay_retention_enabled cap")
    case True
    with False assms show ?thesis
      by (auto simp: Ingest_def Let_def case_prod_beta evict_Nil)
  next
    case off: False
    with False assms have "cap' = cap\<lparr>streams := (streams cap)[unat i := ?st]\<rparr>"
      by (auto simp: Ingest_def Let_def case_prod_beta)
    moreover have "ring_empty cap \<Longrightarrow> ring_empty (cap\<lparr>streams := (streams cap)[unat i := ?st]\<rparr>)"
      using False st by (auto simp: ring_empty_def dest!: set_update_subset_insert [THEN subsetD])
    ultimately show ?thesis by simp
  qed
qed

subsection \<open>Composite operations\<close>

lemma flow_but: "but_encoders g g' \<Longrightarrow> flow_ok g' = flow_ok g"
  by (drule but_encoders_fields) (simp add: flow_ok_def)

lemma stream_set_configured:
  "engine_streams g' = engine_streams g \<Longrightarrow> initialized g' = initialized g \<Longrightarrow> stream_set_ok g' = stream_set_ok g"
  by (simp add: stream_set_ok_def)

definition capture_started :: "('w, 'e) CaptureControlEngine \<Rightarrow> ('w, 'e) CaptureControlEngine" where
  "capture_started g = g\<lparr>capture := (capture g)\<lparr>capture_running := True\<rparr>, capture_state := Active,
     capture_epoch := (if capture_state g = Active then capture_epoch g else capture_epoch g + 1)\<rparr>"

definition capture_stopped :: "('w, 'e) CaptureControlEngine \<Rightarrow> ('w, 'e) CaptureControlEngine" where
  "capture_stopped g = g\<lparr>capture := SetReplayRetentionEnabled False (capture_Stop (capture g)), capture_state := Idle\<rparr>"

context encoder_controller
begin

lemma activate_capture_out:
  assumes "activate_capture ops g = (b, g')" and "capture_state g \<noteq> CaptureInfrastructureState.Failed"
    and "capture_state g = Active \<longleftrightarrow> capture_running (capture g)" and "streams (capture g) \<noteq> []"
    and "ok (encoders g)"
  shows "but_encoders (capture_started g) g' \<and> ok (encoders g') \<and> (\<forall>i. active ops g i \<longrightarrow> active ops g' i) \<and>
    (\<forall>i. active ops g' i \<longrightarrow> active ops g i \<or> demanded (rec_on g) (rep_on g) (engine_streams g) g i) \<and>
    (b \<longrightarrow> (\<forall>i. demanded (rec_on g) (rep_on g) (engine_streams g) g i \<longrightarrow> active ops g' i))"
proof -
  have "EnsureCaptureActive g = (True, capture_started g)"
  proof (cases "capture_running (capture g)")
    case True
    then show ?thesis using assms(3) by (simp add: EnsureCaptureActive_def capture_started_def)
  next
    case False
    then show ?thesis using assms(2-4)
      by (cases "streams (capture g)") (auto simp: EnsureCaptureActive_def capture_started_def capture_Start_def Let_def)
  qed
  then have "ReconcileEncoderDemand ops (capture_started g) = (b, g')"
    using assms(1) by (simp add: activate_capture_def)
  from Reconcile_out [OF this] assms(5) demanded_configuration [of "capture_started g" g]
  show ?thesis by (simp add: capture_started_def active_def)
qed

lemma StopCaptureIfUnused_out:
  assumes "ok (encoders g)" and "\<not> rec_on g" and "\<not> rep_on g"
  shows "but_encoders (capture_stopped g) (StopCaptureIfUnused ops g) \<and>
    ok (encoders (StopCaptureIfUnused ops g)) \<and>
    (\<forall>i. active ops (StopCaptureIfUnused ops g) i \<longleftrightarrow>
       active ops g i \<and> \<not> undemanded False False (engine_streams g) g i)"
proof -
  let ?s = "g\<lparr>capture_state := CaptureInfrastructureState.Stopping,
    capture := SetReplayRetentionEnabled False (capture_Stop (capture g))\<rparr>"
  let ?r = "ReleaseUndemandedEncoders ops ?s"
  have eq: "StopCaptureIfUnused ops g = ?r\<lparr>capture_state := Idle\<rparr>"
    using assms(2,3) by (simp add: StopCaptureIfUnused_def Let_def)
  have r: "ok (encoders ?r)" "but_encoders ?s ?r"
    "\<forall>i. active ops ?r i \<longleftrightarrow> active ops g i \<and> \<not> undemanded False False (engine_streams g) g i"
    using Release_out [of ?s] assms demanded_configuration(2) [of ?s g] by (simp_all add: active_def)
  from r(2) obtain e d where "?r = ?s\<lparr>encoders := e, diagnostics := d\<rparr>"
    unfolding but_encoders_def by blast
  then have "?r\<lparr>capture_state := Idle\<rparr> = (capture_stopped g)\<lparr>encoders := e, diagnostics := d\<rparr>"
    by (simp add: capture_stopped_def)
  then have "but_encoders (capture_stopped g) (?r\<lparr>capture_state := Idle\<rparr>)"
    unfolding but_encoders_def by blast
  with r show ?thesis by (simp add: eq active_def)
qed

lemma StopCaptureIfUnused_used [simp]: "rec_on g \<or> rep_on g \<Longrightarrow> StopCaptureIfUnused ops g = g"
  by (auto simp: StopCaptureIfUnused_def)

subsection \<open>The commands keep the invariant\<close>

definition engine_ok :: "('w, 'e) CaptureControlEngine \<Rightarrow> bool" where
  "engine_ok g \<longleftrightarrow> flow_ok g \<and> stream_set_ok g \<and> encoders_ok ops ok g"

lemma demanded_known: "demanded rec rep ss g i \<Longrightarrow> undemanded False False ss g i"
  by (auto simp: demanded_def undemanded_def)

lemma demanded_not_needed: "demanded False False ss g i \<Longrightarrow> False"
  by (auto simp: demanded_def)

lemma demand_grows:
  "demanded rec rep ss g i \<Longrightarrow> (rec \<longrightarrow> rec') \<Longrightarrow> (rep \<longrightarrow> rep') \<Longrightarrow> demanded rec' rep' ss g i"
  unfolding demanded_def by (elim bexE conjE) (rule bexI, rule conjI, assumption, rule needs_mono)

lemma demanded_not_undemanded:
  assumes "stream_set_ok g" and "initialized g"
    and "demanded rec rep (engine_streams g) g i" and "undemanded rec rep (engine_streams g) g i"
  shows False
proof -
  from assms(3,4) obtain s t where s: "s \<in> set (engine_streams g)" "t \<in> set (engine_streams g)"
    "CaptureIdFor g (stream_identity s) = Some i" "CaptureIdFor g (stream_identity t) = Some i"
    "StreamNeedsEncoder (mode s) rec rep" "\<not> StreamNeedsEncoder (mode t) rec rep"
    by (auto simp: demanded_def undemanded_def)
  have "stream_identity s = stream_identity t"
    using capture_id_inj [of "engine_streams g"] assms(1,2) s(3,4) by (auto simp: CaptureIdFor_def stream_set_ok_def)
  then have "s = t" using assms(1) s(1,2) by (auto simp: stream_set_ok_def distinct_map dest: inj_onD)
  with s show False by simp
qed

text \<open>The end of a command that leaves nothing running: the capture is stopped, no encoder is active.\<close>

lemma stopped_ok:
  assumes h: "\<not> rec_on h" "\<not> rep_on h" "ok (encoders h)" "stream_set_ok h"
    and known: "\<forall>i. active ops h i \<longrightarrow> undemanded False False (engine_streams h) h i"
    and states: "recording_state h = RecordingConsumerState.Off" "replay_state h = ReplayConsumerState.Off"
      "recording_consumer h = None" "consumers (capture h) = []" "initialized h \<longrightarrow> streams (capture h) \<noteq> []"
  shows "engine_ok (StopCaptureIfUnused ops h)"
proof -
  let ?g = "StopCaptureIfUnused ops h"
  note out = StopCaptureIfUnused_out [OF h(3,1,2)]
  then have but: "but_encoders (capture_stopped h) ?g" by blast
  note fields = but_encoders_fields [OF this]
  have "flow_ok (capture_stopped h)" using states by (auto simp: flow_ok_def capture_stopped_def)
  then have "flow_ok ?g" using flow_but [OF but] by simp
  moreover have "stream_set_ok ?g"
    using fields h(4) stream_set_configured [of ?g h] by (simp add: capture_stopped_def)
  moreover have "\<not> active ops ?g i" for i using out known by blast
  ultimately show ?thesis
    using out fields h(1,2) by (auto simp: engine_ok_def encoders_ok_def capture_stopped_def dest: demanded_not_needed)
qed

lemma StartReplay_keeps:
  assumes "engine_ok g"
  shows "engine_ok (snd (StartReplay ops g)) \<and>
    recording_consumer (snd (StartReplay ops g)) = recording_consumer g \<and>
    recording_result (snd (StartReplay ops g)) = recording_result g"
proof (cases "initialized g \<and> replay_enabled (replay_configuration (configuration g)) \<and>
    replay_state g = ReplayConsumerState.Off \<and> SelectedCaptureIds g CaptureConsumer.Replay \<noteq> []")
  case False
  then have "snd (StartReplay ops g) = g" by (auto simp: StartReplay_def)
  with assms show ?thesis by simp
next
  case True
  have flow: "flow_ok g" and set: "stream_set_ok g" and enc: "encoders_ok ops ok g"
    using assms by (simp_all add: engine_ok_def)
  let ?g = "g\<lparr>replay_state := ReplayConsumerState.Starting, replay_result := None,
     replay_consumer := (if replay_consumer g = None then Some new_replay else replay_consumer g),
     capture := SetReplayRetentionEnabled True (capture g)\<rparr>"
  obtain b h where h: "activate_capture ops ?g = (b, h)" by fastforce
  have "but_encoders (capture_started ?g) h \<and> ok (encoders h) \<and> (\<forall>i. active ops ?g i \<longrightarrow> active ops h i) \<and>
    (\<forall>i. active ops h i \<longrightarrow> active ops ?g i \<or> demanded (rec_on ?g) (rep_on ?g) (engine_streams ?g) ?g i) \<and>
    (b \<longrightarrow> (\<forall>i. demanded (rec_on ?g) (rep_on ?g) (engine_streams ?g) ?g i \<longrightarrow> active ops h i))"
    by (rule activate_capture_out [OF h])
      (use flow enc True in \<open>auto simp: flow_ok_def encoders_ok_def\<close>)
  then have but: "but_encoders (capture_started ?g) h" and ok: "ok (encoders h)"
    and mono: "\<And>i. active ops g i \<Longrightarrow> active ops h i"
    and only: "\<And>i. active ops h i \<Longrightarrow> active ops g i \<or> demanded (rec_on g) True (engine_streams g) g i"
    and all: "\<And>i. b \<Longrightarrow> demanded (rec_on g) True (engine_streams g) g i \<Longrightarrow> active ops h i"
    using demanded_configuration [of ?g g] by (auto simp: active_def)
  note fields = but_encoders_fields [OF but]
  have conf: "configuration h = configuration g" using fields by (simp add: capture_started_def)
  note dem = demanded_configuration [OF conf]
  have known: "\<forall>i. active ops h i \<longrightarrow> undemanded False False (engine_streams g) h i"
    using only enc demanded_known unfolding dem encoders_ok_def by blast
  have eval: "snd (StartReplay ops g) = (if b then h\<lparr>replay_state := ReplayConsumerState.Running\<rparr>
      else snd (give_up_replay ops h))"
    using True h fields by (simp add: StartReplay_def Let_def capture_started_def)
  have sset: "stream_set_ok h" using set conf fields stream_set_configured [of h g] by (simp add: capture_started_def)
  show ?thesis
  proof (cases b)
    case b: True
    let ?r = "h\<lparr>replay_state := ReplayConsumerState.Running\<rparr>"
    have "flow_ok ?r" using flow True fields by (auto simp: flow_ok_def capture_started_def)
    moreover have "stream_set_ok ?r" using sset stream_set_configured [of ?r h] by simp
    moreover have "encoders_ok ops ok ?r"
      using ok known all [OF b] fields conf
      by (simp add: encoders_ok_def active_def dem demanded_configuration [of ?r h] capture_started_def)
    ultimately show ?thesis using eval b fields by (simp add: engine_ok_def capture_started_def)
  next
    case False
    let ?r = "h\<lparr>replay_state := ReplayConsumerState.Off, capture := SetReplayRetentionEnabled False (capture h)\<rparr>"
    have ev: "snd (StartReplay ops g) = StopCaptureIfUnused ops ?r"
      using eval False by (simp add: give_up_replay_def Let_def)
    have conf_r: "configuration ?r = configuration g" using conf by simp
    note dem_r = demanded_configuration [OF conf_r]
    have act_r: "active ops ?r = active ops h" by (simp add: active_def fun_eq_iff)
    have knr: "\<forall>i. active ops ?r i \<longrightarrow> undemanded False False (engine_streams ?r) ?r i"
      unfolding act_r conf_r dem_r using known by (simp add: dem)
    have ssr: "stream_set_ok ?r" using sset stream_set_configured [of ?r h] by simp
    show ?thesis
    proof (cases "rec_on g")
      case on: True
      then have "StopCaptureIfUnused ops ?r = ?r" using fields by (simp add: capture_started_def)
      moreover have "flow_ok ?r" using flow True on fields by (auto simp: flow_ok_def capture_started_def)
      moreover have "encoders_ok ops ok ?r"
        using ok knr mono enc on True fields unfolding encoders_ok_def act_r conf_r dem_r
        by (simp add: capture_started_def)
      ultimately show ?thesis using ev ssr fields by (simp add: engine_ok_def capture_started_def)
    next
      case off: False
      have "engine_ok (StopCaptureIfUnused ops ?r)"
        by (rule stopped_ok [OF _ _ _ ssr knr])
          (use off ok flow True fields in \<open>auto simp: flow_ok_def capture_started_def\<close>)
      moreover have "but_encoders (capture_stopped ?r) (StopCaptureIfUnused ops ?r)"
        using StopCaptureIfUnused_out [of ?r] off ok fields by (simp add: capture_started_def)
      note but_encoders_fields [OF this]
      ultimately show ?thesis using ev fields by (simp add: capture_stopped_def capture_started_def)
    qed
  qed
qed

text \<open>The end of a stop: undemanded encoders are released, and the capture stops unless it is used.\<close>

lemma wind_down_ok:
  assumes h: "ok (encoders h)" "stream_set_ok h" "initialized h"
    and known: "\<forall>i. active ops h i \<longrightarrow> undemanded False False (engine_streams h) h i"
    and on: "rec_on h \<or> rep_on h \<Longrightarrow> flow_ok h \<and>
      (\<forall>i. demanded (rec_on h) (rep_on h) (engine_streams h) h i \<longrightarrow> active ops h i)"
    and off: "\<not> rec_on h \<and> \<not> rep_on h \<Longrightarrow> recording_state h = RecordingConsumerState.Off \<and>
      replay_state h = ReplayConsumerState.Off \<and> recording_consumer h = None \<and> consumers (capture h) = [] \<and>
      streams (capture h) \<noteq> []"
  defines "r \<equiv> ReleaseUndemandedEncoders ops h"
  shows "engine_ok (StopCaptureIfUnused ops r) \<and>
    recording_consumer (StopCaptureIfUnused ops r) = recording_consumer h \<and>
    recording_result (StopCaptureIfUnused ops r) = recording_result h \<and>
    recording_state (StopCaptureIfUnused ops r) = recording_state h \<and>
    replay_state (StopCaptureIfUnused ops r) = replay_state h \<and>
    replay_result (StopCaptureIfUnused ops r) = replay_result h \<and>
    replay_consumer (StopCaptureIfUnused ops r) = replay_consumer h"
proof -
  have r: "ok (encoders r)" "but_encoders h r"
    "\<And>i. active ops r i \<longleftrightarrow> active ops h i \<and> \<not> undemanded (rec_on h) (rep_on h) (engine_streams h) h i"
    using Release_out [OF h(1)] by (simp_all add: r_def)
  note fields = but_encoders_fields [OF r(2)]
  then have conf: "configuration r = configuration h" by simp
  note dem = demanded_configuration [OF conf]
  have known_r: "\<forall>i. active ops r i \<longrightarrow> undemanded False False (engine_streams r) r i"
    using known r(3) by (simp add: dem conf)
  have set_r: "stream_set_ok r" using h(2) fields stream_set_configured [of r h] by simp
  show ?thesis
  proof (cases "rec_on h \<or> rep_on h")
    case True
    then have "StopCaptureIfUnused ops r = r" using fields by (intro StopCaptureIfUnused_used) simp
    moreover have "flow_ok r" using on [OF True] flow_but [OF r(2)] by simp
    moreover have "active ops r i" if "demanded (rec_on h) (rep_on h) (engine_streams h) h i" for i
      using on [OF True] r(3) that demanded_not_undemanded [OF h(2,3) that] by blast
    then have "encoders_ok ops ok r"
      using r(1) known_r fields True by (auto simp: encoders_ok_def dem)
    ultimately show ?thesis using set_r fields by (simp add: engine_ok_def)
  next
    case False
    have "engine_ok (StopCaptureIfUnused ops r)"
      by (rule stopped_ok [OF _ _ r(1) set_r known_r]) (use False off fields in auto)
    moreover have "but_encoders (capture_stopped r) (StopCaptureIfUnused ops r)"
      using StopCaptureIfUnused_out [OF r(1)] False fields by simp
    note but_encoders_fields [OF this]
    ultimately show ?thesis using fields by (simp add: capture_stopped_def)
  qed
qed

lemma StopRecording_keeps:
  assumes "engine_ok g" and "consumers_ok env fresh g"
  shows "engine_ok (snd (StopRecording ops env fresh now g)) \<and>
    consumers_ok env fresh (snd (StopRecording ops env fresh now g)) \<and>
    recording_state (snd (StopRecording ops env fresh now g)) = RecordingConsumerState.Off \<and>
    replay_state (snd (StopRecording ops env fresh now g)) = replay_state g"
proof (cases "recording_state g = RecordingConsumerState.Off")
  case True
  then show ?thesis using assms by (simp add: StopRecording_def)
next
  case False
  have flow: "flow_ok g" and set: "stream_set_ok g" and enc: "encoders_ok ops ok g"
    using assms by (simp_all add: engine_ok_def)
  have on: "recording_state g = RecordingConsumerState.Running" and act: "capture_state g = Active"
    using flow False by (auto simp: flow_ok_def split: if_splits)
  then obtain c where c: "recording_consumer g = Some c" using flow by (auto simp: flow_ok_def)
  let ?h = "g\<lparr>capture := snd (Unsubscribe (recording_address g) (capture g)),
     recording_result := rc_result (rc_StopAndJoin env fresh now c), recording_consumer := None,
     recording_state := RecordingConsumerState.Off\<rparr>"
  have eval: "snd (StopRecording ops env fresh now g) = StopCaptureIfUnused ops (ReleaseUndemandedEncoders ops ?h)"
    using False c by (simp add: StopRecording_def Let_def)
  have conf: "configuration ?h = configuration g" by simp
  note dem = demanded_configuration [OF conf]
  have out: "engine_ok (StopCaptureIfUnused ops (ReleaseUndemandedEncoders ops ?h)) \<and>
    recording_consumer (StopCaptureIfUnused ops (ReleaseUndemandedEncoders ops ?h)) = recording_consumer ?h \<and>
    recording_result (StopCaptureIfUnused ops (ReleaseUndemandedEncoders ops ?h)) = recording_result ?h \<and>
    recording_state (StopCaptureIfUnused ops (ReleaseUndemandedEncoders ops ?h)) = recording_state ?h \<and>
    replay_state (StopCaptureIfUnused ops (ReleaseUndemandedEncoders ops ?h)) = replay_state ?h \<and>
    replay_result (StopCaptureIfUnused ops (ReleaseUndemandedEncoders ops ?h)) = replay_result ?h \<and>
    replay_consumer (StopCaptureIfUnused ops (ReleaseUndemandedEncoders ops ?h)) = replay_consumer ?h"
  proof (rule wind_down_ok)
    show "ok (encoders ?h)" using enc by (simp add: encoders_ok_def)
    show "stream_set_ok ?h" using set stream_set_configured [of ?h g] by simp
    show "initialized ?h" using flow on by (simp add: flow_ok_def)
    show "\<forall>i. active ops ?h i \<longrightarrow> undemanded False False (engine_streams ?h) ?h i"
      using enc by (simp add: encoders_ok_def dem active_def)
    show "flow_ok ?h \<and> (\<forall>i. demanded (rec_on ?h) (rep_on ?h) (engine_streams ?h) ?h i \<longrightarrow> active ops ?h i)"
      if "rec_on ?h \<or> rep_on ?h"
    proof
      show "flow_ok ?h" using that flow on act by (auto simp: flow_ok_def)
      show "\<forall>i. demanded (rec_on ?h) (rep_on ?h) (engine_streams ?h) ?h i \<longrightarrow> active ops ?h i"
        using enc on by (auto simp: encoders_ok_def dem active_def dest: demand_grows [where rec' = True])
    qed
    show "recording_state ?h = RecordingConsumerState.Off \<and> replay_state ?h = ReplayConsumerState.Off \<and>
        recording_consumer ?h = None \<and> consumers (capture ?h) = [] \<and> streams (capture ?h) \<noteq> []"
      if "\<not> rec_on ?h \<and> \<not> rep_on ?h"
      using that flow on by (auto simp: flow_ok_def)
  qed
  have "rc_reachable env fresh (rc_StopAndJoin env fresh now c) \<and> rc_phase (rc_StopAndJoin env fresh now c) = Exited"
    using stop_and_join [of env fresh c now] assms(2) c by (simp add: consumers_ok_def)
  then have "consumers_ok env fresh (StopCaptureIfUnused ops (ReleaseUndemandedEncoders ops ?h))"
    using out by (auto simp: consumers_ok_def)
  with out eval show ?thesis by simp
qed

lemma StopReplay_keeps:
  assumes "engine_ok g"
  shows "engine_ok (snd (StopReplay ops env fresh t0 t1 g)) \<and>
    recording_consumer (snd (StopReplay ops env fresh t0 t1 g)) = recording_consumer g \<and>
    recording_result (snd (StopReplay ops env fresh t0 t1 g)) = recording_result g \<and>
    replay_state (snd (StopReplay ops env fresh t0 t1 g)) = ReplayConsumerState.Off \<and>
    replay_result (snd (StopReplay ops env fresh t0 t1 g)) = replay_result g \<and>
    (replay_state g \<noteq> ReplayConsumerState.Off \<longrightarrow> replay_consumer (snd (StopReplay ops env fresh t0 t1 g)) =
       map_option (\<lambda>c. fst (replay_Wait env fresh t0 t1 c)) (replay_consumer g))"
proof (cases "replay_state g = ReplayConsumerState.Off")
  case True
  then show ?thesis using assms by (simp add: StopReplay_def)
next
  case False
  have flow: "flow_ok g" and set: "stream_set_ok g" and enc: "encoders_ok ops ok g"
    using assms by (simp_all add: engine_ok_def)
  have on: "rep_on g" and act: "capture_state g = Active"
    using flow False by (auto simp: flow_ok_def IsReplayActive_def split: if_splits)
  let ?c = "map_option (\<lambda>c. fst (replay_Wait env fresh t0 t1 c)) (replay_consumer g)"
  let ?h = "g\<lparr>replay_consumer := ?c, replay_state := ReplayConsumerState.Off,
     capture := SetReplayRetentionEnabled False (capture g)\<rparr>"
  have upd: "g\<lparr>replay_consumer := None\<rparr> = g" if "replay_consumer g = None" using that by simp
  have eval: "snd (StopReplay ops env fresh t0 t1 g) = StopCaptureIfUnused ops (ReleaseUndemandedEncoders ops ?h)"
    using False by (cases "replay_consumer g") (simp_all add: StopReplay_def WaitForReplaySave_def Let_def upd)
  have conf: "configuration ?h = configuration g" by simp
  note dem = demanded_configuration [OF conf]
  have out: "engine_ok (StopCaptureIfUnused ops (ReleaseUndemandedEncoders ops ?h)) \<and>
    recording_consumer (StopCaptureIfUnused ops (ReleaseUndemandedEncoders ops ?h)) = recording_consumer ?h \<and>
    recording_result (StopCaptureIfUnused ops (ReleaseUndemandedEncoders ops ?h)) = recording_result ?h \<and>
    recording_state (StopCaptureIfUnused ops (ReleaseUndemandedEncoders ops ?h)) = recording_state ?h \<and>
    replay_state (StopCaptureIfUnused ops (ReleaseUndemandedEncoders ops ?h)) = replay_state ?h \<and>
    replay_result (StopCaptureIfUnused ops (ReleaseUndemandedEncoders ops ?h)) = replay_result ?h \<and>
    replay_consumer (StopCaptureIfUnused ops (ReleaseUndemandedEncoders ops ?h)) = replay_consumer ?h"
  proof (rule wind_down_ok)
    show "ok (encoders ?h)" using enc by (simp add: encoders_ok_def)
    show "stream_set_ok ?h" using set stream_set_configured [of ?h g] by simp
    show "initialized ?h" using flow on by (simp add: flow_ok_def)
    show "\<forall>i. active ops ?h i \<longrightarrow> undemanded False False (engine_streams ?h) ?h i"
      using enc by (simp add: encoders_ok_def dem active_def)
    show "flow_ok ?h \<and> (\<forall>i. demanded (rec_on ?h) (rep_on ?h) (engine_streams ?h) ?h i \<longrightarrow> active ops ?h i)"
      if "rec_on ?h \<or> rep_on ?h"
    proof
      show "flow_ok ?h" using that flow on act by (auto simp: flow_ok_def)
      show "\<forall>i. demanded (rec_on ?h) (rep_on ?h) (engine_streams ?h) ?h i \<longrightarrow> active ops ?h i"
        using enc on by (auto simp: encoders_ok_def dem active_def dest: demand_grows [where rep' = True])
    qed
    show "recording_state ?h = RecordingConsumerState.Off \<and> replay_state ?h = ReplayConsumerState.Off \<and>
        recording_consumer ?h = None \<and> consumers (capture ?h) = [] \<and> streams (capture ?h) \<noteq> []"
      if "\<not> rec_on ?h \<and> \<not> rep_on ?h"
      using that flow on by (auto simp: flow_ok_def)
  qed
  with out eval show ?thesis by simp
qed

lemma StartRecording_keeps:
  fixes g :: "('w, 'e) CaptureControlEngine"
  assumes "engine_ok g" and "consumers_ok env fresh g"
  shows "engine_ok (snd (StartRecording ops now addr paths g)) \<and>
    consumers_ok env fresh (snd (StartRecording ops now addr paths g))"
proof (cases "initialized g \<and> recording_state g = RecordingConsumerState.Off \<and>
    length paths = length (SelectedCaptureIds g CaptureConsumer.Recording) \<and> paths \<noteq> []")
  case False
  then have "snd (StartRecording ops now addr paths g) = g" by (auto simp: StartRecording_def Let_def)
  with assms show ?thesis by simp
next
  case True
  have flow: "flow_ok g" and set: "stream_set_ok g" and enc: "encoders_ok ops ok g"
    using assms by (simp_all add: engine_ok_def)
  let ?ids = "SelectedCaptureIds g CaptureConsumer.Recording"
  obtain st and c :: "'w SynchronizedRecordingConsumer" where rc: "rc_Start now (new_recording (SelectedPacketConfigs g CaptureConsumer.Recording) paths ?ids) =
      (st, c)" by fastforce
  obtain sub cap where sub: "(if st then Subscribe addr (capture g) else (False, capture g)) = (sub, cap)" by fastforce
  have none: "recording_consumer g = None" "consumers (capture g) = []" using flow True by (auto simp: flow_ok_def)
  have idsg: "SelectedCaptureIds (g\<lparr>recording_state := RecordingConsumerState.Starting, recording_result := None\<rparr>) = SelectedCaptureIds g"
    "SelectedPacketConfigs (g\<lparr>recording_state := RecordingConsumerState.Starting, recording_result := None\<rparr>) = SelectedPacketConfigs g"
    by (simp_all add: SelectedCaptureIds_def SelectedPacketConfigs_def fun_eq_iff)
  show ?thesis
  proof (cases "st \<and> sub")
    case False
    have cap: "cap = capture g"
      using sub False by (auto simp: Subscribe_def split: if_splits)
    have "snd (StartRecording ops now addr paths g) = g\<lparr>recording_result := None, recording_address := addr\<rparr>"
      using True rc sub False none cap by (auto simp: StartRecording_def Let_def idsg)
    moreover have "engine_ok (g\<lparr>recording_result := None, recording_address := addr\<rparr>)"
      using assms(1) none True demanded_configuration [of "g\<lparr>recording_result := None, recording_address := addr\<rparr>" g]
      by (auto simp: engine_ok_def flow_ok_def stream_set_ok_def encoders_ok_def active_def)
    ultimately show ?thesis using assms(2) by (simp add: consumers_ok_def)
  next
    case started: True
    have cap: "cap = (capture g)\<lparr>consumers := [addr]\<rparr>"
      using sub started none by (auto simp: Subscribe_def split: if_splits)
    have rcc: "rc_reachable env fresh c" "rc_joinable c"
    proof -
      have "rc_reachable env fresh (snd (rc_Start now (new_recording (SelectedPacketConfigs g CaptureConsumer.Recording) paths ?ids)))"
        by (intro rc_reachable.stepped [OF _ rc_step.start] rc_reachable.created)
      then show "rc_reachable env fresh c" by (simp add: rc)
      show "rc_joinable c" using rc started by (auto simp: rc_Start_def split: if_splits)
    qed
    let ?g = "g\<lparr>recording_state := RecordingConsumerState.Starting, recording_result := None,
       recording_consumer := Some c, recording_address := addr,
       capture := SetReplayRetentionEnabled (rep_on g) cap\<rparr>"
    obtain b h where h: "activate_capture ops ?g = (b, h)" by fastforce
    have "but_encoders (capture_started ?g) h \<and> ok (encoders h) \<and> (\<forall>i. active ops ?g i \<longrightarrow> active ops h i) \<and>
      (\<forall>i. active ops h i \<longrightarrow> active ops ?g i \<or> demanded (rec_on ?g) (rep_on ?g) (engine_streams ?g) ?g i) \<and>
      (b \<longrightarrow> (\<forall>i. demanded (rec_on ?g) (rep_on ?g) (engine_streams ?g) ?g i \<longrightarrow> active ops h i))"
      by (rule activate_capture_out [OF h])
        (use flow enc True in \<open>auto simp: flow_ok_def encoders_ok_def cap\<close>)
    then have but: "but_encoders (capture_started ?g) h" and ok: "ok (encoders h)"
      and mono: "\<And>i. active ops g i \<Longrightarrow> active ops h i"
      and only: "\<And>i. active ops h i \<Longrightarrow> active ops g i \<or> demanded True (rep_on g) (engine_streams g) g i"
      and all: "\<And>i. b \<Longrightarrow> demanded True (rep_on g) (engine_streams g) g i \<Longrightarrow> active ops h i"
      using demanded_configuration [of ?g g] by (auto simp: active_def)
    note fields = but_encoders_fields [OF but]
    have conf: "configuration h = configuration g" using fields by (simp add: capture_started_def)
    note dem = demanded_configuration [OF conf]
    have known: "\<forall>i. active ops h i \<longrightarrow> undemanded False False (engine_streams g) h i"
      using only enc demanded_known unfolding dem encoders_ok_def by blast
    have sset: "stream_set_ok h" using set conf fields stream_set_configured [of h g] by (simp add: capture_started_def)
    have eval: "snd (StartRecording ops now addr paths g) = (if b then h\<lparr>recording_state := RecordingConsumerState.Running\<rparr>
        else snd (abandon_recording ops h))"
      using True rc sub started h fields by (simp add: StartRecording_def Let_def capture_started_def idsg)
    show ?thesis
    proof (cases b)
      case b: True
      let ?r = "h\<lparr>recording_state := RecordingConsumerState.Running\<rparr>"
      have conf_r: "configuration ?r = configuration g" using conf by simp
      have act_r: "active ops ?r = active ops h" by (simp add: active_def fun_eq_iff)
      have "flow_ok ?r" using flow True fields by (auto simp: flow_ok_def capture_started_def cap)
      moreover have "stream_set_ok ?r" using sset stream_set_configured [of ?r h] by simp
      moreover have "encoders_ok ops ok ?r"
        unfolding encoders_ok_def act_r conf_r demanded_configuration [OF conf_r]
        using ok known all [OF b] fields by (simp add: dem capture_started_def)
      moreover have "consumers_ok env fresh ?r" using fields rcc by (simp add: consumers_ok_def capture_started_def)
      ultimately show ?thesis using eval b by (simp add: engine_ok_def)
    next
      case False
      let ?r = "h\<lparr>capture := snd (Unsubscribe (recording_address h) (capture h)), recording_consumer := None,
         recording_state := RecordingConsumerState.Off\<rparr>"
      have ev: "snd (StartRecording ops now addr paths g) = StopCaptureIfUnused ops ?r"
        using eval False by (simp add: abandon_recording_def Let_def)
      have conf_r: "configuration ?r = configuration g" using conf by simp
      note dem_r = demanded_configuration [OF conf_r]
      have act_r: "active ops ?r = active ops h" by (simp add: active_def fun_eq_iff)
      have knr: "\<forall>i. active ops ?r i \<longrightarrow> undemanded False False (engine_streams ?r) ?r i"
        unfolding act_r conf_r dem_r using known by (simp add: dem)
      have ssr: "stream_set_ok ?r" using sset stream_set_configured [of ?r h] by simp
      have cons: "consumers (snd (Unsubscribe (recording_address h) (capture h))) = []"
        using fields by (intro Unsubscribe_simps(4)) (simp add: capture_started_def cap)
      show ?thesis
      proof (cases "rep_on g")
        case on: True
        then have same: "StopCaptureIfUnused ops ?r = ?r" using fields by (simp add: capture_started_def)
        moreover have "flow_ok ?r" using flow True on fields cons by (auto simp: flow_ok_def capture_started_def cap)
        moreover have "encoders_ok ops ok ?r"
          using ok knr mono enc on True fields unfolding encoders_ok_def act_r conf_r dem_r
          by (simp add: capture_started_def)
        moreover have "consumers_ok env fresh ?r" using fields by (simp add: consumers_ok_def capture_started_def)
        ultimately show ?thesis using ev ssr by (simp add: engine_ok_def)
      next
        case off: False
        have "engine_ok (StopCaptureIfUnused ops ?r)"
          by (rule stopped_ok [OF _ _ _ ssr knr])
            (use off ok flow True fields cons in \<open>auto simp: flow_ok_def capture_started_def cap\<close>)
        moreover have "but_encoders (capture_stopped ?r) (StopCaptureIfUnused ops ?r)"
          using StopCaptureIfUnused_out [of ?r] off ok fields by (simp add: capture_started_def)
        note but_encoders_fields [OF this]
        ultimately show ?thesis using ev fields by (simp add: consumers_ok_def capture_stopped_def capture_started_def)
      qed
    qed
  qed
qed

text \<open>Steps that leave the encoders, the streams and the activity of the consumers alone.\<close>

lemma encoders_ok_same:
  assumes "engine_streams g' = engine_streams g" and "encoders g' = encoders g"
    and "rec_on g' = rec_on g" and "rep_on g' = rep_on g"
  shows "encoders_ok ops ok g' = encoders_ok ops ok g"
proof -
  have "CaptureIdFor g' = CaptureIdFor g" using assms(1) by (simp add: CaptureIdFor_def fun_eq_iff)
  then show ?thesis using assms by (simp add: encoders_ok_def demanded_def undemanded_def active_def)
qed

lemma engine_ok_same:
  assumes "engine_ok g" and "flow_ok g'" and "engine_streams g' = engine_streams g"
    and "encoders g' = encoders g" and "rec_on g' = rec_on g" and "rep_on g' = rep_on g"
    and "initialized g' = initialized g"
  shows "engine_ok g'"
  using assms encoders_ok_same [OF assms(3-6)] stream_set_configured [OF assms(3,7)]
  by (simp add: engine_ok_def)

lemma SaveReplay_cases:
  assumes "SaveReplay paths g = Some (r, g')"
  shows "g' = g \<or> (\<exists>c. g' = g\<lparr>replay_consumer := Some c\<rparr>) \<or>
    (replay_state g = ReplayConsumerState.Running \<and>
     (\<exists>c. g' = g\<lparr>replay_consumer := Some c, replay_state := Saving\<rparr>))"
proof (cases "replay_enabled (replay_configuration (configuration g)) \<and> replay_state g = ReplayConsumerState.Running \<and>
    \<not> (length paths \<noteq> length (SelectedCaptureIds g CaptureConsumer.Replay) \<or> paths = []) \<and>
    \<not> (capture_state g = CaptureInfrastructureState.Failed \<or> \<not> capture_running (capture g))")
  case False
  then have "g' = g" using assms by (auto simp: SaveReplay_def Let_def split: if_splits)
  then show ?thesis by simp
next
  case True
  let ?c = "case replay_consumer g of None \<Rightarrow> new_replay | Some c \<Rightarrow> c"
  obtain b c where "RequestSave paths (target_duration_ns (replay_configuration (configuration g)))
      (SelectedCaptureIds g CaptureConsumer.Replay) (capture g) ?c = Some (b, c)"
    using assms True by (auto simp: SaveReplay_def Let_def)
  with assms True show ?thesis by (cases b) (auto simp: SaveReplay_def Let_def)
qed

lemma SaveReplay_keeps:
  assumes "engine_ok g" and "SaveReplay paths g = Some (r, g')"
  shows "engine_ok g' \<and> recording_consumer g' = recording_consumer g \<and> recording_result g' = recording_result g"
proof -
  have flow: "flow_ok g" using assms by (simp add: engine_ok_def)
  from SaveReplay_cases [OF assms(2)] show ?thesis
  proof (elim disjE exE conjE)
    fix c assume g': "g' = g\<lparr>replay_consumer := Some c\<rparr>"
    then have "flow_ok g'" using flow by (simp add: flow_ok_def)
    with g' engine_ok_same [OF assms(1), of g'] show ?thesis by simp
  next
    fix c assume g': "g' = g\<lparr>replay_consumer := Some c, replay_state := Saving\<rparr>"
      and run: "replay_state g = ReplayConsumerState.Running"
    then have "flow_ok g'" using flow by (simp add: flow_ok_def)
    with g' run engine_ok_same [OF assms(1), of g'] show ?thesis by simp
  qed (use assms in simp)
qed

lemma save_ended_keeps:
  assumes "engine_ok g" and "replay_state g = Saving"
  shows "engine_ok (g\<lparr>replay_consumer := Some c, replay_result := x, replay_state := ReplayConsumerState.Running\<rparr>)"
proof -
  have "flow_ok (g\<lparr>replay_consumer := Some c, replay_result := x, replay_state := ReplayConsumerState.Running\<rparr>)"
    using assms by (simp add: engine_ok_def flow_ok_def)
  from engine_ok_same [OF assms(1) this] assms(2) show ?thesis by simp
qed

lemma replay_consumer_keeps:
  assumes "engine_ok g"
  shows "engine_ok (g\<lparr>replay_consumer := Some c\<rparr>)"
proof -
  have "flow_ok (g\<lparr>replay_consumer := Some c\<rparr>)" using assms by (simp add: engine_ok_def flow_ok_def)
  from engine_ok_same [OF assms this] show ?thesis by simp
qed

lemma Poll_keeps:
  assumes "engine_ok g"
  shows "engine_ok (PollReplaySave env fresh t0 t1 g) \<and>
    recording_consumer (PollReplaySave env fresh t0 t1 g) = recording_consumer g \<and>
    recording_result (PollReplaySave env fresh t0 t1 g) = recording_result g"
proof (cases "replay_consumer g")
  case (Some c)
  show ?thesis
  proof (cases "replay_state g = Saving \<and> \<not> save_active c")
    case True
    with Some save_ended_keeps [OF assms] show ?thesis by (simp add: PollReplaySave_def Let_def)
  next
    case False
    with Some assms show ?thesis by (auto simp: PollReplaySave_def)
  qed
qed (use assms in \<open>simp add: PollReplaySave_def\<close>)

lemma Wait_keeps:
  assumes "engine_ok g"
  shows "engine_ok (WaitForReplaySave env fresh t0 t1 g) \<and>
    recording_consumer (WaitForReplaySave env fresh t0 t1 g) = recording_consumer g \<and>
    recording_result (WaitForReplaySave env fresh t0 t1 g) = recording_result g"
proof (cases "replay_consumer g")
  case (Some c)
  show ?thesis
  proof (cases "replay_state g = Saving")
    case True
    with Some save_ended_keeps [OF assms] show ?thesis by (simp add: WaitForReplaySave_def Let_def)
  next
    case False
    with Some replay_consumer_keeps [OF assms] show ?thesis by (simp add: WaitForReplaySave_def Let_def)
  qed
qed (use assms in \<open>simp add: WaitForReplaySave_def\<close>)

lemma Apply_keeps:
  assumes "engine_ok g"
  shows "engine_ok (snd (ApplyReplayConfiguration ops env fresh t0 t1 cfg g)) \<and>
    recording_consumer (snd (ApplyReplayConfiguration ops env fresh t0 t1 cfg g)) = recording_consumer g \<and>
    recording_result (snd (ApplyReplayConfiguration ops env fresh t0 t1 cfg g)) = recording_result g"
proof -
  define stops where "stops = (rep_on g \<and> \<not> replay_enabled cfg)"
  obtain a h where h: "(if stops then StopReplay ops env fresh t0 t1 g else (answer Succeeded [], g)) = (a, h)"
    by fastforce
  have inv: "engine_ok h" "recording_consumer h = recording_consumer g" "recording_result h = recording_result g"
    using h StopReplay_keeps [OF assms, of env fresh t0 t1] assms by (auto split: if_splits)
  have "command_ok a" using h by (auto simp: StopReplay_def Let_def command_ok_def answer_def split: if_splits)
  then have eval: "snd (ApplyReplayConfiguration ops env fresh t0 t1 cfg g) =
      h\<lparr>configuration := (configuration h)\<lparr>replay_configuration := cfg\<rparr>,
        capture := SetRingCapacityBytes (memory_budget_bytes cfg) (capture h)\<rparr>"
    using h by (simp add: ApplyReplayConfiguration_def stops_def Let_def)
  have enabled: "rep_on h \<longrightarrow> replay_enabled cfg"
    using h StopReplay_keeps [OF assms, of env fresh t0 t1] by (auto simp: stops_def split: if_splits)
  have "flow_ok h" using inv by (simp add: engine_ok_def)
  with enabled have "flow_ok (snd (ApplyReplayConfiguration ops env fresh t0 t1 cfg g))"
    unfolding eval by (auto simp: flow_ok_def SetRing_streams SetRing_ring)
  with engine_ok_same [OF inv(1), of "snd (ApplyReplayConfiguration ops env fresh t0 t1 cfg g)"] inv eval
  show ?thesis by simp
qed

lemma Shutdown_keeps:
  assumes "engine_ok g" and "consumers_ok env fresh g"
  shows "engine_ok (Shutdown ops env fresh t0 t1 g) \<and> consumers_ok env fresh (Shutdown ops env fresh t0 t1 g)"
proof (cases "\<not> initialized g \<and> capture_state g = Idle")
  case True
  then show ?thesis using assms by (simp add: Shutdown_def)
next
  case False
  let ?a = "snd (StopReplay ops env fresh t0 t1 g)"
  let ?b = "snd (StopRecording ops env fresh t1 ?a)"
  let ?c = "?b\<lparr>capture := SetReplayRetentionEnabled False (capture_Stop (capture ?b))\<rparr>"
  let ?d = "release_all ops (configured (configuration ?c)) ?c"
  note a = StopReplay_keeps [OF assms(1), of env fresh t0 t1]
  have "consumers_ok env fresh ?a" using a assms(2) by (simp add: consumers_ok_def)
  with a StopRecording_keeps [of ?a env fresh t1]
  have b: "engine_ok ?b" "consumers_ok env fresh ?b" "recording_state ?b = RecordingConsumerState.Off"
    and "replay_state ?b = replay_state ?a" by blast+
  with a have off: "replay_state ?b = ReplayConsumerState.Off" by simp
  have eval: "Shutdown ops env fresh t0 t1 g = ?d\<lparr>capture_state := Idle\<rparr>"
    unfolding Shutdown_def if_not_P [OF False] Let_def by simp
  have d: "ok (encoders ?d)" "but_encoders ?c ?d" "\<And>i. active ops ?d i \<Longrightarrow> active ops ?c i"
    using release_all_out [of ?c "configured (configuration ?c)"] b(1) by (auto simp: engine_ok_def encoders_ok_def)
  note fields = but_encoders_fields [OF d(2)]
  have none: "\<not> active ops ?d i" for i
    using d(3) [of i] b(1,3) off by (auto simp: engine_ok_def encoders_ok_def active_def)
  have flow: "flow_ok ?b" using b(1) by (simp add: engine_ok_def)
  have "flow_ok (?d\<lparr>capture_state := Idle\<rparr>)" using flow b(3) off fields by (simp add: flow_ok_def)
  moreover have "stream_set_ok (?d\<lparr>capture_state := Idle\<rparr>)"
    using b(1) fields stream_set_configured [of "?d\<lparr>capture_state := Idle\<rparr>" ?b] by (simp add: engine_ok_def)
  moreover have "encoders_ok ops ok (?d\<lparr>capture_state := Idle\<rparr>)"
  proof -
    have "active ops (?d\<lparr>capture_state := Idle\<rparr>) = active ops ?d" by (simp add: active_def fun_eq_iff)
    then show ?thesis using none d(1) fields b(3) off
      by (auto simp: encoders_ok_def dest: demanded_not_needed)
  qed
  moreover have "consumers_ok env fresh (?d\<lparr>capture_state := Idle\<rparr>)"
    using b(2) fields by (simp add: consumers_ok_def)
  ultimately show ?thesis using eval by (simp add: engine_ok_def)
qed

subsection \<open>Runs\<close>

lemma register_wrapped: "streams cap \<noteq> [] \<Longrightarrow> \<not> fst (register_streams 0 ss cap)"
proof (induction ss)
  case (Cons s ss)
  then show ?case by (cases "mode s = Disabled") (auto simp: RegisterStream_def Let_def)
qed simp

lemma u8_bound: "unat i < 256" for i :: u8
  using unsigned_less [of i] by simp

lemma u8_succ: "unat (i + 1) = unat i + 1" if "i \<noteq> - 1" for i :: u8
proof -
  have "1 + i \<noteq> 0"
  proof
    assume "1 + i = 0"
    then have "i = - 1" by (simp add: add_eq_0_iff)
    with that show False by simp
  qed
  from unatSuc [OF this] show ?thesis by (simp add: add.commute)
qed

lemma RegisterStream_out:
  assumes "RegisterStream i name cfg cap = (b, cap')"
  shows "consumers cap' = consumers cap \<and> capture_running cap' = capture_running cap \<and>
    (ring_empty cap \<longrightarrow> ring_empty cap') \<and> (b \<longrightarrow> length (streams cap') = length (streams cap) + 1)"
  using assms by (auto simp: RegisterStream_def ring_empty_def split: if_splits)

lemma register_streams_frame:
  "register_streams i ss cap = (b, cap') \<Longrightarrow> consumers cap' = consumers cap \<and>
     capture_running cap' = capture_running cap \<and> (ring_empty cap \<longrightarrow> ring_empty cap')"
proof (induction ss arbitrary: i cap)
  case (Cons s ss)
  show ?case
  proof (cases "mode s = Disabled")
    case False
    obtain b1 cap1 where r: "RegisterStream i (configured_name s) (packet_config s) cap = (b1, cap1)" by fastforce
    with Cons.prems False Cons.IH [of "i + 1" cap1] RegisterStream_out [OF r] show ?thesis by (cases b1) auto
  qed (use Cons in simp)
qed simp

lemma register_streams_count:
  "register_streams i ss cap = (True, cap') \<Longrightarrow> unat i = length (streams cap) \<Longrightarrow>
     unat i + length (enabled_streams ss) < 256 \<and> streams cap' \<noteq> []"
proof (induction ss arbitrary: i cap)
  case Nil
  then show ?case using u8_bound [of i] by (auto simp: enabled_streams_def word_gt_0 unat_eq_0)
next
  case (Cons s ss)
  show ?case
  proof (cases "mode s = Disabled")
    case True
    with Cons show ?thesis by (simp add: enabled_streams_def)
  next
    case False
    obtain b1 cap1 where r: "RegisterStream i (configured_name s) (packet_config s) cap = (b1, cap1)" by fastforce
    then have "b1" and rest: "register_streams (i + 1) ss cap1 = (True, cap')"
      using Cons.prems(1) False by (auto split: if_splits)
    then have len: "length (streams cap1) = length (streams cap) + 1" using RegisterStream_out [OF r] by simp
    have "i \<noteq> - 1"
    proof
      assume "i = - 1"
      then have "register_streams 0 ss cap1 = (True, cap')" using rest by simp
      moreover have "streams cap1 \<noteq> []" using len by auto
      ultimately show False using register_wrapped [of cap1 ss] by simp
    qed
    note u8_succ [OF this]
    with Cons.IH [OF rest] len Cons.prems(2) False show ?thesis by (simp add: enabled_streams_def)
  qed
qed

lemma built_ok:
  fixes g :: "('w, 'e) CaptureControlEngine"
  assumes "ok e" and "\<And>i. \<not> IsActive ops i e" and "distinct (map stream_identity (configured cfg))"
    and g: "g = snd (Initialize (new_engine cfg (new_capture ccfg) e))"
  shows "engine_ok g \<and> consumers_ok env fresh g"
proof -
  let ?n = "new_engine cfg (new_capture ccfg) e :: ('w, 'e) CaptureControlEngine"
  obtain b cap where r: "register_streams 0 (configured cfg) (new_capture ccfg) = (b, cap)" by fastforce
  have g': "g = ?n\<lparr>capture := cap, initialized := b,
      capture_state := (if b then Idle else CaptureInfrastructureState.Failed)\<rparr>"
    unfolding g using r by (simp add: Initialize_def new_engine_def)
  have "consumers cap = [] \<and> \<not> capture_running cap \<and> ring_empty cap"
    using register_streams_frame [OF r] by (simp add: new_capture_def ring_empty_def)
  moreover have "b \<Longrightarrow> length (enabled_streams (configured cfg)) < 256 \<and> streams cap \<noteq> []"
    using register_streams_count [of 0 "configured cfg" "new_capture ccfg" cap] r by (simp add: new_capture_def)
  ultimately show ?thesis
    using assms(1-3) unfolding g'
    by (auto simp: engine_ok_def flow_ok_def stream_set_ok_def encoders_ok_def consumers_ok_def new_engine_def
        active_def dest: demanded_not_needed)
qed

lemma ingest_keeps:
  assumes "engine_ok g" and i: "Ingest i p x (capture g) = (b, cap, ds)"
  shows "engine_ok (g\<lparr>capture := cap\<rparr>)"
proof -
  have flow: "flow_ok g" using assms by (simp add: engine_ok_def)
  note out = Ingest_simps [OF i]
  have "flow_ok (g\<lparr>capture := cap\<rparr>)" using flow out by (auto simp: flow_ok_def)
  from engine_ok_same [OF assms(1) this] show ?thesis by simp
qed

lemma consumer_keeps:
  assumes "engine_ok g" and "recording_consumer g = Some c"
  shows "engine_ok (g\<lparr>recording_consumer := Some d\<rparr>)"
proof -
  have flow: "flow_ok g" using assms by (simp add: engine_ok_def)
  have "flow_ok (g\<lparr>recording_consumer := Some d\<rparr>)" using flow assms(2) by (auto simp: flow_ok_def)
  from engine_ok_same [OF assms(1) this] show ?thesis by simp
qed

lemma joinable_kept: "rc_joinable (worker_turn env fresh now c) = rc_joinable c" "rc_joinable (OnPacket q c) = rc_joinable c"
  using made_with_turn [of env fresh now c] made_with_OnPacket [of q c] by (simp_all add: made_with_def)

lemma system_step_ok:
  fixes y :: "('w, 'e) capture_system"
  assumes "system_step ops env fresh y z" and "engine_ok (engine y)" and "consumers_ok env fresh (engine y)"
  shows "engine_ok (engine z) \<and> consumers_ok env fresh (engine z)"
  using assms
proof (induction rule: system_step.induct)
  case (start_recording y now addr paths)
  then show ?case using StartRecording_keeps [of "engine y" env fresh] by simp
next
  case (stop_recording y now)
  then show ?case using StopRecording_keeps [of "engine y" env fresh] by simp
next
  case (start_replay y)
  then show ?case using StartReplay_keeps [of "engine y"] by (simp add: consumers_ok_def)
next
  case (stop_replay y t0 t1)
  then show ?case using StopReplay_keeps [of "engine y"] by (simp add: consumers_ok_def)
next
  case (save_replay paths y r g)
  then show ?case using SaveReplay_keeps [of "engine y"] by (simp add: consumers_ok_def)
next
  case (apply_configuration y t0 t1 rcfg)
  then show ?case using Apply_keeps [of "engine y"] by (simp add: consumers_ok_def)
next
  case (poll_save y t0 t1)
  then show ?case using Poll_keeps [of "engine y"] by (simp add: consumers_ok_def)
next
  case (wait_save y t0 t1)
  then show ?case using Wait_keeps [of "engine y"] by (simp add: consumers_ok_def)
next
  case (shut_down y t0 t1)
  then show ?case using Shutdown_keeps [of "engine y" env fresh] by simp
next
  case (ingest y i p x)
  obtain b cap ds where "Ingest i p x (capture (engine y)) = (b, cap, ds)" by (metis prod_cases3)
  with ingest ingest_keeps [of "engine y"] show ?case by (simp add: system_ingest_def consumers_ok_def)
next
  case (hand y ds a q es)
  then obtain c where c: "recording_consumer (engine y) = Some c" by (auto simp: live_consumer_def)
  have "rc_reachable env fresh (OnPacket q c)" if "rc_reachable env fresh c"
    using that rc_reachable.stepped rc_step.packet by blast
  then show ?case
    using hand c consumer_keeps [OF _ c, of "OnPacket q c"]
    by (simp add: hand_over_def consumers_ok_def joinable_kept)
next
  case (worker y c now)
  then show ?case
    using consumer_keeps [OF _ worker.hyps, of "worker_turn env fresh now c"] reachable_turn [of env fresh c now]
    by (simp add: consumers_ok_def joinable_kept)
next
  case (saved y c t0 t1)
  then show ?case
    using replay_consumer_keeps [of "engine y" "fst (worker_done env fresh t0 t1 c)"] by (simp add: consumers_ok_def)
qed

lemma system_run_ok:
  fixes y :: "('w, 'e) capture_system"
  assumes "system_run ops env fresh start y"
    and start: "\<And>e. start e \<Longrightarrow> ok e \<and> (\<forall>i. \<not> IsActive ops i e)"
  shows "engine_ok (engine y) \<and> consumers_ok env fresh (engine y)"
  using assms(1)
proof (induction rule: system_run.induct)
  case (built e cfg ccfg)
  with start [of e] built_ok [of e cfg "snd (Initialize (new_engine cfg (new_capture ccfg) e))" ccfg] show ?case by simp
next
  case (stepped y z)
  with system_step_ok show ?case by blast
qed

end

end
