(* ===== verification/PluginEncoders.thy ===== *)
theory PluginEncoders
  imports CaptureControlInvariant
begin

text \<open>
  \<open>PluginEncoderController\<close> of \<open>src/control/plugin-capture-runtime.cpp\<close>: one libobs encoder pair and output
  per capture stream. libobs is a record of functions on its own state; an object is a null or non-null
  pointer, an output and an encoder are known by the stream they belong to.
\<close>

subsection \<open>Data\<close>

record CallbackContext =
  callback_stream :: CaptureStreamId
  packet_count :: u64
  first_source_cts :: u64
  last_source_cts :: u64

record StreamResources =
  resource_identity :: StreamIdentity
  resource_capture_id :: CaptureStreamId
  video_encoder :: bool
  audio_encoder :: bool
  stream_output :: bool
  callback :: CallbackContext
  started :: bool
  grouped :: bool
  release_pending :: bool

definition empty_resource :: StreamResources where
  "empty_resource = \<lparr>resource_identity = StreamIdentity_Master, resource_capture_id = 0, video_encoder = False,
     audio_encoder = False, stream_output = False,
     callback = \<lparr>callback_stream = 0, packet_count = 0, first_source_cts = 0, last_source_cts = 0\<rparr>,
     started = False, grouped = False, release_pending = False\<rparr>"

record 'o obs_encoders =
  obs_video_encoder_create :: "string \<Rightarrow> string \<Rightarrow> 'o \<Rightarrow> bool \<times> 'o"
  obs_audio_encoder_create :: "string \<Rightarrow> 'o \<Rightarrow> bool \<times> 'o"
  obs_output_create :: "string \<Rightarrow> 'o \<Rightarrow> bool \<times> 'o"
  obs_output_start :: "nat \<Rightarrow> 'o \<Rightarrow> bool \<times> 'o"
  obs_output_stop :: "nat \<Rightarrow> 'o \<Rightarrow> 'o"
  obs_encoder_set_group :: "nat \<Rightarrow> bool \<Rightarrow> 'o \<Rightarrow> bool \<times> 'o"

record 'o PluginEncoderController =
  encoder_id :: string
  group :: bool
  capture_videos :: nat
  resources :: "StreamResources list"
  libobs :: 'o

definition new_controller :: "string \<Rightarrow> bool \<Rightarrow> nat \<Rightarrow> 'o \<Rightarrow> 'o PluginEncoderController" where
  "new_controller eid grp n lib = \<lparr>encoder_id = eid, group = grp, capture_videos = n,
     resources = replicate n empty_resource, libobs = lib\<rparr>"

subsection \<open>Operations\<close>

definition set_resource :: "nat \<Rightarrow> StreamResources \<Rightarrow> 'o PluginEncoderController \<Rightarrow> 'o PluginEncoderController" where
  "set_resource k r e = e\<lparr>resources := (resources e)[k := r]\<rparr>"

text \<open>The members of one stream are let go; a member that cannot leave its group is kept as it is.\<close>

definition ReleaseStream :: "'o obs_encoders \<Rightarrow> nat \<Rightarrow> 'o PluginEncoderController \<Rightarrow> 'o PluginEncoderController" where
  "ReleaseStream obs k e =
     (let r = resources e ! k;
          leave = video_encoder r \<and> grouped r;
          (left, lib) = (if leave then obs_encoder_set_group obs k False (libobs e) else (True, libobs e));
          e = e\<lparr>libobs := lib\<rparr>
      in if \<not> left then e
         else set_resource k (r\<lparr>grouped := (if leave then False else grouped r), stream_output := False,
                video_encoder := False, audio_encoder := False\<rparr>) e)"

definition CreateResource :: "'o obs_encoders \<Rightarrow> CaptureStreamId \<Rightarrow> ConfiguredStream \<Rightarrow>
    'o PluginEncoderController \<Rightarrow> bool \<times> 'o PluginEncoderController" where
  "CreateResource obs i s e =
     (let k = unat i in
      if k \<ge> length (resources e) \<or> k \<ge> capture_videos e then (False, e)
      else
        (let (v, lib) = obs_video_encoder_create obs (encoder_id e) (configured_name s) (libobs e);
             (a, lib) = obs_audio_encoder_create obs (configured_name s) lib;
             (o', lib) = obs_output_create obs (configured_name s) lib;
             e = e\<lparr>libobs := lib\<rparr>;
             r = (resources e ! k)\<lparr>video_encoder := v, audio_encoder := a, stream_output := o'\<rparr>
         in if \<not> v \<or> \<not> a \<or> \<not> o' then (False, ReleaseStream obs k (set_resource k r e))
            else
              (let r = r\<lparr>resource_identity := stream_identity s,
                         callback := \<lparr>callback_stream = i, packet_count = 0, first_source_cts = 0,
                                      last_source_cts = 0\<rparr>\<rparr>;
                   (joined, lib) = (if group e then obs_encoder_set_group obs k True (libobs e)
                                    else (False, libobs e));
                   e = e\<lparr>libobs := lib\<rparr>;
                   r = (if group e then r\<lparr>grouped := joined\<rparr> else r)
               in if group e \<and> \<not> joined then (False, ReleaseStream obs k (set_resource k r e))
                  else (True, set_resource k (r\<lparr>resource_capture_id := i\<rparr>) e))))"

definition plugin_EnsureCreated :: "'o obs_encoders \<Rightarrow> CaptureStreamId \<Rightarrow> ConfiguredStream \<Rightarrow>
    'o PluginEncoderController \<Rightarrow> bool \<times> 'o PluginEncoderController" where
  "plugin_EnsureCreated obs i s e =
     (if unat i \<ge> length (resources e) then (False, e)
      else if \<not> video_encoder (resources e ! unat i) then CreateResource obs i s e
      else (True, e))"

definition plugin_Activate :: "'o obs_encoders \<Rightarrow> CaptureStreamId \<Rightarrow> ConfiguredStream \<Rightarrow>
    'o PluginEncoderController \<Rightarrow> bool \<times> 'o PluginEncoderController" where
  "plugin_Activate obs i s e =
     (if unat i \<ge> length (resources e) then (False, e)
      else
        (let k = unat i; r = resources e ! k in
         if started r then (True, e)
         else if \<not> stream_output r \<or> resource_capture_id r \<noteq> i then (False, e)
         else
           (let (ok, lib) = obs_output_start obs k (libobs e);
                e = set_resource k (r\<lparr>started := ok\<rparr>) (e\<lparr>libobs := lib\<rparr>)
            in if \<not> ok then (False, ReleaseStream obs k e) else (True, e))))"

text \<open>The barrier: when no member is started, all leave the group, then the pending ones are released.\<close>

fun detach_all :: "'o obs_encoders \<Rightarrow> nat list \<Rightarrow> 'o PluginEncoderController \<Rightarrow> 'o PluginEncoderController" where
  "detach_all obs [] e = e"
| "detach_all obs (k # ks) e =
     (let r = resources e ! k in
      if video_encoder r \<and> grouped r
      then (let (ok, lib) = obs_encoder_set_group obs k False (libobs e); e = e\<lparr>libobs := lib\<rparr>
            in detach_all obs ks (if ok then set_resource k (r\<lparr>grouped := False\<rparr>) e else e))
      else detach_all obs ks e)"

fun release_pending_all :: "'o obs_encoders \<Rightarrow> nat list \<Rightarrow> 'o PluginEncoderController \<Rightarrow> 'o PluginEncoderController" where
  "release_pending_all obs [] e = e"
| "release_pending_all obs (k # ks) e =
     (let r = resources e ! k in
      if release_pending r \<and> \<not> grouped r
      then (let e = ReleaseStream obs k e
            in release_pending_all obs ks (set_resource k ((resources e ! k)\<lparr>release_pending := False\<rparr>) e))
      else release_pending_all obs ks e)"

definition plugin_Release :: "'o obs_encoders \<Rightarrow> CaptureStreamId \<Rightarrow> ConfiguredStream \<Rightarrow>
    'o PluginEncoderController \<Rightarrow> 'o PluginEncoderController" where
  "plugin_Release obs i s e =
     (if unat i \<ge> length (resources e) then e
      else
        (let k = unat i; r = resources e ! k;
             e = (if stream_output r \<and> started r then e\<lparr>libobs := obs_output_stop obs k (libobs e)\<rparr> else e);
             e = set_resource k (r\<lparr>started := False, release_pending := True\<rparr>) e
         in if list_ex started (resources e) then e
            else (let ks = [0..<length (resources e)]
                  in release_pending_all obs ks (detach_all obs ks e))))"

definition plugin_IsActive :: "CaptureStreamId \<Rightarrow> 'o PluginEncoderController \<Rightarrow> bool" where
  "plugin_IsActive i e \<longleftrightarrow> list_ex (\<lambda>r. resource_capture_id r = i \<and> started r) (resources e)"

definition plugin_active_count :: "'o PluginEncoderController \<Rightarrow> nat" where
  "plugin_active_count e = length (filter started (resources e))"

definition plugin_controller :: "'o obs_encoders \<Rightarrow> 'o PluginEncoderController EncoderController" where
  "plugin_controller obs = \<lparr>EnsureCreated = plugin_EnsureCreated obs, Activate = plugin_Activate obs,
     Release = plugin_Release obs, IsActive = plugin_IsActive, active_count = plugin_active_count\<rparr>"

subsection \<open>The contract\<close>

text \<open>A started resource is the one of its stream; the contract only looks at this view.\<close>

definition view :: "'o PluginEncoderController \<Rightarrow> (bool \<times> CaptureStreamId) list" where
  "view e = map (\<lambda>r. (started r, resource_capture_id r)) (resources e)"

definition controller_ok :: "'o PluginEncoderController \<Rightarrow> bool" where
  "controller_ok e \<longleftrightarrow> (\<forall>k < length (view e). fst (view e ! k) \<longrightarrow> unat (snd (view e ! k)) = k)"

lemma view_length [simp]: "length (view e) = length (resources e)"
  by (simp add: view_def)

lemma view_nth: "k < length (resources e) \<Longrightarrow> view e ! k = (started (resources e ! k), resource_capture_id (resources e ! k))"
  by (simp add: view_def)

lemma IsActive_view: "controller_ok e \<Longrightarrow> plugin_IsActive i e \<longleftrightarrow> unat i < length (view e) \<and> fst (view e ! unat i)"
proof -
  assume ok: "controller_ok e"
  have "plugin_IsActive i e \<longleftrightarrow> (\<exists>v \<in> set (view e). fst v \<and> snd v = i)"
    by (auto simp: plugin_IsActive_def list_ex_iff view_def)
  also have "\<dots> \<longleftrightarrow> (\<exists>k < length (view e). fst (view e ! k) \<and> snd (view e ! k) = i)"
    by (metis in_set_conv_nth)
  also have "\<dots> \<longleftrightarrow> unat i < length (view e) \<and> fst (view e ! unat i)"
    using ok unfolding controller_ok_def by (auto simp: word_unat_eq_iff)
  finally show ?thesis .
qed

lemma view_set [simp]: "view (set_resource k r e) = (view e)[k := (started r, resource_capture_id r)]"
  by (simp add: view_def set_resource_def map_update)

lemma view_libobs [simp]: "view (e\<lparr>libobs := l\<rparr>) = view e" "resources (e\<lparr>libobs := l\<rparr>) = resources e"
  by (simp_all add: view_def)

lemma view_self [simp]:
  "(view e)[k := (started (resources e ! k), resource_capture_id (resources e ! k))] = view e"
  by (cases "k < length (resources e)") (simp_all add: view_nth [symmetric] list_update_beyond)

lemma view_ReleaseStream [simp]: "view (ReleaseStream obs k e) = view e"
  by (simp add: ReleaseStream_def Let_def case_prod_beta)

lemma view_detach_all [simp]: "view (detach_all obs ks e) = view e"
  by (induction ks arbitrary: e) (simp_all add: Let_def case_prod_beta)

lemma view_released [simp]:
  "(view e)[k := (started (resources (ReleaseStream obs j e) ! k),
     resource_capture_id (resources (ReleaseStream obs j e) ! k))] = view e"
  using view_self [of "ReleaseStream obs j e" k] by simp

lemma view_release_pending_all [simp]: "view (release_pending_all obs ks e) = view e"
  by (induction ks arbitrary: e) (simp_all add: Let_def)

lemma ok_view: "view e' = view e \<Longrightarrow> controller_ok e' = controller_ok e \<and> (controller_ok e \<longrightarrow>
    (\<forall>j. plugin_IsActive j e' = plugin_IsActive j e))"
  by (auto simp: controller_ok_def IsActive_view)

lemma ok_update:
  assumes "controller_ok e" and "view e' = (view e)[unat i := (v, x)]" and "unat i < length (view e)"
    and "v \<Longrightarrow> x = i"
  shows "controller_ok e' \<and> (\<forall>j. plugin_IsActive j e' \<longleftrightarrow> (if j = i then v else plugin_IsActive j e))"
proof -
  have len: "length (view e') = length (view e)" using assms(2) by simp
  have ok: "controller_ok e'"
    unfolding controller_ok_def
  proof (intro allI impI)
    fix k assume "k < length (view e')" "fst (view e' ! k)"
    with assms len show "unat (snd (view e' ! k)) = k"
      by (cases "k = unat i") (auto simp: controller_ok_def)
  qed
  have "plugin_IsActive j e' \<longleftrightarrow> (if j = i then v else plugin_IsActive j e)" for j
    using assms(3) len by (simp add: IsActive_view [OF ok] IsActive_view [OF assms(1)] assms(2) nth_list_update word_unat_eq_iff)
  with ok show ?thesis by blast
qed

lemma CreateResource_view:
  assumes "CreateResource obs i s e = (b, e')"
  shows "view e' = view e \<or> (unat i < length (view e) \<and> view e' = (view e)[unat i := (fst (view e ! unat i), i)])"
proof (cases "unat i \<ge> length (resources e) \<or> unat i \<ge> capture_videos e")
  case True
  then show ?thesis using assms by (auto simp: CreateResource_def)
next
  case False
  then show ?thesis
    using assms unfolding CreateResource_def Let_def case_prod_beta
    by (auto simp: view_nth split: if_splits)
qed

lemma created_view:
  assumes "controller_ok e" and "plugin_EnsureCreated obs i s e = (b, e')"
  shows "controller_ok e' \<and> (\<forall>j. plugin_IsActive j e' = plugin_IsActive j e)"
proof -
  have "view e' = view e \<or> (unat i < length (view e) \<and> view e' = (view e)[unat i := (fst (view e ! unat i), i)])"
    using assms(2) CreateResource_view [of obs i s e b e'] by (auto simp: plugin_EnsureCreated_def split: if_splits)
  then show ?thesis
  proof (elim disjE conjE)
    assume "view e' = view e"
    from ok_view [OF this] assms(1) show ?thesis by blast
  next
    assume i: "unat i < length (view e)" and v: "view e' = (view e)[unat i := (fst (view e ! unat i), i)]"
    from ok_update [OF assms(1) v i] IsActive_view [OF assms(1), of i] i show ?thesis by simp
  qed
qed

lemma activated_view:
  assumes "controller_ok e" and "plugin_Activate obs i s e = (b, e')"
  shows "controller_ok e' \<and> (\<forall>j. plugin_IsActive j e' = (plugin_IsActive j e \<or> b \<and> j = i))"
proof (cases "unat i < length (resources e)")
  case False
  with assms show ?thesis by (simp add: plugin_Activate_def)
next
  case i: True
  let ?r = "resources e ! unat i"
  have now: "plugin_IsActive i e \<longleftrightarrow> started ?r" using IsActive_view [OF assms(1)] i by (simp add: view_nth)
  show ?thesis
  proof (cases "started ?r")
    case True
    with assms i now show ?thesis by (auto simp: plugin_Activate_def)
  next
    case no: False
    show ?thesis
    proof (cases "stream_output ?r \<and> resource_capture_id ?r = i")
      case False
      with assms i no show ?thesis by (auto simp: plugin_Activate_def Let_def)
    next
      case True
      obtain ok lib where o: "obs_output_start obs (unat i) (libobs e) = (ok, lib)" by fastforce
      show ?thesis
      proof (cases ok)
        case False
        then have "view e' = view e" "\<not> b"
          using assms(2) i no True o view_self [of e "unat i"] by (auto simp: plugin_Activate_def Let_def)
        with ok_view assms(1) show ?thesis by blast
      next
        case ok: True
        then have "view e' = (view e)[unat i := (True, i)]" "b"
          using assms(2) i no True o by (auto simp: plugin_Activate_def Let_def)
        with ok_update [OF assms(1) this(1)] i show ?thesis by auto
      qed
    qed
  qed
qed

lemma released_view:
  assumes "controller_ok e"
  shows "controller_ok (plugin_Release obs i s e) \<and>
    (\<forall>j. plugin_IsActive j (plugin_Release obs i s e) = (plugin_IsActive j e \<and> j \<noteq> i))"
proof (cases "unat i < length (resources e)")
  case False
  with IsActive_view [OF assms, of i] assms show ?thesis by (auto simp: plugin_Release_def)
next
  case True
  then have "view (plugin_Release obs i s e) = (view e)[unat i := (False, resource_capture_id (resources e ! unat i))]"
    by (simp add: plugin_Release_def Let_def)
  from ok_update [OF assms this] True show ?thesis by auto
qed

interpretation plugin: encoder_controller "plugin_controller obs" controller_ok
proof unfold_locales
  show "controller_ok e' \<and> (\<forall>j. IsActive (plugin_controller obs) j e' = IsActive (plugin_controller obs) j e)"
    if "controller_ok e" "EnsureCreated (plugin_controller obs) i s e = (b, e')" for e i s b e'
    using created_view [OF that(1)] that(2) by (simp add: plugin_controller_def)
  show "controller_ok e' \<and> (\<forall>j. IsActive (plugin_controller obs) j e' =
      (IsActive (plugin_controller obs) j e \<or> b \<and> j = i))"
    if "controller_ok e" "Activate (plugin_controller obs) i s e = (b, e')" for e i s b e'
    using activated_view [OF that(1)] that(2) by (simp add: plugin_controller_def)
  show "controller_ok (Release (plugin_controller obs) i s e) \<and>
      (\<forall>j. IsActive (plugin_controller obs) j (Release (plugin_controller obs) i s e) =
        (IsActive (plugin_controller obs) j e \<and> j \<noteq> i))" if "controller_ok e" for e i s
    using released_view [OF that, of obs i s] by (simp add: plugin_controller_def)
qed

end
