(* ===== verification/CaptureControlProperties.thy ===== *)
theory CaptureControlProperties
  imports PluginEncoders
begin

text \<open>
  The promises of the capture engine over the plugin's encoders, whatever libobs and libav answer, for
  every order of commands, packets, worker turns and saves.
\<close>

definition plugin_start :: "'o PluginEncoderController \<Rightarrow> bool" where
  "plugin_start e \<longleftrightarrow> (\<exists>eid grp n lib. e = new_controller eid grp n lib)"

lemma plugin_start_ok: "plugin_start e \<Longrightarrow>
    controller_ok e \<and> (\<forall>i. \<not> IsActive (plugin_controller obs) i e)"
  by (auto simp: plugin_start_def controller_ok_def new_controller_def view_def empty_resource_def
      plugin_controller_def plugin_IsActive_def list_ex_iff)

lemma plugin_run:
  assumes "system_run (plugin_controller obs) env fresh plugin_start y"
  shows "flow_ok (engine y)" "encoders_ok (plugin_controller obs) controller_ok (engine y)"
    "stream_set_ok (engine y)" "consumers_ok env fresh (engine y)"
  using plugin.system_run_ok [OF assms plugin_start_ok] by (simp_all add: plugin.engine_ok_def)

subsection \<open>A concrete system\<close>

definition willing_obs :: "unit obs_encoders" where
  "willing_obs = \<lparr>obs_video_encoder_create = (\<lambda>_ _ l. (True, l)), obs_audio_encoder_create = (\<lambda>_ l. (True, l)),
     obs_output_create = (\<lambda>_ l. (True, l)), obs_output_start = (\<lambda>_ l. (True, l)),
     obs_output_stop = (\<lambda>_ l. l), obs_encoder_set_group = (\<lambda>_ _ l. (True, l))\<rparr>"

definition demo_stream :: ConfiguredStream where
  "demo_stream = \<lparr>stream_identity = StreamIdentity_Master, configured_name = ''m'', mode = Both,
     packet_config = \<lparr>cfg_width = 2, cfg_height = 2, cfg_timebase_num = 1, cfg_timebase_den = 60,
       extra_data = [], muxer_tail_capacity_bytes = 0, muxer_reorder_safety_cts = 0\<rparr>\<rparr>"

definition demo_configuration :: CaptureConfiguration where
  "demo_configuration = \<lparr>replay_configuration = \<lparr>replay_enabled = True, target_duration_ns = 1,
       memory_budget_bytes = 100, memory_limit_configured = True\<rparr>, configured = [demo_stream]\<rparr>"

definition demo_engine :: "(unit, unit PluginEncoderController) CaptureControlEngine" where
  "demo_engine = snd (Initialize (new_engine demo_configuration
     (new_capture \<lparr>ring_capacity_bytes = 100, capture_source_cts_step = 0\<rparr>) (new_controller ''x'' True 1 ())))"

definition demo_system :: "(unit, unit PluginEncoderController) capture_system" where
  "demo_system = \<lparr>engine = snd (StartRecording (plugin_controller willing_obs) 0 7 [''a.mkv''] demo_engine), in_flight = []\<rparr>"

lemma demo_system_run: "system_run (plugin_controller willing_obs) plain_muxer fresh plugin_start demo_system"
proof -
  have "plugin_start (new_controller ''x'' True 1 ())" by (auto simp: plugin_start_def)
  moreover have "distinct (map stream_identity (configured demo_configuration))"
    by (simp add: demo_configuration_def)
  ultimately have "system_run (plugin_controller willing_obs) plain_muxer fresh plugin_start
      \<lparr>engine = demo_engine, in_flight = []\<rparr>"
    unfolding demo_engine_def by (rule system_run.built)
  from run_start_recording [OF this, of 0 7 "[''a.mkv'']"] show ?thesis by (simp add: demo_system_def)
qed

lemma demo_system_running: "recording_state (engine demo_system) = RecordingConsumerState.Running"
  by code_simp

subsection \<open>The promises of the engine\<close>

text \<open>C10. Between commands the engine is in one of its resting states: a recording is off or running, a
  replay off, running or saving, never starting or stopping; there is a recording consumer exactly while
  recording, subscribed to the capture session as its only consumer; a saving replay has its consumer;
  and the capture session runs exactly while a consumer is on.\<close>

theorem engine_rests_in_wellformed_states:
  assumes "system_run (plugin_controller obs) env fresh plugin_start y"
  shows "(case recording_state (engine y) of
       RecordingConsumerState.Off \<Rightarrow> recording_consumer (engine y) = None \<and> consumers (capture (engine y)) = []
     | RecordingConsumerState.Running \<Rightarrow> recording_consumer (engine y) \<noteq> None \<and>
         consumers (capture (engine y)) = [recording_address (engine y)]
     | _ \<Rightarrow> False) \<and>
   (case replay_state (engine y) of
       ReplayConsumerState.Off \<Rightarrow> True
     | ReplayConsumerState.Running \<Rightarrow> True
     | Saving \<Rightarrow> replay_consumer (engine y) \<noteq> None
     | _ \<Rightarrow> False) \<and>
   (capture_running (capture (engine y)) \<longleftrightarrow> capture_state (engine y) = Active) \<and>
   (capture_state (engine y) = Active \<longleftrightarrow>
      recording_state (engine y) = RecordingConsumerState.Running \<or>
      replay_state (engine y) \<noteq> ReplayConsumerState.Off)"
  using plugin_run(1) [OF assms] unfolding flow_ok_def
  by (cases "recording_state (engine y)"; cases "replay_state (engine y)") auto

theorem engine_rests_in_wellformed_states_witness:
  "capture_running (capture (engine demo_system)) \<and> consumers (capture (engine demo_system)) =
     [recording_address (engine demo_system)]"
  using engine_rests_in_wellformed_states [OF demo_system_run] by (simp add: demo_system_running)

text \<open>C9. Encoders follow demand: whatever fails on the way, every stream an active consumer takes part
  in has its encoder running, and when no consumer is on, no encoder of the plugin is running.\<close>

theorem encoders_follow_demand:
  assumes "system_run (plugin_controller obs) env fresh plugin_start y"
    and "s \<in> set (configured (configuration (engine y)))"
    and "CaptureIdFor (engine y) (stream_identity s) = Some i"
  shows "(StreamNeedsEncoder (mode s) (IsRecordingActive (recording_state (engine y)))
       (IsReplayActive (replay_state (engine y))) \<longrightarrow> plugin_IsActive i (encoders (engine y))) \<and>
    (recording_state (engine y) = RecordingConsumerState.Off \<and> replay_state (engine y) = ReplayConsumerState.Off \<longrightarrow>
       plugin_active_count (encoders (engine y)) = 0)"
proof -
  note enc = plugin_run(2) [OF assms(1), unfolded encoders_ok_def active_def]
  have act: "IsActive (plugin_controller obs) j e = plugin_IsActive j e" for j and e :: "'a PluginEncoderController"
    by (simp add: plugin_controller_def)
  have "demanded (rec_on (engine y)) (rep_on (engine y)) (engine_streams (engine y)) (engine y) i"
    if "StreamNeedsEncoder (mode s) (rec_on (engine y)) (rep_on (engine y))"
    using assms(2,3) that by (auto simp: demanded_def)
  moreover have "plugin_active_count e = 0" if "\<forall>j. \<not> plugin_IsActive j e" for e :: "'a PluginEncoderController"
    using that by (auto simp: plugin_active_count_def plugin_IsActive_def list_ex_iff filter_empty_conv)
  ultimately show ?thesis using enc by (auto simp: act)
qed

theorem encoders_follow_demand_witness:
  "plugin_IsActive 0 (encoders (engine demo_system))"
proof -
  have "configuration (engine demo_system) = demo_configuration" by code_simp
  then have s: "demo_stream \<in> set (configured (configuration (engine demo_system)))"
    "CaptureIdFor (engine demo_system) (stream_identity demo_stream) = Some 0"
    by (simp_all add: demo_configuration_def CaptureIdFor_def demo_stream_def)
  from encoders_follow_demand [OF demo_system_run s] show ?thesis
    by (simp add: demo_system_running StreamNeedsEncoder_def demo_stream_def)
qed

text \<open>Recording alone retains nothing: while the replay is off the packet ring of every stream is
  empty, however many packets are recorded.\<close>

theorem recording_alone_retains_nothing:
  assumes "system_run (plugin_controller obs) env fresh plugin_start y"
    and "replay_state (engine y) = ReplayConsumerState.Off" and "st \<in> set (streams (capture (engine y)))"
  shows "stream_packets st = []"
  using plugin_run(1) [OF assms(1)] assms(2,3) by (auto simp: flow_ok_def ring_empty_def)

theorem recording_alone_retains_nothing_witness:
  "\<exists>st. streams (capture (engine demo_system)) = [st] \<and> stream_packets st = []"
proof -
  have "(replay_state (engine demo_system), length (streams (capture (engine demo_system)))) =
      (ReplayConsumerState.Off, 1)" by code_simp
  then obtain st where st: "replay_state (engine demo_system) = ReplayConsumerState.Off"
    "streams (capture (engine demo_system)) = [st]" by (auto simp: length_Suc_conv)
  with recording_alone_retains_nothing [OF demo_system_run st(1), of st] show ?thesis by simp
qed

definition demo_captured :: CapturedEncodedPacket where
  "demo_captured = \<lparr>captured_stream_id = 0, captured_packet = demo_packet 10 True [1], codec_extra_data = [3]\<rparr>"

definition demo_ingested :: "(unit, unit PluginEncoderController) capture_system" where
  "demo_ingested = system_ingest 0 (demo_packet 10 True [1]) [3] demo_system"

lemma demo_ingested_run: "system_run (plugin_controller willing_obs) plain_muxer fresh plugin_start demo_ingested"
  unfolding demo_ingested_def by (rule run_ingest [OF demo_system_run])

lemma demo_in_flight: "in_flight demo_ingested = [(7, demo_captured)]"
  by code_simp

text \<open>C33. The fan-out of a packet may outlive its consumer: it runs over a copy of the consumer pointers
  after the session's lock is released, and a stop of the recording neither waits for it nor keeps the
  consumer alive. There is a run in which a capture thread still has to hand a packet over to an
  address whose consumer has been destroyed.\<close>

theorem fan_out_may_outlive_consumer:
  "\<exists>y :: (unit, unit PluginEncoderController) capture_system. \<exists>a q.
     system_run (plugin_controller willing_obs) plain_muxer (\<lambda>_. ()) plugin_start y \<and>
     (a, q) \<in> set (in_flight y) \<and> a \<notin> set (consumers (capture (engine y))) \<and> \<not> live_consumer a (engine y)"
proof -
  let ?y = "demo_ingested\<lparr>engine := snd (StopRecording (plugin_controller willing_obs) plain_muxer (\<lambda>_. ()) 5
    (engine demo_ingested))\<rparr>"
  have run: "system_run (plugin_controller willing_obs) plain_muxer (\<lambda>_. ()) plugin_start ?y"
    by (rule run_stop_recording [OF demo_ingested_run])
  have "recording_state (engine ?y) = RecordingConsumerState.Off"
    using plugin.StopRecording_keeps [of willing_obs "engine demo_ingested" plain_muxer "\<lambda>_. ()" 5]
      plugin_run [OF demo_ingested_run [of "\<lambda>_. ()"]] by (simp add: plugin.engine_ok_def)
  then have "recording_consumer (engine ?y) = None" "consumers (capture (engine ?y)) = []"
    using plugin_run(1) [OF run] unfolding flow_ok_def by auto
  with run demo_in_flight show ?thesis
    by (intro exI [of _ ?y] exI [of _ 7] exI [of _ demo_captured]) (simp add: live_consumer_def)
qed

text \<open>C34. Stopping the replay during a save drops the result of the save: the stop waits until the file
  is written and the consumer has the result, but the state is already \<open>Stopping\<close> when the wait looks
  for \<open>Saving\<close>, so the engine's replay result stays what it was and no later poll collects it.\<close>

theorem stop_during_save_drops_the_result:
  assumes "system_run (plugin_controller obs) env fresh plugin_start y" and "replay_state (engine y) = Saving"
    and "replay_consumer (engine y) = Some c" and "save_job c = Some (snap, paths)"
    and z: "z = snd (StopReplay (plugin_controller obs) env fresh t0 t1 (engine y))"
  shows "replay_result z = replay_result (engine y) \<and> PollReplaySave env fresh t2 t3 z = z \<and>
    (\<exists>d. replay_consumer z = Some d \<and> last_result d = Some (fst (WriteSnapshot env fresh t0 t1 snap paths)))"
proof -
  have "plugin.engine_ok obs (engine y)" using plugin_run [OF assms(1)] by (simp add: plugin.engine_ok_def)
  note out = plugin.StopReplay_keeps [OF this, of env fresh t0 t1]
  then have "replay_state z = ReplayConsumerState.Off" "replay_result z = replay_result (engine y)"
    "replay_consumer z = Some (fst (replay_Wait env fresh t0 t1 c))"
    using assms(2,3) by (simp_all add: z)
  moreover have "last_result (fst (replay_Wait env fresh t0 t1 c)) = Some (fst (WriteSnapshot env fresh t0 t1 snap paths))"
    by (simp add: replay_Wait_def worker_done_def assms(4) case_prod_beta Let_def)
  ultimately show ?thesis by (simp add: PollReplaySave_def)
qed

definition demo_saving :: "(unit, unit PluginEncoderController) capture_system" where
  "demo_saving = (let y = demo_ingested\<lparr>engine := snd (StartReplay (plugin_controller willing_obs) (engine demo_ingested))\<rparr>;
       y = system_ingest 0 (demo_packet 20 True [1]) [3] y; y = system_ingest 0 (demo_packet 30 True [1]) [3] y
     in y\<lparr>engine := snd (the (SaveReplay [''s.mkv''] (engine y)))\<rparr>)"

lemma demo_saving_eval:
  "replay_state (engine demo_saving) = Saving \<and>
   map_option (\<lambda>c. save_job c \<noteq> None) (replay_consumer (engine demo_saving)) = Some True"
  by code_simp

lemma demo_saving_run: "system_run (plugin_controller willing_obs) plain_muxer (\<lambda>_. ()) plugin_start demo_saving"
proof -
  let ?a = "demo_ingested\<lparr>engine := snd (StartReplay (plugin_controller willing_obs) (engine demo_ingested))\<rparr>"
  let ?b = "system_ingest 0 (demo_packet 30 True [1]) [3] (system_ingest 0 (demo_packet 20 True [1]) [3] ?a)"
  have b: "system_run (plugin_controller willing_obs) plain_muxer (\<lambda>_. ()) plugin_start ?b"
    by (intro run_ingest run_start_replay demo_ingested_run)
  have saving: "demo_saving = ?b\<lparr>engine := snd (the (SaveReplay [''s.mkv''] (engine ?b)))\<rparr>"
    by (simp only: demo_saving_def Let_def)
  have "SaveReplay [''s.mkv''] (engine ?b) \<noteq> None" by code_simp
  then obtain r g where "SaveReplay [''s.mkv''] (engine ?b) = Some (r, g)" by auto
  from run_save_replay [OF b this] this show ?thesis unfolding saving by simp
qed

theorem stop_during_save_drops_the_result_witness:
  "\<exists>d s. replay_consumer (snd (StopReplay (plugin_controller willing_obs) plain_muxer (\<lambda>_. ()) 1 2
       (engine demo_saving))) = Some d \<and> last_result d = Some s"
proof -
  obtain c snap paths where c: "replay_state (engine demo_saving) = Saving"
    "replay_consumer (engine demo_saving) = Some c" "save_job c = Some (snap, paths)"
    using demo_saving_eval by auto
  from stop_during_save_drops_the_result [OF demo_saving_run c refl, of 1 2] show ?thesis by blast
qed

end
