(* ===== verification/RecordingFiles.thy ===== *)
theory RecordingFiles
  imports RecordingConsumerProperties
begin

text \<open>
  Which files a recording writes: every operation of the consumer keeps the writers of a started recording on the
  paths the recording was made with, and the result of a success names these paths.
\<close>

text \<open>Every writer of a started recording has the path that was asked for its stream, and a success reports these paths.\<close>

definition named :: "'w SynchronizedRecordingConsumer \<Rightarrow> bool" where
  "named c \<longleftrightarrow>
     (rc_started c \<longrightarrow> (\<forall>i < length (rc_writers c). \<forall>w. rc_writers c ! i = Some w \<longrightarrow> mkv_path w = rc_paths c ! i)) \<and>
     (\<forall>r. rc_result c = Some r \<and> rec_success r \<longrightarrow> rec_paths r = rc_paths c \<and> rc_started c)"

lemma path_Release [simp]: "mkv_path (ReleaseFormat env w) = mkv_path w"
  by (simp add: ReleaseFormat_def)

lemma path_Open: "mkv_Open env p cfg w = (True, w') \<Longrightarrow> mkv_path w' = p"
  by (auto simp: mkv_Open_def open_file_and_header_def open_failed_def Let_def split: prod.splits if_splits)

lemma path_Write [simp]: "mkv_path (snd (mkv_Write env p w)) = mkv_path w"
  by (simp add: mkv_Write_def mkv_Fail_def account_written_def Let_def case_prod_beta)

lemma path_Finalize [simp]: "mkv_path (snd (mkv_Finalize env w)) = mkv_path w"
  by (simp add: mkv_Finalize_def Let_def case_prod_beta)

lemma path_Abort [simp]: "mkv_path (mkv_Abort env w) = mkv_path w"
  by (simp add: mkv_Abort_def)

lemma named_updates [simp]:
  "named (c\<lparr>rc_dts_origins := d\<rparr>) = named c" "named (c\<lparr>rc_pending := m\<rparr>) = named c"
  "named (c\<lparr>rc_range := x\<rparr>) = named c" "named (c\<lparr>rc_packet_count := n\<rparr>) = named c"
  "named (c\<lparr>rc_configs := g\<rparr>) = named c" "named (c\<lparr>rc_failed := b\<rparr>) = named c"
  "named (c\<lparr>rc_phase := ph\<rparr>) = named c" "named (c\<lparr>rc_running := b\<rparr>) = named c"
  "named (c\<lparr>rc_queue := q\<rparr>) = named c" "named (c\<lparr>rc_stop_requested := b\<rparr>) = named c"
  "named (c\<lparr>rc_joinable := b\<rparr>) = named c"
  by (simp_all add: named_def)

lemma named_failure: "named c \<Longrightarrow> \<not> rec_success r \<Longrightarrow> named (c\<lparr>rc_failed := b, rc_result := Some r\<rparr>)"
  by (simp add: named_def)

lemma named_Fail: "named c \<Longrightarrow> named (snd (rc_Fail why c))"
  by (simp add: rc_Fail_def named_failure empty_recording_result_def)

text \<open>A writer that is replaced by one of the same path.\<close>

lemma named_writer:
  assumes "named c" and "rc_writers c ! i = Some w" and "mkv_path w' = mkv_path w"
  shows "named (c\<lparr>rc_writers := (rc_writers c)[i := Some w']\<rparr>)"
proof -
  have "mkv_path v = rc_paths c ! j" if "rc_started c" "j < length (rc_writers c)" "(rc_writers c)[i := Some w'] ! j = Some v" for j v
    using assms that by (cases "j = i") (auto simp: named_def)
  with assms(1) show ?thesis by (auto simp: named_def)
qed

lemma open_names:
  "open_writers env fresh cts is c = (True, c') \<Longrightarrow> \<forall>i \<in> set is. i < length (rc_writers c) \<Longrightarrow>
     length (rc_writers c') = length (rc_writers c) \<and> rc_result c' = rc_result c \<and> rc_paths c' = rc_paths c \<and>
     (\<forall>i < length (rc_writers c).
        (i \<in> set is \<longrightarrow> (\<exists>w. rc_writers c' ! i = Some w \<and> mkv_path w = rc_paths c ! i)) \<and>
        (i \<notin> set is \<longrightarrow> rc_writers c' ! i = rc_writers c ! i))"
proof (induction "is" arbitrary: c)
  case (Cons i "is")
  obtain ok w where o: "mkv_Open env (rc_paths c ! i) (rc_configs c ! i) (new_writer (fresh i)) = (ok, w)" by fastforce
  with Cons.prems(1) have ok: "ok" by (cases ok) (simp_all add: rc_Fail_def Let_def)
  let ?c = "c\<lparr>rc_writers := (rc_writers c)[i := Some w]\<rparr>"
  obtain q where "om_find (rc_pending c ! i) cts = Some q"
    using Cons.prems(1) o ok
    by (cases "om_find (rc_pending c ! i) cts") (simp_all add: rc_Fail_def Let_def)
  then have "open_writers env fresh cts is (?c\<lparr>rc_dts_origins := (rc_dts_origins ?c)[i := dts (captured_packet q)]\<rparr>) =
      (True, c')" using Cons.prems(1) o ok by simp
  from Cons.IH [OF this] Cons.prems(2) path_Open [of env "rc_paths c ! i"] o ok
  show ?case by (auto simp: nth_list_update)
qed simp

lemma open_failure:
  "open_writers env fresh cts is c = (False, c') \<Longrightarrow> \<not> rc_started c \<Longrightarrow> named c \<Longrightarrow> named c' \<and> \<not> rc_started c'"
proof (induction "is" arbitrary: c)
  case (Cons i "is")
  have quiet: "named (c\<lparr>rc_writers := ws\<rparr>)" for ws using Cons.prems(2,3) by (simp add: named_def)
  obtain ok w where o: "mkv_Open env (rc_paths c ! i) (rc_configs c ! i) (new_writer (fresh i)) = (ok, w)" by fastforce
  let ?c = "c\<lparr>rc_writers := (rc_writers c)[i := Some w]\<rparr>"
  show ?case
  proof (cases "ok \<and> om_find (rc_pending c ! i) cts \<noteq> None")
    case True
    then obtain q where "om_find (rc_pending c ! i) cts = Some q" by blast
    with Cons.prems(1) o True have "open_writers env fresh cts is
        (?c\<lparr>rc_dts_origins := (rc_dts_origins ?c)[i := dts (captured_packet q)]\<rparr>) = (False, c')" by simp
    from Cons.IH [OF this] Cons.prems(2) quiet show ?thesis by simp
  next
    case False
    then have "rc_Fail (''recording-open-failed:'' @ mkv_error w) ?c = (False, c') \<or>
        rc_Fail ''recording-start-packet-missing'' ?c = (False, c')"
      using Cons.prems(1) o by (cases ok) (simp_all add: Let_def del: append.simps)
    then obtain why where "c' = snd (rc_Fail why ?c)" by (metis snd_conv)
    with named_Fail [OF quiet] Cons.prems(2) show ?thesis by simp
  qed
qed simp

lemma named_Establish:
  assumes "named c" and "length (rc_writers c) = length (rc_configs c)"
  shows "named (snd (rc_EstablishCommonStart env fresh c))"
proof (cases "rc_started c \<or> rc_pending c = [] \<or> common_start (rc_pending c) = None")
  case True
  with assms(1) show ?thesis by (auto simp: rc_EstablishCommonStart_def Let_def)
next
  case False
  then obtain cts where cts: "common_start (rc_pending c) = Some cts" by auto
  let ?c = "c\<lparr>rc_range := (rc_range c)\<lparr>range_start_cts := cts\<rparr>, rc_pending := map (om_drop_below cts) (rc_pending c)\<rparr>"
  have c: "named ?c" "\<not> rc_started ?c" using assms(1) False by simp_all
  obtain ok d where o: "open_writers env fresh cts [0..<length (rc_configs c)] ?c = (ok, d)" by fastforce
  have eval: "snd (rc_EstablishCommonStart env fresh c) = (if ok then d\<lparr>rc_started := True\<rparr> else d)"
    using False cts o by (simp add: rc_EstablishCommonStart_def Let_def)
  show ?thesis
  proof (cases ok)
    case True
    with open_names [of env fresh cts _ ?c d] o assms(2) have out: "length (rc_writers d) = length (rc_writers c)"
      "rc_result d = rc_result c" "rc_paths d = rc_paths c"
      "\<forall>i < length (rc_writers c). \<exists>w. rc_writers d ! i = Some w \<and> mkv_path w = rc_paths c ! i" by auto
    have "mkv_path w = rc_paths d ! i" if "i < length (rc_writers d)" "rc_writers d ! i = Some w" for i w
      using out that by auto
    then show ?thesis using eval True out c(1) by (auto simp: named_def)
  next
    case False
    with open_failure [of env fresh cts _ ?c d] o c eval show ?thesis by simp
  qed
qed

lemma named_write: "named c \<Longrightarrow> named (snd (write_common env cts is c))"
proof (induction "is" arbitrary: c)
  case (Cons i "is")
  show ?case
  proof (cases "\<exists>q w. om_find (rc_pending c ! i) cts = Some q \<and> rc_writers c ! i = Some w")
    case True
    then obtain q w where q: "om_find (rc_pending c ! i) cts = Some q" "rc_writers c ! i = Some w" by blast
    let ?out = "recording_packet env (range_start_cts (rc_range c)) cts (rc_dts_origins c ! i) (captured_packet q)"
    obtain ok w' where w: "mkv_Write env ?out w = (ok, w')" by fastforce
    have "named (c\<lparr>rc_writers := (rc_writers c)[i := Some w']\<rparr>)"
      using named_writer [OF Cons.prems q(2), of w'] path_Write [of env ?out w] w by simp
    with Cons.IH named_Fail q w show ?thesis by (cases ok) (simp_all add: Let_def)
  next
    case False
    then have "write_common env cts (i # is) c = (False, c)" by (auto split: option.split)
    with Cons.prems show ?thesis by simp
  qed
qed simp

lemma named_flush: "named c \<Longrightarrow> named (snd (flush_common env c))"
proof (induction env c rule: flush_common.induct)
  case (1 env c)
  let ?k = "fst (hd (hd (rc_pending c)))"
  obtain ok d where w: "write_common env ?k [0..<length (rc_pending c)] c = (ok, d)" by fastforce
  with named_write [OF 1(2), of env ?k "[0..<length (rc_pending c)]"] have d: "named d" by simp
  show ?case
  proof (cases "rc_pending c = [] \<or> hd (rc_pending c) = [] \<or> list_ex (\<lambda>m. om_find m ?k = None) (rc_pending c) \<or> \<not> ok")
    case True
    with 1(2) w d show ?thesis by (cases ok) (auto simp: flush_common.simps [of env c] Let_def)
  next
    case False
    with 1(1) [OF _ refl _ w [symmetric]] d have "named (snd (flush_common env
        (d\<lparr>rc_range := (rc_range d)\<lparr>range_end_cts := ?k\<rparr>, rc_packet_count := rc_packet_count d + 1\<rparr>)))" by simp
    with False w show ?thesis by (simp add: flush_common.simps [of env c] Let_def)
  qed
qed

lemma named_FlushCommonPrefix: "named c \<Longrightarrow> named (snd (rc_FlushCommonPrefix env c))"
  by (simp add: rc_FlushCommonPrefix_def named_flush)

lemma named_file: "named (file_packet q c) = named c"
  by (simp add: file_packet_def Let_def split: option.split)

lemma file_sizes: "length (rc_writers (file_packet q c)) = length (rc_writers c)"
  "length (rc_configs (file_packet q c)) = length (rc_configs c)"
  by (simp_all add: file_packet_def Let_def split: option.split)

lemma named_process:
  assumes "named c" and "sizes_ok c"
  shows "named (process_packet env fresh q c)"
proof -
  have f: "named (file_packet q c)" "length (rc_writers (file_packet q c)) = length (rc_configs (file_packet q c))"
    using assms by (simp_all add: named_file file_sizes sizes_ok_def)
  show ?thesis
    using named_Fail [OF f(1)] named_FlushCommonPrefix [OF f(1)] named_Establish [OF f]
      named_FlushCommonPrefix [OF named_Establish [OF f]] f(1)
    by (simp add: process_packet_def Let_def case_prod_beta)
qed

lemma named_finalize:
  "finalize_writers env is r c = (r', c') \<Longrightarrow> named c \<Longrightarrow>
     named c' \<and> rec_paths r' = rec_paths r \<and> rc_started c' = rc_started c \<and> rc_paths c' = rc_paths c"
proof (induction "is" arbitrary: r c)
  case (Cons i "is")
  show ?case
  proof (cases "rc_writers c ! i")
    case (Some w)
    obtain res w' where f: "mkv_Finalize env w = (res, w')" by fastforce
    have "named (c\<lparr>rc_writers := (rc_writers c)[i := Some (mkv_Abort env w)]\<rparr>)"
      "named (c\<lparr>rc_writers := (rc_writers c)[i := Some w']\<rparr>)"
      using named_writer [OF Cons.prems(2) Some] path_Finalize [of env w] f by simp_all
    note IH = Cons.IH [OF _ this(1)] Cons.IH [OF _ this(2)] Cons.IH [of _ "c\<lparr>rc_writers := (rc_writers c)[i := Some w'], rc_failed := True\<rparr>"]
    show ?thesis
      using Cons.prems(1) Some f IH \<open>named (c\<lparr>rc_writers := (rc_writers c)[i := Some w']\<rparr>)\<close>
      by (auto simp: Let_def split: if_splits)
  qed (use Cons in simp)
qed simp

lemma named_Finalize:
  assumes "named c"
  shows "named (rc_Finalize env now c)"
proof -
  let ?r = "empty_recording_result\<lparr>rec_paths := rc_paths c, rec_range := rc_range c,
    rec_packet_count := rc_packet_count c, rec_streams := replicate (length (rc_writers c)) empty_mkv_result\<rparr>"
  obtain r d where f: "finalize_writers env [0..<length (rc_writers c)] ?r c = (r, d)" by fastforce
  from named_finalize [OF f assms] have d: "named d" "rec_paths r = rc_paths d" by simp_all
  let ?s = "r\<lparr>rec_success := (\<not> rc_failed d \<and> rc_started d \<and>
       range_end_cts (rc_range d) \<ge> range_start_cts (rc_range d)),
     rec_wall_ms := (now - rc_start_ns d) div 1000000\<rparr>"
  have "rc_Finalize env now c = (if case rc_result d of None \<Rightarrow> True | Some old \<Rightarrow> rec_error old = []
      then d\<lparr>rc_result := Some ?s\<rparr> else d)"
    unfolding rc_Finalize_def Let_def f prod.case by simp
  moreover have "named (d\<lparr>rc_result := Some ?s\<rparr>)" using d by (simp add: named_def)
  ultimately show ?thesis using d(1) by simp
qed

lemma named_last_flush:
  assumes "named c" and "sizes_ok c"
  shows "named (last_flush env fresh c)"
proof -
  have e: "named (snd (rc_EstablishCommonStart env fresh c))"
    by (rule named_Establish) (use assms in \<open>simp_all add: sizes_ok_def\<close>)
  show ?thesis
    using assms(1) e named_FlushCommonPrefix [OF assms(1), of env] named_FlushCommonPrefix [OF e, of env]
    by (simp add: last_flush_def Let_def case_prod_beta named_Fail)
qed

lemma reachable_named: "rc_reachable env fresh c \<Longrightarrow> named c"
proof (induction rule: rc_reachable.induct)
  case (stepped c c')
  have sizes: "sizes_ok c" using rc_reachable_inv [OF stepped(1)] by (simp add: rc_inv_def)
  from stepped(2) stepped(3) sizes show ?case
  proof (induction rule: rc_step.induct)
    case (start c now)
    then show ?case by (auto simp: rc_Start_def named_def)
  next
    case (packet c q)
    then show ?case by (auto simp: OnPacket_def named_failure empty_recording_result_def)
  next
    case (finish c now)
    then show ?case by (simp add: finish_recording_def named_Finalize named_last_flush)
  qed (simp_all add: rc_Stop_def take_packet_def named_process)
qed (simp add: new_recording_def named_def)

end
