(* ===== verification/RecordingHistory.thy ===== *)
theory RecordingHistory
  imports CaptureControlProperties RecordingFiles
begin

text \<open>
  The recordings of a run of the engine: from a \<open>StartRecording\<close> that succeeded, over the steps in which the
  recording is on, to the step that ended it and the steps after that. A result the engine reports is the result of the
  last recording of the run, over the paths and the streams that recording was started with.
\<close>

subsection \<open>Histories\<close>

text \<open>In the state the recording is on that was started with these paths by this engine.\<close>

inductive recording_by :: "'e EncoderController \<Rightarrow> 'w mkv_env \<Rightarrow> (nat \<Rightarrow> 'w) \<Rightarrow> ('e \<Rightarrow> bool) \<Rightarrow> string list \<Rightarrow>
    ('w, 'e) CaptureControlEngine \<Rightarrow> ('w, 'e) capture_system \<Rightarrow> bool" for ops env fresh start where
  begun: "system_run ops env fresh start y \<Longrightarrow>
    StartRecording ops now addr paths (engine y) = (answer Succeeded ''recording-started'', g) \<Longrightarrow>
    recording_by ops env fresh start paths (engine y) (y\<lparr>engine := g\<rparr>)"
| going: "recording_by ops env fresh start paths e y \<Longrightarrow> system_step ops env fresh y z \<Longrightarrow>
    recording_state (engine z) = RecordingConsumerState.Running \<Longrightarrow> recording_by ops env fresh start paths e z"

text \<open>In the state that recording is over, no other has begun, and its consumer was the given one when it was stopped.\<close>

inductive recorded_by :: "'e EncoderController \<Rightarrow> 'w mkv_env \<Rightarrow> (nat \<Rightarrow> 'w) \<Rightarrow> ('e \<Rightarrow> bool) \<Rightarrow> string list \<Rightarrow>
    ('w, 'e) CaptureControlEngine \<Rightarrow> 'w SynchronizedRecordingConsumer \<Rightarrow> ('w, 'e) capture_system \<Rightarrow> bool"
  for ops env fresh start where
  ended: "recording_by ops env fresh start paths e y \<Longrightarrow> recording_consumer (engine y) = Some c \<Longrightarrow>
    system_step ops env fresh y z \<Longrightarrow> recording_state (engine z) = RecordingConsumerState.Off \<Longrightarrow>
    recorded_by ops env fresh start paths e c z"
| rested: "recorded_by ops env fresh start paths e c y \<Longrightarrow> system_step ops env fresh y z \<Longrightarrow>
    recording_state (engine z) = RecordingConsumerState.Off \<Longrightarrow> recorded_by ops env fresh start paths e c z"

subsection \<open>What a step does to the recording\<close>

definition rec_view :: "('w, 'e) CaptureControlEngine \<Rightarrow>
    'w SynchronizedRecordingConsumer option \<times> SynchronizedRecordingConsumerResult option" where
  "rec_view g = (recording_consumer g, recording_result g)"

lemma view_updates [simp]:
  "rec_view (g\<lparr>encoders := e\<rparr>) = rec_view g" "rec_view (Emit ops ev i g) = rec_view g"
  "rec_view (g\<lparr>capture := cap\<rparr>) = rec_view g" "rec_view (g\<lparr>capture_state := cs\<rparr>) = rec_view g"
  "rec_view (g\<lparr>capture_epoch := n\<rparr>) = rec_view g" "rec_view (g\<lparr>recording_state := rs\<rparr>) = rec_view g"
  "rec_view (g\<lparr>replay_state := ps\<rparr>) = rec_view g" "rec_view (g\<lparr>replay_result := pr\<rparr>) = rec_view g"
  "rec_view (g\<lparr>replay_consumer := pc\<rparr>) = rec_view g" "rec_view (g\<lparr>configuration := cfg\<rparr>) = rec_view g"
  by (simp_all add: rec_view_def Emit_def)

lemma view_create [simp]: "rec_view (snd (create_pass ops ss g)) = rec_view g"
  by (induction ss arbitrary: g) (simp_all add: case_prod_beta Let_def split: option.split)

lemma view_activate [simp]: "rec_view (snd (activate_pass ops on rep ss g)) = rec_view g"
  by (induction ss arbitrary: g) (simp_all add: case_prod_beta Let_def split: option.split)

lemma view_release [simp]: "rec_view (release_pass ops on rep ss g) = rec_view g"
  by (induction ss arbitrary: g) (simp_all split: option.split)

lemma view_release_all [simp]: "rec_view (release_all ops ss g) = rec_view g"
  by (induction ss arbitrary: g) (simp_all split: option.split)

lemma view_activate_capture [simp]: "rec_view (snd (activate_capture ops g)) = rec_view g"
  by (simp add: activate_capture_def EnsureCaptureActive_def ReconcileEncoderDemand_def case_prod_beta Let_def)

lemma view_unused [simp]: "rec_view (StopCaptureIfUnused ops g) = rec_view g"
  "rec_view (ReleaseUndemandedEncoders ops g) = rec_view g"
  by (simp_all add: StopCaptureIfUnused_def ReleaseUndemandedEncoders_def Let_def)

lemma view_StartReplay [simp]: "rec_view (snd (StartReplay ops g)) = rec_view g"
  by (simp add: StartReplay_def give_up_replay_def case_prod_beta Let_def)

lemma view_Wait [simp]: "rec_view (WaitForReplaySave env fresh t0 t1 g) = rec_view g"
  by (simp add: WaitForReplaySave_def Let_def split: option.split)

lemma view_Poll [simp]: "rec_view (PollReplaySave env fresh t0 t1 g) = rec_view g"
  by (simp add: PollReplaySave_def Let_def split: option.split)

lemma view_StopReplay [simp]: "rec_view (snd (StopReplay ops env fresh t0 t1 g)) = rec_view g"
  by (simp add: StopReplay_def Let_def)

lemma view_Save: "SaveReplay paths g = Some (r, g') \<Longrightarrow> rec_view g' = rec_view g"
  by (auto simp: SaveReplay_def Let_def split: if_splits)

lemma view_Apply [simp]: "rec_view (snd (ApplyReplayConfiguration ops env fresh t0 t1 cfg g)) = rec_view g"
  by (simp add: ApplyReplayConfiguration_def case_prod_beta Let_def)

lemma view_ingest: "rec_view (engine (system_ingest i p x y)) = rec_view (engine y)"
  by (simp add: system_ingest_def case_prod_beta Let_def)

text \<open>A start that is accepted clears the result of the recording before, also when it then fails.\<close>

lemma StartRecording_view:
  assumes "StartRecording ops now addr paths g = (a, h)"
  obtains (refused) "h = g"
    | (failed) "recording_consumer h = None" "recording_result h = None" "recording_state g = RecordingConsumerState.Off"
    | (started) c where "a = answer Succeeded ''recording-started''" "recording_result h = None"
        "rc_Start now (new_recording (SelectedPacketConfigs g CaptureConsumer.Recording) paths
           (SelectedCaptureIds g CaptureConsumer.Recording)) = (True, c)"
        "recording_consumer h = Some c" "recording_state g = RecordingConsumerState.Off"
        "length paths = length (SelectedCaptureIds g CaptureConsumer.Recording)" "paths \<noteq> []"
proof (cases "initialized g \<and> recording_state g = RecordingConsumerState.Off \<and>
    length paths = length (SelectedCaptureIds g CaptureConsumer.Recording) \<and> paths \<noteq> []")
  case False
  then have "h = g" using assms by (auto simp: StartRecording_def Let_def split: if_splits)
  then show thesis by (rule refused)
next
  case True
  let ?g = "g\<lparr>recording_state := RecordingConsumerState.Starting, recording_result := None\<rparr>"
  have same: "SelectedCaptureIds ?g = SelectedCaptureIds g" "SelectedPacketConfigs ?g = SelectedPacketConfigs g"
    by (simp_all add: SelectedCaptureIds_def SelectedPacketConfigs_def fun_eq_iff)
  obtain st and c :: "'a SynchronizedRecordingConsumer" where rc: "rc_Start now (new_recording
      (SelectedPacketConfigs g CaptureConsumer.Recording) paths (SelectedCaptureIds g CaptureConsumer.Recording)) = (st, c)"
    by fastforce
  obtain sub cap where sub: "(if st then Subscribe addr (capture g) else (False, capture g)) = (sub, cap)" by fastforce
  have sub': "(if st then Subscribe addr (capture ?g) else (False, capture ?g)) = (sub, cap)"
    using sub by (cases st) simp_all
  note run = assms [unfolded StartRecording_def, simplified True same rc Let_def prod.case sub']
  show thesis
  proof (cases "st \<and> sub")
    case False
    with run have "recording_consumer h = None" "recording_result h = None" by (auto simp: True)
    then show thesis using True by (intro failed) simp_all
  next
    case on: True
    let ?h = "?g\<lparr>recording_consumer := Some c, recording_address := addr, capture := cap,
       capture := SetReplayRetentionEnabled (IsReplayActive (replay_state g)) cap\<rparr>"
    obtain ok k where k: "activate_capture ops ?h = (ok, k)" by fastforce
    have view: "rec_view k = (Some c, None)"
      using view_activate_capture [of ops ?h] k by (simp add: rec_view_def)
    show thesis
    proof (cases "ok \<and> capture_running (capture k)")
      case True
      then have "h = k\<lparr>recording_state := RecordingConsumerState.Running\<rparr>" "a = answer Succeeded ''recording-started''"
        using run on k \<open>initialized g \<and> _\<close> by simp_all
      with view on rc show thesis using \<open>initialized g \<and> _\<close> by (intro started) (simp_all add: rec_view_def)
    next
      case False
      then have "h = snd (abandon_recording ops k)" using run on k \<open>initialized g \<and> _\<close> by (auto split: if_splits)
      then have "rec_view h = (None, None)"
        using view by (simp add: abandon_recording_def Let_def) (simp add: rec_view_def)
      then show thesis using \<open>initialized g \<and> _\<close> by (intro failed) (simp_all add: rec_view_def)
    qed
  qed
qed

lemma StopRecording_view:
  "rec_view (snd (StopRecording ops env fresh now g)) =
     (if recording_state g = RecordingConsumerState.Off \<or> recording_consumer g = None then rec_view g
      else (None, rc_result (rc_StopAndJoin env fresh now (the (recording_consumer g)))))"
  by (auto simp: StopRecording_def Let_def split: option.split) (simp_all add: rec_view_def)

lemma Shutdown_view:
  "rec_view (Shutdown ops env fresh t0 t1 g) =
     (if \<not> initialized g \<and> capture_state g = Idle then rec_view g
      else rec_view (snd (StopRecording ops env fresh t1 (snd (StopReplay ops env fresh t0 t1 g)))))"
  by (simp add: Shutdown_def Let_def)

subsection \<open>Every result has its recording\<close>

text \<open>The consumer was made for a recording to these paths by this engine, and nothing has stopped it.\<close>

definition made_for :: "'w mkv_env \<Rightarrow> (nat \<Rightarrow> 'w) \<Rightarrow> string list \<Rightarrow> ('w, 'e) CaptureControlEngine \<Rightarrow>
    'w SynchronizedRecordingConsumer \<Rightarrow> bool" where
  "made_for env fresh paths e c \<longleftrightarrow> rc_reachable env fresh c \<and>
     length paths = length (SelectedCaptureIds e CaptureConsumer.Recording) \<and>
     length paths = length (SelectedPacketConfigs e CaptureConsumer.Recording) \<and>
     made_with c = (True, paths, SelectedCaptureIds e CaptureConsumer.Recording,
       map plain_config (SelectedPacketConfigs e CaptureConsumer.Recording))"

definition history_ok :: "'e EncoderController \<Rightarrow> 'w mkv_env \<Rightarrow> (nat \<Rightarrow> 'w) \<Rightarrow> ('e \<Rightarrow> bool) \<Rightarrow>
    ('w, 'e) capture_system \<Rightarrow> bool" where
  "history_ok ops env fresh start y \<longleftrightarrow>
     (\<forall>c. recording_consumer (engine y) = Some c \<longrightarrow> recording_result (engine y) = None \<and>
        (\<exists>paths e. recording_by ops env fresh start paths e y \<and> made_for env fresh paths e c)) \<and>
     (\<forall>r. recording_result (engine y) = Some r \<longrightarrow>
        (\<exists>paths e c now. recorded_by ops env fresh start paths e c y \<and> made_for env fresh paths e c \<and>
           rc_result (rc_StopAndJoin env fresh now c) = Some r))"

lemma started_made_for:
  assumes "rc_Start now (new_recording (SelectedPacketConfigs e CaptureConsumer.Recording) paths
      (SelectedCaptureIds e CaptureConsumer.Recording)) = (True, c)"
    and "length paths = length (SelectedCaptureIds e CaptureConsumer.Recording)" "paths \<noteq> []"
  shows "made_for env fresh paths e c"
proof -
  have "rc_reachable env fresh (snd (rc_Start now (new_recording (SelectedPacketConfigs e CaptureConsumer.Recording) paths
      (SelectedCaptureIds e CaptureConsumer.Recording))))"
    by (intro rc_reachable.stepped [OF _ rc_step.start] rc_reachable.created)
  moreover have "SelectedCaptureIds e CaptureConsumer.Recording \<noteq> []" using assms(2,3) by auto
  ultimately show ?thesis
    using assms(1,2) by (auto simp: made_for_def made_with_def rc_Start_def new_recording_def split: if_splits)
qed

text \<open>The five things a step can do, for a state in which the recording consumer tells the recording state.\<close>

definition consumer_tells :: "('w, 'e) CaptureControlEngine \<Rightarrow> bool" where
  "consumer_tells g \<longleftrightarrow> recording_state g =
     (if recording_consumer g = None then RecordingConsumerState.Off else RecordingConsumerState.Running)"

lemma history_same:
  assumes "history_ok ops env fresh start y" and "system_step ops env fresh y z" and "consumer_tells (engine z)"
    and "rec_view (engine z) = rec_view (engine y)"
  shows "history_ok ops env fresh start z"
proof -
  have same: "recording_consumer (engine z) = recording_consumer (engine y)"
    "recording_result (engine z) = recording_result (engine y)" using assms(4) by (simp_all add: rec_view_def)
  have "recording_by ops env fresh start paths e z"
    if "recording_by ops env fresh start paths e y" "recording_consumer (engine y) \<noteq> None" for paths e
    using recording_by.going [OF that(1) assms(2)] that(2) same assms(3) by (simp add: consumer_tells_def)
  moreover have "recorded_by ops env fresh start paths e c z"
    if "recorded_by ops env fresh start paths e c y" "recording_consumer (engine y) = None" for paths e c
    using recorded_by.rested [OF that(1) assms(2)] that(2) same assms(3) by (simp add: consumer_tells_def)
  ultimately show ?thesis
    using assms(1) unfolding history_ok_def same
    by (cases "recording_consumer (engine y)") (simp, blast, simp, blast)
qed

lemma history_moved:
  assumes "history_ok ops env fresh start y" and "system_step ops env fresh y z" and "consumer_tells (engine z)"
    and "recording_consumer (engine y) = Some c" and "rec_view (engine z) = (Some d, recording_result (engine y))"
    and "rc_reachable env fresh c \<Longrightarrow> rc_reachable env fresh d" and "made_with d = made_with c"
  shows "history_ok ops env fresh start z"
proof -
  from assms(1,4) obtain paths e where by_: "recording_by ops env fresh start paths e y" "made_for env fresh paths e c"
    and none: "recording_result (engine y) = None" by (auto simp: history_ok_def)
  have z: "recording_consumer (engine z) = Some d" "recording_result (engine z) = None"
    using assms(5) none by (simp_all add: rec_view_def)
  have "recording_by ops env fresh start paths e z"
    using recording_by.going [OF by_(1) assms(2)] z assms(3) by (simp add: consumer_tells_def)
  moreover have "made_for env fresh paths e d" using by_(2) assms(6,7) by (simp add: made_for_def)
  ultimately show ?thesis using z by (auto simp: history_ok_def)
qed

lemma history_ended:
  assumes "history_ok ops env fresh start y" and "system_step ops env fresh y z" and "consumer_tells (engine z)"
    and "recording_consumer (engine y) = Some c" and "rec_view (engine z) = (None, rc_result (rc_StopAndJoin env fresh now c))"
  shows "history_ok ops env fresh start z"
proof -
  from assms(1,4) obtain paths e where by_: "recording_by ops env fresh start paths e y" "made_for env fresh paths e c"
    by (auto simp: history_ok_def)
  have z: "recording_consumer (engine z) = None" "recording_result (engine z) = rc_result (rc_StopAndJoin env fresh now c)"
    using assms(5) by (simp_all add: rec_view_def)
  have "recorded_by ops env fresh start paths e c z"
    using recorded_by.ended [OF by_(1) assms(4,2)] z assms(3) by (simp add: consumer_tells_def)
  with by_(2) z show ?thesis by (auto simp: history_ok_def)
qed

lemma history_start:
  assumes "history_ok ops env fresh start y" and "system_run ops env fresh start y"
    and "consumer_tells (engine y)" and "StartRecording ops now addr paths (engine y) = (a, h)" and "consumer_tells h"
  shows "history_ok ops env fresh start (y\<lparr>engine := h\<rparr>)"
  using assms(4)
proof (cases rule: StartRecording_view)
  case refused
  then show ?thesis using assms(1) by simp
next
  case failed
  then show ?thesis by (simp add: history_ok_def)
next
  case (started c)
  have "recording_by ops env fresh start paths (engine y) (y\<lparr>engine := h\<rparr>)"
    using assms(2,4) started(1) by (auto intro: recording_by.begun)
  with started_made_for [OF started(3,6,7)] started(2,4) show ?thesis by (auto simp: history_ok_def)
qed

context encoder_controller
begin

lemma engine_ok_tells: "engine_ok g \<Longrightarrow> consumer_tells g"
  by (auto simp: engine_ok_def flow_ok_def consumer_tells_def)

lemma history_stop:
  assumes "history_ok ops env fresh start y" and "system_step ops env fresh y z" and "consumer_tells (engine z)"
    and "consumer_tells (engine y)"
    and "rec_view (engine z) = (if recording_state (engine y) = RecordingConsumerState.Off \<or> recording_consumer (engine y) = None
      then rec_view (engine y) else (None, rc_result (rc_StopAndJoin env fresh now (the (recording_consumer (engine y))))))"
  shows "history_ok ops env fresh start z"
proof (cases "recording_consumer (engine y)")
  case None
  with history_same [OF assms(1-3)] assms(5) show ?thesis by simp
next
  case (Some c)
  with history_ended [OF assms(1-3) Some] assms(4,5) show ?thesis by (simp add: consumer_tells_def)
qed

lemma history_step:
  fixes y :: "('w, 'e) capture_system"
  assumes "system_step ops env fresh y z" and "history_ok ops env fresh start y" and "system_run ops env fresh start y"
    and "engine_ok (engine y)" and "consumers_ok env fresh (engine y)"
  shows "history_ok ops env fresh start z"
proof -
  note step = assms(1)
  have tells: "consumer_tells (engine y)" "consumer_tells (engine z)"
    using engine_ok_tells assms(4) system_step_ok [OF assms(1,4,5)] by blast+
  note same = history_same [OF assms(2,1) tells(2)]
  from step show ?thesis
  proof (cases rule: system_step.cases)
    case (start_recording now addr paths)
    obtain a h where "StartRecording ops now addr paths (engine y) = (a, h)" by fastforce
    with history_start [OF assms(2,3) tells(1)] tells(2) start_recording show ?thesis by simp
  next
    case (stop_recording now)
    show ?thesis by (rule history_stop [OF assms(2,1) tells(2,1)]) (simp add: stop_recording StopRecording_view)
  next
    case (save_replay paths r g)
    with same view_Save [OF save_replay(2)] show ?thesis by simp
  next
    case (shut_down t0 t1)
    let ?a = "snd (StopReplay ops env fresh t0 t1 (engine y))"
    have "rec_view ?a = rec_view (engine y)" by simp
    moreover have "consumer_tells ?a" using engine_ok_tells StopReplay_keeps [OF assms(4)] by blast
    ultimately have a: "recording_consumer ?a = recording_consumer (engine y)" "rec_view ?a = rec_view (engine y)"
      "recording_state ?a = recording_state (engine y)" using tells(1) by (simp_all add: rec_view_def consumer_tells_def)
    show ?thesis
    proof (cases "\<not> initialized (engine y) \<and> capture_state (engine y) = Idle")
      case True
      with same show ?thesis by (simp add: shut_down Shutdown_def)
    next
      case False
      note view = Shutdown_view [of ops env fresh t0 t1 "engine y", unfolded if_not_P [OF False] StopRecording_view a]
      show ?thesis
        by (rule history_stop [OF assms(2,1) tells(2,1), where now = t1]) (simp add: shut_down view)
    qed
  next
    case (ingest i p x)
    show ?thesis by (rule same) (simp only: ingest view_ingest)
  next
    case (hand ds a q es)
    then obtain c where c: "recording_consumer (engine y) = Some c" by (auto simp: live_consumer_def)
    show ?thesis
      by (rule history_moved [OF assms(2,1) tells(2) c, of "OnPacket q c"])
        (use hand c in \<open>auto simp: rec_view_def hand_over_def made_with_OnPacket intro: rc_reachable.stepped rc_step.packet\<close>)
  next
    case (worker c now)
    show ?thesis
      by (rule history_moved [OF assms(2,1) tells(2) worker(2), of "worker_turn env fresh now c"])
        (use worker in \<open>auto simp: rec_view_def made_with_turn reachable_turn\<close>)
  qed (use same in simp_all)
qed

lemma history_run:
  fixes y :: "('w, 'e) capture_system"
  assumes "system_run ops env fresh start y"
    and start: "\<And>e. start e \<Longrightarrow> ok e \<and> (\<forall>i. \<not> IsActive ops i e)"
  shows "history_ok ops env fresh start y"
  using assms(1)
proof (induction rule: system_run.induct)
  case (built e cfg ccfg)
  have "rec_view (snd (Initialize (new_engine cfg (new_capture ccfg) e :: ('w, 'e) CaptureControlEngine))) = (None, None)"
    by (simp add: Initialize_def case_prod_beta Let_def) (simp add: rec_view_def new_engine_def)
  then show ?case by (simp add: history_ok_def rec_view_def)
next
  case (stepped y z)
  with history_step system_run_ok [OF stepped(1) start] show ?case by blast
qed

end

subsection \<open>The result of a recording\<close>

text \<open>C15. A success the engine reports can be trusted, and is that of its last recording. Whenever the engine of a
  run, over the plugin's encoders, reports a recording as a success, no recording is on, and the last one
  was begun by a \<open>StartRecording\<close> of the run with the paths the result names, for the streams the engine had selected
  for recording then; its consumer, stopped and joined, gave this result. There is one closed file per path,
  at that path, with the configuration of its stream, and every file holds the packets of one CTS sequence, one for each
  packet reported, over exactly the reported range.\<close>

theorem reported_recording_is_complete:
  assumes "system_run (plugin_controller obs) env fresh plugin_start y"
    and "recording_result (engine y) = Some r" and "rec_success r"
  shows "\<exists>e c now d. recorded_by (plugin_controller obs) env fresh plugin_start (rec_paths r) e c y \<and>
    recording_state (engine y) = RecordingConsumerState.Off \<and>
    d = rc_StopAndJoin env fresh now c \<and> rc_result d = Some r \<and>
    rc_stream_ids d = SelectedCaptureIds e CaptureConsumer.Recording \<and>
    map plain_config (rc_configs d) = map plain_config (SelectedPacketConfigs e CaptureConsumer.Recording) \<and>
    length (rec_paths r) = length (SelectedCaptureIds e CaptureConsumer.Recording) \<and>
    length (rc_writers d) = length (rec_paths r) \<and>
    (\<exists>cs. rec_packet_count r = word_of_nat (length cs) \<and>
       (\<forall>i < length (rec_paths r). \<exists>m. rc_writers d ! i = Some m \<and> mkv_path m = rec_paths r ! i \<and>
          \<not> format_open m \<and> map source_cts (muxed_packets m) = cs \<and> mkv_success (rec_streams r ! i) \<and>
          first_written_cts m = range_start_cts (rec_range r) \<and> last_written_cts m = range_end_cts (rec_range r)))"
proof -
  have hist: "history_ok (plugin_controller obs) env fresh plugin_start y"
    by (rule plugin.history_run [OF assms(1) plugin_start_ok])
  with assms(2) obtain paths e c now where by_: "recorded_by (plugin_controller obs) env fresh plugin_start paths e c y"
    "made_for env fresh paths e c" "rc_result (rc_StopAndJoin env fresh now c) = Some r"
    by (auto simp: history_ok_def)
  let ?d = "rc_StopAndJoin env fresh now c"
  have off: "recording_state (engine y) = RecordingConsumerState.Off"
    using by_(1) by (cases rule: recorded_by.cases) simp_all
  have c: "rc_reachable env fresh c" "rc_joinable c" using by_(2) by (simp_all add: made_for_def made_with_def)
  note d = stop_and_join [OF c, of now]
  have made: "rc_paths ?d = paths" "rc_stream_ids ?d = SelectedCaptureIds e CaptureConsumer.Recording"
    "map plain_config (rc_configs ?d) = map plain_config (SelectedPacketConfigs e CaptureConsumer.Recording)"
    using made_with_join [of env fresh now c] by_(2) by (simp_all add: made_for_def made_with_def)
  have named: "named ?d" using reachable_named d by blast
  then have paths: "rec_paths r = paths" "rc_started ?d" using by_(3) assms(3) made(1) by (auto simp: named_def)
  have inv: "rc_inv ?d" using rc_reachable_inv d by blast
  then obtain cs where cs: "complete_recording r cs ?d" using d by_(3) assms(3) by (auto simp: rc_inv_def)
  have "length (rc_writers ?d) = length (map plain_config (rc_configs ?d))"
    using inv by (simp add: rc_inv_def sizes_ok_def)
  also have "\<dots> = length paths" unfolding made(3) using by_(2) by (simp add: made_for_def)
  finally have len: "length (rc_writers ?d) = length paths" .
  have "\<exists>m. rc_writers ?d ! i = Some m \<and> mkv_path m = rec_paths r ! i \<and>
      \<not> format_open m \<and> map source_cts (muxed_packets m) = cs \<and> mkv_success (rec_streams r ! i) \<and>
      first_written_cts m = range_start_cts (rec_range r) \<and> last_written_cts m = range_end_cts (rec_range r)"
    if "i < length (rec_paths r)" for i
    using cs that len paths named made(1) by (fastforce simp: complete_recording_def named_def)
  moreover have "rec_packet_count r = word_of_nat (length cs)" using cs by (simp add: complete_recording_def)
  ultimately show ?thesis
    using by_ made off paths len
    by (intro exI [of _ e] exI [of _ c] exI [of _ now] exI [of _ ?d]) (auto simp: made_for_def)
qed

definition demo_recorded :: "(unit, unit PluginEncoderController) capture_system" where
  "demo_recorded = demo_ingested\<lparr>in_flight := [], engine := snd (StopRecording (plugin_controller willing_obs)
     plain_muxer (\<lambda>_. ()) 5 (hand_over demo_captured (engine demo_ingested)))\<rparr>"

lemma demo_recorded_success: "map_option rec_success (recording_result (engine demo_recorded)) = Some True"
  by code_simp

lemma demo_recorded_run: "system_run (plugin_controller willing_obs) plain_muxer (\<lambda>_. ()) plugin_start demo_recorded"
proof -
  have live: "live_consumer 7 (engine demo_ingested)" by code_simp
  have flight: "in_flight demo_ingested = [] @ (7, demo_captured) # []" using demo_in_flight by simp
  from run_stop_recording [OF run_hand [OF demo_ingested_run flight live], where now = 5]
  show ?thesis by (simp add: demo_recorded_def)
qed

theorem reported_recording_is_complete_witness:
  "\<exists>r e c. recording_result (engine demo_recorded) = Some r \<and> rec_success r \<and>
     recorded_by (plugin_controller willing_obs) plain_muxer (\<lambda>_. ()) plugin_start (rec_paths r) e c demo_recorded"
proof -
  obtain r where r: "recording_result (engine demo_recorded) = Some r" "rec_success r"
    using demo_recorded_success by auto
  from reported_recording_is_complete [OF demo_recorded_run r] r show ?thesis by blast
qed

end
