(* ===== verification/ObsPacket.thy ===== *)
theory ObsPacket
  imports PacketBuffer
begin

text \<open>
  What libobs hands to a packet callback: the \<open>encoder_packet\<close>, its \<open>encoder_packet_time\<close> and the extra data of
  its encoder, and the \<open>EncodedPacket\<close> that the program's callbacks copy it into.
\<close>

text \<open>
  \<open>packet_cts\<close> is \<open>None\<close> when libobs gives no packet time, \<open>encoder_extra\<close> is \<open>None\<close> when there is no encoder
  or it has no extra data.
\<close>

record encoder_packet =
  packet_is_video :: bool
  packet_data :: bytes
  packet_pts :: i64
  packet_dts :: i64
  packet_timebase_num :: i32
  packet_timebase_den :: i32
  packet_keyframe :: bool
  packet_cts :: "u64 option"
  encoder_extra :: "bytes option"

definition copied_packet :: "u64 \<Rightarrow> encoder_packet \<Rightarrow> EncodedPacket" where
  "copied_packet cts pk =
     \<lparr>source_cts = cts, pts = packet_pts pk, dts = packet_dts pk, timebase_num = packet_timebase_num pk,
      timebase_den = packet_timebase_den pk, keyframe = packet_keyframe pk, payload = packet_data pk\<rparr>"

end
