(* ===== verification/PluginRuntime.thy ===== *)
theory PluginRuntime
  imports TopologyProperties CaptureControlProperties ObsPacket
begin

text \<open>
  \<open>PluginCaptureRuntime\<close> of \<open>src/control/plugin-capture-runtime.cpp\<close>: the plugin's object over the topology,
  the capture engine and the encoders. The object's mutex is held over each part of a call that is a definition
  of its own, so such a part is one step. What
  libobs, the profile, the file system and the clock answer during a call are the fields of \<open>readings\<close>.
  A repeated \<open>Shutdown\<close> before a destructor is modelled once.
\<close>

subsection \<open>Data\<close>

record readings =
  obs_scenes :: "obs_scene list"
  view_created :: "string \<Rightarrow> bool"
  view_added :: "string \<Rightarrow> bool"
  video_size :: "StreamIdentity \<Rightarrow> (u32 \<times> u32) option"
  group_created :: bool
  encoder_request :: "string option"
  nvenc_enabled :: bool
  profile :: "obs_profile option"
  output_directory :: "string option"
  wall_clock :: u64
  later_clock :: u64
  consumer_address :: consumer_ref

record SceneTarget =
  target_topology :: SceneTopologyEntry
  target_video :: bool

record ('w, 'o) PluginCaptureRuntime =
  runtime_configuration :: ReplayConfiguration
  topology_model :: SceneTopologyModel
  scene_targets :: "SceneTarget list"
  pending_scenes :: "DiscoveredScene list"
  control :: "('w, 'o PluginEncoderController) capture_system option"
  runtime_libobs :: 'o
  recording_number :: u64
  replay_number :: u64
  replay_save_generation :: u64
  replay_result_logged_generation :: u64

definition new_runtime :: "readings \<Rightarrow> 'o \<Rightarrow> ('w, 'o) PluginCaptureRuntime" where
  "new_runtime rd lib = \<lparr>runtime_configuration = ReadObsReplayConfiguration (profile rd),
     topology_model = new_topology, scene_targets = [], pending_scenes = [], control = None,
     runtime_libobs = lib, recording_number = 0, replay_number = 0, replay_save_generation = 0,
     replay_result_logged_generation = 0\<rparr>"

subsection \<open>Packets of an output\<close>

text \<open>
  The packet callback of an output, over its context and the capture it feeds. The counters are only logged.
\<close>

definition OnOutputPacket :: "encoder_packet \<Rightarrow> CallbackContext \<times> ('w, 'e) capture_system \<Rightarrow>
    CallbackContext \<times> ('w, 'e) capture_system" where
  "OnOutputPacket pk = (\<lambda>(ctx, y).
     if \<not> packet_is_video pk then (ctx, y)
     else
       (case packet_cts pk of
          None \<Rightarrow> (ctx, y)
        | Some cts \<Rightarrow>
            (if packet_data pk = [] \<or> sint (packet_timebase_num pk) \<le> 0 \<or> sint (packet_timebase_den pk) \<le> 0
             then (ctx, y)
             else
               (let p = copied_packet cts pk;
                    extra = (case encoder_extra pk of None \<Rightarrow> [] | Some x \<Rightarrow> x);
                    ok = fst (Ingest (callback_stream ctx) p extra (capture (engine y)));
                    y = system_ingest (callback_stream ctx) p extra y
                in if \<not> ok then (ctx, y)
                   else (ctx\<lparr>packet_count := packet_count ctx + 1,
                             first_source_cts := (if packet_count ctx + 1 = 1 then cts else first_source_cts ctx),
                             last_source_cts := cts\<rparr>, y)))))"

subsection \<open>Output files\<close>

definition FileNameComponent :: "string \<Rightarrow> string" where
  "FileNameComponent value =
     (let v = map (\<lambda>c. if c \<in> set ''<>:/|?*'' \<or> c = CHR 0x22 \<or> c = CHR 0x5C then CHR ''_'' else c) value
      in if v = [] then ''stream'' else v)"

fun decimal :: "nat \<Rightarrow> string" where
  "decimal n = (if n < 10 then [char_of (n + 48)] else decimal (n div 10) @ [char_of (n mod 10 + 48)])"

declare decimal.simps [simp del]

text \<open>The directory ends with its separator; \<open>None\<close> is a directory that cannot be created.\<close>

definition OutputPaths :: "readings \<Rightarrow> CaptureConsumer \<Rightarrow> string \<Rightarrow> ('w, 'o) PluginCaptureRuntime \<Rightarrow> string list" where
  "OutputPaths rd u stem rt =
     (case (control rt, output_directory rd) of
        (Some y, Some dir) \<Rightarrow>
          map (\<lambda>s. dir @ stem @ ''-'' @ FileNameComponent (configured_name s) @ ''.mkv'')
            (filter (\<lambda>s. StreamParticipates (mode s) u) (configured (configuration (engine y))))
      | _ \<Rightarrow> [])"

subsection \<open>Building\<close>

definition StreamConfig :: "readings \<Rightarrow> StreamIdentity \<Rightarrow> PacketStreamConfig" where
  "StreamConfig rd i =
     (let (w, h) = (case video_size rd i of None \<Rightarrow> (0, 0) | Some s \<Rightarrow> s)
      in \<lparr>cfg_width = (if w \<noteq> 0 then w else 1920), cfg_height = (if h \<noteq> 0 then h else 1080),
          cfg_timebase_num = 1, cfg_timebase_den = 60000, extra_data = [],
          muxer_tail_capacity_bytes = 1024 * 1024, muxer_reorder_safety_cts = 2000000000\<rparr>)"

definition SelectPluginEncoder :: "readings \<Rightarrow> string" where
  "SelectPluginEncoder rd =
     (let requested = (case encoder_request rd of None \<Rightarrow> ''nvenc'' | Some v \<Rightarrow> if v = [] then ''nvenc'' else v)
      in if requested = ''x264'' then ''obs_x264''
         else if nvenc_enabled rd then ''obs_nvenc_h264_tex'' else ''obs_x264'')"

text \<open>\<open>None\<close> is the failure of a view; the targets made so far are then destroyed.\<close>

fun install_targets :: "readings \<Rightarrow> SceneTopologyEntry list \<Rightarrow> DiscoveredScene list \<Rightarrow> SceneTarget list \<Rightarrow>
    SceneTarget list option" where
  "install_targets rd es [] ts = Some ts"
| "install_targets rd es (d # ds) ts =
     (case find (names_scene (uuid d)) es of
        None \<Rightarrow> install_targets rd es ds ts
      | Some e \<Rightarrow>
          (if list_ex (\<lambda>t. identity (target_topology t) = identity e) ts then install_targets rd es ds ts
           else if \<not> view_created rd (uuid d) then None
           else if \<not> view_added rd (uuid d) then None
           else install_targets rd es ds (ts @ [\<lparr>target_topology = e, target_video = True\<rparr>])))"

definition InstallSceneTargets :: "readings \<Rightarrow> DiscoveredScene list \<Rightarrow> ('w, 'o) PluginCaptureRuntime \<Rightarrow>
    bool \<times> ('w, 'o) PluginCaptureRuntime" where
  "InstallSceneTargets rd ds rt =
     (case install_targets rd (entries (current (topology_model rt))) ds [] of
        None \<Rightarrow> (False, rt\<lparr>scene_targets := []\<rparr>)
      | Some ts \<Rightarrow> (True, rt\<lparr>scene_targets := ts\<rparr>))"

definition participation :: "SceneTopologyEntry \<Rightarrow> StreamParticipationMode" where
  "participation e =
     (if recording_enabled e \<and> entry_replay_enabled e then Both
      else if recording_enabled e then StreamParticipationMode.Recording
      else if entry_replay_enabled e then StreamParticipationMode.Replay else Disabled)"

fun build_streams :: "readings \<Rightarrow> SceneTarget list \<Rightarrow> SceneTopologyEntry list \<Rightarrow> ConfiguredStream list option" where
  "build_streams rd ts [] = Some []"
| "build_streams rd ts (e # es) =
     (if kind (identity e) = Master
      then map_option (\<lambda>ss. \<lparr>stream_identity = identity e, configured_name = ''master'', mode = participation e,
             packet_config = StreamConfig rd (identity e)\<rparr> # ss) (build_streams rd ts es)
      else
        (case find (\<lambda>t. identity (target_topology t) = identity e) ts of
           None \<Rightarrow> None
         | Some t \<Rightarrow>
             (if \<not> target_video t then None
              else map_option (\<lambda>ss. \<lparr>stream_identity = identity e, configured_name = display_name e,
                mode = participation e, packet_config = StreamConfig rd (identity e)\<rparr> # ss)
                (build_streams rd ts es))))"

definition RuntimeCaptureConfig :: "ReplayConfiguration \<Rightarrow> SynchronizedCaptureConfig" where
  "RuntimeCaptureConfig rcfg = \<lparr>ring_capacity_bytes = memory_budget_bytes rcfg, capture_source_cts_step = 0\<rparr>"

definition build_engine :: "readings \<Rightarrow> ConfiguredStream list \<Rightarrow> ReplayConfiguration \<Rightarrow> 'o \<Rightarrow>
    bool \<times> ('w, 'o PluginEncoderController) CaptureControlEngine" where
  "build_engine rd ss rcfg lib =
     Initialize (new_engine \<lparr>replay_configuration = rcfg, configured = ss\<rparr> (new_capture (RuntimeCaptureConfig rcfg))
       (new_controller (SelectPluginEncoder rd) True (length (filter (\<lambda>s. mode s \<noteq> Disabled) ss)) lib))"

definition BuildControlState :: "readings \<Rightarrow> ('w, 'o) PluginCaptureRuntime \<Rightarrow>
    bool \<times> ('w, 'o) PluginCaptureRuntime" where
  "BuildControlState rd rt =
     (case build_streams rd (scene_targets rt) (entries (current (topology_model rt))) of
        None \<Rightarrow> (False, rt)
      | Some ss \<Rightarrow>
          (let (ok, g) = build_engine rd ss (runtime_configuration rt) (runtime_libobs rt)
           in if \<not> group_created rd \<or> \<not> ok then (False, rt\<lparr>control := None\<rparr>)
              else (True, rt\<lparr>control := Some \<lparr>engine = g, in_flight = []\<rparr>\<rparr>)))"

definition install_and_build :: "readings \<Rightarrow> DiscoveredScene list \<Rightarrow> ('w, 'o) PluginCaptureRuntime \<Rightarrow>
    bool \<times> ('w, 'o) PluginCaptureRuntime" where
  "install_and_build rd ds rt =
     (let (ok, rt) = InstallSceneTargets rd ds rt in if \<not> ok then (False, rt) else BuildControlState rd rt)"

text \<open>The engine shuts down and the controller lets every stream go.\<close>

definition reset_control :: "'o obs_encoders \<Rightarrow> 'w mkv_env \<Rightarrow> (nat \<Rightarrow> 'w) \<Rightarrow> readings \<Rightarrow>
    ('w, 'o) PluginCaptureRuntime \<Rightarrow> ('w, 'o) PluginCaptureRuntime" where
  "reset_control obs env fresh rd rt =
     (case control rt of
        None \<Rightarrow> rt
      | Some y \<Rightarrow>
          (let g = Shutdown (plugin_controller obs) env fresh (wall_clock rd) (later_clock rd) (engine y);
               e = fold (ReleaseStream obs) [0..<length (resources (encoders g))] (encoders g)
           in rt\<lparr>control := None, runtime_libobs := libobs e\<rparr>))"

definition runtime_Stop :: "'o obs_encoders \<Rightarrow> 'w mkv_env \<Rightarrow> (nat \<Rightarrow> 'w) \<Rightarrow> readings \<Rightarrow>
    ('w, 'o) PluginCaptureRuntime \<Rightarrow> ('w, 'o) PluginCaptureRuntime" where
  "runtime_Stop obs env fresh rd rt =
     (reset_control obs env fresh rd rt)\<lparr>scene_targets := [], pending_scenes := []\<rparr>"

definition runtime_Initialize :: "'o obs_encoders \<Rightarrow> 'w mkv_env \<Rightarrow> (nat \<Rightarrow> 'w) \<Rightarrow> readings \<Rightarrow>
    ('w, 'o) PluginCaptureRuntime \<Rightarrow> bool \<times> ('w, 'o) PluginCaptureRuntime" where
  "runtime_Initialize obs env fresh rd rt =
     (if control rt \<noteq> None then (False, rt)
      else
        (let ds = DiscoverObsScenes (obs_scenes rd);
             rt = rt\<lparr>topology_model := snd (ApplyDiscovery ds False (topology_model rt)), pending_scenes := []\<rparr>;
             (ok, rt) = install_and_build rd ds rt
         in if \<not> ok then (False, runtime_Stop obs env fresh rd rt) else (True, rt)))"

subsection \<open>Commands\<close>

definition runtime_recording_state :: "('w, 'o) PluginCaptureRuntime \<Rightarrow> RecordingConsumerState" where
  "runtime_recording_state rt =
     (case control rt of None \<Rightarrow> RecordingConsumerState.Off | Some y \<Rightarrow> recording_state (engine y))"

definition runtime_replay_state :: "('w, 'o) PluginCaptureRuntime \<Rightarrow> ReplayConsumerState" where
  "runtime_replay_state rt =
     (case control rt of None \<Rightarrow> ReplayConsumerState.Off | Some y \<Rightarrow> replay_state (engine y))"

definition runtime_capture_state :: "('w, 'o) PluginCaptureRuntime \<Rightarrow> CaptureInfrastructureState" where
  "runtime_capture_state rt = (case control rt of None \<Rightarrow> Idle | Some y \<Rightarrow> capture_state (engine y))"

definition runtime_replay_available :: "('w, 'o) PluginCaptureRuntime \<Rightarrow> bool" where
  "runtime_replay_available rt =
     (case control rt of None \<Rightarrow> replay_enabled (runtime_configuration rt)
      | Some y \<Rightarrow> replay_enabled (replay_configuration (configuration (engine y))))"

definition not_initialized :: ControlCommandResult where
  "not_initialized = answer ControlCommandStatus.Failed ''runtime-not-initialized''"

text \<open>A staged topology is applied when the last consumer has stopped.\<close>

definition FinishCaptureEpochIfIdle :: "'o obs_encoders \<Rightarrow> 'w mkv_env \<Rightarrow> (nat \<Rightarrow> 'w) \<Rightarrow> readings \<Rightarrow>
    ('w, 'o) PluginCaptureRuntime \<Rightarrow> ('w, 'o) PluginCaptureRuntime" where
  "FinishCaptureEpochIfIdle obs env fresh rd rt =
     (case control rt of
        None \<Rightarrow> rt
      | Some y \<Rightarrow>
          (if recording_state (engine y) \<noteq> RecordingConsumerState.Off \<or>
              replay_state (engine y) \<noteq> ReplayConsumerState.Off \<or> \<not> capture_epoch_active (topology_model rt)
           then rt
           else
             (let had_pending = has_pending (topology_model rt);
                  (installed, m) = EndCaptureEpoch (topology_model rt);
                  rt = rt\<lparr>topology_model := m\<rparr>
              in if installed = None \<or> \<not> had_pending then rt
                 else
                   (let ds = pending_scenes rt;
                        rt = reset_control obs env fresh rd (rt\<lparr>pending_scenes := []\<rparr>)
                    in snd (install_and_build rd ds rt)))))"

definition with_engine :: "('w, 'o PluginEncoderController) CaptureControlEngine \<Rightarrow>
    ('w, 'o) PluginCaptureRuntime \<Rightarrow> ('w, 'o) PluginCaptureRuntime" where
  "with_engine g rt = rt\<lparr>control := map_option (\<lambda>y. y\<lparr>engine := g\<rparr>) (control rt)\<rparr>"

definition runtime_ApplyReplayConfiguration :: "'o obs_encoders \<Rightarrow> 'w mkv_env \<Rightarrow> (nat \<Rightarrow> 'w) \<Rightarrow> readings \<Rightarrow>
    ReplayConfiguration \<Rightarrow> ('w, 'o) PluginCaptureRuntime \<Rightarrow> ControlCommandResult \<times> ('w, 'o) PluginCaptureRuntime" where
  "runtime_ApplyReplayConfiguration obs env fresh rd cfg rt =
     (if runtime_configuration rt = cfg then (answer NoOp ''replay-config-unchanged'', rt)
      else
        (let rt = rt\<lparr>runtime_configuration := cfg\<rparr>
         in case control rt of
              None \<Rightarrow> (answer Succeeded ''replay-config-stored'', rt)
            | Some y \<Rightarrow>
                (let (r, g) = ApplyReplayConfiguration (plugin_controller obs) env fresh (wall_clock rd) (later_clock rd)
                       cfg (engine y)
                 in (r, FinishCaptureEpochIfIdle obs env fresh rd (with_engine g rt)))))"

definition RefreshReplayConfiguration :: "'o obs_encoders \<Rightarrow> 'w mkv_env \<Rightarrow> (nat \<Rightarrow> 'w) \<Rightarrow> readings \<Rightarrow>
    ('w, 'o) PluginCaptureRuntime \<Rightarrow> ControlCommandResult \<times> ('w, 'o) PluginCaptureRuntime" where
  "RefreshReplayConfiguration obs env fresh rd rt =
     runtime_ApplyReplayConfiguration obs env fresh rd (ReadObsReplayConfiguration (profile rd)) rt"

definition runtime_StartRecording :: "'o obs_encoders \<Rightarrow> readings \<Rightarrow> ('w, 'o) PluginCaptureRuntime \<Rightarrow>
    ControlCommandResult \<times> ('w, 'o) PluginCaptureRuntime" where
  "runtime_StartRecording obs rd rt =
     (case control rt of
        None \<Rightarrow> (not_initialized, rt)
      | Some y \<Rightarrow>
          (let rt = rt\<lparr>topology_model := BeginCaptureEpoch (topology_model rt),
                      recording_number := recording_number rt + 1\<rparr>;
               stem = ''recording-'' @ decimal (unat (recording_number rt)) @ ''-'' @ decimal (unat (wall_clock rd));
               (r, g) = StartRecording (plugin_controller obs) (later_clock rd) (consumer_address rd)
                 (OutputPaths rd CaptureConsumer.Recording stem rt) (engine y);
               rt = with_engine g rt
           in (r, if \<not> command_ok r \<and> replay_state g = ReplayConsumerState.Off
                  then rt\<lparr>topology_model := snd (EndCaptureEpoch (topology_model rt))\<rparr> else rt)))"

definition runtime_StopRecording :: "'o obs_encoders \<Rightarrow> 'w mkv_env \<Rightarrow> (nat \<Rightarrow> 'w) \<Rightarrow> readings \<Rightarrow>
    ('w, 'o) PluginCaptureRuntime \<Rightarrow> ControlCommandResult \<times> ('w, 'o) PluginCaptureRuntime" where
  "runtime_StopRecording obs env fresh rd rt =
     (case control rt of
        None \<Rightarrow> (not_initialized, rt)
      | Some y \<Rightarrow>
          (let (r, g) = StopRecording (plugin_controller obs) env fresh (later_clock rd) (engine y)
           in (r, FinishCaptureEpochIfIdle obs env fresh rd (with_engine g rt))))"

text \<open>\<open>StartReplay\<close> and \<open>SaveReplay\<close> refresh the configuration under a lock of its own; the second part of
  each is a step by itself.\<close>

definition start_replay_locked :: "'o obs_encoders \<Rightarrow> ('w, 'o) PluginCaptureRuntime \<Rightarrow>
    ControlCommandResult \<times> ('w, 'o) PluginCaptureRuntime" where
  "start_replay_locked obs rt =
     (case control rt of
        None \<Rightarrow> (not_initialized, rt)
      | Some y \<Rightarrow>
          (let rt = rt\<lparr>topology_model := BeginCaptureEpoch (topology_model rt)\<rparr>;
               (r, g) = StartReplay (plugin_controller obs) (engine y);
               rt = with_engine g rt
           in (r, if \<not> command_ok r \<and> recording_state g = RecordingConsumerState.Off
                  then rt\<lparr>topology_model := snd (EndCaptureEpoch (topology_model rt))\<rparr> else rt)))"

definition runtime_StartReplay :: "'o obs_encoders \<Rightarrow> 'w mkv_env \<Rightarrow> (nat \<Rightarrow> 'w) \<Rightarrow> readings \<Rightarrow>
    ('w, 'o) PluginCaptureRuntime \<Rightarrow> ControlCommandResult \<times> ('w, 'o) PluginCaptureRuntime" where
  "runtime_StartReplay obs env fresh rd rt =
     start_replay_locked obs (snd (RefreshReplayConfiguration obs env fresh rd rt))"

definition runtime_StopReplay :: "'o obs_encoders \<Rightarrow> 'w mkv_env \<Rightarrow> (nat \<Rightarrow> 'w) \<Rightarrow> readings \<Rightarrow>
    ('w, 'o) PluginCaptureRuntime \<Rightarrow> ControlCommandResult \<times> ('w, 'o) PluginCaptureRuntime" where
  "runtime_StopReplay obs env fresh rd rt =
     (case control rt of
        None \<Rightarrow> (not_initialized, rt)
      | Some y \<Rightarrow>
          (let (r, g) = StopReplay (plugin_controller obs) env fresh (wall_clock rd) (later_clock rd) (engine y)
           in (r, FinishCaptureEpochIfIdle obs env fresh rd (with_engine g rt))))"

definition save_replay_locked :: "readings \<Rightarrow> ('w, 'o) PluginCaptureRuntime \<Rightarrow>
    (ControlCommandResult \<times> ('w, 'o) PluginCaptureRuntime) option" where
  "save_replay_locked rd rt =
     (case control rt of
        None \<Rightarrow> Some (not_initialized, rt)
      | Some y \<Rightarrow>
          (let rt = rt\<lparr>replay_number := replay_number rt + 1\<rparr>;
               stem = ''replay-'' @ decimal (unat (replay_number rt)) @ ''-'' @ decimal (unat (wall_clock rd))
           in map_option (\<lambda>(r, g).
                (r, (with_engine g rt)\<lparr>replay_save_generation :=
                   replay_save_generation rt + (if command_ok r then 1 else 0)\<rparr>))
                (SaveReplay (OutputPaths rd CaptureConsumer.Replay stem rt) (engine y))))"

definition runtime_SaveReplay :: "'o obs_encoders \<Rightarrow> 'w mkv_env \<Rightarrow> (nat \<Rightarrow> 'w) \<Rightarrow> readings \<Rightarrow>
    ('w, 'o) PluginCaptureRuntime \<Rightarrow> (ControlCommandResult \<times> ('w, 'o) PluginCaptureRuntime) option" where
  "runtime_SaveReplay obs env fresh rd rt =
     save_replay_locked rd (snd (RefreshReplayConfiguration obs env fresh rd rt))"

definition ToggleRecording :: "'o obs_encoders \<Rightarrow> 'w mkv_env \<Rightarrow> (nat \<Rightarrow> 'w) \<Rightarrow> readings \<Rightarrow>
    ('w, 'o) PluginCaptureRuntime \<Rightarrow> ControlCommandResult \<times> ('w, 'o) PluginCaptureRuntime" where
  "ToggleRecording obs env fresh rd rt =
     (if runtime_recording_state rt = RecordingConsumerState.Off then runtime_StartRecording obs rd rt
      else if runtime_recording_state rt = RecordingConsumerState.Running
      then runtime_StopRecording obs env fresh rd rt
      else (answer InvalidState ''recording-transition-active'', rt))"

definition ToggleReplay :: "'o obs_encoders \<Rightarrow> 'w mkv_env \<Rightarrow> (nat \<Rightarrow> 'w) \<Rightarrow> readings \<Rightarrow>
    ('w, 'o) PluginCaptureRuntime \<Rightarrow> ControlCommandResult \<times> ('w, 'o) PluginCaptureRuntime" where
  "ToggleReplay obs env fresh rd rt =
     (if runtime_replay_state rt = ReplayConsumerState.Off then runtime_StartReplay obs env fresh rd rt
      else if runtime_replay_state rt = ReplayConsumerState.Running
      then runtime_StopReplay obs env fresh rd rt
      else (answer InvalidState ''replay-transition-active'', rt))"

definition RefreshSceneTopology :: "'o obs_encoders \<Rightarrow> 'w mkv_env \<Rightarrow> (nat \<Rightarrow> 'w) \<Rightarrow> readings \<Rightarrow>
    ('w, 'o) PluginCaptureRuntime \<Rightarrow> ControlCommandResult \<times> ('w, 'o) PluginCaptureRuntime" where
  "RefreshSceneTopology obs env fresh rd rt =
     (case control rt of
        None \<Rightarrow> (not_initialized, rt)
      | Some y \<Rightarrow>
          (let ds = DiscoverObsScenes (obs_scenes rd);
               epoch_active = capture_epoch_active (topology_model rt);
               (update, m) = ApplyDiscovery ds epoch_active (topology_model rt);
               rt = rt\<lparr>topology_model := m\<rparr>
           in if update = Unchanged then (answer NoOp ''scene-topology-unchanged'', rt)
              else if epoch_active
              then (answer Succeeded ''scene-topology-staged'', rt\<lparr>pending_scenes := ds\<rparr>)
              else
                (let (ok, rt) = install_and_build rd ds (reset_control obs env fresh rd rt)
                 in (if ok then answer Succeeded ''scene-topology-applied''
                     else answer ControlCommandStatus.Failed ''scene-topology-rebuild'', rt))))"

definition runtime_PollReplaySave :: "'w mkv_env \<Rightarrow> (nat \<Rightarrow> 'w) \<Rightarrow> readings \<Rightarrow>
    ('w, 'o) PluginCaptureRuntime \<Rightarrow> ('w, 'o) PluginCaptureRuntime" where
  "runtime_PollReplaySave env fresh rd rt =
     (case control rt of
        None \<Rightarrow> rt
      | Some y \<Rightarrow>
          (let g = PollReplaySave env fresh (wall_clock rd) (later_clock rd) (engine y);
               rt = with_engine g rt
           in if replay_result g \<noteq> None \<and> replay_result_logged_generation rt < replay_save_generation rt
              then rt\<lparr>replay_result_logged_generation := replay_save_generation rt\<rparr> else rt))"

end
