(* ===== verification/PluginRuntimeInvariant.thy ===== *)
theory PluginRuntimeInvariant
  imports PluginRuntime
begin

text \<open>
  What the commands of the engine leave alone and what their answers say about the consumers; the step
  relation of the plugin runtime and the invariant that ties the engine to the scene topology.
\<close>

subsection \<open>What the engine leaves alone\<close>

text \<open>The parts of the engine that its passes over the encoders do not touch.\<close>

definition fixed_part :: "('w, 'e) CaptureControlEngine \<Rightarrow>
    CaptureConfiguration \<times> bool \<times> RecordingConsumerState \<times> ReplayConsumerState" where
  "fixed_part g = (configuration g, initialized g, recording_state g, replay_state g)"

lemma fixed_updates [simp]:
  "fixed_part (g\<lparr>encoders := e\<rparr>) = fixed_part g" "fixed_part (Emit ops ev i g) = fixed_part g" "fixed_part (g\<lparr>capture := cap\<rparr>) = fixed_part g"
  "fixed_part (g\<lparr>capture_state := cs\<rparr>) = fixed_part g" "fixed_part (g\<lparr>capture_epoch := n\<rparr>) = fixed_part g"
  by (simp_all add: fixed_part_def Emit_def)

lemma create_pass_fixed: "fixed_part (snd (create_pass ops ss g)) = fixed_part g"
  by (induction ss arbitrary: g) (auto simp: Let_def split: option.splits prod.splits)

lemma activate_pass_fixed: "fixed_part (snd (activate_pass ops rec rep ss g)) = fixed_part g"
  by (induction ss arbitrary: g) (auto simp: Let_def split: option.splits prod.splits)

lemma release_pass_fixed: "fixed_part (release_pass ops rec rep ss g) = fixed_part g"
  by (induction ss arbitrary: g) (auto split: option.splits)

lemma release_all_fixed: "fixed_part (release_all ops ss g) = fixed_part g"
  by (induction ss arbitrary: g) (auto split: option.splits)

lemma Reconcile_fixed: "fixed_part (snd (ReconcileEncoderDemand ops g)) = fixed_part g"
proof -
  obtain b h where h: "create_pass ops (engine_streams g) g = (b, h)" by fastforce
  with create_pass_fixed [of ops "engine_streams g" g] have "fixed_part h = fixed_part g" by simp
  with h show ?thesis by (simp add: ReconcileEncoderDemand_def Let_def activate_pass_fixed)
qed

lemma activate_capture_fixed: "fixed_part (snd (activate_capture ops g)) = fixed_part g"
proof -
  obtain b h where h: "EnsureCaptureActive g = (b, h)" by fastforce
  then have "fixed_part h = fixed_part g"
    by (auto simp: EnsureCaptureActive_def Let_def split: if_splits prod.splits)
  with h show ?thesis by (simp add: activate_capture_def Reconcile_fixed)
qed

lemma ReleaseUndemanded_fixed: "fixed_part (ReleaseUndemandedEncoders ops g) = fixed_part g"
  by (simp add: ReleaseUndemandedEncoders_def release_pass_fixed)

lemma StopCaptureIfUnused_fixed: "fixed_part (StopCaptureIfUnused ops g) = fixed_part g"
  by (simp add: StopCaptureIfUnused_def Let_def ReleaseUndemanded_fixed)

lemma fixed_fields:
  "fixed_part h = fixed_part g \<Longrightarrow> configuration h = configuration g \<and> initialized h = initialized g \<and>
     recording_state h = recording_state g \<and> replay_state h = replay_state g"
  by (simp add: fixed_part_def)

lemmas fixed_facts = fixed_fields [OF activate_capture_fixed] fixed_fields [OF ReleaseUndemanded_fixed]
  fixed_fields [OF StopCaptureIfUnused_fixed] fixed_fields [OF release_all_fixed]

subsection \<open>The commands and the consumers\<close>

definition some_on :: "('w, 'e) CaptureControlEngine \<Rightarrow> bool" where
  "some_on g \<longleftrightarrow> rec_on g \<or> rep_on g"

text \<open>The streams and the initialization of the engine are fixed when it is built.\<close>

definition same_streams :: "('w, 'e) CaptureControlEngine \<Rightarrow> ('w, 'e) CaptureControlEngine \<Rightarrow> bool" where
  "same_streams g h \<longleftrightarrow> engine_streams h = engine_streams g \<and> initialized h = initialized g"

lemma command_ok_answer [simp]:
  "command_ok (answer Succeeded w)" "command_ok (answer NoOp w)" "\<not> command_ok (answer InvalidState w)"
  "\<not> command_ok (answer ControlCommandStatus.Failed w)" "\<not> command_ok (Invalid w)"
  by (simp_all add: command_ok_def answer_def Invalid_def)

lemma abandon_recording_result:
  "\<not> command_ok (fst (abandon_recording ops g)) \<and> same_streams g (snd (abandon_recording ops g)) \<and>
     \<not> rec_on (snd (abandon_recording ops g)) \<and> replay_state (snd (abandon_recording ops g)) = replay_state g"
  by (simp add: abandon_recording_def Let_def same_streams_def fixed_facts)

lemma give_up_replay_result:
  "\<not> command_ok (fst (give_up_replay ops g)) \<and> same_streams g (snd (give_up_replay ops g)) \<and>
     \<not> rep_on (snd (give_up_replay ops g)) \<and> recording_state (snd (give_up_replay ops g)) = recording_state g"
  by (simp add: give_up_replay_def Let_def same_streams_def fixed_facts)

lemma same_streams_trans: "same_streams g h \<Longrightarrow> same_streams h k \<Longrightarrow> same_streams g k"
  by (simp add: same_streams_def)

lemma StartRecording_result:
  fixes g :: "('w, 'e) CaptureControlEngine"
  assumes flow: "flow_ok g" and init: "initialized g" and r: "StartRecording ops now addr paths g = (r, h)"
  shows "same_streams g h \<and> replay_state h = replay_state g \<and> command_ok r = rec_on h"
proof (cases "recording_state g = RecordingConsumerState.Off \<and>
    length paths = length (SelectedCaptureIds g CaptureConsumer.Recording) \<and> paths \<noteq> []")
  case False
  show ?thesis
  proof (cases "recording_state g = RecordingConsumerState.Off")
    case True
    then have "length paths \<noteq> length (SelectedCaptureIds g CaptureConsumer.Recording) \<or> paths = []"
      using False by blast
    with True init r have "r = Invalid ''recording-path-count-or-state''" "h = g"
      by (simp_all add: StartRecording_def)
    with True show ?thesis by (simp add: same_streams_def)
  next
    case on: False
    then have running: "recording_state g = RecordingConsumerState.Running" using flow by (auto simp: flow_ok_def)
    with init r have "r = answer NoOp ''recording-already-active''" "h = g" by (simp_all add: StartRecording_def)
    with running show ?thesis by (simp add: same_streams_def)
  qed
next
  case True
  let ?s = "g\<lparr>recording_state := RecordingConsumerState.Starting, recording_result := None\<rparr>"
  obtain st and c :: "'w SynchronizedRecordingConsumer" where rc: "rc_Start now (new_recording
      (SelectedPacketConfigs ?s CaptureConsumer.Recording) paths (SelectedCaptureIds g CaptureConsumer.Recording)) = (st, c)"
    by fastforce
  obtain sub cap where sub: "(if st then Subscribe addr (capture g) else (False, capture g)) = (sub, cap)" by fastforce
  let ?g = "?s\<lparr>recording_consumer := Some c, recording_address := addr,
     capture := SetReplayRetentionEnabled (rep_on g) cap\<rparr>"
  obtain b k where k: "activate_capture ops ?g = (b, k)" by fastforce
  have kept: "same_streams g k" "replay_state k = replay_state g"
    using fixed_fields [OF activate_capture_fixed [of ops ?g]] k by (simp_all add: same_streams_def)
  consider "\<not> (st \<and> sub)" | "st" "sub" "b" "capture_running (capture k)"
    | "st" "sub" "\<not> (b \<and> capture_running (capture k))" by blast
  then show ?thesis
  proof cases
    case 1
    then have "\<not> command_ok r \<and> same_streams g h \<and> \<not> rec_on h \<and> replay_state h = replay_state g"
      using True init r rc sub by (cases st) (auto simp: StartRecording_def Let_def same_streams_def)
    then show ?thesis by blast
  next
    case 2
    with True init r rc sub k have "r = answer Succeeded ''recording-started''"
      "h = k\<lparr>recording_state := RecordingConsumerState.Running\<rparr>"
      by (auto simp: StartRecording_def Let_def)
    with kept show ?thesis by (simp add: same_streams_def)
  next
    case 3
    with True init r rc sub k have "(r, h) = abandon_recording ops k"
      by (auto simp: StartRecording_def Let_def split: if_splits)
    with abandon_recording_result [of ops k] kept same_streams_trans [OF kept(1)]
    show ?thesis by (metis fst_conv snd_conv)
  qed
qed

lemma StartReplay_result:
  fixes g :: "('w, 'e) CaptureControlEngine"
  assumes flow: "flow_ok g" and init: "initialized g" and r: "StartReplay ops g = (r, h)"
  shows "same_streams g h \<and> recording_state h = recording_state g \<and> command_ok r = rep_on h"
proof (cases "replay_enabled (replay_configuration (configuration g)) \<and> replay_state g = ReplayConsumerState.Off \<and>
    SelectedCaptureIds g CaptureConsumer.Replay \<noteq> []")
  case False
  show ?thesis
  proof (cases "rep_on g")
    case True
    with flow have "replay_enabled (replay_configuration (configuration g))"
      "replay_state g = ReplayConsumerState.Running \<or> replay_state g = Saving" by (auto simp: flow_ok_def)
    with init r have "r = answer NoOp ''replay-already-active''" "h = g" by (auto simp: StartReplay_def)
    with True show ?thesis by (simp add: same_streams_def)
  next
    case off: False
    with flow have "replay_state g = ReplayConsumerState.Off" by (auto simp: flow_ok_def)
    with False init r have "\<not> command_ok r" "h = g" by (auto simp: StartReplay_def split: if_splits)
    with off show ?thesis by (simp add: same_streams_def)
  qed
next
  case True
  let ?g = "g\<lparr>replay_state := ReplayConsumerState.Starting, replay_result := None,
     replay_consumer := (if replay_consumer g = None then Some new_replay else replay_consumer g),
     capture := SetReplayRetentionEnabled True (capture g)\<rparr>"
  obtain b k where k: "activate_capture ops ?g = (b, k)" by fastforce
  have kept: "same_streams g k" "recording_state k = recording_state g"
    using fixed_fields [OF activate_capture_fixed [of ops ?g]] k by (simp_all add: same_streams_def)
  show ?thesis
  proof (cases "b \<and> capture_running (capture k)")
    case b: True
    with True init r k have "r = answer Succeeded ''replay-started''" "h = k\<lparr>replay_state := ReplayConsumerState.Running\<rparr>"
      by (auto simp: StartReplay_def Let_def)
    with kept show ?thesis by (simp add: same_streams_def)
  next
    case False
    with True init r k have "(r, h) = give_up_replay ops k"
      by (auto simp: StartReplay_def Let_def split: if_splits)
    with give_up_replay_result [of ops k] kept same_streams_trans [OF kept(1)]
    show ?thesis by (metis fst_conv snd_conv)
  qed
qed

lemma StopRecording_frame: "same_streams g (snd (StopRecording ops env fresh now g))"
  by (simp add: StopRecording_def Let_def same_streams_def fixed_facts split: option.split)

lemma WaitForReplaySave_frame: "same_streams g (WaitForReplaySave env fresh t0 t1 g) \<and>
    recording_state (WaitForReplaySave env fresh t0 t1 g) = recording_state g"
  by (simp add: WaitForReplaySave_def Let_def same_streams_def split: option.split)

lemma StopReplay_frame: "same_streams g (snd (StopReplay ops env fresh t0 t1 g)) \<and>
    recording_state (snd (StopReplay ops env fresh t0 t1 g)) = recording_state g \<and>
    command_ok (fst (StopReplay ops env fresh t0 t1 g)) \<and> \<not> rep_on (snd (StopReplay ops env fresh t0 t1 g))"
  using WaitForReplaySave_frame [of "g\<lparr>replay_state := ReplayConsumerState.Stopping\<rparr>" env fresh t0 t1]
  by (simp add: StopReplay_def Let_def same_streams_def fixed_facts)

lemma SaveReplay_frame:
  fixes g :: "('w, 'o PluginEncoderController) CaptureControlEngine"
  assumes "SaveReplay paths g = Some (r, h)"
  shows "same_streams g h \<and> recording_state h = recording_state g \<and> rep_on h = rep_on g"
  using plugin.SaveReplay_cases [OF assms] by (auto simp: same_streams_def)

lemma Poll_frame: "same_streams g (PollReplaySave env fresh t0 t1 g) \<and>
    recording_state (PollReplaySave env fresh t0 t1 g) = recording_state g \<and>
    rep_on (PollReplaySave env fresh t0 t1 g) = rep_on g"
  by (simp add: PollReplaySave_def Let_def same_streams_def split: option.split)

lemma Apply_frame: "same_streams g (snd (ApplyReplayConfiguration ops env fresh t0 t1 cfg g)) \<and>
    recording_state (snd (ApplyReplayConfiguration ops env fresh t0 t1 cfg g)) = recording_state g"
  using StopReplay_frame [of g ops env fresh t0 t1]
  by (simp add: ApplyReplayConfiguration_def Let_def same_streams_def case_prod_beta)

lemma Shutdown_frame: "same_streams g (Shutdown ops env fresh t0 t1 g)"
proof -
  let ?a = "snd (StopReplay ops env fresh t0 t1 g)"
  have "same_streams g (snd (StopRecording ops env fresh t1 ?a))"
    using StopReplay_frame StopRecording_frame same_streams_trans by blast
  then show ?thesis by (simp add: Shutdown_def Let_def same_streams_def fixed_facts)
qed

subsection \<open>The steps of the runtime\<close>

text \<open>What happens beside the commands: capture threads, the recording worker, the end of a save.\<close>

inductive background_step :: "'w mkv_env \<Rightarrow> (nat \<Rightarrow> 'w) \<Rightarrow> ('w, 'e) capture_system \<Rightarrow> ('w, 'e) capture_system \<Rightarrow> bool"
  for env fresh where
  ingest: "background_step env fresh y (system_ingest i p x y)"
| hand: "in_flight y = ds @ (a, q) # es \<Longrightarrow> live_consumer a (engine y) \<Longrightarrow>
    background_step env fresh y (y\<lparr>engine := hand_over q (engine y), in_flight := ds @ es\<rparr>)"
| worker: "recording_consumer (engine y) = Some c \<Longrightarrow>
    background_step env fresh y
      (y\<lparr>engine := (engine y)\<lparr>recording_consumer := Some (worker_turn env fresh now c)\<rparr>\<rparr>)"
| saved: "replay_consumer (engine y) = Some c \<Longrightarrow>
    background_step env fresh y
      (y\<lparr>engine := (engine y)\<lparr>replay_consumer := Some (fst (worker_done env fresh t0 t1 c))\<rparr>\<rparr>)"

lemma output_packet_background:
  "snd (OnOutputPacket pk (ctx, y)) = y \<or> background_step env fresh y (snd (OnOutputPacket pk (ctx, y)))"
  by (auto simp: OnOutputPacket_def Let_def split: option.split intro: background_step.ingest)

lemma background_run:
  assumes "background_step env fresh y z" and "system_run ops env fresh start y"
  shows "system_run ops env fresh start z"
  using assms(1)
  by (cases rule: background_step.cases)
    (use assms(2) in \<open>blast intro: run_ingest run_hand run_worker run_saved\<close>)+

lemma background_frame:
  assumes "background_step env fresh y z"
  shows "same_streams (engine y) (engine z) \<and> some_on (engine z) = some_on (engine y)"
  using assms
  by (cases rule: background_step.cases)
    (simp_all add: same_streams_def some_on_def system_ingest_def hand_over_def case_prod_beta)

inductive runtime_step :: "'o obs_encoders \<Rightarrow> 'w mkv_env \<Rightarrow> (nat \<Rightarrow> 'w) \<Rightarrow>
    ('w, 'o) PluginCaptureRuntime \<Rightarrow> ('w, 'o) PluginCaptureRuntime \<Rightarrow> bool" for obs env fresh where
  start_recording: "runtime_step obs env fresh rt (snd (runtime_StartRecording obs rd rt))"
| stop_recording: "runtime_step obs env fresh rt (snd (runtime_StopRecording obs env fresh rd rt))"
| start_replay: "runtime_step obs env fresh rt (snd (start_replay_locked obs rt))"
| stop_replay: "runtime_step obs env fresh rt (snd (runtime_StopReplay obs env fresh rd rt))"
| save_replay: "save_replay_locked rd rt = Some (r, st) \<Longrightarrow> runtime_step obs env fresh rt st"
| configured: "runtime_step obs env fresh rt (snd (runtime_ApplyReplayConfiguration obs env fresh rd cfg rt))"
| refreshed: "runtime_step obs env fresh rt (snd (RefreshSceneTopology obs env fresh rd rt))"
| polled: "runtime_step obs env fresh rt (runtime_PollReplaySave env fresh rd rt)"
| stopped: "runtime_step obs env fresh rt (runtime_Stop obs env fresh rd rt)"
| background: "control rt = Some y \<Longrightarrow> background_step env fresh y z \<Longrightarrow>
    runtime_step obs env fresh rt (rt\<lparr>control := Some z\<rparr>)"

inductive runtime_run :: "'o obs_encoders \<Rightarrow> 'w mkv_env \<Rightarrow> (nat \<Rightarrow> 'w) \<Rightarrow> ('w, 'o) PluginCaptureRuntime \<Rightarrow> bool"
  for obs env fresh where
  initialized: "runtime_Initialize obs env fresh rd (new_runtime rd0 lib) = (True, rt) \<Longrightarrow> runtime_run obs env fresh rt"
| stepped: "runtime_run obs env fresh rt \<Longrightarrow> runtime_step obs env fresh rt st \<Longrightarrow> runtime_run obs env fresh st"

subsection \<open>Building from the topology\<close>

lemma build_streams_identities:
  "build_streams rd ts es = Some ss \<Longrightarrow> map stream_identity ss = map identity es"
  by (induction es arbitrary: ss) (auto split: if_splits option.splits)

lemma current_identities_distinct:
  assumes "topology_run m"
  shows "distinct (map identity (entries (current m)))"
proof -
  obtain scenes where "participants (current m) = participants (BuildSnapshot scenes 0)"
    using topology_run_ok [OF assms] by (auto simp: topology_ok_def)
  then have "map fst (participants (current m)) = map fst (participants (BuildSnapshot scenes 0))" by simp
  then have "map identity (entries (current m)) = map identity (entries (BuildSnapshot scenes 0))"
    by (simp add: participants_def comp_def)
  then show ?thesis using snapshot_identities_distinct [of scenes 0] by simp
qed

lemma Initialize_frame:
  "configuration (snd (Initialize g)) = configuration g \<and> recording_state (snd (Initialize g)) = recording_state g \<and>
   replay_state (snd (Initialize g)) = replay_state g \<and> initialized (snd (Initialize g)) = fst (Initialize g)"
  by (simp add: Initialize_def Let_def case_prod_beta)

subsection \<open>The invariant\<close>

abbreviation identities :: "SceneTopologySnapshot \<Rightarrow> StreamIdentity list" where
  "identities s \<equiv> map identity (entries s)"

lemma identities_participants: "participants s = participants t \<Longrightarrow> identities s = identities t"
proof -
  assume "participants s = participants t"
  then have "map fst (participants s) = map fst (participants t)" by simp
  then show ?thesis by (simp add: participants_def comp_def)
qed

text \<open>The engine of a runtime has run by the rules and captures the streams of the current topology.\<close>

definition engine_of :: "'o obs_encoders \<Rightarrow> 'w mkv_env \<Rightarrow> (nat \<Rightarrow> 'w) \<Rightarrow> SceneTopologySnapshot \<Rightarrow>
    ('w, 'o PluginEncoderController) capture_system \<Rightarrow> bool" where
  "engine_of obs env fresh s y \<longleftrightarrow> system_run (plugin_controller obs) env fresh plugin_start y \<and>
     CaptureControlEngine.initialized (engine y) \<and>
     map stream_identity (engine_streams (engine y)) = identities s"

definition runtime_open :: "'o obs_encoders \<Rightarrow> 'w mkv_env \<Rightarrow> (nat \<Rightarrow> 'w) \<Rightarrow> ('w, 'o) PluginCaptureRuntime \<Rightarrow> bool" where
  "runtime_open obs env fresh rt \<longleftrightarrow> topology_run (topology_model rt) \<and>
     (\<forall>y. control rt = Some y \<longrightarrow> engine_of obs env fresh (current (topology_model rt)) y \<and>
        (some_on (engine y) \<longrightarrow> capture_epoch_active (topology_model rt)))"

definition runtime_ok :: "'o obs_encoders \<Rightarrow> 'w mkv_env \<Rightarrow> (nat \<Rightarrow> 'w) \<Rightarrow> ('w, 'o) PluginCaptureRuntime \<Rightarrow> bool" where
  "runtime_ok obs env fresh rt \<longleftrightarrow> topology_run (topology_model rt) \<and>
     (\<forall>y. control rt = Some y \<longrightarrow> engine_of obs env fresh (current (topology_model rt)) y \<and>
        capture_epoch_active (topology_model rt) = some_on (engine y))"

lemma engine_step:
  assumes "engine_of obs env fresh s y"
    and "system_run (plugin_controller obs) env fresh plugin_start (y\<lparr>engine := g\<rparr>)"
    and "same_streams (engine y) g" and "identities t = identities s"
  shows "engine_of obs env fresh t (y\<lparr>engine := g\<rparr>)"
  using assms by (simp add: engine_of_def same_streams_def)

lemma engine_flow:
  assumes "engine_of obs env fresh s y"
  shows "flow_ok (engine y)"
proof -
  have "system_run (plugin_controller obs) env fresh plugin_start y" using assms by (simp add: engine_of_def)
  then show ?thesis by (rule plugin_run(1))
qed

lemma runtime_ok_open: "runtime_ok obs env fresh rt \<Longrightarrow> runtime_open obs env fresh rt"
  by (simp add: runtime_ok_def runtime_open_def)

lemma BeginCaptureEpoch_frame [simp]:
  "current (BeginCaptureEpoch m) = current m" "capture_epoch_active (BeginCaptureEpoch m)"
  "pending_topology (BeginCaptureEpoch m) = pending_topology m"
  by (simp_all add: BeginCaptureEpoch_def)

lemma EndCaptureEpoch_frame:
  "\<not> capture_epoch_active (snd (EndCaptureEpoch m))"
  "pending_topology m = None \<Longrightarrow> current (snd (EndCaptureEpoch m)) = current m"
  by (auto simp: EndCaptureEpoch_def Let_def split: option.splits)

text \<open>A rebuild over a runtime without an engine.\<close>

lemma InstallSceneTargets_frame:
  "InstallSceneTargets rd ds rt = (b, st) \<Longrightarrow> topology_model st = topology_model rt \<and> control st = control rt"
  by (auto simp: InstallSceneTargets_def split: option.splits)

lemma build_engine_runs:
  fixes g :: "('w, 'o PluginEncoderController) CaptureControlEngine"
  assumes "build_engine rd ss rcfg lib = (True, g)" and "distinct (map stream_identity ss)"
  shows "system_run (plugin_controller obs) env fresh plugin_start \<lparr>engine = g, in_flight = []\<rparr> \<and>
    CaptureControlEngine.initialized g \<and> engine_streams g = ss \<and> \<not> some_on g"
proof -
  let ?n = "new_controller (SelectPluginEncoder rd) True (length (filter (\<lambda>s. mode s \<noteq> Disabled) ss)) lib"
  let ?e = "new_engine \<lparr>replay_configuration = rcfg, configured = ss\<rparr> (new_capture (RuntimeCaptureConfig rcfg)) ?n
    :: ('w, 'o PluginEncoderController) CaptureControlEngine"
  have g: "Initialize ?e = (True, g)" using assms(1) by (simp add: build_engine_def)
  have "plugin_start ?n" unfolding plugin_start_def by (intro exI) (rule refl)
  from system_run.built [where start = plugin_start and e = ?n and ops = "plugin_controller obs" and env = env and
      fresh = fresh and cfg = "\<lparr>replay_configuration = rcfg, configured = ss\<rparr>"
      and ccfg = "RuntimeCaptureConfig rcfg"] this assms(2) g
  have "system_run (plugin_controller obs) env fresh plugin_start \<lparr>engine = g, in_flight = []\<rparr>" by simp
  moreover have "CaptureControlEngine.initialized g \<and> engine_streams g = ss \<and> \<not> some_on g"
  proof -
    have "configuration ?e = \<lparr>replay_configuration = rcfg, configured = ss\<rparr>"
      "recording_state ?e = RecordingConsumerState.Off" "replay_state ?e = ReplayConsumerState.Off"
      by (simp_all add: new_engine_def)
    with Initialize_frame [of ?e] show ?thesis unfolding g by (simp add: some_on_def)
  qed
  ultimately show ?thesis by blast
qed

lemma rebuild:
  fixes rt :: "('w, 'o) PluginCaptureRuntime"
  assumes b: "install_and_build rd ds rt = (b, st)" and none: "control rt = None"
    and run: "topology_run (topology_model rt)"
  shows "topology_model st = topology_model rt \<and> (b \<longleftrightarrow> control st \<noteq> None) \<and>
    (\<forall>y. control st = Some y \<longrightarrow> engine_of obs env fresh (current (topology_model rt)) y \<and> \<not> some_on (engine y))"
proof -
  obtain b1 rt1 where i: "InstallSceneTargets rd ds rt = (b1, rt1)" by fastforce
  note frame = InstallSceneTargets_frame [OF i]
  show ?thesis
  proof (cases b1)
    case False
    with b i frame none show ?thesis by (simp add: install_and_build_def)
  next
    case True
    with b i have c: "BuildControlState rd rt1 = (b, st)" by (simp add: install_and_build_def)
    show ?thesis
    proof (cases "build_streams rd (scene_targets rt1) (entries (current (topology_model rt1)))")
      case None
      with c frame none show ?thesis by (auto simp: BuildControlState_def)
    next
      case (Some ss)
      obtain k and g :: "('w, 'o PluginEncoderController) CaptureControlEngine"
        where g: "build_engine rd ss (runtime_configuration rt1) (runtime_libobs rt1) = (k, g)" by fastforce
      show ?thesis
      proof (cases "group_created rd \<and> k")
        case False
        with c Some g frame show ?thesis by (auto simp: BuildControlState_def)
      next
        case True
        with c Some g have st: "b" "st = rt1\<lparr>control := Some \<lparr>engine = g, in_flight = []\<rparr>\<rparr>"
          by (auto simp: BuildControlState_def)
        have ids: "map stream_identity ss = identities (current (topology_model rt))"
          using build_streams_identities [OF Some] frame by simp
        with current_identities_distinct [OF run] have dist: "distinct (map stream_identity ss)" by simp
        have "build_engine rd ss (runtime_configuration rt1) (runtime_libobs rt1) = (True, g)" using g True by simp
        from build_engine_runs [OF this dist, of obs env fresh]
        have "system_run (plugin_controller obs) env fresh plugin_start \<lparr>engine = g, in_flight = []\<rparr> \<and>
          CaptureControlEngine.initialized g \<and> engine_streams g = ss \<and> \<not> some_on g" by blast
        with st ids frame show ?thesis by (simp add: engine_of_def)
      qed
    qed
  qed
qed

lemma reset_control_frame:
  "control (reset_control obs env fresh rd rt) = None"
  "topology_model (reset_control obs env fresh rd rt) = topology_model rt"
  by (simp_all add: reset_control_def Let_def split: option.split)

text \<open>The end of an epoch, when the last consumer has stopped.\<close>

lemma finish_epoch:
  fixes rt :: "('w, 'o) PluginCaptureRuntime"
  assumes "runtime_open obs env fresh rt"
  shows "runtime_ok obs env fresh (FinishCaptureEpochIfIdle obs env fresh rd rt)"
proof (cases "control rt")
  case None
  then show ?thesis using assms by (simp add: FinishCaptureEpochIfIdle_def runtime_ok_def runtime_open_def)
next
  case (Some y)
  let ?m = "topology_model rt"
  have run: "topology_run ?m" and eng: "engine_of obs env fresh (current ?m) y"
    and epoch: "some_on (engine y) \<Longrightarrow> capture_epoch_active ?m" using assms Some by (auto simp: runtime_open_def)
  have off: "\<not> some_on (engine y) \<longleftrightarrow> recording_state (engine y) = RecordingConsumerState.Off \<and>
      replay_state (engine y) = ReplayConsumerState.Off"
    by (auto simp: some_on_def IsRecordingActive_def IsReplayActive_def)
  have ok: "topology_ok ?m" using topology_run_ok [OF run] .
  show ?thesis
  proof (cases "some_on (engine y) \<or> \<not> capture_epoch_active ?m")
    case True
    then have "FinishCaptureEpochIfIdle obs env fresh rd rt = rt"
      using Some off by (auto simp: FinishCaptureEpochIfIdle_def)
    moreover have "capture_epoch_active ?m = some_on (engine y)" using True epoch by blast
    ultimately show ?thesis using run eng Some by (simp add: runtime_ok_def)
  next
    case False
    obtain inst m where m: "EndCaptureEpoch ?m = (inst, m)" by fastforce
    have run': "topology_run m" using topology_run.ended [OF run] m by simp
    have inactive: "\<not> capture_epoch_active m" using EndCaptureEpoch_frame(1) [of ?m] m by simp
    show ?thesis
    proof (cases "pending_topology ?m")
      case None
      with m have "inst = None" by (auto simp: EndCaptureEpoch_def split: if_splits)
      with False Some off m have "FinishCaptureEpochIfIdle obs env fresh rd rt = rt\<lparr>topology_model := m\<rparr>"
        by (auto simp: FinishCaptureEpochIfIdle_def)
      moreover have "current m = current ?m" using EndCaptureEpoch_frame(2) [OF None] m by simp
      ultimately show ?thesis using run' eng Some inactive False by (simp add: runtime_ok_def)
    next
      case (Some p)
      with m False have inst: "inst = Some p" by (auto simp: EndCaptureEpoch_def)
      let ?rt = "reset_control obs env fresh rd (rt\<lparr>topology_model := m, pending_scenes := []\<rparr>)"
      have "FinishCaptureEpochIfIdle obs env fresh rd rt = snd (install_and_build rd (pending_scenes rt) ?rt)"
        using False Some inst off m \<open>control rt = Some y\<close>
        by (auto simp: FinishCaptureEpochIfIdle_def has_pending_def Let_def)
      moreover obtain b st where b: "install_and_build rd (pending_scenes rt) ?rt = (b, st)" by fastforce
      moreover have "topology_model ?rt = m" "control ?rt = None" by (simp_all add: reset_control_frame)
      ultimately show ?thesis using rebuild [OF b, of obs env fresh] run' inactive by (simp add: runtime_ok_def)
    qed
  qed
qed

subsection \<open>Every step keeps the invariant\<close>

lemma with_engine_simps [simp]:
  "topology_model (with_engine g rt) = topology_model rt"
  "control rt = Some y \<Longrightarrow> control (with_engine g rt) = Some (y\<lparr>engine := g\<rparr>)"
  by (simp_all add: with_engine_def)

lemma runtime_okI:
  assumes "topology_run (topology_model rt)" and "control rt = Some y"
    and "engine_of obs env fresh (current (topology_model rt)) y"
    and "capture_epoch_active (topology_model rt) = some_on (engine y)"
  shows "runtime_ok obs env fresh rt"
  using assms by (simp add: runtime_ok_def)

lemma runtime_ok_parts:
  assumes "runtime_ok obs env fresh rt" and "control rt = Some y"
  shows "topology_run (topology_model rt)" "engine_of obs env fresh (current (topology_model rt)) y"
    "capture_epoch_active (topology_model rt) = some_on (engine y)"
    "\<not> some_on (engine y) \<Longrightarrow> pending_topology (topology_model rt) = None"
    "flow_ok (engine y)" "CaptureControlEngine.initialized (engine y)"
    "system_run (plugin_controller obs) env fresh plugin_start y"
proof -
  show run: "topology_run (topology_model rt)" and eng: "engine_of obs env fresh (current (topology_model rt)) y"
    and act: "capture_epoch_active (topology_model rt) = some_on (engine y)"
    using assms by (auto simp: runtime_ok_def)
  show "\<not> some_on (engine y) \<Longrightarrow> pending_topology (topology_model rt) = None"
    using topology_run_ok [OF run] act by (simp add: topology_ok_def)
  show "flow_ok (engine y)" using eng by (rule engine_flow)
  show "CaptureControlEngine.initialized (engine y)" "system_run (plugin_controller obs) env fresh plugin_start y"
    using eng by (simp_all add: engine_of_def)
qed

text \<open>A start opens the epoch; when it fails and no consumer is on, the epoch ends again.\<close>

lemma started_ok:
  fixes rt :: "('w, 'o) PluginCaptureRuntime"
  assumes ok: "runtime_ok obs env fresh rt" and y: "control rt = Some y"
    and m: "topology_model st = BeginCaptureEpoch (topology_model rt)" "control st = Some (y\<lparr>engine := g\<rparr>)"
    and g: "system_run (plugin_controller obs) env fresh plugin_start (y\<lparr>engine := g\<rparr>)" "same_streams (engine y) g"
    and closes: "closes \<longleftrightarrow> \<not> some_on g" and fails: "closes \<Longrightarrow> \<not> some_on (engine y)"
  shows "runtime_ok obs env fresh
    (if closes then st\<lparr>topology_model := snd (EndCaptureEpoch (topology_model st))\<rparr> else st)"
proof -
  note parts = runtime_ok_parts [OF ok y]
  have run: "topology_run (topology_model st)" unfolding m using parts(1) by (rule topology_run.began)
  have eng: "engine_of obs env fresh s (y\<lparr>engine := g\<rparr>)" if "s = current (topology_model rt)" for s
    using engine_step [OF parts(2) g] that by simp
  show ?thesis
  proof (cases closes)
    case True
    then have none: "pending_topology (topology_model st) = None" using fails parts(4) m by simp
    have "topology_run (snd (EndCaptureEpoch (topology_model st)))" using run by (rule topology_run.ended)
    with True show ?thesis
      using m closes EndCaptureEpoch_frame(1) [of "topology_model st"] EndCaptureEpoch_frame(2) [OF none]
      by (intro runtime_okI [where y = "y\<lparr>engine := g\<rparr>"]) (simp_all add: eng)
  next
    case False
    then show ?thesis
      using run m closes by (intro runtime_okI [where y = "y\<lparr>engine := g\<rparr>"]) (simp_all add: eng)
  qed
qed

lemma start_recording_ok:
  fixes rt :: "('w, 'o) PluginCaptureRuntime"
  assumes "runtime_ok obs env fresh rt"
  shows "runtime_ok obs env fresh (snd (runtime_StartRecording obs rd rt))"
proof (cases "control rt")
  case None
  with assms show ?thesis by (simp add: runtime_StartRecording_def)
next
  case (Some y)
  note parts = runtime_ok_parts [OF assms Some]
  let ?rt = "rt\<lparr>topology_model := BeginCaptureEpoch (topology_model rt), recording_number := recording_number rt + 1\<rparr>"
  let ?paths = "OutputPaths rd CaptureConsumer.Recording
    (''recording-'' @ decimal (unat (recording_number ?rt)) @ ''-'' @ decimal (unat (wall_clock rd))) ?rt"
  obtain r g where g: "StartRecording (plugin_controller obs) (later_clock rd) (consumer_address rd) ?paths (engine y) = (r, g)"
    by fastforce
  note res = StartRecording_result [OF parts(5,6) g]
  define closes where "closes \<longleftrightarrow> \<not> command_ok r \<and> replay_state g = ReplayConsumerState.Off"
  have eval: "snd (runtime_StartRecording obs rd rt) =
      (if closes then (with_engine g ?rt)\<lparr>topology_model := snd (EndCaptureEpoch (topology_model (with_engine g ?rt)))\<rparr>
       else with_engine g ?rt)"
    using Some g by (simp add: runtime_StartRecording_def Let_def closes_def)
  have states: "replay_state g \<in> {ReplayConsumerState.Off, ReplayConsumerState.Running, Saving}"
    using parts(5) res by (simp add: flow_ok_def)
  have "closes \<longleftrightarrow> \<not> some_on g" using res states by (auto simp: closes_def some_on_def)
  moreover have "\<not> some_on (engine y)" if closes
  proof -
    have "\<not> rec_on (engine y)"
    proof
      assume "rec_on (engine y)"
      then have "recording_state (engine y) = RecordingConsumerState.Running" using parts(5) by (auto simp: flow_ok_def)
      with g parts(6) have "r = answer NoOp ''recording-already-active''" by (simp add: StartRecording_def)
      with that show False by (simp add: closes_def)
    qed
    moreover have "\<not> rep_on (engine y)" using that res by (simp add: closes_def)
    ultimately show ?thesis by (simp add: some_on_def)
  qed
  moreover have "system_run (plugin_controller obs) env fresh plugin_start (y\<lparr>engine := g\<rparr>)"
    using run_start_recording [OF parts(7), of "later_clock rd" "consumer_address rd" ?paths] g by simp
  ultimately show ?thesis
    unfolding eval using res Some by (intro started_ok [OF assms Some, of _ g]) simp_all
qed

lemma start_replay_ok:
  fixes rt :: "('w, 'o) PluginCaptureRuntime"
  assumes "runtime_ok obs env fresh rt"
  shows "runtime_ok obs env fresh (snd (start_replay_locked obs rt))"
proof (cases "control rt")
  case None
  with assms show ?thesis by (simp add: start_replay_locked_def)
next
  case (Some y)
  note parts = runtime_ok_parts [OF assms Some]
  let ?rt = "rt\<lparr>topology_model := BeginCaptureEpoch (topology_model rt)\<rparr>"
  obtain r g where g: "StartReplay (plugin_controller obs) (engine y) = (r, g)" by fastforce
  note res = StartReplay_result [OF parts(5,6) g]
  define closes where "closes \<longleftrightarrow> \<not> command_ok r \<and> recording_state g = RecordingConsumerState.Off"
  have eval: "snd (start_replay_locked obs rt) =
      (if closes then (with_engine g ?rt)\<lparr>topology_model := snd (EndCaptureEpoch (topology_model (with_engine g ?rt)))\<rparr>
       else with_engine g ?rt)"
    using Some g by (simp add: start_replay_locked_def Let_def closes_def)
  have states: "recording_state g \<in> {RecordingConsumerState.Off, RecordingConsumerState.Running}"
    using parts(5) res by (simp add: flow_ok_def)
  have "closes \<longleftrightarrow> \<not> some_on g" using res states by (auto simp: closes_def some_on_def)
  moreover have "\<not> some_on (engine y)" if closes
  proof -
    have "\<not> rep_on (engine y)"
    proof
      assume "rep_on (engine y)"
      then have "replay_enabled (replay_configuration (configuration (engine y)))"
        "replay_state (engine y) = ReplayConsumerState.Running \<or> replay_state (engine y) = Saving"
        using parts(5) by (auto simp: flow_ok_def)
      with g parts(6) have "r = answer NoOp ''replay-already-active''" by (auto simp: StartReplay_def)
      with that show False by (simp add: closes_def)
    qed
    moreover have "\<not> rec_on (engine y)" using that res by (simp add: closes_def)
    ultimately show ?thesis by (simp add: some_on_def)
  qed
  moreover have "system_run (plugin_controller obs) env fresh plugin_start (y\<lparr>engine := g\<rparr>)"
    using run_start_replay [OF parts(7)] g by simp
  ultimately show ?thesis
    unfolding eval using res Some by (intro started_ok [OF assms Some, of _ g]) simp_all
qed

text \<open>A step of the engine inside an epoch that may have lost its last consumer.\<close>

lemma engine_update_open:
  assumes "runtime_ok obs env fresh rt" and y: "control rt = Some y"
    and m: "topology_model st = topology_model rt" "control st = Some (y\<lparr>engine := g\<rparr>)"
    and g: "system_run (plugin_controller obs) env fresh plugin_start (y\<lparr>engine := g\<rparr>)" "same_streams (engine y) g"
    and on: "some_on g \<Longrightarrow> some_on (engine y)"
  shows "runtime_open obs env fresh st"
proof -
  note parts = runtime_ok_parts [OF assms(1) y]
  have "engine_of obs env fresh (current (topology_model rt)) (y\<lparr>engine := g\<rparr>)"
    by (rule engine_step [OF parts(2) g refl])
  with parts(1,3) m on show ?thesis by (simp add: runtime_open_def)
qed

lemma engine_update_ok:
  assumes "runtime_ok obs env fresh rt" and y: "control rt = Some y"
    and m: "topology_model st = topology_model rt" "control st = Some z"
    and z: "system_run (plugin_controller obs) env fresh plugin_start z" "same_streams (engine y) (engine z)"
    and on: "some_on (engine z) = some_on (engine y)"
  shows "runtime_ok obs env fresh st"
proof -
  note parts = runtime_ok_parts [OF assms(1) y]
  have "engine_of obs env fresh (current (topology_model rt)) z"
    using parts(2) z by (simp add: engine_of_def same_streams_def)
  with parts(1,3) m on show ?thesis by (simp add: runtime_ok_def)
qed

lemma stop_recording_ok:
  fixes rt :: "('w, 'o) PluginCaptureRuntime"
  assumes "runtime_ok obs env fresh rt"
  shows "runtime_ok obs env fresh (snd (runtime_StopRecording obs env fresh rd rt))"
proof (cases "control rt")
  case None
  with assms show ?thesis by (simp add: runtime_StopRecording_def)
next
  case (Some y)
  note parts = runtime_ok_parts [OF assms Some]
  let ?g = "snd (StopRecording (plugin_controller obs) env fresh (later_clock rd) (engine y))"
  have ok: "plugin.engine_ok obs (engine y)" "consumers_ok env fresh (engine y)"
    using plugin_run [OF parts(7)] by (simp_all add: plugin.engine_ok_def)
  have on: "some_on ?g \<Longrightarrow> some_on (engine y)"
    using plugin.StopRecording_keeps [OF ok, of "later_clock rd"] by (simp add: some_on_def)
  have "runtime_open obs env fresh (with_engine ?g rt)"
    by (rule engine_update_open [OF assms Some _ _ run_stop_recording [OF parts(7)] StopRecording_frame on])
      (use Some in simp_all)
  from finish_epoch [OF this, of rd] Some show ?thesis
    by (simp add: runtime_StopRecording_def Let_def case_prod_beta)
qed

lemma stop_replay_ok:
  fixes rt :: "('w, 'o) PluginCaptureRuntime"
  assumes "runtime_ok obs env fresh rt"
  shows "runtime_ok obs env fresh (snd (runtime_StopReplay obs env fresh rd rt))"
proof (cases "control rt")
  case None
  with assms show ?thesis by (simp add: runtime_StopReplay_def)
next
  case (Some y)
  note parts = runtime_ok_parts [OF assms Some]
  let ?g = "snd (StopReplay (plugin_controller obs) env fresh (wall_clock rd) (later_clock rd) (engine y))"
  note out = StopReplay_frame [of "engine y" "plugin_controller obs" env fresh "wall_clock rd" "later_clock rd"]
  have on: "some_on ?g \<Longrightarrow> some_on (engine y)" using out by (simp add: some_on_def)
  have "runtime_open obs env fresh (with_engine ?g rt)"
    by (rule engine_update_open [OF assms Some _ _ run_stop_replay [OF parts(7)] conjunct1 [OF out] on])
      (use Some in simp_all)
  from finish_epoch [OF this, of rd] Some show ?thesis
    by (simp add: runtime_StopReplay_def Let_def case_prod_beta)
qed

lemma configured_ok:
  fixes rt :: "('w, 'o) PluginCaptureRuntime"
  assumes "runtime_ok obs env fresh rt"
  shows "runtime_ok obs env fresh (snd (runtime_ApplyReplayConfiguration obs env fresh rd cfg rt))"
proof (cases "runtime_configuration rt = cfg")
  case True
  with assms show ?thesis by (simp add: runtime_ApplyReplayConfiguration_def)
next
  case new: False
  let ?rt = "rt\<lparr>runtime_configuration := cfg\<rparr>"
  have ok: "runtime_ok obs env fresh ?rt" using assms by (simp add: runtime_ok_def)
  show ?thesis
  proof (cases "control rt")
    case None
    with new ok show ?thesis by (simp add: runtime_ApplyReplayConfiguration_def)
  next
    case (Some y)
    then have y: "control ?rt = Some y" by simp
    note parts = runtime_ok_parts [OF ok y]
    let ?g = "snd (ApplyReplayConfiguration (plugin_controller obs) env fresh (wall_clock rd) (later_clock rd) cfg (engine y))"
    note out = Apply_frame [of "engine y" "plugin_controller obs" env fresh "wall_clock rd" "later_clock rd" cfg]
    have on: "some_on ?g \<Longrightarrow> some_on (engine y)"
      using out StopReplay_frame [of "engine y" "plugin_controller obs" env fresh "wall_clock rd" "later_clock rd"]
      by (auto simp: some_on_def ApplyReplayConfiguration_def Let_def case_prod_beta split: if_splits)
    have "runtime_open obs env fresh (with_engine ?g ?rt)"
      by (rule engine_update_open [OF ok y _ _ run_apply_configuration [OF parts(7)] conjunct1 [OF out] on])
        (use y in simp_all)
    from finish_epoch [OF this, of rd] Some new show ?thesis
      by (simp add: runtime_ApplyReplayConfiguration_def Let_def case_prod_beta)
  qed
qed

lemma save_replay_ok:
  fixes rt :: "('w, 'o) PluginCaptureRuntime"
  assumes "runtime_ok obs env fresh rt" and "save_replay_locked rd rt = Some (r, st)"
  shows "runtime_ok obs env fresh st"
proof (cases "control rt")
  case None
  with assms show ?thesis by (simp add: save_replay_locked_def)
next
  case (Some y)
  note parts = runtime_ok_parts [OF assms(1) Some]
  obtain paths g where g: "SaveReplay paths (engine y) = Some (r, g)"
    and st: "topology_model st = topology_model rt" "control st = Some (y\<lparr>engine := g\<rparr>)"
    using assms(2) Some by (auto simp: save_replay_locked_def with_engine_def Let_def)
  note out = SaveReplay_frame [OF g]
  show ?thesis
    by (rule engine_update_ok [OF assms(1) Some st run_save_replay [OF parts(7) g]])
      (use out in \<open>simp_all add: some_on_def\<close>)
qed

lemma polled_ok:
  fixes rt :: "('w, 'o) PluginCaptureRuntime"
  assumes "runtime_ok obs env fresh rt"
  shows "runtime_ok obs env fresh (runtime_PollReplaySave env fresh rd rt)"
proof (cases "control rt")
  case None
  with assms show ?thesis by (simp add: runtime_PollReplaySave_def)
next
  case (Some y)
  note parts = runtime_ok_parts [OF assms Some]
  note out = Poll_frame [of "engine y" env fresh "wall_clock rd" "later_clock rd"]
  show ?thesis
    by (rule engine_update_ok [OF assms Some _ _ run_poll_save [OF parts(7), of "wall_clock rd" "later_clock rd"]])
      (use out Some in \<open>simp_all add: runtime_PollReplaySave_def Let_def some_on_def\<close>)
qed

lemma ApplyDiscovery_cases:
  "ApplyDiscovery ds in_epoch m =
     (if entries (current m) = entries (BuildSnapshot ds (generation (current m) + 1)) then (Unchanged, m)
      else if in_epoch
      then (Staged, m\<lparr>current := UpdateDisplayNames (current m) (BuildSnapshot ds (generation (current m) + 1)),
              pending_topology := Some (BuildSnapshot ds (generation (current m) + 1))\<rparr>)
      else (Applied, m\<lparr>current := BuildSnapshot ds (generation (current m) + 1), pending_topology := None\<rparr>))"
  using same_snapshot [of "current m" "BuildSnapshot ds (generation (current m) + 1)"]
  by (simp add: ApplyDiscovery_def Let_def)

lemma refreshed_ok:
  fixes rt :: "('w, 'o) PluginCaptureRuntime"
  assumes "runtime_ok obs env fresh rt"
  shows "runtime_ok obs env fresh (snd (RefreshSceneTopology obs env fresh rd rt))"
proof (cases "control rt")
  case None
  with assms show ?thesis by (simp add: RefreshSceneTopology_def)
next
  case (Some y)
  note parts = runtime_ok_parts [OF assms Some]
  let ?ds = "DiscoverObsScenes (obs_scenes rd)" and ?active = "capture_epoch_active (topology_model rt)"
  obtain u m where m: "ApplyDiscovery ?ds ?active (topology_model rt) = (u, m)" by fastforce
  have run: "topology_run m" using topology_run.discovered [OF parts(1), of ?ds] m by simp
  have same: "capture_epoch_active m = ?active" using m unfolding ApplyDiscovery_cases by (auto split: if_splits)
  let ?rt = "rt\<lparr>topology_model := m\<rparr>"
  show ?thesis
  proof (cases "u = Unchanged \<or> ?active")
    case True
    have ids: "identities (current m) = identities (current (topology_model rt))"
      using m True identities_participants [OF UpdateDisplayNames_participants]
      unfolding ApplyDiscovery_cases by (auto split: if_splits)
    have eng: "engine_of obs env fresh (current m) y" using parts(2) ids by (simp add: engine_of_def)
    have "snd (RefreshSceneTopology obs env fresh rd rt) = ?rt \<or>
        snd (RefreshSceneTopology obs env fresh rd rt) = ?rt\<lparr>pending_scenes := ?ds\<rparr>"
      using True Some m by (auto simp: RefreshSceneTopology_def Let_def)
    with run eng same parts(3) Some show ?thesis by (auto simp: runtime_ok_def)
  next
    case False
    obtain b st where b: "install_and_build rd ?ds (reset_control obs env fresh rd ?rt) = (b, st)" by fastforce
    have "snd (RefreshSceneTopology obs env fresh rd rt) = st"
      using False Some m b by (simp add: RefreshSceneTopology_def Let_def)
    moreover have "topology_model (reset_control obs env fresh rd ?rt) = m"
      "control (reset_control obs env fresh rd ?rt) = None" by (simp_all add: reset_control_frame)
    ultimately show ?thesis using rebuild [OF b, of obs env fresh] run same False by (simp add: runtime_ok_def)
  qed
qed

lemma step_ok:
  assumes "runtime_step obs env fresh rt st" and "runtime_ok obs env fresh rt"
  shows "runtime_ok obs env fresh st"
  using assms
proof (induction rule: runtime_step.induct)
  case (stopped rt rd)
  then show ?case by (simp add: runtime_Stop_def runtime_ok_def reset_control_frame)
next
  case (background rt y z)
  note parts = runtime_ok_parts [OF background(3,1)]
  note frame = background_frame [OF background(2)]
  show ?case
    by (rule engine_update_ok [OF background(3,1) _ _ background_run [OF background(2) parts(7)]])
      (use frame in simp_all)
qed (blast intro: start_recording_ok stop_recording_ok start_replay_ok stop_replay_ok save_replay_ok
  configured_ok refreshed_ok polled_ok)+

lemma runtime_run_ok:
  fixes rt :: "('w, 'o) PluginCaptureRuntime"
  shows "runtime_run obs env fresh rt \<Longrightarrow> runtime_ok obs env fresh rt"
proof (induction rule: runtime_run.induct)
  case (initialized rd rd0 lib rt)
  let ?n = "new_runtime rd0 lib :: ('w, 'o) PluginCaptureRuntime" and ?ds = "DiscoverObsScenes (obs_scenes rd)"
  let ?rt = "?n\<lparr>topology_model := snd (ApplyDiscovery ?ds False (topology_model ?n)), pending_scenes := []\<rparr>"
  have none: "control ?rt = None" and new: "topology_model ?n = new_topology" by (simp_all add: new_runtime_def)
  obtain b st where b: "install_and_build rd ?ds ?rt = (b, st)" by fastforce
  then have "b" "st = rt" using initialized none by (auto simp: runtime_Initialize_def new_runtime_def split: if_splits)
  have inactive: "\<not> capture_epoch_active (topology_model ?rt)"
    by (simp add: new ApplyDiscovery_cases new_topology_def)
  have "topology_run (topology_model ?rt)"
    using topology_run.discovered [OF topology_run.created, of ?ds] by (simp add: new new_topology_def)
  from rebuild [OF b none this, of obs env fresh] inactive \<open>st = rt\<close> \<open>topology_run (topology_model ?rt)\<close>
  show ?case by (simp add: runtime_ok_def)
qed (rule step_ok)

end
