(* ===== verification/PluginRuntimeProperties.thy ===== *)
theory PluginRuntimeProperties
  imports PluginRuntimeInvariant
begin

text \<open>
  What the plugin runtime promises: the engine captures exactly the streams of one topology, an epoch is
  open exactly while a consumer is on, and when a rebuild of the engine succeeds.
\<close>

subsection \<open>Registering the streams\<close>

lemma register_streams_iff:
  assumes "unat i = length (streams cap)" and "\<not> capture_running cap"
    and "\<forall>s \<in> set ss. mode s \<noteq> Disabled \<and> cfg_width (packet_config s) \<noteq> 0 \<and> cfg_height (packet_config s) \<noteq> 0"
    and "distinct (map stream_name (streams cap))"
  shows "fst (register_streams i ss cap) \<longleftrightarrow>
    distinct (map stream_name (streams cap) @ map configured_name ss) \<and> [] \<notin> configured_name ` set ss \<and>
    0 < length (streams cap) + length ss \<and> length (streams cap) + length ss < 256"
  using assms
proof (induction ss arbitrary: i cap)
  case Nil
  then show ?case using plugin.u8_bound [of i] by (simp add: word_gt_0 flip: unat_gt_0)
next
  case (Cons s ss)
  let ?st = "\<lparr>stream_name = configured_name s, stream_config = packet_config s, stream_packets = [],
    stream_retained_bytes = 0, stream_peak_bytes = 0, max_source_cts = 0, has_source_cts = False\<rparr>"
  let ?cap = "cap\<lparr>streams := streams cap @ [?st]\<rparr>"
  have id: "\<not> (if length (streams cap) > 0 then unat i \<noteq> length (streams cap) else i \<noteq> 0)"
    using Cons.prems(1) by (auto simp: unat_eq_0)
  show ?case
  proof (cases "configured_name s = [] \<or> configured_name s \<in> stream_name ` set (streams cap)")
    case True
    then have "fst (RegisterStream i (configured_name s) (packet_config s) cap) = False"
      using Cons.prems by (auto simp: RegisterStream_def list_ex_iff)
    then have "\<not> fst (register_streams i (s # ss) cap)" using Cons.prems(3) by (simp add: case_prod_beta)
    with True show ?thesis by auto
  next
    case False
    then have "\<not> list_ex (\<lambda>st. stream_name st = configured_name s) (streams cap)"
      by (simp add: list_ex_iff) (metis image_eqI)
    with False have reg: "RegisterStream i (configured_name s) (packet_config s) cap = (True, ?cap)"
      using Cons.prems id by (auto simp: RegisterStream_def)
    then have eq: "fst (register_streams i (s # ss) cap) = fst (register_streams (i + 1) ss ?cap)"
      using Cons.prems(3) by simp
    show ?thesis
    proof (cases "i = - 1")
      case True
      then have "fst (register_streams (i + 1) ss ?cap) = False" using plugin.register_wrapped [of ?cap ss] by simp
      moreover have "length (streams cap) = 255"
        using True Cons.prems(1) by (simp add: unsigned_minus_1_eq_mask mask_eq_exp_minus_1)
      ultimately show ?thesis using eq by simp
    next
      case small: False
      have "fst (register_streams (i + 1) ss ?cap) \<longleftrightarrow>
        distinct (map stream_name (streams ?cap) @ map configured_name ss) \<and> [] \<notin> configured_name ` set ss \<and>
        0 < length (streams ?cap) + length ss \<and> length (streams ?cap) + length ss < 256"
        by (rule Cons.IH) (use Cons.prems False plugin.u8_succ [OF small] in auto)
      with eq False show ?thesis by auto
    qed
  qed
qed

lemma engine_initializes_iff:
  assumes "\<forall>s \<in> set ss. mode s \<noteq> Disabled \<and> cfg_width (packet_config s) \<noteq> 0 \<and> cfg_height (packet_config s) \<noteq> 0"
  shows "fst (build_engine rd ss rcfg lib) \<longleftrightarrow> distinct (map configured_name ss) \<and>
    [] \<notin> configured_name ` set ss \<and> 0 < length ss \<and> length ss < 256"
  using register_streams_iff [of 0 "new_capture (RuntimeCaptureConfig rcfg)" ss] assms
  by (simp add: build_engine_def Initialize_def Let_def case_prod_beta new_engine_def new_capture_def)

subsection \<open>When a rebuild succeeds\<close>

text \<open>The scenes of a discovery that are in the topology; each one needs its view.\<close>

definition views_made :: "readings \<Rightarrow> DiscoveredScene list \<Rightarrow> bool" where
  "views_made rd ds \<longleftrightarrow> (\<forall>d \<in> set ds. uuid d \<noteq> [] \<longrightarrow> view_created rd (uuid d) \<and> view_added rd (uuid d))"

abbreviation target_ids :: "SceneTarget list \<Rightarrow> StreamIdentity set" where
  "target_ids ts \<equiv> (identity \<circ> target_topology) ` set ts"

lemma names_scene_identity: "names_scene u e \<longleftrightarrow> identity e = StreamIdentity_Scene u"
  by (cases "identity e") (auto simp: names_scene_def StreamIdentity_Scene_def)

lemma has_target: "list_ex (\<lambda>t. identity (target_topology t) = x) ts \<longleftrightarrow> x \<in> target_ids ts"
  by (auto simp: list_ex_iff)

lemma find_scene: "find (names_scene u) es = Some e \<Longrightarrow> e \<in> set es \<and> identity e = StreamIdentity_Scene u"
  by (induction es) (auto simp: names_scene_identity split: if_splits)

lemma find_scene_None: "find (names_scene u) es = None \<longleftrightarrow> StreamIdentity_Scene u \<notin> identity ` set es"
  by (simp add: find_None_iff names_scene_identity image_iff) metis

lemma install_targets_out:
  assumes "\<forall>t \<in> set ts. target_video t"
    and "\<forall>d \<in> set ds. StreamIdentity_Scene (uuid d) \<in> identity ` set es \<longrightarrow>
      StreamIdentity_Scene (uuid d) \<in> target_ids ts \<or> view_created rd (uuid d) \<and> view_added rd (uuid d)"
  shows "\<exists>us. install_targets rd es ds ts = Some us \<and> (\<forall>t \<in> set us. target_video t) \<and>
    target_ids us = target_ids ts \<union> (StreamIdentity_Scene ` uuid ` set ds \<inter> identity ` set es)"
  using assms
proof (induction ds arbitrary: ts)
  case (Cons d ds)
  show ?case
  proof (cases "find (names_scene (uuid d)) es")
    case None
    then have "StreamIdentity_Scene (uuid d) \<notin> identity ` set es" by (simp add: find_scene_None)
    with Cons None show ?thesis by simp
  next
    case (Some e)
    note e = find_scene [OF Some]
    then have mem: "StreamIdentity_Scene (uuid d) \<in> identity ` set es" by (metis image_eqI)
    show ?thesis
    proof (cases "identity e \<in> target_ids ts")
      case True
      with Some have "install_targets rd es (d # ds) ts = install_targets rd es ds ts" by (simp add: has_target)
      moreover have "\<exists>us. install_targets rd es ds ts = Some us \<and> (\<forall>t \<in> set us. target_video t) \<and>
          target_ids us = target_ids ts \<union> (StreamIdentity_Scene ` uuid ` set ds \<inter> identity ` set es)"
        by (rule Cons.IH) (use Cons.prems in auto)
      moreover have "target_ids ts \<union> (insert (StreamIdentity_Scene (uuid d)) S \<inter> E) = target_ids ts \<union> (S \<inter> E)" for S E
        using True e by auto
      ultimately show ?thesis by simp
    next
      case False
      let ?us = "ts @ [\<lparr>target_topology = e, target_video = True\<rparr>]"
      have "\<not> list_ex (\<lambda>t. identity (target_topology t) = identity e) ts" using False by (simp only: has_target not_False_eq_True)
      moreover have "view_created rd (uuid d) \<and> view_added rd (uuid d)" using Cons.prems(2) e False mem by auto
      ultimately have "install_targets rd es (d # ds) ts = install_targets rd es ds ?us" using Some by simp
      moreover have "\<exists>us. install_targets rd es ds ?us = Some us \<and> (\<forall>t \<in> set us. target_video t) \<and>
          target_ids us = target_ids ?us \<union> (StreamIdentity_Scene ` uuid ` set ds \<inter> identity ` set es)"
        by (rule Cons.IH) (use Cons.prems in auto)
      ultimately show ?thesis using e mem by auto
    qed
  qed
qed simp

lemma install_targets_fails:
  assumes "d \<in> set ds" and "StreamIdentity_Scene (uuid d) \<in> identity ` set es"
    and "StreamIdentity_Scene (uuid d) \<notin> target_ids ts"
    and "\<not> (view_created rd (uuid d) \<and> view_added rd (uuid d))"
  shows "install_targets rd es ds ts = None"
  using assms
proof (induction ds arbitrary: ts)
  case (Cons c ds)
  show ?case
  proof (cases "find (names_scene (uuid c)) es")
    case None
    then have "c \<noteq> d" using Cons.prems(2) by (auto simp: find_scene_None)
    with Cons None show ?thesis by simp
  next
    case (Some e)
    note e = find_scene [OF Some]
    let ?us = "ts @ [\<lparr>target_topology = e, target_video = True\<rparr>]"
    have other: "uuid c \<noteq> uuid d \<Longrightarrow> StreamIdentity_Scene (uuid d) \<notin> target_ids ?us \<and> d \<in> set ds"
      using Cons.prems e by (auto simp: StreamIdentity_Scene_def)
    have same: "uuid c = uuid d \<Longrightarrow> \<not> list_ex (\<lambda>t. identity (target_topology t) = identity e) ts"
      using Cons.prems(3) e by (simp add: has_target)
    show ?thesis
    proof (cases "uuid c = uuid d")
      case True
      with same Some Cons.prems(4) show ?thesis by auto
    next
      case False
      from Cons.IH [OF _ Cons.prems(2) _ Cons.prems(4)] other [OF False] Cons.prems(3) Some
      show ?thesis by simp
    qed
  qed
qed simp

lemma build_streams_out:
  assumes "\<forall>t \<in> set ts. target_video t" and "\<forall>e \<in> set es. kind (identity e) = Master \<or> identity e \<in> target_ids ts"
  shows "build_streams rd ts es = Some (map (\<lambda>e. \<lparr>stream_identity = identity e,
    configured_name = (if kind (identity e) = Master then ''master'' else display_name e),
    mode = participation e, packet_config = StreamConfig rd (identity e)\<rparr>) es)"
  using assms(2)
proof (induction es)
  case (Cons e es)
  show ?case
  proof (cases "kind (identity e) = Master")
    case False
    then obtain t where "find (\<lambda>t. identity (target_topology t) = identity e) ts = Some t"
      using Cons.prems by (cases "find (\<lambda>t. identity (target_topology t) = identity e) ts") (auto simp: find_None_iff)
    moreover from this have "target_video t" using assms(1) by (metis find_Some_iff nth_mem)
    ultimately show ?thesis using False Cons by simp
  qed (use Cons in simp)
qed simp

text \<open>The scenes of a discovery in the order of its topology.\<close>

definition topology_scenes :: "DiscoveredScene list \<Rightarrow> DiscoveredScene list" where
  "topology_scenes ds = map snd (first_scenes 0 [] ds)"

lemma snapshot_of_scenes:
  "entries (BuildSnapshot ds g) = master_entry # map scene_entry (first_scenes 0 [] ds)"
  "uuid ` set (topology_scenes ds) = uuid ` set ds - {[]}"
  using snapshot_entries first_scenes_uuids [of ds] by (simp_all add: topology_scenes_def image_comp)

lemma rebuild_iff:
  fixes rt :: "('w, 'o) PluginCaptureRuntime"
  assumes entries: "entries (current (topology_model rt)) = entries (BuildSnapshot ds k)"
  shows "fst (install_and_build rd ds rt) \<longleftrightarrow> views_made rd ds \<and> group_created rd \<and>
    distinct (''master'' # map scene_name (topology_scenes ds)) \<and> [] \<notin> scene_name ` set (topology_scenes ds) \<and>
    length (topology_scenes ds) < 255"
proof -
  let ?es = "entries (BuildSnapshot ds k)" and ?ss = "topology_scenes ds"
  have ids: "identity ` set ?es = insert StreamIdentity_Master (StreamIdentity_Scene ` (uuid ` set ds - {[]}))"
  proof -
    have "identity ` scene_entry ` set (first_scenes 0 [] ds) = StreamIdentity_Scene ` uuid ` set ?ss"
      by (simp add: topology_scenes_def image_image scene_entry_def)
    then show ?thesis by (simp add: snapshot_of_scenes master_entry_def)
  qed
  have known: "StreamIdentity_Scene u \<in> identity ` set ?es \<longleftrightarrow> u \<in> uuid ` set ds \<and> u \<noteq> []" for u
    unfolding ids by (auto simp: StreamIdentity_Scene_def StreamIdentity_Master_def)
  show ?thesis
  proof (cases "views_made rd ds")
    case False
    then obtain d where d: "d \<in> set ds" "uuid d \<noteq> []" "\<not> (view_created rd (uuid d) \<and> view_added rd (uuid d))"
      by (auto simp: views_made_def)
    have "install_targets rd ?es ds [] = None"
      by (rule install_targets_fails [OF d(1) _ _ d(3)]) (use d known in simp_all)
    with False show ?thesis by (simp add: install_and_build_def InstallSceneTargets_def entries)
  next
    case True
    have "\<exists>us. install_targets rd ?es ds [] = Some us \<and> (\<forall>t \<in> set us. target_video t) \<and>
        target_ids us = target_ids [] \<union> (StreamIdentity_Scene ` uuid ` set ds \<inter> identity ` set ?es)"
      by (rule install_targets_out) (use True known in \<open>auto simp: views_made_def\<close>)
    then obtain us where us: "install_targets rd ?es ds [] = Some us" "\<forall>t \<in> set us. target_video t"
      "target_ids us = StreamIdentity_Scene ` uuid ` set ds \<inter> identity ` set ?es" by auto
    have scenes: "StreamIdentity_Scene u \<in> target_ids us" if "u \<in> uuid ` set ?ss" for u
      using that known [of u] snapshot_of_scenes(2) [of ds] us(3) by auto
    have cover: "\<forall>e \<in> set ?es. kind (identity e) = Master \<or> identity e \<in> target_ids us"
    proof
      fix e assume "e \<in> set ?es"
      then consider "e = master_entry" | x where "x \<in> set (first_scenes 0 [] ds)" "e = scene_entry x"
        by (auto simp: snapshot_of_scenes(1))
      then show "kind (identity e) = Master \<or> identity e \<in> target_ids us"
      proof cases
        case 2
        then have "uuid (snd x) \<in> uuid ` set ?ss" by (simp add: topology_scenes_def)
        from scenes [OF this] 2 show ?thesis by (simp add: scene_entry_def)
      qed (simp add: master_entry_def StreamIdentity_Master_def)
    qed
    define cs where "cs = map (\<lambda>e. \<lparr>stream_identity = identity e,
      configured_name = (if kind (identity e) = Master then ''master'' else display_name e),
      mode = participation e, packet_config = StreamConfig rd (identity e)\<rparr>) ?es"
    have streams: "build_streams rd us ?es = Some cs"
      unfolding cs_def by (rule build_streams_out [OF us(2) cover])
    have names: "map configured_name cs = ''master'' # map scene_name ?ss"
      by (simp add: cs_def snapshot_of_scenes(1) topology_scenes_def comp_def scene_entry_def
          master_entry_def StreamIdentity_Master_def StreamIdentity_Scene_def)
    have "\<forall>s \<in> set cs. mode s \<noteq> Disabled \<and> cfg_width (packet_config s) \<noteq> 0 \<and> cfg_height (packet_config s) \<noteq> 0"
      by (auto simp: cs_def snapshot_of_scenes(1) participation_def scene_entry_def master_entry_def StreamConfig_def
          case_prod_beta)
    then have "fst (build_engine rd cs c l :: bool \<times> ('w, 'o PluginEncoderController) CaptureControlEngine) \<longleftrightarrow>
        distinct (map configured_name cs) \<and> [] \<notin> configured_name ` set cs \<and> 0 < length cs \<and> length cs < 256" for c l
      by (rule engine_initializes_iff)
    moreover have "configured_name ` set cs = set (''master'' # map scene_name ?ss)"
      unfolding names [symmetric] by simp
    moreover have "length cs = length ?ss + 1"
      using arg_cong [OF names, of length] by simp
    ultimately have engine: "fst (build_engine rd cs c l :: bool \<times> ('w, 'o PluginEncoderController) CaptureControlEngine) \<longleftrightarrow>
        distinct (''master'' # map scene_name ?ss) \<and> [] \<notin> scene_name ` set ?ss \<and> length ?ss < 255" for c l
      unfolding names by auto
    show ?thesis
      using True us(1) streams engine
      by (simp add: install_and_build_def InstallSceneTargets_def entries BuildControlState_def Let_def case_prod_beta)
  qed
qed

subsection \<open>Starting\<close>

lemma CollectScene_names: "s \<in> set (CollectScene c ds) \<Longrightarrow> s \<in> set ds \<or> scene_name s \<noteq> []"
  by (auto simp: CollectScene_def split: if_splits option.splits)

lemma discovered_names: "s \<in> set (DiscoverObsScenes cs) \<Longrightarrow> scene_name s \<noteq> []"
proof -
  have "s \<in> set (fold CollectScene cs ds) \<Longrightarrow> s \<in> set ds \<or> scene_name s \<noteq> []" for ds
  proof (induction cs arbitrary: ds)
    case (Cons c cs)
    from Cons.IH [of "CollectScene c ds"] Cons.prems CollectScene_names [of s c ds] show ?case by simp blast
  qed simp
  then show "s \<in> set (DiscoverObsScenes cs) \<Longrightarrow> scene_name s \<noteq> []"
    unfolding DiscoverObsScenes_def by (metis empty_iff list.set(1))
qed

lemma topology_scenes_subset: "set (topology_scenes ds) \<subseteq> set ds"
proof
  fix s assume "s \<in> set (topology_scenes ds)"
  then obtain e where e: "e \<in> set (first_scenes 0 [] ds)" "s = snd e" by (auto simp: topology_scenes_def)
  from first_scenes_facts [OF e(1)] e(2) show "s \<in> set ds" by auto
qed

definition startable :: "readings \<Rightarrow> bool" where
  "startable rd \<longleftrightarrow> (let ds = DiscoverObsScenes (obs_scenes rd) in
     views_made rd ds \<and> group_created rd \<and> distinct (''master'' # map scene_name (topology_scenes ds)) \<and>
     length (topology_scenes ds) < 255)"

lemma initialize_out:
  fixes rt :: "('w, 'o) PluginCaptureRuntime"
  assumes "runtime_Initialize obs env fresh rd (new_runtime rd0 lib) = (b, rt)"
  shows "(b \<longleftrightarrow> startable rd) \<and> \<not> capture_epoch_active (topology_model rt) \<and> (b \<longleftrightarrow> control rt \<noteq> None) \<and>
    entries (current (topology_model rt)) = entries (BuildSnapshot (DiscoverObsScenes (obs_scenes rd)) 0)"
proof -
  let ?n = "new_runtime rd0 lib :: ('w, 'o) PluginCaptureRuntime" and ?ds = "DiscoverObsScenes (obs_scenes rd)"
  let ?rt = "?n\<lparr>topology_model := snd (ApplyDiscovery ?ds False (topology_model ?n)), pending_scenes := []\<rparr>"
  have new: "topology_model ?n = new_topology" and none: "control ?rt = None" by (simp_all add: new_runtime_def)
  have entries: "entries (current (topology_model ?rt)) = entries (BuildSnapshot ?ds 0)"
    by (simp add: new ApplyDiscovery_cases new_topology_def snapshot_entries)
  have idle: "\<not> capture_epoch_active (topology_model ?rt)"
    by (simp add: new ApplyDiscovery_cases new_topology_def)
  obtain c st where c: "install_and_build rd ?ds ?rt = (c, st)" by fastforce
  have run: "topology_run (topology_model ?rt)"
    using topology_run.discovered [OF topology_run.created, of ?ds] by (simp add: new new_topology_def)
  note re = rebuild [OF c none run, of obs env fresh]
  have "[] \<notin> scene_name ` set (topology_scenes ?ds)"
    using discovered_names topology_scenes_subset [of ?ds] by (metis (no_types, lifting) imageE subsetD)
  then have "c \<longleftrightarrow> startable rd"
    using rebuild_iff [OF entries, of rd] unfolding c startable_def Let_def fst_conv by blast
  moreover have "b = c \<and> rt = (if c then st else runtime_Stop obs env fresh rd st)"
    using assms c none by (simp add: runtime_Initialize_def new_runtime_def split: if_splits)
  ultimately show ?thesis using re entries idle by (cases c) (simp_all add: runtime_Stop_def reset_control_frame)
qed

text \<open>C31. The runtime starts exactly when libobs makes an encoder group and a view for every scene with a
  UUID, there are fewer than 255 scenes, and the names of the scenes are distinct and none of them is
  \<open>master\<close>, the name given to the program stream.\<close>

theorem runtime_starts_exactly_when:
  "fst (runtime_Initialize obs env fresh rd (new_runtime rd0 lib :: ('w, 'o) PluginCaptureRuntime)) \<longleftrightarrow>
     (let ds = DiscoverObsScenes (obs_scenes rd) in
      group_created rd \<and> (\<forall>d \<in> set ds. uuid d \<noteq> [] \<longrightarrow> view_created rd (uuid d) \<and> view_added rd (uuid d)) \<and>
      length (topology_scenes ds) < 255 \<and> distinct (''master'' # map scene_name (topology_scenes ds)))"
proof -
  obtain b rt where "runtime_Initialize obs env fresh rd (new_runtime rd0 lib :: ('w, 'o) PluginCaptureRuntime) = (b, rt)"
    by fastforce
  with initialize_out [OF this] show ?thesis
    unfolding startable_def views_made_def Let_def by (metis fst_conv)
qed

definition demo_readings :: "obs_scene list \<Rightarrow> readings" where
  "demo_readings ss = \<lparr>obs_scenes = ss, view_created = (\<lambda>_. True), view_added = (\<lambda>_. True),
     video_size = (\<lambda>_. None), group_created = True, encoder_request = None, nvenc_enabled = False, profile = None,
     output_directory = Some ''o/'', wall_clock = 1, later_clock = 2, consumer_address = 7\<rparr>"

definition demo_runtime :: "obs_scene list \<Rightarrow> (unit, unit) PluginCaptureRuntime" where
  "demo_runtime ss = snd (runtime_Initialize willing_obs plain_muxer (\<lambda>_. ()) (demo_readings ss)
     (new_runtime (demo_readings ss) ()))"

lemma demo_runtime:
  assumes "startable (demo_readings ss)"
  shows "runtime_run willing_obs plain_muxer (\<lambda>_. ()) (demo_runtime ss)" "control (demo_runtime ss) \<noteq> None"
    "\<not> capture_epoch_active (topology_model (demo_runtime ss))"
    "entries (current (topology_model (demo_runtime ss))) = entries (BuildSnapshot (DiscoverObsScenes ss) 0)"
proof -
  have "runtime_Initialize willing_obs plain_muxer (\<lambda>_. ()) (demo_readings ss) (new_runtime (demo_readings ss) ()) =
      (fst (runtime_Initialize willing_obs plain_muxer (\<lambda>_. ()) (demo_readings ss) (new_runtime (demo_readings ss) ())),
       demo_runtime ss)" by (simp add: demo_runtime_def)
  note out = initialize_out [OF this] this
  show "runtime_run willing_obs plain_muxer (\<lambda>_. ()) (demo_runtime ss)"
    using out assms by (metis runtime_run.initialized)
  show "control (demo_runtime ss) \<noteq> None" "\<not> capture_epoch_active (topology_model (demo_runtime ss))"
    "entries (current (topology_model (demo_runtime ss))) = entries (BuildSnapshot (DiscoverObsScenes ss) 0)"
    using out assms by (simp_all add: demo_readings_def)
qed

theorem runtime_starts_exactly_when_witness:
  "fst (runtime_Initialize willing_obs plain_muxer (\<lambda>_. ()) (demo_readings [])
     (new_runtime (demo_readings []) () :: (unit, unit) PluginCaptureRuntime))"
  using runtime_starts_exactly_when [of willing_obs plain_muxer "\<lambda>_. ()" "demo_readings []" "demo_readings []" "()"]
  by (simp add: demo_readings_def DiscoverObsScenes_def topology_scenes_def)

lemma startable_alone: "startable (demo_readings [])"
  by (simp add: startable_def demo_readings_def DiscoverObsScenes_def views_made_def topology_scenes_def)

subsection \<open>One topology\<close>

text \<open>C8. Whatever the order of commands, scene changes, configuration changes and background work: the
  engine of the runtime captures exactly the streams of the current topology, a capture epoch is open
  exactly while a consumer is on, and during an epoch those streams are the ones it began with.\<close>

theorem runtime_captures_one_topology:
  assumes "runtime_run obs env fresh rt" and "control rt = Some y"
  shows "system_run (plugin_controller obs) env fresh plugin_start y \<and>
    map stream_identity (configured (configuration (engine y))) = map identity (entries (current (topology_model rt))) \<and>
    (capture_epoch_active (topology_model rt) \<longleftrightarrow> recording_state (engine y) \<noteq> RecordingConsumerState.Off \<or>
       replay_state (engine y) \<noteq> ReplayConsumerState.Off) \<and>
    (capture_epoch_active (topology_model rt) \<longrightarrow> map stream_identity (configured (configuration (engine y))) =
       map identity (entries (active_epoch (topology_model rt))))"
proof -
  note parts = runtime_ok_parts [OF runtime_run_ok [OF assms(1)] assms(2)]
  have "participants (current (topology_model rt)) = participants (active_epoch (topology_model rt))"
    if "capture_epoch_active (topology_model rt)" using topology_run_ok [OF parts(1)] that by (simp add: topology_ok_def)
  note identities_participants [OF this]
  with parts(2,3,7) show ?thesis
    by (simp add: engine_of_def some_on_def IsRecordingActive_def IsReplayActive_def)
qed

theorem runtime_captures_one_topology_witness:
  "\<exists>y. control (demo_runtime []) = Some y \<and>
     map stream_identity (configured (configuration (engine y))) = [StreamIdentity_Master]"
proof -
  note demo = demo_runtime [OF startable_alone]
  from demo(2) obtain y where y: "control (demo_runtime []) = Some y" by blast
  from runtime_captures_one_topology [OF demo(1) y] y demo(4) show ?thesis
    by (simp add: DiscoverObsScenes_def BuildSnapshot_def master_entry_def)
qed

subsection \<open>A failed rebuild\<close>

lemma no_engine_step:
  "runtime_step obs env fresh rt st \<Longrightarrow> control rt = None \<Longrightarrow> control st = None"
  by (induction rule: runtime_step.induct)
    (simp_all add: runtime_StartRecording_def runtime_StopRecording_def start_replay_locked_def runtime_StopReplay_def
      save_replay_locked_def runtime_ApplyReplayConfiguration_def RefreshSceneTopology_def runtime_PollReplaySave_def
      runtime_Stop_def reset_control_def Let_def)

lemma no_engine_steps:
  "(runtime_step obs env fresh)\<^sup>*\<^sup>* rt st \<Longrightarrow> control rt = None \<Longrightarrow> control st = None"
  by (induction rule: rtranclp_induct) (blast intro: no_engine_step)+

text \<open>Every command and the topology refresh are refused, a configuration is stored for an engine that does not come, and
  the timer finds nothing to do: what the entry points of a runtime do that has no engine.\<close>

definition commands_refused :: "'o obs_encoders \<Rightarrow> 'w mkv_env \<Rightarrow> (nat \<Rightarrow> 'w) \<Rightarrow> readings \<Rightarrow>
    ('w, 'o) PluginCaptureRuntime \<Rightarrow> bool" where
  "commands_refused obs env fresh rd rt \<longleftrightarrow>
     (\<forall>command \<in> {runtime_StartRecording obs rd, runtime_StopRecording obs env fresh rd, ToggleRecording obs env fresh rd,
        runtime_StartReplay obs env fresh rd, start_replay_locked obs, runtime_StopReplay obs env fresh rd,
        ToggleReplay obs env fresh rd, RefreshSceneTopology obs env fresh rd}. fst (command rt) = not_initialized) \<and>
     map_option fst (runtime_SaveReplay obs env fresh rd rt) = Some not_initialized \<and>
     map_option fst (save_replay_locked rd rt) = Some not_initialized"

definition configuration_stored :: "'o obs_encoders \<Rightarrow> 'w mkv_env \<Rightarrow> (nat \<Rightarrow> 'w) \<Rightarrow> readings \<Rightarrow>
    ReplayConfiguration \<Rightarrow> ('w, 'o) PluginCaptureRuntime \<Rightarrow> bool" where
  "configuration_stored obs env fresh rd cfg rt \<longleftrightarrow>
     runtime_ApplyReplayConfiguration obs env fresh rd cfg rt =
       (if runtime_configuration rt = cfg then (answer NoOp ''replay-config-unchanged'', rt)
        else (answer Succeeded ''replay-config-stored'', rt\<lparr>runtime_configuration := cfg\<rparr>))"

lemma no_engine_configuration:
  assumes "control rt = None"
  shows "configuration_stored obs env fresh rd cfg rt" "control (snd (RefreshReplayConfiguration obs env fresh rd rt)) = None"
  using assms by (simp_all add: configuration_stored_def RefreshReplayConfiguration_def runtime_ApplyReplayConfiguration_def)

lemma no_engine_refuses:
  assumes "control rt = None"
  shows "commands_refused obs env fresh rd rt"
proof -
  have off: "runtime_recording_state rt = RecordingConsumerState.Off" "runtime_replay_state rt = ReplayConsumerState.Off"
    using assms by (simp_all add: runtime_recording_state_def runtime_replay_state_def)
  have "fst (start_replay_locked obs st) = not_initialized" "map_option fst (save_replay_locked rd st) = Some not_initialized"
    if "control st = None" for st
    using that by (simp_all add: start_replay_locked_def save_replay_locked_def)
  note locked = this [OF assms] this [OF no_engine_configuration(2) [OF assms]]
  show ?thesis
    using assms off locked
    by (simp add: commands_refused_def runtime_StartRecording_def runtime_StopRecording_def ToggleRecording_def runtime_StartReplay_def
        runtime_StopReplay_def ToggleReplay_def RefreshSceneTopology_def runtime_SaveReplay_def)
qed

text \<open>C32. A scene that is named \<open>master\<close> ends the runtime for good: the rebuild after its discovery fails,
  the old engine is gone by then, and whatever is called afterwards no engine comes back, even when the scene is
  renamed: every recording and replay command is refused, and so is every further refresh of the topology, which is what
  would rebuild the engine. Only a configuration is still taken, and all that is done with it is to store it; the
  timer does nothing.\<close>

theorem scene_named_master_ends_the_runtime:
  fixes rt :: "('w, 'o) PluginCaptureRuntime"
  assumes "control rt \<noteq> None" and idle: "\<not> capture_epoch_active (topology_model rt)"
    and ds: "ds = DiscoverObsScenes (obs_scenes rd)" and "''master'' \<in> scene_name ` set (topology_scenes ds)"
    and "fst (ApplyDiscovery ds False (topology_model rt)) \<noteq> Unchanged"
    and st: "RefreshSceneTopology obs env fresh rd rt = (r, st)"
  shows "r = answer ControlCommandStatus.Failed ''scene-topology-rebuild'' \<and>
    (\<forall>su rd cfg. (runtime_step obs env fresh)\<^sup>*\<^sup>* st su \<longrightarrow> control su = None \<and>
       commands_refused obs env fresh rd su \<and> configuration_stored obs env fresh rd cfg su \<and>
       runtime_PollReplaySave env fresh rd su = su)"
proof -
  let ?m = "topology_model rt"
  let ?rt = "rt\<lparr>topology_model := snd (ApplyDiscovery ds False ?m)\<rparr>"
  obtain y where y: "control rt = Some y" using assms(1) by blast
  obtain b su where b: "install_and_build rd ds (reset_control obs env fresh rd ?rt) = (b, su)" by fastforce
  have entries: "entries (current (topology_model (reset_control obs env fresh rd ?rt))) =
      entries (BuildSnapshot ds (generation (current ?m) + 1))"
    using assms(5) by (simp add: reset_control_frame ApplyDiscovery_cases split: if_splits)
  have "\<not> distinct (''master'' # map scene_name (topology_scenes ds))" using assms(4) by simp
  then have "\<not> b" using rebuild_iff [OF entries, of rd] unfolding b fst_conv by blast
  moreover have "control su = None"
  proof -
    have "control (reset_control obs env fresh rd ?rt) = None" by (rule reset_control_frame)
    with b \<open>\<not> b\<close> show ?thesis
      by (auto simp: install_and_build_def InstallSceneTargets_def BuildControlState_def Let_def case_prod_beta
          split: option.splits if_splits)
  qed
  moreover have "(r, st) = (if b then answer Succeeded ''scene-topology-applied''
      else answer ControlCommandStatus.Failed ''scene-topology-rebuild'', su)"
    using st y idle assms(5) b ds by (simp add: RefreshSceneTopology_def Let_def case_prod_beta)
  ultimately have "r = answer ControlCommandStatus.Failed ''scene-topology-rebuild''" "control st = None" by auto
  moreover have "runtime_PollReplaySave env fresh rd su = su" if "control su = None" for su rd
    using that by (simp add: runtime_PollReplaySave_def)
  ultimately show ?thesis
    using no_engine_steps [of obs env fresh st] no_engine_refuses no_engine_configuration(1) by blast
qed

theorem scene_named_master_ends_the_runtime_witness:
  "case RefreshSceneTopology willing_obs plain_muxer (\<lambda>_. ()) (demo_readings
     [\<lparr>source_uuid = Some ''u'', source_name = Some ''master'', source_ref = True\<rparr>]) (demo_runtime []) of (r, st) \<Rightarrow>
     r = answer ControlCommandStatus.Failed ''scene-topology-rebuild'' \<and>
     fst (RefreshSceneTopology willing_obs plain_muxer (\<lambda>_. ()) (demo_readings []) st) = not_initialized \<and>
     fst (ToggleRecording willing_obs plain_muxer (\<lambda>_. ()) (demo_readings []) st) = not_initialized"
proof -
  let ?rd = "demo_readings [\<lparr>source_uuid = Some ''u'', source_name = Some ''master'', source_ref = True\<rparr>]"
  let ?ds = "DiscoverObsScenes (obs_scenes ?rd)"
  note demo = demo_runtime [OF startable_alone]
  have ds: "?ds = [\<lparr>uuid = ''u'', scene_name = ''master''\<rparr>]"
    by (simp add: demo_readings_def DiscoverObsScenes_def CollectScene_def)
  have named: "''master'' \<in> scene_name ` set (topology_scenes ?ds)" by (simp add: ds topology_scenes_def)
  have new: "fst (ApplyDiscovery ?ds False (topology_model (demo_runtime []))) \<noteq> Unchanged"
    using demo(4) unfolding ds ApplyDiscovery_cases by (simp add: snapshot_entries DiscoverObsScenes_def)
  obtain r st where st: "RefreshSceneTopology willing_obs plain_muxer (\<lambda>_. ()) ?rd (demo_runtime []) = (r, st)" by fastforce
  from scene_named_master_ends_the_runtime [OF demo(2,3) refl named new st]
  have "r = answer ControlCommandStatus.Failed ''scene-topology-rebuild''"
    "commands_refused willing_obs plain_muxer (\<lambda>_. ()) (demo_readings []) st" by blast+
  then show ?thesis unfolding st commands_refused_def by simp
qed

subsection \<open>Output files\<close>

text \<open>The output paths of a consumer are one per stream it takes part in, and they are distinct exactly
  when the stream names stay distinct after the characters a file name cannot hold are replaced: two scenes
  whose names differ only in such characters are given the same file.\<close>

theorem output_paths_distinct_iff:
  assumes "control rt = Some y" and "output_directory rd = Some dir"
    and "ss = filter (\<lambda>s. StreamParticipates (mode s) u) (configured (configuration (engine y)))"
  shows "length (OutputPaths rd u stem rt) = length ss \<and>
    (distinct (OutputPaths rd u stem rt) \<longleftrightarrow> distinct (map (FileNameComponent \<circ> configured_name) ss))"
proof -
  have paths: "OutputPaths rd u stem rt =
      map (\<lambda>n. dir @ stem @ ''-'' @ n @ ''.mkv'') (map (FileNameComponent \<circ> configured_name) ss)"
    using assms by (simp add: OutputPaths_def)
  have "distinct (map (\<lambda>n. dir @ stem @ ''-'' @ n @ ''.mkv'') ns) \<longleftrightarrow> distinct ns" for ns
    by (simp add: distinct_map inj_on_def)
  then have "distinct (OutputPaths rd u stem rt) \<longleftrightarrow> distinct (map (FileNameComponent \<circ> configured_name) ss)"
    unfolding paths by blast
  then show ?thesis by (simp add: paths)
qed

definition demo_scene :: "string \<Rightarrow> string \<Rightarrow> obs_scene" where
  "demo_scene u n = \<lparr>source_uuid = Some u, source_name = Some n, source_ref = True\<rparr>"

lemma demo_names: "map_option (\<lambda>y. map configured_name (filter (\<lambda>s. StreamParticipates (mode s) CaptureConsumer.Recording)
    (configured (configuration (engine y))))) (control (demo_runtime [demo_scene ''u'' ''a:b'', demo_scene ''v'' ''a/b''])) =
  Some [''master'', ''a:b'', ''a/b'']"
  by code_simp

theorem output_paths_distinct_iff_witness:
  "\<not> distinct (OutputPaths (demo_readings []) CaptureConsumer.Recording ''r''
     (demo_runtime [demo_scene ''u'' ''a:b'', demo_scene ''v'' ''a/b'']))"
proof -
  let ?rt = "demo_runtime [demo_scene ''u'' ''a:b'', demo_scene ''v'' ''a/b'']"
  obtain y where y: "control ?rt = Some y"
    and names: "map configured_name (filter (\<lambda>s. StreamParticipates (mode s) CaptureConsumer.Recording)
      (configured (configuration (engine y)))) = [''master'', ''a:b'', ''a/b'']"
    using demo_names by auto
  have "\<not> distinct (map FileNameComponent [''master'', ''a:b'', ''a/b''])" by (simp add: FileNameComponent_def)
  moreover have "output_directory (demo_readings []) = Some ''o/''" by (simp add: demo_readings_def)
  ultimately show ?thesis
    using output_paths_distinct_iff [OF y _ refl, of "demo_readings []" "''o/''" CaptureConsumer.Recording "''r''"]
    unfolding names [symmetric] by simp
qed

end
