(* ===== verification/CaptureControlsUi.thy ===== *)
theory CaptureControlsUi
  imports PluginRuntimeProperties
begin

text \<open>
  The plugin's controls: \<open>src/ui/capture-controls-localization.hpp\<close>, \<open>src/ui/capture-controls-state.hpp\<close>
  and \<open>src/ui/capture-controls.cpp\<close>. Qt is left out but for what the user can press: a button that is
  not enabled emits no click.
\<close>

subsection \<open>Labels\<close>

record CaptureControlsLabels =
  start_recording_label :: string
  stop_recording_label :: string
  stopping_recording_label :: string
  start_replay_buffer_label :: string
  stop_replay_buffer_label :: string
  stopping_replay_buffer_label :: string
  save_replay_label :: string
  starting_recording_label :: string
  starting_replay_buffer_label :: string
  saving_replay_label :: string
  recording_unavailable_label :: string
  replay_buffer_unavailable_label :: string
  action_unavailable_label :: string
  recording_tooltip_label :: string
  replay_tooltip_label :: string

text \<open>A lookup may be an empty function, and may answer a null pointer.\<close>

type_synonym locale_lookup = "(string \<Rightarrow> string option) option"

definition plugin_label :: "locale_lookup \<Rightarrow> string \<Rightarrow> string \<Rightarrow> string" where
  "plugin_label lookup k fallback =
     (case lookup of
        None \<Rightarrow> fallback
      | Some f \<Rightarrow> (case f k of None \<Rightarrow> fallback | Some v \<Rightarrow> if v \<noteq> [] \<and> v \<noteq> k then v else fallback))"

definition frontend_label :: "locale_lookup \<Rightarrow> string \<Rightarrow> string \<Rightarrow> string" where
  "frontend_label lookup unavailable k =
     (case lookup of
        None \<Rightarrow> unavailable
      | Some f \<Rightarrow> (case f k of None \<Rightarrow> unavailable | Some v \<Rightarrow> if v \<noteq> [] then v else unavailable))"

definition ResolveCaptureControlsLabels :: "locale_lookup \<Rightarrow> locale_lookup \<Rightarrow> CaptureControlsLabels" where
  "ResolveCaptureControlsLabels frontend_lookup plugin_lookup =
     (let plugin = plugin_label plugin_lookup;
          action_unavailable = plugin ''UI.Capture.ActionUnavailable'' ''Capture action unavailable'';
          frontend = frontend_label frontend_lookup action_unavailable
      in \<lparr>start_recording_label = frontend ''Basic.Main.StartRecording'',
          stop_recording_label = frontend ''Basic.Main.StopRecording'',
          stopping_recording_label = frontend ''Basic.Main.StoppingRecording'',
          start_replay_buffer_label = frontend ''Basic.Main.StartReplayBuffer'',
          stop_replay_buffer_label = frontend ''Basic.Main.StopReplayBuffer'',
          stopping_replay_buffer_label = frontend ''Basic.Main.StoppingReplayBuffer'',
          save_replay_label = frontend ''Basic.Main.SaveReplay'',
          starting_recording_label = plugin ''UI.Capture.StartingRecording'' ''Starting capture...'',
          starting_replay_buffer_label = plugin ''UI.Capture.StartingReplayBuffer'' ''Starting replay buffer...'',
          saving_replay_label = plugin ''UI.Capture.SavingReplay'' ''Saving replay...'',
          recording_unavailable_label = plugin ''UI.Capture.RecordingUnavailable'' ''Recording unavailable'',
          replay_buffer_unavailable_label =
            plugin ''UI.Capture.ReplayBufferUnavailable'' ''Replay buffer unavailable'',
          action_unavailable_label = action_unavailable,
          recording_tooltip_label =
            plugin ''Controls.PluginOwned.RecordingTooltip'' ''Recording is handled by OBS Sync Replay plugin'',
          replay_tooltip_label =
            plugin ''Controls.PluginOwned.ReplayTooltip'' ''Replay Buffer is handled by OBS Sync Replay plugin''\<rparr>)"

subsection \<open>Presentation\<close>

datatype CaptureControlVisualState = Inactive | Starting | Active | Saving | Stopping | Failed

definition CaptureControlUsesNativeActiveStyle :: "CaptureControlVisualState \<Rightarrow> bool" where
  "CaptureControlUsesNativeActiveStyle s \<longleftrightarrow> s = CaptureControlVisualState.Active \<or>
     s = CaptureControlVisualState.Saving \<or> s = CaptureControlVisualState.Stopping"

record CaptureButtonPresentation =
  visual_state :: CaptureControlVisualState
  button_text :: string
  button_enabled :: bool
  button_visible :: bool
  plugin_owned_help_tooltip :: string

record CaptureControlsPresentation =
  recording_button :: CaptureButtonPresentation
  replay_button :: CaptureButtonPresentation
  save_replay_text :: string
  save_replay_visible :: bool
  save_replay_enabled :: bool

definition button :: "CaptureControlVisualState \<Rightarrow> string \<Rightarrow> bool \<Rightarrow> bool \<Rightarrow> string \<Rightarrow> CaptureButtonPresentation" where
  "button s t e v h = \<lparr>visual_state = s, button_text = t, button_enabled = e, button_visible = v,
     plugin_owned_help_tooltip = h\<rparr>"

definition recording_presentation :: "CaptureInfrastructureState \<Rightarrow> RecordingConsumerState \<Rightarrow> bool \<Rightarrow>
    CaptureControlsLabels \<Rightarrow> CaptureButtonPresentation" where
  "recording_presentation infrastructure recording recording_failed labels =
     (let tip = recording_tooltip_label labels in
      if infrastructure = CaptureInfrastructureState.Failed \<or> recording_failed
      then button CaptureControlVisualState.Failed (recording_unavailable_label labels) False True tip
      else (case recording of
          RecordingConsumerState.Off \<Rightarrow> button Inactive (start_recording_label labels) True True tip
        | RecordingConsumerState.Starting \<Rightarrow>
            button CaptureControlVisualState.Starting (starting_recording_label labels) False True tip
        | RecordingConsumerState.Running \<Rightarrow>
            button CaptureControlVisualState.Active (stop_recording_label labels) True True tip
        | RecordingConsumerState.Stopping \<Rightarrow>
            button CaptureControlVisualState.Stopping (stopping_recording_label labels) False True tip))"

definition replay_presentation :: "CaptureInfrastructureState \<Rightarrow> ReplayConsumerState \<Rightarrow> bool \<Rightarrow> bool \<Rightarrow>
    CaptureControlsLabels \<Rightarrow> CaptureButtonPresentation" where
  "replay_presentation infrastructure replay available replay_failed labels =
     (let tip = replay_tooltip_label labels in
      if \<not> available then button Inactive (replay_buffer_unavailable_label labels) False False tip
      else if infrastructure = CaptureInfrastructureState.Failed \<or> replay_failed
      then button CaptureControlVisualState.Failed (replay_buffer_unavailable_label labels) False True tip
      else (case replay of
          ReplayConsumerState.Off \<Rightarrow> button Inactive (start_replay_buffer_label labels) True True tip
        | ReplayConsumerState.Starting \<Rightarrow>
            button CaptureControlVisualState.Starting (starting_replay_buffer_label labels) False True tip
        | ReplayConsumerState.Running \<Rightarrow>
            button CaptureControlVisualState.Active (stop_replay_buffer_label labels) True True tip
        | ReplayConsumerState.Saving \<Rightarrow>
            button CaptureControlVisualState.Saving (stop_replay_buffer_label labels) False True tip
        | ReplayConsumerState.Stopping \<Rightarrow>
            button CaptureControlVisualState.Stopping (stopping_replay_buffer_label labels) False True tip))"

definition MakeCaptureControlsPresentation :: "CaptureInfrastructureState \<Rightarrow> RecordingConsumerState \<Rightarrow>
    ReplayConsumerState \<Rightarrow> bool \<Rightarrow> bool \<Rightarrow> bool \<Rightarrow> CaptureControlsLabels \<Rightarrow> CaptureControlsPresentation" where
  "MakeCaptureControlsPresentation infrastructure recording replay available recording_failed replay_failed labels =
     (let shows_replay = available \<and> \<not> (infrastructure = CaptureInfrastructureState.Failed \<or> replay_failed)
      in \<lparr>recording_button = recording_presentation infrastructure recording recording_failed labels,
          replay_button = replay_presentation infrastructure replay available replay_failed labels,
          save_replay_text = save_replay_label labels,
          save_replay_visible = (shows_replay \<and> (replay = ReplayConsumerState.Running \<or>
            replay = ReplayConsumerState.Saving \<or> replay = ReplayConsumerState.Stopping)),
          save_replay_enabled = (shows_replay \<and> replay = ReplayConsumerState.Running)\<rparr>)"

definition button_classes :: "string \<Rightarrow> CaptureControlVisualState \<Rightarrow> string" where
  "button_classes base s =
     (let state_class = (if CaptureControlUsesNativeActiveStyle s then ''state-active''
                         else if s = CaptureControlVisualState.Failed then ''text-danger'' else [])
      in if state_class = [] then base
         else (if base \<noteq> [] then base @ '' '' else base) @ state_class)"

subsection \<open>The controls\<close>

text \<open>
  \<open>shown\<close> is what was last presented: nothing before the first presentation, when the two toggle buttons are
  as Qt makes them, enabled.
\<close>

record CaptureControls =
  shown :: "CaptureControlsPresentation option"
  controls_disabled :: bool
  recording_failed :: bool
  replay_failed :: bool

definition new_controls :: CaptureControls where
  "new_controls = \<lparr>shown = None, controls_disabled = False, recording_failed = False, replay_failed = False\<rparr>"

definition recording_clickable :: "CaptureControls \<Rightarrow> bool" where
  "recording_clickable u \<longleftrightarrow> \<not> controls_disabled u \<and>
     (case shown u of None \<Rightarrow> True | Some p \<Rightarrow> button_enabled (recording_button p))"

definition replay_clickable :: "CaptureControls \<Rightarrow> bool" where
  "replay_clickable u \<longleftrightarrow> \<not> controls_disabled u \<and>
     (case shown u of None \<Rightarrow> True | Some p \<Rightarrow> button_enabled (replay_button p))"

definition save_clickable :: "CaptureControls \<Rightarrow> bool" where
  "save_clickable u \<longleftrightarrow> \<not> controls_disabled u \<and>
     (case shown u of None \<Rightarrow> False | Some p \<Rightarrow> save_replay_enabled p \<and> save_replay_visible p)"

definition DisableControls :: "CaptureControls \<Rightarrow> CaptureControls" where
  "DisableControls u = u\<lparr>controls_disabled := True\<rparr>"

definition ApplyPresentation :: "CaptureControlsLabels \<Rightarrow> ('w, 'o) PluginCaptureRuntime \<Rightarrow> CaptureControls \<Rightarrow>
    CaptureControls" where
  "ApplyPresentation labels rt u =
     (if controls_disabled u then u
      else u\<lparr>shown := Some (MakeCaptureControlsPresentation (runtime_capture_state rt) (runtime_recording_state rt)
        (runtime_replay_state rt) (runtime_replay_available rt) (recording_failed u) (replay_failed u) labels)\<rparr>)"

definition Report :: "CaptureControlsLabels \<Rightarrow> string \<Rightarrow> ControlCommandResult \<Rightarrow>
    ('w, 'o) PluginCaptureRuntime \<Rightarrow> CaptureControls \<Rightarrow> CaptureControls" where
  "Report labels action result rt u =
     (let failed = (status result = ControlCommandStatus.Failed \<or> status result = InvalidState);
          u = (if action = ''recording-toggle'' then u\<lparr>recording_failed := failed\<rparr> else u);
          u = (if action = ''replay-toggle'' then u\<lparr>replay_failed := failed\<rparr> else u)
      in ApplyPresentation labels rt u)"

definition InvokeRecording :: "'o obs_encoders \<Rightarrow> 'w mkv_env \<Rightarrow> (nat \<Rightarrow> 'w) \<Rightarrow> readings \<Rightarrow> CaptureControlsLabels \<Rightarrow>
    CaptureControls \<times> ('w, 'o) PluginCaptureRuntime \<Rightarrow> CaptureControls \<times> ('w, 'o) PluginCaptureRuntime" where
  "InvokeRecording obs env fresh rd labels = (\<lambda>(u, rt).
     let (r, rt) = ToggleRecording obs env fresh rd rt in (Report labels ''recording-toggle'' r rt u, rt))"

definition InvokeReplayToggle :: "'o obs_encoders \<Rightarrow> 'w mkv_env \<Rightarrow> (nat \<Rightarrow> 'w) \<Rightarrow> readings \<Rightarrow> CaptureControlsLabels \<Rightarrow>
    CaptureControls \<times> ('w, 'o) PluginCaptureRuntime \<Rightarrow> CaptureControls \<times> ('w, 'o) PluginCaptureRuntime" where
  "InvokeReplayToggle obs env fresh rd labels = (\<lambda>(u, rt).
     let (r, rt) = ToggleReplay obs env fresh rd rt in (Report labels ''replay-toggle'' r rt u, rt))"

definition InvokeReplaySave :: "'o obs_encoders \<Rightarrow> 'w mkv_env \<Rightarrow> (nat \<Rightarrow> 'w) \<Rightarrow> readings \<Rightarrow> CaptureControlsLabels \<Rightarrow>
    CaptureControls \<times> ('w, 'o) PluginCaptureRuntime \<Rightarrow> (CaptureControls \<times> ('w, 'o) PluginCaptureRuntime) option" where
  "InvokeReplaySave obs env fresh rd labels = (\<lambda>(u, rt).
     map_option (\<lambda>(r, rt). (Report labels ''replay-save'' r rt u, rt)) (runtime_SaveReplay obs env fresh rd rt))"

text \<open>The refresh timer; the timer is stopped when the controls are disabled.\<close>

definition refresh_tick :: "'o obs_encoders \<Rightarrow> 'w mkv_env \<Rightarrow> (nat \<Rightarrow> 'w) \<Rightarrow> readings \<Rightarrow> CaptureControlsLabels \<Rightarrow>
    CaptureControls \<times> ('w, 'o) PluginCaptureRuntime \<Rightarrow> CaptureControls \<times> ('w, 'o) PluginCaptureRuntime" where
  "refresh_tick obs env fresh rd labels = (\<lambda>(u, rt).
     let rt = snd (RefreshSceneTopology obs env fresh rd rt);
         rt = snd (RefreshReplayConfiguration obs env fresh rd rt);
         rt = runtime_PollReplaySave env fresh rd rt
     in (ApplyPresentation labels rt u, rt))"

text \<open>What can happen to the controls and their runtime; hotkeys and threads act on the runtime alone.\<close>

inductive ui_step :: "'o obs_encoders \<Rightarrow> 'w mkv_env \<Rightarrow> (nat \<Rightarrow> 'w) \<Rightarrow>
    CaptureControls \<times> ('w, 'o) PluginCaptureRuntime \<Rightarrow> CaptureControls \<times> ('w, 'o) PluginCaptureRuntime \<Rightarrow> bool"
  for obs env fresh where
  recording_click: "recording_clickable (fst s) \<Longrightarrow> ui_step obs env fresh s (InvokeRecording obs env fresh rd labels s)"
| replay_click: "replay_clickable (fst s) \<Longrightarrow> ui_step obs env fresh s (InvokeReplayToggle obs env fresh rd labels s)"
| save_click: "save_clickable (fst s) \<Longrightarrow> InvokeReplaySave obs env fresh rd labels s = Some t \<Longrightarrow> ui_step obs env fresh s t"
| tick: "\<not> controls_disabled (fst s) \<Longrightarrow> ui_step obs env fresh s (refresh_tick obs env fresh rd labels s)"
| refresh_now: "ui_step obs env fresh (u, rt) (ApplyPresentation labels rt u, rt)"
| disable: "ui_step obs env fresh (u, rt) (DisableControls u, rt)"
| beside: "runtime_step obs env fresh rt st \<Longrightarrow> ui_step obs env fresh (u, rt) (u, st)"

subsection \<open>A failed toggle\<close>

definition gave_up :: "CaptureControls \<Rightarrow> bool" where
  "gave_up u \<longleftrightarrow> recording_failed u \<and> \<not> recording_clickable u"

lemma ApplyPresentation_gave_up: "recording_failed u \<Longrightarrow> gave_up (ApplyPresentation labels rt u)"
  by (simp add: gave_up_def ApplyPresentation_def recording_clickable_def MakeCaptureControlsPresentation_def
      recording_presentation_def button_def Let_def)

lemma Report_gave_up:
  "gave_up u \<Longrightarrow> action \<noteq> ''recording-toggle'' \<Longrightarrow> gave_up (Report labels action r rt u)"
  by (simp add: Report_def Let_def gave_up_def ApplyPresentation_gave_up [unfolded gave_up_def])

lemma ui_step_gave_up:
  assumes "ui_step obs env fresh s t" and "gave_up (fst s)"
  shows "gave_up (fst t)"
  using assms
proof (induction rule: ui_step.induct)
  case (recording_click s rd labels)
  then show ?case by (simp add: gave_up_def)
next
  case (replay_click s rd labels)
  then show ?case by (auto simp: InvokeReplayToggle_def case_prod_beta intro!: Report_gave_up)
next
  case (save_click s rd labels t)
  then show ?case by (auto simp: InvokeReplaySave_def case_prod_beta intro!: Report_gave_up)
next
  case (tick s rd labels)
  then show ?case by (auto simp: refresh_tick_def Let_def case_prod_beta gave_up_def intro!: ApplyPresentation_gave_up [unfolded gave_up_def])
next
  case (refresh_now u rt labels)
  then show ?case by (auto simp: gave_up_def intro!: ApplyPresentation_gave_up [unfolded gave_up_def])
qed (simp_all add: gave_up_def DisableControls_def recording_clickable_def)

text \<open>C36. A recording toggle that is refused once takes the recording button away for the life of the
  controls: the button is disabled by the very presentation that reports the failure, and as only its own
  click clears the failure, no click, timer tick, hotkey or background step ever enables it again, whatever
  state the capture is in.\<close>

theorem failed_toggle_disables_the_button:
  assumes "(u, rt) = InvokeRecording obs env fresh rd labels s"
    and "\<not> command_ok (fst (ToggleRecording obs env fresh rd (snd s)))"
    and "(ui_step obs env fresh)\<^sup>*\<^sup>* (u, rt) (v, st)"
  shows "\<not> recording_clickable v"
proof -
  have "gave_up u"
  proof -
    obtain r rt' where r: "ToggleRecording obs env fresh rd (snd s) = (r, rt')" by fastforce
    with assms(2) have "status r = ControlCommandStatus.Failed \<or> status r = InvalidState"
      by (cases "status r") (simp_all add: command_ok_def)
    with assms(1) r have "u = ApplyPresentation labels rt ((fst s)\<lparr>recording_failed := True\<rparr>)"
      by (simp add: InvokeRecording_def case_prod_beta Report_def Let_def)
    then show ?thesis by (simp add: ApplyPresentation_gave_up)
  qed
  have "gave_up (fst t)" if "(ui_step obs env fresh)\<^sup>*\<^sup>* (u, rt) t" for t
    using that by (induction rule: rtranclp_induct) (simp_all add: \<open>gave_up u\<close> ui_step_gave_up)
  from this [OF assms(3)] show ?thesis by (simp add: gave_up_def)
qed

definition no_directory :: readings where
  "no_directory = (demo_readings [])\<lparr>output_directory := None\<rparr>"

lemma toggle_without_directory:
  "status (fst (ToggleRecording willing_obs plain_muxer (\<lambda>_. ()) no_directory (demo_runtime []))) = InvalidState"
  by code_simp

theorem failed_toggle_disables_the_button_witness:
  "\<not> recording_clickable (fst (refresh_tick willing_obs plain_muxer (\<lambda>_. ()) (demo_readings [])
     (ResolveCaptureControlsLabels None None)
     (InvokeRecording willing_obs plain_muxer (\<lambda>_. ()) no_directory (ResolveCaptureControlsLabels None None)
       (new_controls, demo_runtime []))))"
proof -
  let ?l = "ResolveCaptureControlsLabels None None" and ?s = "(new_controls, demo_runtime [])"
  let ?i = "InvokeRecording willing_obs plain_muxer (\<lambda>_. ()) no_directory ?l ?s"
  let ?t = "refresh_tick willing_obs plain_muxer (\<lambda>_. ()) (demo_readings []) ?l ?i"
  obtain u rt where i: "?i = (u, rt)" by fastforce
  obtain v st where t: "?t = (v, st)" by fastforce
  have "\<not> command_ok (fst (ToggleRecording willing_obs plain_muxer (\<lambda>_. ()) no_directory (snd ?s)))"
    using toggle_without_directory by (simp add: command_ok_def)
  moreover have "\<not> controls_disabled u"
    using i by (auto simp: InvokeRecording_def case_prod_beta Report_def ApplyPresentation_def new_controls_def)
  then have "ui_step willing_obs plain_muxer (\<lambda>_. ()) (u, rt) (v, st)"
    using ui_step.tick [of "(u, rt)" willing_obs plain_muxer "\<lambda>_. ()" "demo_readings []" ?l] i t by simp
  then have "(ui_step willing_obs plain_muxer (\<lambda>_. ()))\<^sup>*\<^sup>* (u, rt) (v, st)" by (rule r_into_rtranclp)
  ultimately have "\<not> recording_clickable v" by (rule failed_toggle_disables_the_button [OF i [symmetric]])
  then show ?thesis by (simp add: t)
qed

end
