(* ===== verification/PluginMain.thy ===== *)
theory PluginMain
  imports CaptureControlsUi
begin

text \<open>
  \<open>src/plugin/plugin-main.cpp\<close>: the module's globals, the OBS frontend events, the hotkeys and the life of
  the runtime and its controls. What Qt answers when the native controls are looked for and replaced, and
  which hotkeys libobs registers, are arguments; an exception of the integration is an answer like any other
  failure to replace the controls.
\<close>

subsection \<open>Hotkeys\<close>

definition OnStartRecordingHotkey :: "'o obs_encoders \<Rightarrow> readings \<Rightarrow> bool \<Rightarrow> ('w, 'o) PluginCaptureRuntime \<Rightarrow>
    bool \<times> ('w, 'o) PluginCaptureRuntime" where
  "OnStartRecordingHotkey obs rd pressed rt =
     (if \<not> pressed \<or> runtime_recording_state rt \<noteq> RecordingConsumerState.Off then (False, rt)
      else (True, snd (runtime_StartRecording obs rd rt)))"

definition OnStopRecordingHotkey :: "'o obs_encoders \<Rightarrow> 'w mkv_env \<Rightarrow> (nat \<Rightarrow> 'w) \<Rightarrow> readings \<Rightarrow> bool \<Rightarrow>
    ('w, 'o) PluginCaptureRuntime \<Rightarrow> bool \<times> ('w, 'o) PluginCaptureRuntime" where
  "OnStopRecordingHotkey obs env fresh rd pressed rt =
     (if \<not> pressed \<or> runtime_recording_state rt \<noteq> RecordingConsumerState.Running then (False, rt)
      else (True, snd (runtime_StopRecording obs env fresh rd rt)))"

definition OnStartReplayHotkey :: "'o obs_encoders \<Rightarrow> 'w mkv_env \<Rightarrow> (nat \<Rightarrow> 'w) \<Rightarrow> readings \<Rightarrow> bool \<Rightarrow>
    ('w, 'o) PluginCaptureRuntime \<Rightarrow> bool \<times> ('w, 'o) PluginCaptureRuntime" where
  "OnStartReplayHotkey obs env fresh rd pressed rt =
     (if \<not> pressed then (False, rt)
      else
        (let rt = snd (RefreshReplayConfiguration obs env fresh rd rt)
         in if \<not> runtime_replay_available rt then (False, rt)
            else if runtime_replay_state rt \<noteq> ReplayConsumerState.Off then (False, rt)
            else (True, snd (runtime_StartReplay obs env fresh rd rt))))"

definition OnStopReplayHotkey :: "'o obs_encoders \<Rightarrow> 'w mkv_env \<Rightarrow> (nat \<Rightarrow> 'w) \<Rightarrow> readings \<Rightarrow> bool \<Rightarrow>
    ('w, 'o) PluginCaptureRuntime \<Rightarrow> bool \<times> ('w, 'o) PluginCaptureRuntime" where
  "OnStopReplayHotkey obs env fresh rd pressed rt =
     (if \<not> pressed then (False, rt)
      else
        (let rt = snd (RefreshReplayConfiguration obs env fresh rd rt)
         in if \<not> runtime_replay_available rt \<or> runtime_replay_state rt \<noteq> ReplayConsumerState.Running then (False, rt)
            else (True, snd (runtime_StopReplay obs env fresh rd rt))))"

definition OnSaveReplayHotkey :: "'o obs_encoders \<Rightarrow> 'w mkv_env \<Rightarrow> (nat \<Rightarrow> 'w) \<Rightarrow> readings \<Rightarrow> bool \<Rightarrow>
    ('w, 'o) PluginCaptureRuntime \<Rightarrow> ('w, 'o) PluginCaptureRuntime option" where
  "OnSaveReplayHotkey obs env fresh rd pressed rt =
     (if \<not> pressed then Some rt
      else
        (let rt = snd (RefreshReplayConfiguration obs env fresh rd rt)
         in if \<not> runtime_replay_available rt \<or> runtime_replay_state rt \<noteq> ReplayConsumerState.Running then Some rt
            else map_option snd (runtime_SaveReplay obs env fresh rd rt)))"

subsection \<open>The module\<close>

record start_answers =
  controls_located :: bool
  controls_installed :: bool
  registered_hotkeys :: "bool \<times> bool \<times> bool"

record ('w, 'o) plugin =
  capture_runtime :: "('w, 'o) PluginCaptureRuntime option"
  controls_adapter :: bool
  capture_controls :: "CaptureControls option"
  shutdown_requested :: bool
  frontend_registered :: bool
  hotkeys :: "bool \<times> bool \<times> bool"
  plugin_libobs :: 'o

text \<open>After \<open>obs_module_load\<close> and \<open>obs_module_post_load\<close>.\<close>

definition plugin_loaded :: "'o \<Rightarrow> ('w, 'o) plugin" where
  "plugin_loaded lib = \<lparr>capture_runtime = None, controls_adapter = False, capture_controls = None,
     shutdown_requested = False, frontend_registered = True, hotkeys = (False, False, False), plugin_libobs = lib\<rparr>"

definition StopPluginOwnedRuntime :: "'o obs_encoders \<Rightarrow> 'w mkv_env \<Rightarrow> (nat \<Rightarrow> 'w) \<Rightarrow> readings \<Rightarrow>
    ('w, 'o) plugin \<Rightarrow> ('w, 'o) plugin" where
  "StopPluginOwnedRuntime obs env fresh rd p =
     (if capture_runtime p = None \<and> capture_controls p = None \<and> \<not> controls_adapter p then p
      else if shutdown_requested p then p
      else p\<lparr>shutdown_requested := True, hotkeys := (False, False, False), capture_controls := None,
             controls_adapter := False, capture_runtime := None,
             plugin_libobs := (case capture_runtime p of None \<Rightarrow> plugin_libobs p
               | Some rt \<Rightarrow> runtime_libobs (runtime_Stop obs env fresh rd rt))\<rparr>)"

definition RegisterPluginHotkeys :: "start_answers \<Rightarrow> ('w, 'o) plugin \<Rightarrow> ('w, 'o) plugin" where
  "RegisterPluginHotkeys ans p = (if capture_runtime p = None then p else p\<lparr>hotkeys := registered_hotkeys ans\<rparr>)"

definition StartPluginOwnedRuntime :: "'o obs_encoders \<Rightarrow> 'w mkv_env \<Rightarrow> (nat \<Rightarrow> 'w) \<Rightarrow> readings \<Rightarrow> start_answers \<Rightarrow>
    ('w, 'o) plugin \<Rightarrow> ('w, 'o) plugin" where
  "StartPluginOwnedRuntime obs env fresh rd ans p =
     (if shutdown_requested p \<or> capture_runtime p \<noteq> None then p
      else
        (let (ok, rt) = runtime_Initialize obs env fresh rd (new_runtime rd (plugin_libobs p))
         in if \<not> ok then p\<lparr>plugin_libobs := runtime_libobs rt\<rparr>
            else
              (let replaced = controls_located ans \<and> controls_installed ans
               in RegisterPluginHotkeys ans
                    (p\<lparr>capture_runtime := Some rt, controls_adapter := replaced,
                       capture_controls := (if replaced then Some new_controls else None)\<rparr>))))"

datatype obs_frontend_event = Exit | ProfileChanging | SceneCollectionCleanup | ProfileChanged
  | SceneCollectionChanged | FinishedLoading | OtherEvent

definition with_runtime :: "(('w, 'o) PluginCaptureRuntime \<Rightarrow> ('w, 'o) PluginCaptureRuntime) \<Rightarrow>
    ('w, 'o) plugin \<Rightarrow> ('w, 'o) plugin" where
  "with_runtime f p = p\<lparr>capture_runtime := map_option f (capture_runtime p)\<rparr>"

definition OnFrontendEvent :: "'o obs_encoders \<Rightarrow> 'w mkv_env \<Rightarrow> (nat \<Rightarrow> 'w) \<Rightarrow> readings \<Rightarrow> start_answers \<Rightarrow>
    obs_frontend_event \<Rightarrow> ('w, 'o) plugin \<Rightarrow> ('w, 'o) plugin" where
  "OnFrontendEvent obs env fresh rd ans ev p =
     (if ev = Exit then (StopPluginOwnedRuntime obs env fresh rd p)\<lparr>frontend_registered := False\<rparr>
      else if ev = ProfileChanging \<or> ev = SceneCollectionCleanup
      then (StopPluginOwnedRuntime obs env fresh rd p)\<lparr>shutdown_requested := False\<rparr>
      else if ev = ProfileChanged
      then (if capture_runtime p \<noteq> None then with_runtime (\<lambda>rt. snd (RefreshReplayConfiguration obs env fresh rd rt)) p
            else StartPluginOwnedRuntime obs env fresh rd ans p)
      else if ev = SceneCollectionChanged
      then (if capture_runtime p \<noteq> None then with_runtime (\<lambda>rt. snd (RefreshSceneTopology obs env fresh rd rt)) p
            else StartPluginOwnedRuntime obs env fresh rd ans p)
      else if ev \<noteq> FinishedLoading then p
      else StartPluginOwnedRuntime obs env fresh rd ans p)"

definition obs_module_unload :: "'o obs_encoders \<Rightarrow> 'w mkv_env \<Rightarrow> (nat \<Rightarrow> 'w) \<Rightarrow> readings \<Rightarrow>
    ('w, 'o) plugin \<Rightarrow> ('w, 'o) plugin" where
  "obs_module_unload obs env fresh rd p =
     (StopPluginOwnedRuntime obs env fresh rd p)\<lparr>frontend_registered := False\<rparr>"

text \<open>
  Frontend events reach the plugin while its callback is registered, a hotkey while it is registered; the
  controls act while they exist, and the threads of the capture at any time.
\<close>

inductive plugin_step :: "'o obs_encoders \<Rightarrow> 'w mkv_env \<Rightarrow> (nat \<Rightarrow> 'w) \<Rightarrow> ('w, 'o) plugin \<Rightarrow> ('w, 'o) plugin \<Rightarrow> bool"
  for obs env fresh where
  event: "frontend_registered p \<Longrightarrow> plugin_step obs env fresh p (OnFrontendEvent obs env fresh rd ans ev p)"
| unload: "plugin_step obs env fresh p (obs_module_unload obs env fresh rd p)"
| start_recording_key: "fst (hotkeys p) \<Longrightarrow>
    plugin_step obs env fresh p (with_runtime (\<lambda>rt. snd (OnStartRecordingHotkey obs rd b rt)) p)"
| stop_recording_key: "fst (hotkeys p) \<Longrightarrow>
    plugin_step obs env fresh p (with_runtime (\<lambda>rt. snd (OnStopRecordingHotkey obs env fresh rd b rt)) p)"
| start_replay_key: "fst (snd (hotkeys p)) \<Longrightarrow>
    plugin_step obs env fresh p (with_runtime (\<lambda>rt. snd (OnStartReplayHotkey obs env fresh rd b rt)) p)"
| stop_replay_key: "fst (snd (hotkeys p)) \<Longrightarrow>
    plugin_step obs env fresh p (with_runtime (\<lambda>rt. snd (OnStopReplayHotkey obs env fresh rd b rt)) p)"
| save_key: "snd (snd (hotkeys p)) \<Longrightarrow> capture_runtime p = Some rt \<Longrightarrow>
    OnSaveReplayHotkey obs env fresh rd b rt = Some st \<Longrightarrow> plugin_step obs env fresh p (p\<lparr>capture_runtime := Some st\<rparr>)"
| controls: "capture_controls p = Some u \<Longrightarrow> capture_runtime p = Some rt \<Longrightarrow> ui_step obs env fresh (u, rt) (v, st) \<Longrightarrow>
    plugin_step obs env fresh p (p\<lparr>capture_controls := Some v, capture_runtime := Some st\<rparr>)"
| threads: "capture_runtime p = Some rt \<Longrightarrow> control rt = Some y \<Longrightarrow> background_step env fresh y z \<Longrightarrow>
    plugin_step obs env fresh p (p\<lparr>capture_runtime := Some (rt\<lparr>control := Some z\<rparr>)\<rparr>)"

inductive plugin_run :: "'o obs_encoders \<Rightarrow> 'w mkv_env \<Rightarrow> (nat \<Rightarrow> 'w) \<Rightarrow> ('w, 'o) plugin \<Rightarrow> bool"
  for obs env fresh where
  loaded: "plugin_run obs env fresh (plugin_loaded lib)"
| stepped: "plugin_run obs env fresh p \<Longrightarrow> plugin_step obs env fresh p q \<Longrightarrow> plugin_run obs env fresh q"

subsection \<open>Every part of a call is a step\<close>

abbreviation runtime_steps :: "'o obs_encoders \<Rightarrow> 'w mkv_env \<Rightarrow> (nat \<Rightarrow> 'w) \<Rightarrow>
    ('w, 'o) PluginCaptureRuntime \<Rightarrow> ('w, 'o) PluginCaptureRuntime \<Rightarrow> bool" where
  "runtime_steps obs env fresh \<equiv> (runtime_step obs env fresh)\<^sup>*\<^sup>*"

named_theorems runtime_calls

lemma one_step [runtime_calls]:
  "runtime_steps obs env fresh rt (snd (runtime_StartRecording obs rd rt))"
  "runtime_steps obs env fresh rt (snd (runtime_StopRecording obs env fresh rd rt))"
  "runtime_steps obs env fresh rt (snd (start_replay_locked obs rt))"
  "runtime_steps obs env fresh rt (snd (runtime_StopReplay obs env fresh rd rt))"
  "runtime_steps obs env fresh rt (snd (RefreshReplayConfiguration obs env fresh rd rt))"
  "runtime_steps obs env fresh rt (snd (RefreshSceneTopology obs env fresh rd rt))"
  "runtime_steps obs env fresh rt (runtime_PollReplaySave env fresh rd rt)"
  unfolding RefreshReplayConfiguration_def by (rule r_into_rtranclp, rule runtime_step.intros)+

lemma StartReplay_steps [runtime_calls]: "runtime_steps obs env fresh rt (snd (runtime_StartReplay obs env fresh rd rt))"
  unfolding runtime_StartReplay_def by (rule rtranclp_trans) (rule one_step)+

lemma SaveReplay_steps:
  assumes "runtime_SaveReplay obs env fresh rd rt = Some (r, st)"
  shows "runtime_steps obs env fresh rt st"
proof (rule rtranclp_trans [OF one_step(5) r_into_rtranclp])
  show "runtime_step obs env fresh (snd (RefreshReplayConfiguration obs env fresh rd rt)) st"
    using assms by (auto simp: runtime_SaveReplay_def intro: runtime_step.save_replay)
qed

lemma Toggle_steps [runtime_calls]:
  "runtime_steps obs env fresh rt (snd (ToggleRecording obs env fresh rd rt))"
  "runtime_steps obs env fresh rt (snd (ToggleReplay obs env fresh rd rt))"
  by (auto simp: ToggleRecording_def ToggleReplay_def intro: runtime_calls)

lemma ui_step_steps:
  assumes "ui_step obs env fresh s t"
  shows "runtime_steps obs env fresh (snd s) (snd t)"
  using assms
proof (induction rule: ui_step.induct)
  case (recording_click s rd labels)
  then show ?case using Toggle_steps(1) [of obs env fresh "snd s" rd] by (simp add: InvokeRecording_def case_prod_beta)
next
  case (replay_click s rd labels)
  then show ?case using Toggle_steps(2) [of obs env fresh "snd s" rd] by (simp add: InvokeReplayToggle_def case_prod_beta)
next
  case (save_click s rd labels t)
  then show ?case by (auto simp: InvokeReplaySave_def case_prod_beta intro: SaveReplay_steps)
next
  case (tick s rd labels)
  have "runtime_steps obs env fresh (snd s) (runtime_PollReplaySave env fresh rd (snd (RefreshReplayConfiguration obs env
      fresh rd (snd (RefreshSceneTopology obs env fresh rd (snd s))))))"
    by (rule rtranclp_trans [OF rtranclp_trans]) (rule one_step)+
  then show ?case by (simp add: refresh_tick_def Let_def case_prod_beta)
qed simp_all

lemma hotkey_steps:
  "runtime_steps obs env fresh rt (snd (OnStartRecordingHotkey obs rd b rt))"
  "runtime_steps obs env fresh rt (snd (OnStopRecordingHotkey obs env fresh rd b rt))"
  "runtime_steps obs env fresh rt (snd (OnStartReplayHotkey obs env fresh rd b rt))"
  "runtime_steps obs env fresh rt (snd (OnStopReplayHotkey obs env fresh rd b rt))"
  by (auto simp: OnStartRecordingHotkey_def OnStopRecordingHotkey_def OnStartReplayHotkey_def OnStopReplayHotkey_def
      Let_def intro: runtime_calls rtranclp_trans [OF one_step(5)])

lemma save_hotkey_steps:
  assumes "OnSaveReplayHotkey obs env fresh rd b rt = Some st"
  shows "runtime_steps obs env fresh rt st"
  using assms one_step(5) [of obs env fresh rt rd]
  by (auto simp: OnSaveReplayHotkey_def Let_def split: if_splits dest: SaveReplay_steps)

lemma runtime_run_steps:
  assumes "runtime_steps obs env fresh rt st" and "runtime_run obs env fresh rt"
  shows "runtime_run obs env fresh st"
  using assms by (induction rule: rtranclp_induct) (blast intro: runtime_run.stepped)+

subsection \<open>The module's state\<close>

definition plugin_ok :: "'o obs_encoders \<Rightarrow> 'w mkv_env \<Rightarrow> (nat \<Rightarrow> 'w) \<Rightarrow> ('w, 'o) plugin \<Rightarrow> bool" where
  "plugin_ok obs env fresh p \<longleftrightarrow>
     (\<forall>rt. capture_runtime p = Some rt \<longrightarrow> runtime_run obs env fresh rt) \<and>
     (capture_runtime p = None \<longrightarrow>
        capture_controls p = None \<and> \<not> controls_adapter p \<and> hotkeys p = (False, False, False)) \<and>
     (shutdown_requested p \<longrightarrow> capture_runtime p = None)"

lemma stop_ok:
  "plugin_ok obs env fresh p \<Longrightarrow> plugin_ok obs env fresh (StopPluginOwnedRuntime obs env fresh rd p) \<and>
     capture_runtime (StopPluginOwnedRuntime obs env fresh rd p) = None"
  by (auto simp: plugin_ok_def StopPluginOwnedRuntime_def)

lemma start_ok:
  fixes p :: "('w, 'o) plugin"
  assumes "plugin_ok obs env fresh p"
  shows "plugin_ok obs env fresh (StartPluginOwnedRuntime obs env fresh rd ans p)"
proof -
  obtain ok and rt :: "('w, 'o) PluginCaptureRuntime"
    where rt: "runtime_Initialize obs env fresh rd (new_runtime rd (plugin_libobs p)) = (ok, rt)" by fastforce
  have "runtime_run obs env fresh rt" if ok using rt that by (auto intro: runtime_run.initialized)
  with assms rt show ?thesis
    by (auto simp: plugin_ok_def StartPluginOwnedRuntime_def RegisterPluginHotkeys_def Let_def)
qed

lemma with_runtime_ok:
  assumes "plugin_ok obs env fresh p" and "\<And>rt. runtime_steps obs env fresh rt (f rt)"
  shows "plugin_ok obs env fresh (with_runtime f p)"
  using assms runtime_run_steps [OF assms(2)] by (auto simp: plugin_ok_def with_runtime_def)

lemma event_ok:
  assumes "plugin_ok obs env fresh p"
  shows "plugin_ok obs env fresh (OnFrontendEvent obs env fresh rd ans ev p)"
proof -
  have "plugin_ok obs env fresh ((StopPluginOwnedRuntime obs env fresh rd p)\<lparr>shutdown_requested := False\<rparr>)"
    "plugin_ok obs env fresh ((StopPluginOwnedRuntime obs env fresh rd p)\<lparr>frontend_registered := False\<rparr>)"
    using stop_ok [OF assms, of rd] by (simp_all add: plugin_ok_def)
  moreover have "plugin_ok obs env fresh (with_runtime (\<lambda>rt. snd (RefreshReplayConfiguration obs env fresh rd rt)) p)"
    "plugin_ok obs env fresh (with_runtime (\<lambda>rt. snd (RefreshSceneTopology obs env fresh rd rt)) p)"
    by (rule with_runtime_ok [OF assms], rule one_step)+
  ultimately show ?thesis using start_ok [OF assms] assms by (simp add: OnFrontendEvent_def)
qed

lemma plugin_run_ok: "plugin_run obs env fresh p \<Longrightarrow> plugin_ok obs env fresh p"
proof (induction rule: plugin_run.induct)
  case (loaded lib)
  then show ?case by (simp add: plugin_ok_def plugin_loaded_def)
next
  case (stepped p q)
  note ok = stepped(3)
  from stepped(2) show ?case
  proof (cases rule: plugin_step.cases)
    case (event rd ans ev)
    then show ?thesis using event_ok [OF ok] by simp
  next
    case (unload rd)
    then show ?thesis using stop_ok [OF ok, of rd] by (simp add: obs_module_unload_def plugin_ok_def)
  next
    case (save_key rt rd b st)
    then show ?thesis using ok save_hotkey_steps [of obs env fresh rd b rt st] runtime_run_steps [of obs env fresh rt st]
      by (auto simp: plugin_ok_def)
  next
    case (controls u rt v st)
    then show ?thesis using ok ui_step_steps [OF controls(4)] runtime_run_steps [of obs env fresh rt st]
      by (auto simp: plugin_ok_def)
  next
    case (threads rt y z)
    then show ?thesis using ok runtime_run.stepped [OF _ runtime_step.background [OF threads(3,4)]]
      by (auto simp: plugin_ok_def)
  qed (simp only:, rule with_runtime_ok [OF ok], rule hotkey_steps)+
qed

text \<open>C18. Whatever frontend events, hotkeys, clicks, timer ticks and background work happen, in any order: a
  runtime the module holds has run by the rules of the runtime, so all that is proved of the engine holds of
  it; controls and hotkeys exist only beside a runtime; and a shutdown that was asked for has left none.\<close>

theorem module_runs_by_the_rules:
  assumes "plugin_run obs env fresh p"
  shows "(\<forall>rt y. capture_runtime p = Some rt \<and> control rt = Some y \<longrightarrow>
      runtime_run obs env fresh rt \<and> system_run (plugin_controller obs) env fresh plugin_start y) \<and>
    (capture_runtime p = None \<longrightarrow> capture_controls p = None \<and> \<not> controls_adapter p \<and> hotkeys p = (False, False, False)) \<and>
    (shutdown_requested p \<longrightarrow> capture_runtime p = None)"
proof -
  note ok = plugin_run_ok [OF assms]
  have "system_run (plugin_controller obs) env fresh plugin_start y" if "runtime_run obs env fresh rt" "control rt = Some y"
    for rt y by (rule runtime_ok_parts(7) [OF runtime_run_ok [OF that(1)] that(2)])
  with ok show ?thesis by (auto simp: plugin_ok_def)
qed

definition demo_plugin :: "(unit, unit) plugin" where
  "demo_plugin = OnFrontendEvent willing_obs plain_muxer (\<lambda>_. ()) (demo_readings [])
     \<lparr>controls_located = True, controls_installed = True, registered_hotkeys = (True, True, True)\<rparr> FinishedLoading
     (plugin_loaded ())"

lemma demo_plugin_run: "plugin_run willing_obs plain_muxer (\<lambda>_. ()) demo_plugin"
proof -
  have "frontend_registered (plugin_loaded () :: (unit, unit) plugin)" by (simp add: plugin_loaded_def)
  from plugin_run.stepped [OF plugin_run.loaded plugin_step.event [OF this]] show ?thesis
    unfolding demo_plugin_def .
qed

lemma demo_plugin_starts:
  "map_option (\<lambda>rt. control rt \<noteq> None) (capture_runtime demo_plugin) = Some True"
  by code_simp

theorem module_runs_by_the_rules_witness:
  "\<exists>rt y. capture_runtime demo_plugin = Some rt \<and> control rt = Some y \<and>
     system_run (plugin_controller willing_obs) plain_muxer (\<lambda>_. ()) plugin_start y"
proof -
  obtain rt y where rt: "capture_runtime demo_plugin = Some rt" "control rt = Some y"
    using demo_plugin_starts by auto
  with module_runs_by_the_rules [OF demo_plugin_run] show ?thesis by blast
qed

text \<open>The exit of OBS is final: after it the module holds no runtime, no controls and no hotkeys, and
  nothing that can still happen starts one again.\<close>

theorem exit_is_final:
  assumes "plugin_run obs env fresh p" and "frontend_registered p"
    and "q = OnFrontendEvent obs env fresh rd ans Exit p" and "(plugin_step obs env fresh)\<^sup>*\<^sup>* q r"
  shows "capture_runtime r = None \<and> capture_controls r = None \<and> hotkeys r = (False, False, False) \<and>
    \<not> frontend_registered r"
proof -
  have run: "plugin_run obs env fresh q"
    using plugin_run.stepped [OF assms(1) plugin_step.event [OF assms(2)]] assms(3) by simp
  have "plugin_run obs env fresh r \<and> capture_runtime r = None \<and> \<not> frontend_registered r"
    using assms(4)
  proof (induction rule: rtranclp_induct)
    case base
    have "capture_runtime q = None \<and> \<not> frontend_registered q"
      using stop_ok [OF plugin_run_ok [OF assms(1)], of rd] by (simp add: assms(3) OnFrontendEvent_def)
    with run show ?case by blast
  next
    case (step r s)
    have none: "StopPluginOwnedRuntime obs env fresh rd r = r" for rd
      using step(3) plugin_run_ok [of obs env fresh r] by (auto simp: plugin_ok_def StopPluginOwnedRuntime_def)
    have "capture_runtime s = None \<and> \<not> frontend_registered s"
      using step(2,3) by (cases rule: plugin_step.cases) (simp_all add: with_runtime_def obs_module_unload_def none)
    with step show ?case by (blast intro: plugin_run.stepped)
  qed
  moreover from this have "plugin_ok obs env fresh r" by (blast intro: plugin_run_ok)
  ultimately show ?thesis by (simp add: plugin_ok_def)
qed

theorem exit_is_final_witness:
  "capture_runtime (OnFrontendEvent willing_obs plain_muxer (\<lambda>_. ()) (demo_readings [])
     \<lparr>controls_located = True, controls_installed = True, registered_hotkeys = (True, True, True)\<rparr> Exit demo_plugin) = None"
proof -
  have "frontend_registered demo_plugin" by code_simp
  from exit_is_final [OF demo_plugin_run this refl rtranclp.rtrancl_refl] show ?thesis by blast
qed

end
