(* ===== verification/RecordingDriver.thy ===== *)
theory RecordingDriver
  imports MkvRecording ObsPacket
begin

text \<open>
  \<open>src/recording/obs-synchronized-recording.cpp\<close>: the driver that records two OBS views into two MKV files
  for a number of seconds. It runs on its own thread while libobs calls \<open>OnRecordingPacket\<close> on others, so
  between two calls the driver makes on the session any packets may arrive: the batches of
  \<open>driver_world\<close>. What libobs and the clock answer are the other fields. The driver's calls to libobs, and those of the
  experiment that calls it, are a list of \<open>obs_call\<close>. Logging and the sleeps of the waiting loops are left out.
\<close>

subsection \<open>Data\<close>

datatype obs_object =
    VideoSettings RecordingStream | AudioSettings RecordingStream
  | VideoEncoder RecordingStream | AudioEncoder RecordingStream
  | NullOutput RecordingStream | EncoderGroup

datatype setting = IntSetting string int | BoolSetting string bool | StringSetting string string

datatype obs_call =
    CallCreate obs_object bool
  | CallSet obs_object setting
  | CallAttach obs_object obs_object
  | CallAddCallback RecordingStream
  | CallSetGroup RecordingStream bool
  | CallStart RecordingStream bool
  | CallStop RecordingStream
  | CallRemoveCallback RecordingStream
  | CallRelease obs_object
  | CallInitialize RecordingStream bool
  | CallAddTick
  | CallRemoveTick
  | CallSwitchScene RecordingStream

type_synonym batch = "(RecordingStream \<times> encoder_packet) list"

text \<open>One round of the warm-up loop, and one of the polling loop with the packets around its calls.\<close>

record warm_tick =
  warm_shutdown :: bool
  warm_expired :: bool
  warm_packets :: batch

record poll_tick =
  poll_shutdown :: bool
  poll_elapsed :: int
  poll_now :: u64
  poll_entered :: batch
  poll_checked :: batch
  poll_polled :: batch
  poll_asleep :: batch

record driver_world =
  arguments_given :: bool
  encoder_id :: string
  duration_seconds :: u32
  module_enabled :: bool
  directory_ready :: bool
  driver_directory :: string
  driver_clock :: u64
  object_made :: "obs_object \<Rightarrow> bool"
  encoder_width :: "RecordingStream \<Rightarrow> u32"
  encoder_height :: "RecordingStream \<Rightarrow> u32"
  encoder_header :: "RecordingStream \<Rightarrow> bytes option"
  frame_interval :: u64
  start_frame_time :: u64
  group_set :: "RecordingStream \<Rightarrow> bool"
  output_starts :: "RecordingStream \<Rightarrow> bool"
  starting_packets :: batch
  warm_ticks :: "warm_tick list"
  first_poll_time :: u64
  poll_ticks :: "poll_tick list"
  stop_checked_packets :: batch
  stop_frame_time :: u64
  stop_requested_packets :: batch
  stopping_packets :: batch

subsection \<open>Settings and stream configuration\<close>

definition CreateVideoSettings :: "string \<Rightarrow> bool \<Rightarrow> RecordingStream \<Rightarrow> obs_call list" where
  "CreateVideoSettings ident made st = CallCreate (VideoSettings st) made #
     (if \<not> made then []
      else map (CallSet (VideoSettings st))
        ([IntSetting ''bitrate'' 4000, IntSetting ''max_bitrate'' 4000, IntSetting ''keyint_sec'' 1,
          BoolSetting ''repeat_headers'' False] @
         (if ident = ''obs_x264''
          then [StringSetting ''rate_control'' ''CBR'', StringSetting ''preset'' ''ultrafast'',
                StringSetting ''profile'' ''high'']
          else [StringSetting ''rate_control'' ''cbr'', StringSetting ''preset'' ''p1'',
                StringSetting ''profile'' ''high'', IntSetting ''bf'' 2])))"

definition recording_StreamConfig :: "u32 \<Rightarrow> u32 \<Rightarrow> bytes option \<Rightarrow> PacketStreamConfig" where
  "recording_StreamConfig w h header =
     \<lparr>cfg_width = (if w \<noteq> 0 then w else 1920), cfg_height = (if h \<noteq> 0 then h else 1080),
      cfg_timebase_num = 1, cfg_timebase_den = 60000,
      extra_data = (case header of None \<Rightarrow> [] | Some x \<Rightarrow> x),
      muxer_tail_capacity_bytes = 0, muxer_reorder_safety_cts = 0\<rparr>"

definition driver_config :: "driver_world \<Rightarrow> SynchronizedRecordingConfig" where
  "driver_config d =
     \<lparr>pre_roll_capacity_bytes = 2 * 1024 * 1024, tail_capacity_bytes = 8 * 1024 * 1024,
      reorder_safety_cts = 5000000000,
      expected_source_cts_step = (if frame_interval d \<noteq> 0 then frame_interval d else 16666667),
      max_start_wait_cts = 2000000000\<rparr>"

definition driver_stream :: "driver_world \<Rightarrow> RecordingStream \<Rightarrow> PacketStreamConfig" where
  "driver_stream d st =
     (recording_StreamConfig (encoder_width d st) (encoder_height d st) (encoder_header d st))
       \<lparr>muxer_tail_capacity_bytes := tail_capacity_bytes (driver_config d),
        muxer_reorder_safety_cts := reorder_safety_cts (driver_config d)\<rparr>"

definition driver_path :: "driver_world \<Rightarrow> string \<Rightarrow> string" where
  "driver_path d suffix = driver_directory d @ [CHR 0x5C] @ ''recording-'' @ encoder_id d @ ''-'' @
     dec (unat (driver_clock d)) @ suffix"

subsection \<open>The packet callback\<close>

definition OnRecordingPacket :: "'s sink_ops \<Rightarrow> RecordingStream \<Rightarrow> encoder_packet \<Rightarrow> 's session \<Rightarrow> 's session" where
  "OnRecordingPacket ops st pk s =
     (if \<not> packet_is_video pk then s
      else
        (case packet_cts pk of
           None \<Rightarrow> Abort ops s
         | Some cts \<Rightarrow>
             (if packet_data pk = [] \<or> sint (packet_timebase_num pk) \<le> 0 \<or> sint (packet_timebase_den pk) \<le> 0
              then Abort ops s
              else
                (let s = (case encoder_extra pk of
                            None \<Rightarrow> s
                          | Some x \<Rightarrow> (if x = [] then s else snd (SetStreamExtraData st x s)))
                 in snd (SubmitPacket ops st (copied_packet cts pk) s)))))"

definition deliver :: "'s sink_ops \<Rightarrow> batch \<Rightarrow> 's session \<Rightarrow> 's session" where
  "deliver ops ps s = fold (\<lambda>(st, pk). OnRecordingPacket ops st pk) ps s"

subsection \<open>The loops\<close>

text \<open>A loop whose schedule runs out has not returned: \<open>None\<close>.\<close>

fun warm_up :: "'s sink_ops \<Rightarrow> warm_tick list \<Rightarrow> 's session \<Rightarrow> 's session option" where
  "warm_up ops [] s = None"
| "warm_up ops (t # ts) s =
     (if warm_shutdown t \<or> warm_expired t then Some s
      else warm_up ops ts (deliver ops (warm_packets t) s))"

fun poll_loop :: "'s sink_ops \<Rightarrow> u32 \<Rightarrow> poll_tick list \<Rightarrow> 's session \<Rightarrow> 's session option" where
  "poll_loop ops duration [] s = None"
| "poll_loop ops duration (t # ts) s =
     (if \<not> (\<not> poll_shutdown t \<and> (state s = Starting \<or> poll_elapsed t < uint duration)) then Some s
      else
        (let s = deliver ops (poll_entered t) s;
             starting = (state s = Starting);
             s = deliver ops (poll_checked t) s;
             (polled, s) = (if starting then PollStart ops (poll_now t) s else (True, s))
         in if starting \<and> \<not> polled then Some s
            else
              (let s = deliver ops (poll_polled t) s
               in if state s = Failed then Some s
                  else poll_loop ops duration ts (deliver ops (poll_asleep t) s))))"

subsection \<open>The driver\<close>

text \<open>Both outputs are running: warm up, poll, and ask for the stop.\<close>

definition record_for :: "'s sink_ops \<Rightarrow> driver_world \<Rightarrow> 's session \<Rightarrow> 's session option" where
  "record_for ops d s =
     (case warm_up ops (warm_ticks d) s of
        None \<Rightarrow> None
      | Some s \<Rightarrow>
          (case poll_loop ops (duration_seconds d) (poll_ticks d)
                  (snd (PollStart ops (first_poll_time d) s)) of
             None \<Rightarrow> None
           | Some s \<Rightarrow>
               (let running = (state s = Running);
                    s = deliver ops (stop_checked_packets d) s;
                    s = (if running then snd (RequestStop ops (stop_frame_time d) s) else s)
                in Some (deliver ops (stop_requested_packets d) s))))"

definition close_session :: "'s sink_ops \<Rightarrow> 's session \<Rightarrow> 's session" where
  "close_session ops s =
     (if state s = Draining then snd (CompleteDrain ops s)
      else if state s \<noteq> Stopped \<and> state s \<noteq> Failed then Abort ops s
      else s)"

abbreviation both_streams :: "RecordingStream list" where
  "both_streams \<equiv> [StreamA, StreamB]"

text \<open>The objects the driver makes, in order; the settings are released before the outputs are made.\<close>

definition make_objects :: "driver_world \<Rightarrow> obs_call list" where
  "make_objects d =
     (let made = object_made d; make = (\<lambda>x. CallCreate x (made x));
          settings = map VideoSettings both_streams @ map AudioSettings both_streams
      in concat (map (\<lambda>st. CreateVideoSettings (encoder_id d) (made (VideoSettings st)) st) both_streams) @
         map (make \<circ> AudioSettings) both_streams @
         map (make \<circ> VideoEncoder) both_streams @ map (make \<circ> AudioEncoder) both_streams @
         map CallRelease (filter made settings) @
         map (make \<circ> NullOutput) both_streams)"

definition objects_ready :: "driver_world \<Rightarrow> bool" where
  "objects_ready d \<longleftrightarrow> list_all (object_made d)
     (map VideoEncoder both_streams @ map AudioEncoder both_streams @ map NullOutput both_streams)"

definition wire_objects :: "obs_call list" where
  "wire_objects =
     map (\<lambda>st. CallAttach (NullOutput st) (VideoEncoder st)) both_streams @
     map (\<lambda>st. CallAttach (NullOutput st) (AudioEncoder st)) both_streams @
     map CallAddCallback both_streams"

text \<open>The group and the two outputs, each step only after the one before it succeeded.\<close>

definition start_outputs :: "driver_world \<Rightarrow> bool \<times> bool \<times> obs_call list" where
  "start_outputs d =
     (let grouped = object_made d EncoderGroup; set_a = grouped \<and> group_set d StreamA;
          set_b = set_a \<and> group_set d StreamB;
          started_a = set_b \<and> output_starts d StreamA; started_b = started_a \<and> output_starts d StreamB
      in (started_a, started_b,
          [CallCreate EncoderGroup grouped] @
          (if grouped then [CallSetGroup StreamA (group_set d StreamA)] else []) @
          (if set_a then [CallSetGroup StreamB (group_set d StreamB)] else []) @
          (if set_b then [CallStart StreamA started_a] else []) @
          (if started_a then [CallStart StreamB started_b] else [])))"

text \<open>\<open>grouped\<close> tells whether a group was made; the other pointers are non-null when the object was made.\<close>

definition release_objects :: "(obs_object \<Rightarrow> bool) \<Rightarrow> bool \<Rightarrow> obs_call list" where
  "release_objects made grouped =
     (if grouped then [CallRelease EncoderGroup] else []) @
     map CallRelease (filter made
       (map NullOutput both_streams @ map VideoEncoder both_streams @ map AudioEncoder both_streams))"

definition remove_callbacks :: "(obs_object \<Rightarrow> bool) \<Rightarrow> obs_call list" where
  "remove_callbacks made = map CallRemoveCallback (filter (made \<circ> NullOutput) both_streams)"

text \<open>The result is \<open>None\<close> when a loop has not returned, and otherwise the session, if there was one, and the calls.\<close>

definition RunSynchronizedRecording :: "'w mkv_env \<Rightarrow> 'w \<Rightarrow> 'w \<Rightarrow> driver_world \<Rightarrow>
    ('w MkvPacketSink session option \<times> obs_call list) option" where
  "RunSynchronizedRecording env ma mb d =
     (if \<not> arguments_given d \<or> duration_seconds d = 0 \<or> \<not> module_enabled d \<or> \<not> directory_ready d
      then Some (None, [])
      else if \<not> objects_ready d
      then Some (None, make_objects d @ remove_callbacks (object_made d) @ release_objects (object_made d) False)
      else
        (let ops = mkv_sink_ops env;
             s = mkv_session (driver_config d) (driver_stream d StreamA) (driver_stream d StreamB)
                   (new_sink ma (driver_path d ''-A.mkv'')) (new_sink mb (driver_path d ''-B.mkv''));
             s = snd (Start ops (start_frame_time d) s);
             (started_a, started_b, started) = start_outputs d;
             s = (if started_a then deliver ops (starting_packets d) s else s)
         in case (if started_a \<and> started_b then record_for ops d s else Some s) of
              None \<Rightarrow> None
            | Some s \<Rightarrow>
                (let s = (if started_a \<or> started_b then deliver ops (stopping_packets d) s else s)
                 in Some (Some (close_session ops s),
                      make_objects d @ wire_objects @ started @
                      (if started_a \<or> started_b then map CallStop both_streams else []) @
                      remove_callbacks (object_made d) @ release_objects (object_made d) (object_made d EncoderGroup)))))"

subsection \<open>The driver only calls the session\<close>

definition calls_to :: "'s sink_ops \<Rightarrow> 's session \<Rightarrow> 's session \<Rightarrow> bool" where
  "calls_to ops s t \<longleftrightarrow> (\<exists>cs. t = session_run ops cs s)"

lemma calls_to_refl [simp]: "calls_to ops s s"
  unfolding calls_to_def by (rule exI [of _ "[]"]) (simp add: session_run_def)

lemma calls_to_trans: "calls_to ops s t \<Longrightarrow> calls_to ops t u \<Longrightarrow> calls_to ops s u"
proof -
  assume "calls_to ops s t" "calls_to ops t u"
  then obtain cs ds where "t = session_run ops cs s" "u = session_run ops ds t" by (auto simp: calls_to_def)
  then have "u = session_run ops (cs @ ds) s" by (simp add: session_run_def)
  then show ?thesis by (auto simp: calls_to_def)
qed

lemma calls_to_step: "calls_to ops s t \<Longrightarrow> calls_to ops s (snd (session_step ops op t))"
  by (rule calls_to_trans) (auto simp: calls_to_def session_run_def intro: exI [of _ "[op]"])

lemmas calls_to_op =
  calls_to_step [where op = "OpStart c" for c, simplified session_step_def session_op.case]
  calls_to_step [where op = "OpSetExtraData st x" for st x, simplified session_step_def session_op.case]
  calls_to_step [where op = "OpSubmit st p" for st p, simplified session_step_def session_op.case]
  calls_to_step [where op = "OpPollStart c" for c, simplified session_step_def session_op.case]
  calls_to_step [where op = "OpRequestStop c" for c, simplified session_step_def session_op.case]
  calls_to_step [where op = OpCompleteDrain, simplified session_step_def session_op.case]
  calls_to_step [where op = OpAbort, simplified session_step_def session_op.case snd_conv]

lemma calls_to_packet: "calls_to ops s t \<Longrightarrow> calls_to ops s (OnRecordingPacket ops st pk t)"
  by (auto simp: OnRecordingPacket_def Let_def split: option.split intro: calls_to_op)

lemma calls_to_deliver: "calls_to ops s t \<Longrightarrow> calls_to ops s (deliver ops ps t)"
  unfolding deliver_def by (induction ps arbitrary: t) (auto intro: calls_to_packet)

lemma calls_to_warm_up: "warm_up ops ts t = Some u \<Longrightarrow> calls_to ops s t \<Longrightarrow> calls_to ops s u"
  by (induction ops ts t rule: warm_up.induct) (auto intro: calls_to_deliver split: if_splits)

lemma calls_to_poll_loop: "poll_loop ops n ts t = Some u \<Longrightarrow> calls_to ops s t \<Longrightarrow> calls_to ops s u"
proof (induction ops n ts t rule: poll_loop.induct)
  case (2 ops n r ts t)
  let ?t = "deliver ops (poll_checked r) (deliver ops (poll_entered r) t)"
  obtain ok v where v: "(if state (deliver ops (poll_entered r) t) = Starting then PollStart ops (poll_now r) ?t
      else (True, ?t)) = (ok, v)" by fastforce
  have t: "calls_to ops s ?t" using 2(3) by (intro calls_to_deliver)
  then have "calls_to ops s v" using v calls_to_op(4) [OF t, of "poll_now r"] by (auto split: if_splits)
  then have "calls_to ops s v" "calls_to ops s (deliver ops (poll_polled r) v)"
     "calls_to ops s (deliver ops (poll_asleep r) (deliver ops (poll_polled r) v))"
    by (auto intro: calls_to_deliver)
  with 2 v show ?case by (auto simp: Let_def split: if_splits)
qed simp

lemma calls_to_record: "record_for ops d t = Some u \<Longrightarrow> calls_to ops s t \<Longrightarrow> calls_to ops s u"
  unfolding record_for_def
  by (auto simp: Let_def split: option.splits if_splits
      intro!: calls_to_deliver calls_to_op(5) intro: calls_to_poll_loop calls_to_op(4) calls_to_warm_up)

lemma calls_to_close: "calls_to ops s t \<Longrightarrow> calls_to ops s (close_session ops t)"
  by (simp add: close_session_def calls_to_op)

lemma close_session_over:
  assumes "session_inv s"
  shows "state (close_session ops s) \<in> {Stopped, Failed}"
proof (cases "state s = Draining")
  case True
  obtain ok t where "CompleteDrain ops s = (ok, t)" by fastforce
  with inv_Drain [OF assms True] True show ?thesis by (simp add: close_session_def split: if_splits)
qed (auto simp: close_session_def Abort_def)

definition driver_session :: "'w \<Rightarrow> 'w \<Rightarrow> driver_world \<Rightarrow> 'w MkvPacketSink session" where
  "driver_session ma mb d =
     mkv_session (driver_config d) (driver_stream d StreamA) (driver_stream d StreamB)
       (new_sink ma (driver_path d ''-A.mkv'')) (new_sink mb (driver_path d ''-B.mkv''))"

lemma driver_closes:
  assumes "RunSynchronizedRecording env ma mb d = Some (Some s, calls)"
  obtains t where "calls_to (mkv_sink_ops env) (driver_session ma mb d) t" "s = close_session (mkv_sink_ops env) t"
proof -
  let ?ops = "mkv_sink_ops env"
  let ?s1 = "snd (Start ?ops (start_frame_time d) (driver_session ma mb d))"
  obtain sa sb cs where st: "start_outputs d = (sa, sb, cs)" by (metis prod_cases3)
  let ?s2 = "if sa then deliver ?ops (starting_packets d) ?s1 else ?s1"
  have start: "calls_to ?ops (driver_session ma mb d) ?s1" by (rule calls_to_op(1)) simp
  then have s2: "calls_to ?ops (driver_session ma mb d) ?s2" by (simp add: calls_to_deliver)
  obtain u where u: "(if sa \<and> sb then record_for ?ops d ?s2 else Some ?s2) = Some u"
      "s = close_session ?ops (if sa \<or> sb then deliver ?ops (stopping_packets d) u else u)"
    using assms unfolding RunSynchronizedRecording_def driver_session_def Let_def st
    by (auto split: if_split_asm option.split_asm)
  have "calls_to ?ops (driver_session ma mb d) u"
    using u(1) s2 calls_to_record [of ?ops d ?s2 u, OF _ s2] by (cases "sa \<and> sb") auto
  with u(2) show thesis by (intro that [of "if sa \<or> sb then deliver ?ops (stopping_packets d) u else u"])
      (simp_all add: calls_to_deliver)
qed

lemma driver_session_reachable: "session_reachable ops (driver_session ma mb d)"
  unfolding driver_session_def mkv_session_def by (rule session_reachable.created)

text \<open>C16. The recording driver leaves two closed files. Whatever the libobs calls answer, whichever packets arrive
  between which two of its calls and whatever libavformat does, when the driver has made a session and returns,
  the session has stopped or failed and neither file is left open; and when it has stopped, both files were completed
  and hold the same frames.\<close>

theorem driver_leaves_closed_files:
  assumes "RunSynchronizedRecording env ma mb d = Some (Some s, calls)"
  shows "state s \<in> {Stopped, Failed} \<and> \<not> format_open (file_of (sink_a s)) \<and> \<not> format_open (file_of (sink_b s)) \<and>
    (state s = Stopped \<and> last_flushed_cts s \<noteq> max_u64 \<longrightarrow>
       muxed_cts (file_of (sink_a s)) = muxed_cts (file_of (sink_b s)) \<and>
       mkv_success (snk_result (sk_state (the (sink_a s)))) \<and> mkv_success (snk_result (sk_state (the (sink_b s)))))"
proof -
  let ?ops = "mkv_sink_ops env" and ?s0 = "driver_session ma mb d"
  obtain t where t: "calls_to ?ops ?s0 t" "s = close_session ?ops t" using driver_closes [OF assms] by blast
  then obtain cs where "t = session_run ?ops cs ?s0" by (auto simp: calls_to_def)
  then have "session_inv t"
    by (simp only: session_reachable_inv [OF reachable_run [OF driver_session_reachable]])
  then have over: "state s \<in> {Stopped, Failed}" using close_session_over t(2) by blast
  obtain ds where s: "s = session_run ?ops ds ?s0" using calls_to_close [OF t(1)] t(2) by (auto simp: calls_to_def)
  have idle: "pred_option (\<lambda>_. True) (sink_a ?s0)" "pred_option (\<lambda>_. True) (sink_b ?s0)" "state ?s0 = Idle"
    by (simp_all add: driver_session_def mkv_session_def new_session_def)
  have "same_sinks ?s0 s" using same_sinks_run [of ?s0 ?ops ds] by (simp add: s session_run_def)
  then have some: "sink_a s \<noteq> None" "sink_b s \<noteq> None"
    by (auto simp: same_sinks_def driver_session_def mkv_session_def new_session_def)
  from mkv_closing.ended_sinks [OF idle, of env ds] over have "mkv_closing.both sink_closed s"
    by (simp add: s session_run_def)
  with some have "sink_closed (the (sink_a s))" "sink_closed (the (sink_b s))"
    by (auto simp: mkv_closing.both_def)
  moreover have "muxed_cts (file_of (sink_a s)) = muxed_cts (file_of (sink_b s)) \<and>
       mkv_success (snk_result (sk_state (the (sink_a s)))) \<and> mkv_success (snk_result (sk_state (the (sink_b s))))"
    if stopped: "state s = Stopped" "last_flushed_cts s \<noteq> max_u64"
  proof -
    obtain r ka kb where k: "selected_range s = Some r" "sink_a s = Some ka" "sink_b s = Some kb" "sink_done ka" "sink_done kb"
      "set (written (sink_a s)) = set (written (sink_b s))"
      using stopped_sessions_files [OF s [unfolded driver_session_def] stopped] by metis
    with sink_done_file [OF k(4)] sink_done_file [OF k(5)] show ?thesis by (simp add: sink_done_def)
  qed
  ultimately show ?thesis using over by (auto simp: sink_closed_def file_of_def)
qed

subsection \<open>The ledger of libobs objects\<close>

abbreviation call_count :: "obs_call \<Rightarrow> obs_call list \<Rightarrow> nat" where
  "call_count c cs \<equiv> count_list cs c"

lemma call_count_settings:
  "call_count (CallRelease x) (map (CallSet y) zs) = 0" "call_count (CallCreate x b) (map (CallSet y) zs) = 0"
  by (auto simp: count_list_0_iff)

lemma call_count_CreateVideoSettings:
  "call_count (CallRelease x) (CreateVideoSettings ident made st) = 0"
  "call_count (CallCreate x True) (CreateVideoSettings ident made st) = (if made \<and> x = VideoSettings st then 1 else 0)"
  by (simp_all add: CreateVideoSettings_def call_count_settings del: list.map append.simps)

lemma made_objects:
  "call_count (CallCreate x True) (make_objects d) = (if object_made d x \<and> x \<noteq> EncoderGroup then 1 else 0)"
proof (cases x)
  case (VideoSettings st)
  then show ?thesis by (cases st) (simp_all add: make_objects_def Let_def call_count_CreateVideoSettings)
next
  case (AudioSettings st)
  then show ?thesis by (cases st) (simp_all add: make_objects_def Let_def call_count_CreateVideoSettings)
next
  case (VideoEncoder st)
  then show ?thesis by (cases st) (simp_all add: make_objects_def Let_def call_count_CreateVideoSettings)
next
  case (AudioEncoder st)
  then show ?thesis by (cases st) (simp_all add: make_objects_def Let_def call_count_CreateVideoSettings)
next
  case (NullOutput st)
  then show ?thesis by (cases st) (simp_all add: make_objects_def Let_def call_count_CreateVideoSettings)
next
  case EncoderGroup
  then show ?thesis by (simp add: make_objects_def Let_def call_count_CreateVideoSettings)
qed

definition released_early :: "obs_object \<Rightarrow> bool" where
  "released_early x \<longleftrightarrow> (case x of VideoSettings _ \<Rightarrow> True | AudioSettings _ \<Rightarrow> True | _ \<Rightarrow> False)"

lemma count_released [simp]:
  "call_count (CallRelease x) (map CallRelease (filter P xs)) = (if P x then count_list xs x else 0)"
  by (induction xs) auto

lemma stream_eq: "(StreamA = st) = (st = StreamA)" "(StreamB = st) = (st \<noteq> StreamA)"
  by (cases st; simp)+

lemma released_objects:
  "call_count (CallRelease x) (make_objects d) = (if object_made d x \<and> released_early x then 1 else 0)"
  "call_count (CallRelease x) (release_objects made g) =
     (if x = EncoderGroup then (if g then 1 else 0) else if made x \<and> \<not> released_early x then 1 else 0)"
  by (cases x; simp add: make_objects_def release_objects_def released_early_def Let_def call_count_CreateVideoSettings
    stream_eq del: filter.simps)+

lemma started_calls:
  assumes "start_outputs d = (sa, sb, started)"
  shows "call_count (CallRelease x) started = 0"
    "call_count (CallCreate x True) started = (if x = EncoderGroup \<and> object_made d EncoderGroup then 1 else 0)"
    "call_count (CallStart st True) started = (if sa \<and> (st = StreamA \<or> sb) then 1 else 0)" "sb \<Longrightarrow> sa"
    "call_count (CallAddCallback st) started = 0"
  using assms unfolding start_outputs_def Let_def
  by (cases "object_made d EncoderGroup"; cases "group_set d StreamA"; cases "group_set d StreamB";
    cases "output_starts d StreamA"; cases "output_starts d StreamB"; cases st; auto)+

lemma quiet_objects:
  "call_count (CallStart st b) (make_objects d) = 0" "call_count (CallAddCallback st) (make_objects d) = 0"
  "call_count (CallStart st b) (release_objects made g) = 0" "call_count (CallAddCallback st) (release_objects made g) = 0"
  "call_count (CallCreate x b) (release_objects made g) = 0"
  by (auto simp: count_list_0_iff make_objects_def release_objects_def CreateVideoSettings_def Let_def)

lemma removed_callbacks:
  "call_count (CallRemoveCallback st) (remove_callbacks made) = (if made (NullOutput st) then 1 else 0)"
  "call_count (CallRelease x) (remove_callbacks made) = 0" "call_count (CallCreate x b) (remove_callbacks made) = 0"
  "call_count (CallStart st b) (remove_callbacks made) = 0" "call_count (CallAddCallback st) (remove_callbacks made) = 0"
  by (cases st; auto simp: remove_callbacks_def)+

lemma wired_calls:
  "call_count (CallRelease x) wire_objects = 0" "call_count (CallCreate x b) wire_objects = 0"
  "call_count (CallStart st b) wire_objects = 0" "call_count (CallAddCallback st) wire_objects = 1"
  by (cases st; simp add: wire_objects_def)+

text \<open>C37. Every run of the driver that returns keeps its accounts with libobs: each object it made is released
  exactly once and nothing else is released, an output that was started is stopped, and a packet callback
  that was added is removed, on every path, also when an object could not be made, the group was refused or only one output started.\<close>

theorem driver_releases_what_it_made:
  assumes "RunSynchronizedRecording env ma mb d = Some (result, calls)"
  shows "call_count (CallRelease x) calls = call_count (CallCreate x True) calls \<and> call_count (CallCreate x True) calls \<le> 1 \<and>
    call_count (CallStart st True) calls \<le> call_count (CallStop st) calls \<and>
    call_count (CallAddCallback st) calls \<le> call_count (CallRemoveCallback st) calls"
proof -
  note run = assms [unfolded RunSynchronizedRecording_def Let_def]
  consider "calls = []"
    | "\<not> objects_ready d" "calls = make_objects d @ remove_callbacks (object_made d) @ release_objects (object_made d) False"
    | sa sb started where "objects_ready d" "start_outputs d = (sa, sb, started)" "calls = make_objects d @ wire_objects @
        started @ (if sa \<or> sb then map CallStop both_streams else []) @
        remove_callbacks (object_made d) @ release_objects (object_made d) (object_made d EncoderGroup)"
    using run by (auto split: if_split_asm prod.splits option.split_asm)
  then show ?thesis
  proof cases
    case 2
    have "\<not> released_early EncoderGroup" by (simp add: released_early_def)
    with 2(2) show ?thesis by (simp add: made_objects released_objects quiet_objects removed_callbacks)
  next
    case (3 sa sb started)
    have group: "\<not> released_early EncoderGroup" by (simp add: released_early_def)
    have made: "object_made d (NullOutput st)" using 3(1) by (cases st) (simp_all add: objects_ready_def)
    show ?thesis
      unfolding 3(3)
      using group made started_calls [OF 3(2)]
      by (cases st) (simp_all add: made_objects released_objects quiet_objects removed_callbacks wired_calls)
  qed simp
qed

subsection \<open>The polling loop\<close>

lemma deliver_simps [simp]:
  "deliver ops [] s = s" "deliver ops ((st, pk) # ps) s = deliver ops ps (OnRecordingPacket ops st pk s)"
  by (simp_all add: deliver_def)

text \<open>Everything that is delivered in a round, and a round in which a stream delivers no keyframe and nobody asks
  for shutdown; the other stream may deliver anything.\<close>

definition round_packets :: "poll_tick \<Rightarrow> batch" where
  "round_packets t = poll_entered t @ poll_checked t @ poll_polled t @ poll_asleep t"

definition keyless_packets :: "RecordingStream \<Rightarrow> batch \<Rightarrow> bool" where
  "keyless_packets st ps \<longleftrightarrow> (\<forall>(st', pk) \<in> set ps. st' = st \<longrightarrow> \<not> packet_keyframe pk)"

definition stalled_round :: "RecordingStream \<Rightarrow> poll_tick \<Rightarrow> bool" where
  "stalled_round st t \<longleftrightarrow> \<not> poll_shutdown t \<and> keyless_packets st (round_packets t)"

definition stream_buffer :: "RecordingStream \<Rightarrow> 's session \<Rightarrow> EncodedPacketBuffer" where
  "stream_buffer st s = (case st of StreamA \<Rightarrow> buffer_a s | StreamB \<Rightarrow> buffer_b s)"

text \<open>The stream has no keyframe buffered at or after the requested start.\<close>

definition keyless :: "RecordingStream \<Rightarrow> 's session \<Rightarrow> bool" where
  "keyless st s \<longleftrightarrow> (\<forall>c p. requested_start_cts s \<le> c \<and> Find (stream_buffer st s) c = Some p \<longrightarrow> \<not> keyframe p)"

lemma keyless_no_common:
  "keyless st s \<Longrightarrow> requested_start_cts s \<le> c \<Longrightarrow> \<not> common_keyframe (buffer_a s) (buffer_b s) c"
  by (cases st) (auto simp: keyless_def stream_buffer_def common_keyframe_def split: option.splits)

lemma push_keyless:
  assumes "keyless st s" "push_into st' p s = (Retained, t)" "st' = st \<Longrightarrow> \<not> keyframe p" "stores_ok s"
  shows "keyless st t"
proof (cases "st' = st")
  case False
  then have "stream_buffer st t = stream_buffer st s" using assms(2)
    by (cases st; cases st') (auto simp: push_into_def stream_buffer_def split: prod.splits)
  with assms(1) push_keeps(8) [OF assms(2)] show ?thesis by (simp add: keyless_def)
next
  case True
  have push: "Push p (stream_buffer st s) = (Retained, stream_buffer st t)" using assms(2) True
    by (cases st) (auto simp: push_into_def stream_buffer_def split: prod.splits)
  have store: "packet_store (packets (stream_buffer st s))" using assms(4)
    by (cases st) (simp_all add: stores_ok_def stream_buffer_def)
  have "Find (stream_buffer st t) c = (if c = source_cts p then Some p else Find (stream_buffer st s) c)" for c
    using Push_packets [OF push] om.find_emplace [OF packet_store_wf [OF store], of "source_cts p" p c]
    by (simp add: Find_def)
  with assms(1,3) True push_keeps(8) [OF assms(2)] show ?thesis by (auto simp: keyless_def)
qed

text \<open>A session that waits for the keyframe of a stream, and one that failed over the packets it was given.\<close>

definition starved :: "'s sink_ops \<Rightarrow> RecordingStream \<Rightarrow> 's session \<Rightarrow> bool" where
  "starved ops st s \<longleftrightarrow> session_reachable ops s \<and> state s = Starting \<and> keyless st s \<and> failure s = NoRecordingFailure"

definition packet_failures :: "SynchronizedRecordingFailure set" where
  "packet_failures = {Aborted, InvalidTransition, PacketTiming, DuplicatePacketCts, BufferCapacity}"

definition broken :: "'s session \<Rightarrow> bool" where
  "broken s \<longleftrightarrow> state s = Failed \<and> failure s \<in> packet_failures"

lemma broken_Fail: "f \<in> packet_failures \<Longrightarrow> broken (snd (Fail ops f s))"
  by (simp add: broken_def)

lemma starved_polls:
  assumes "starved ops st s" shows "PollStart ops c s = (True, s)"
  using assms poll_start_waits_without_limit [of ops s c] keyless_no_common [of st s] by (auto simp: starved_def)

lemma push_failure: "push_into st p s = (res, t) \<Longrightarrow> failure t = failure s"
  "failure (retain_accounting st p s) = failure s"
  by (auto simp: push_into_def retain_accounting_def Let_def split: RecordingStream.splits prod.splits)

lemma starved_submit:
  assumes starved: "starved ops st s" and key: "st' = st \<Longrightarrow> \<not> keyframe p"
  shows "starved ops st (snd (SubmitPacket ops st' p s)) \<or> broken (snd (SubmitPacket ops st' p s))"
proof -
  have s: "session_reachable ops s" "state s = Starting" "keyless st s" "failure s = NoRecordingFailure"
    using starved by (auto simp: starved_def)
  note inv = session_reachable_inv [OF s(1)]
  have "state s \<noteq> Failed" using s(2) by simp
  then have range: "selected_range s = None" using live_waiting(1) [OF inv_live [OF inv]] s(2) by blast
  obtain res t where push: "push_into st' p s = (res, t)" by fastforce
  note eval = SubmitPacket_def [of ops st' p s, unfolded push prod.case Let_def]
  show ?thesis
  proof (cases res)
    case Retained
    let ?u = "retain_accounting st' p t"
    have t: "session_inv ?u" using inv_push [OF inv _ _ push] s(2) range by (simp add: inv_accounting)
    have keyless: "keyless st ?u"
      using push_keyless [OF s(3) push [unfolded Retained] key inv_stores [OF inv]]
      by (cases st) (simp_all add: keyless_def stream_buffer_def)
    have "result_range (SelectCommonStart (buffer_a ?u) (buffer_b ?u) (requested_start_cts ?u)) = None"
      using SelectCommonStart_None keyless_no_common [OF keyless] inv_stores [OF t] unfolding stores_ok_def by blast
    then have "SubmitPacket ops st' p s = (True, ?u)"
      using s(2) range push_keeps(3) [OF push] Retained by (simp add: eval EstablishCommonStart_def)
    moreover have "session_reachable ops (snd (SubmitPacket ops st' p s))"
      using session_reachable.called [OF s(1), of "OpSubmit st' p"] by (simp add: session_step_def)
    moreover have "state ?u = Starting" "failure ?u = failure s"
      using s(2) push_keeps(3) [OF push] push_failure(1) [OF push] push_failure(2) [of st' p t] by simp_all
    ultimately show ?thesis using keyless s(4) by (simp add: starved_def)
  qed (use s(2) range in \<open>simp_all add: eval broken_Fail packet_failures_def\<close>)
qed

lemma starved_extra:
  assumes "starved ops st s" shows "starved ops st (snd (SetStreamExtraData st' x s))"
proof -
  have "session_reachable ops (snd (SetStreamExtraData st' x s))"
    using assms session_reachable.called [of ops s "OpSetExtraData st' x"] by (simp add: starved_def session_step_def)
  with assms show ?thesis
    by (cases st; cases st') (simp_all add: starved_def SetStreamExtraData_def keyless_def stream_buffer_def)
qed

lemma starved_packet:
  assumes "starved ops st s" and "st' = st \<Longrightarrow> \<not> packet_keyframe pk"
  shows "starved ops st (OnRecordingPacket ops st' pk s) \<or> broken (OnRecordingPacket ops st' pk s)"
proof -
  have "broken (Abort ops s)" using assms(1) by (simp add: starved_def broken_def Abort_def packet_failures_def)
  moreover have "starved ops st (snd (SubmitPacket ops st' (copied_packet c pk) u)) \<or>
      broken (snd (SubmitPacket ops st' (copied_packet c pk) u))" if "starved ops st u" for c u
    using starved_submit [OF that] assms(2) by (simp add: copied_packet_def)
  ultimately show ?thesis
    using assms(1) starved_extra [OF assms(1)] by (auto simp: OnRecordingPacket_def Let_def split: option.split)
qed

lemma broken_packet: "broken s \<Longrightarrow> broken (OnRecordingPacket ops st pk s)"
  by (auto simp: OnRecordingPacket_def broken_def packet_failures_def SetStreamExtraData_def SubmitPacket_def Abort_def
      Let_def split: option.split)

lemma starved_deliver:
  assumes "starved ops st s \<or> broken s" and "keyless_packets st ps"
  shows "starved ops st (deliver ops ps s) \<or> broken (deliver ops ps s)"
  using assms
proof (induction ps arbitrary: s)
  case (Cons x ps)
  obtain st' pk where x: "x = (st', pk)" by fastforce
  have "starved ops st (OnRecordingPacket ops st' pk s) \<or> broken (OnRecordingPacket ops st' pk s)"
    using Cons.prems starved_packet [of ops st s st' pk] broken_packet [of s ops st' pk]
    by (auto simp: x keyless_packets_def)
  from Cons.IH [OF this] Cons.prems(2) show ?case by (simp add: x keyless_packets_def)
qed simp

text \<open>One round of the loop, with the session at each of its points.\<close>

lemma poll_loop_round:
  assumes "poll_loop ops n (t # ts) s = Some u"
  defines "s1 \<equiv> deliver ops (poll_entered t) s"
  defines "s2 \<equiv> deliver ops (poll_checked t) s1"
  obtains (guard) "u = s" "poll_shutdown t \<or> state s \<noteq> Starting \<and> uint n \<le> poll_elapsed t"
  | (unpolled) "state s1 = Starting" "PollStart ops (poll_now t) s2 = (False, u)"
  | (failed) p s3 where "(if state s1 = Starting then PollStart ops (poll_now t) s2 else (True, s2)) = (p, s3)"
      "u = deliver ops (poll_polled t) s3" "state u = Failed"
  | (again) p s3 where "(if state s1 = Starting then PollStart ops (poll_now t) s2 else (True, s2)) = (p, s3)"
      "state (deliver ops (poll_polled t) s3) \<noteq> Failed" "\<not> poll_shutdown t"
      "poll_loop ops n ts (deliver ops (poll_asleep t) (deliver ops (poll_polled t) s3)) = Some u"
proof -
  obtain p s3 where r: "(if state s1 = Starting then PollStart ops (poll_now t) s2 else (True, s2)) = (p, s3)" by fastforce
  note run = assms(1) [unfolded poll_loop.simps(2) Let_def, folded s1_def, folded s2_def, unfolded r prod.case]
  show thesis
  proof (cases "poll_shutdown t \<or> state s \<noteq> Starting \<and> uint n \<le> poll_elapsed t")
    case True
    with run show thesis by (intro guard) auto
  next
    case False
    then have "\<not> \<not> (\<not> poll_shutdown t \<and> (state s = Starting \<or> poll_elapsed t < uint n))" by auto
    note run = run [unfolded if_not_P [OF this]]
    show thesis
      using run r False unpolled failed again by (auto split: if_split_asm)
  qed
qed

lemma unpolled_failed: "PollStart ops c s = (False, u) \<Longrightarrow> state u = Failed"
  by (auto simp: PollStart_def Fail_def split: if_splits prod.splits)

lemma loop_left_starting:
  "poll_loop ops n ts s = Some u \<Longrightarrow> state u = Starting \<Longrightarrow> \<exists>t \<in> set ts. poll_shutdown t"
proof (induction ts arbitrary: s)
  case (Cons t ts)
  from Cons.prems(1) show ?case
    by (cases rule: poll_loop_round) (use Cons in \<open>auto dest: unpolled_failed\<close>)
qed simp

lemma broken_polls: "broken s \<Longrightarrow> PollStart ops c s = (p, u) \<Longrightarrow> broken u"
  by (simp add: broken_def PollStart_def)

lemma starved_loop:
  "starved ops st s \<or> broken s \<Longrightarrow> list_all (stalled_round st) ts \<Longrightarrow> poll_loop ops n ts s = Some u \<Longrightarrow> broken u"
proof (induction ts arbitrary: s)
  case (Cons t ts)
  have quiet: "keyless_packets st (poll_entered t)" "keyless_packets st (poll_checked t)" "keyless_packets st (poll_polled t)"
      "keyless_packets st (poll_asleep t)" "\<not> poll_shutdown t"
    using Cons.prems(2) by (auto simp: stalled_round_def round_packets_def keyless_packets_def)
  have later: "list_all (stalled_round st) ts" using Cons.prems(2) by simp
  let ?s1 = "deliver ops (poll_entered t) s" and ?s2 = "deliver ops (poll_checked t) (deliver ops (poll_entered t) s)"
  note s1 = starved_deliver [OF Cons.prems(1) quiet(1)]
  note s2 = starved_deliver [OF s1 quiet(2)]
  have polled: "starved ops st v \<or> broken v" if "PollStart ops (poll_now t) ?s2 = (p, v)" for p v
    using s2 that starved_polls [of ops st ?s2 "poll_now t"] broken_polls [of ?s2 ops "poll_now t" p v] by auto
  have s3: "starved ops st v \<or> broken v"
    if "(if state ?s1 = Starting then PollStart ops (poll_now t) ?s2 else (True, ?s2)) = (p, v)" for p v
    using that polled s2 by (auto split: if_splits)
  have over: "broken v" if "starved ops st v \<or> broken v" "state v = Failed" for v
    using that by (auto simp: starved_def)
  from Cons.prems(3) show ?case
  proof (cases rule: poll_loop_round)
    case guard
    with Cons.prems(1) quiet(5) show ?thesis by (auto simp: starved_def)
  next
    case unpolled
    with polled over unpolled_failed show ?thesis by blast
  next
    case (failed p s3)
    with over starved_deliver [OF s3 [OF failed(1)] quiet(3)] show ?thesis by simp
  next
    case (again p s3)
    show ?thesis
      using Cons.IH [OF starved_deliver [OF starved_deliver [OF s3 [OF again(1)] quiet(3)] quiet(4)] later again(4)] .
  qed
qed simp

text \<open>C38. When the polling loop returns. It returns on every schedule that has a round in which shutdown is requested, and on every
  schedule that starts with a round in which the duration is over and the session is no longer starting. Without
  a shutdown it never returns while the session is starting. So when one stream delivers no keyframe from a state in which it
  has none at or after the requested start, then whatever the other stream delivers, however many rounds pass and
  whatever the clock says, either the loop does not return or the session has failed over a packet: it was refused,
  or the pre-roll buffer of the other stream was full. Neither the duration nor the two second start limit of the configuration ends it.\<close>

theorem poll_loop_returns:
  shows "((\<exists>t \<in> set ts. poll_shutdown t) \<longrightarrow> poll_loop ops n ts s \<noteq> None) \<and>
    (state s \<noteq> Starting \<and> uint n \<le> poll_elapsed t \<longrightarrow> poll_loop ops n (t # ts) s = Some s) \<and>
    (poll_loop ops n ts s = Some s' \<and> state s' = Starting \<longrightarrow> (\<exists>t \<in> set ts. poll_shutdown t)) \<and>
    (session_reachable ops u \<and> state u = Starting \<and> failure u = NoRecordingFailure \<and> keyless st u \<and>
       list_all (stalled_round st) ts \<longrightarrow>
     (case poll_loop ops n ts u of None \<Rightarrow> True
      | Some u' \<Rightarrow> state u' = Failed \<and>
          failure u' \<in> {Aborted, InvalidTransition, PacketTiming, DuplicatePacketCts, BufferCapacity}))"
proof (intro conjI impI)
  show "poll_loop ops n ts s \<noteq> None" if "\<exists>t \<in> set ts. poll_shutdown t"
    using that
  proof (induction ts arbitrary: s)
    case (Cons t ts)
    then have "\<not> poll_shutdown t \<Longrightarrow> poll_loop ops n ts s' \<noteq> None" for s' by auto
    then show ?case by (simp add: Let_def split: prod.split)
  qed simp
  show "poll_loop ops n (t # ts) s = Some s" if "state s \<noteq> Starting \<and> uint n \<le> poll_elapsed t"
    using that by simp
  show "\<exists>t \<in> set ts. poll_shutdown t" if "poll_loop ops n ts s = Some s' \<and> state s' = Starting"
    using that loop_left_starting by blast
  show "case poll_loop ops n ts u of None \<Rightarrow> True | Some u' \<Rightarrow> state u' = Failed \<and>
      failure u' \<in> {Aborted, InvalidTransition, PacketTiming, DuplicatePacketCts, BufferCapacity}"
    if "session_reachable ops u \<and> state u = Starting \<and> failure u = NoRecordingFailure \<and> keyless st u \<and>
       list_all (stalled_round st) ts"
    using that starved_loop [of ops st u ts n]
    by (auto simp: starved_def broken_def packet_failures_def split: option.split)
qed

subsection \<open>A run\<close>

text \<open>A whole recording: two packets of each stream arrive while the outputs start and one more round passes.\<close>

definition demo_obs_packet :: "u64 \<Rightarrow> bool \<Rightarrow> encoder_packet" where
  "demo_obs_packet c key = \<lparr>packet_is_video = True, packet_data = [1], packet_pts = c, packet_dts = c,
     packet_timebase_num = 1, packet_timebase_den = 60, packet_keyframe = key, packet_cts = Some c,
     encoder_extra = Some [9]\<rparr>"

definition demo_world :: driver_world where
  "demo_world = \<lparr>arguments_given = True, encoder_id = ''obs_x264'', duration_seconds = 5, module_enabled = True,
     directory_ready = True, driver_directory = ''C:'', driver_clock = 7, object_made = (\<lambda>_. True),
     encoder_width = (\<lambda>_. 0), encoder_height = (\<lambda>_. 0), encoder_header = (\<lambda>_. None), frame_interval = 1,
     start_frame_time = 1, group_set = (\<lambda>_. True), output_starts = (\<lambda>_. True),
     starting_packets = [(StreamA, demo_obs_packet 1 True), (StreamB, demo_obs_packet 1 True),
       (StreamA, demo_obs_packet 2 False), (StreamB, demo_obs_packet 2 False)],
     warm_ticks = [\<lparr>warm_shutdown = False, warm_expired = True, warm_packets = []\<rparr>],
     first_poll_time = 3,
     poll_ticks = [\<lparr>poll_shutdown = False, poll_elapsed = 5, poll_now = 4, poll_entered = [], poll_checked = [],
       poll_polled = [], poll_asleep = []\<rparr>],
     stop_checked_packets = [], stop_frame_time = 2, stop_requested_packets = [], stopping_packets = []\<rparr>"

definition demo_run :: "(u64 MkvPacketSink session option \<times> obs_call list) option" where
  "demo_run = RunSynchronizedRecording taking_muxer 0 0 demo_world"

lemma demo_run_evaluates:
  "case demo_run of Some (Some s, calls) \<Rightarrow>
     state s = Stopped \<and> last_flushed_cts s \<noteq> max_u64 \<and> call_count (CallCreate EncoderGroup True) calls = 1 | _ \<Rightarrow> False"
  by code_simp

lemma demo_run_over:
  obtains s calls where "RunSynchronizedRecording taking_muxer 0 0 demo_world = Some (Some s, calls)"
    "demo_run = Some (Some s, calls)" "state s = Stopped" "last_flushed_cts s \<noteq> max_u64"
    "call_count (CallCreate EncoderGroup True) calls = 1"
  using demo_run_evaluates that by (auto simp: demo_run_def split: option.splits prod.splits)

theorem driver_leaves_closed_files_witness:
  "\<exists>s calls. demo_run = Some (Some s, calls) \<and> \<not> format_open (file_of (sink_a s)) \<and>
     muxed_cts (file_of (sink_a s)) = muxed_cts (file_of (sink_b s))"
proof -
  obtain s calls where run: "RunSynchronizedRecording taking_muxer 0 0 demo_world = Some (Some s, calls)"
    "demo_run = Some (Some s, calls)" "state s = Stopped" "last_flushed_cts s \<noteq> max_u64"
    using demo_run_over by metis
  from driver_leaves_closed_files [OF run(1)] run(2-4) show ?thesis by blast
qed

theorem driver_releases_what_it_made_witness:
  "\<exists>s calls. demo_run = Some (s, calls) \<and> call_count (CallRelease EncoderGroup) calls = 1"
proof -
  obtain s calls where run: "RunSynchronizedRecording taking_muxer 0 0 demo_world = Some (Some s, calls)"
    "demo_run = Some (Some s, calls)" "call_count (CallCreate EncoderGroup True) calls = 1"
    using demo_run_over by metis
  from driver_releases_what_it_made [OF run(1), of EncoderGroup] run(2,3) show ?thesis by auto
qed

text \<open>Stream A delivers a keyframe in each of three rounds while the clock runs on, stream B nothing.\<close>

definition one_sided_round :: "u64 \<Rightarrow> poll_tick" where
  "one_sided_round c = \<lparr>poll_shutdown = False, poll_elapsed = 1000, poll_now = 90000000000,
     poll_entered = [(StreamA, demo_obs_packet c True)], poll_checked = [], poll_polled = [], poll_asleep = []\<rparr>"

lemma one_sided_not_failed:
  "case poll_loop accepting_sink 5 (map one_sided_round [1, 2, 3])
     (session_run accepting_sink [OpStart 1] (demo_session 1)) of None \<Rightarrow> True | Some u \<Rightarrow> state u \<noteq> Failed"
  by code_simp

theorem poll_loop_returns_witness:
  "poll_loop accepting_sink 5 (map one_sided_round [1, 2, 3])
     (session_run accepting_sink [OpStart 1] (demo_session 1)) = None"
proof -
  let ?s = "session_run accepting_sink [OpStart 1] (demo_session 1)"
  have "state ?s = Starting" "failure ?s = NoRecordingFailure" by code_simp+
  moreover have "packets (buffer_b ?s) = []" by code_simp
  then have "keyless StreamB ?s" by (simp add: keyless_def stream_buffer_def Find_def om_find_def)
  moreover have "session_reachable accepting_sink ?s" by (rule reachable_demo)
  moreover have "list_all (stalled_round StreamB) (map one_sided_round [1, 2, 3])"
    by (simp add: stalled_round_def one_sided_round_def round_packets_def keyless_packets_def)
  ultimately show ?thesis
    using poll_loop_returns [of "map one_sided_round [1, 2, 3]" accepting_sink 5 _ _ _ ?s StreamB] one_sided_not_failed
    by (auto split: option.splits)
qed

end
