(* ===== verification/TimelineProbe.thy ===== *)
theory TimelineProbe
  imports RecordingDriver
begin

text \<open>
  \<open>src/experiment/stock-encoder-timeline-probe.cpp\<close>: the experiment that runs two stock encoders and compares
  what their packets say of the timeline. Modelled are the observation of packets and root ticks, the comparison of two
  captures, the analysis of the root epochs, the reading of the configuration, and the objects the probe holds between
  \<open>Start\<close> and \<open>Stop\<close>. The schedule of the worker thread (\<open>Run\<close>) is not modelled, except for the recording
  driver it calls. A signed key of a \<open>std::map\<close> is an \<open>int\<close>. Log lines are left out.
\<close>

subsection \<open>Configuration\<close>

text \<open>
  \<open>std::strtoul\<close> in base 10: white space, a sign, digits. \<open>unsigned long\<close> has 32 bits on Windows; a larger number
  answers the largest value and a minus sign negates. The result also tells where the parse stopped: \<open>None\<close>
  when nothing was parsed, and otherwise the rest of the string.
\<close>

definition is_space :: "char \<Rightarrow> bool" where
  "is_space c \<longleftrightarrow> of_char c \<in> {32 :: nat, 9, 10, 11, 12, 13}"

definition is_digit :: "char \<Rightarrow> bool" where
  "is_digit c \<longleftrightarrow> 48 \<le> (of_char c :: nat) \<and> (of_char c :: nat) \<le> 57"

definition digits_value :: "string \<Rightarrow> nat" where
  "digits_value cs = foldl (\<lambda>n c. n * 10 + (of_char c - 48)) 0 cs"

definition strtoul :: "string \<Rightarrow> u32 \<times> string option" where
  "strtoul s =
     (let s = dropWhile is_space s;
          negative = (s \<noteq> [] \<and> hd s = CHR ''-'');
          body = (if s \<noteq> [] \<and> (hd s = CHR ''-'' \<or> hd s = CHR ''+'') then tl s else s);
          digits = takeWhile is_digit body; n = digits_value digits
      in if digits = [] then (0, None)
         else (if n \<ge> 2 ^ 32 then - 1 else if negative then - word_of_nat n else word_of_nat n,
               Some (dropWhile is_digit body)))"

text \<open>\<open>None\<close>: the variable is not set, or its lookup failed.\<close>

definition ReadEnvironmentUint :: "string option \<Rightarrow> u32 \<Rightarrow> u32" where
  "ReadEnvironmentUint raw fallback =
     (case raw of
        None \<Rightarrow> fallback
      | Some value \<Rightarrow>
          (if value = [] then fallback
           else
             (let (parsed, rest) = strtoul value
              in if rest \<noteq> Some [] \<or> parsed = 0 \<or> uint parsed > 4294967295 then fallback else parsed)))"

record ProbeConfig =
  boundary_cycles :: u32
  long_run_seconds :: u32
  cycle_warmup_ms :: u32
  epoch_tick_stride :: u32
  poc_duration_seconds :: u32
  poc_warmup_ms :: u32

definition ReadConfig :: "(string \<Rightarrow> string option) \<Rightarrow> ProbeConfig" where
  "ReadConfig env =
     \<lparr>boundary_cycles = ReadEnvironmentUint (env ''OBS_SYNC_REPLAY_PROBE_CYCLES'') 100,
      long_run_seconds = ReadEnvironmentUint (env ''OBS_SYNC_REPLAY_PROBE_LONG_RUN_SECONDS'') 180,
      cycle_warmup_ms = ReadEnvironmentUint (env ''OBS_SYNC_REPLAY_PROBE_CYCLE_WARMUP_MS'') 300,
      epoch_tick_stride = ReadEnvironmentUint (env ''OBS_SYNC_REPLAY_PROBE_EPOCH_TICK_STRIDE'') 30,
      poc_duration_seconds = ReadEnvironmentUint (env ''OBS_SYNC_REPLAY_PROBE_POC_SECONDS'') 5,
      poc_warmup_ms = ReadEnvironmentUint (env ''OBS_SYNC_REPLAY_PROBE_POC_WARMUP_MS'') 2000\<rparr>"

subsection \<open>Observations\<close>

record PacketObservation =
  seen_pts :: i64
  seen_dts :: i64
  seen_cts :: u64
  seen_fer :: u64
  seen_ferc :: u64
  seen_pir :: u64
  callback_wall_ns :: u64
  callback_root_pts :: u64
  callback_root_frame_count :: u32
  callback_root_lagged_frames :: u32
  seen_keyframe :: bool

record OutputCapture =
  packet_count :: u64
  missing_packet_time_count :: u64
  first_packet_wall_ns :: u64
  observed_packets :: "PacketObservation list"
  cts_by_pts :: "(int, u64) omap"
  packets_by_source_cts :: "(u64, PacketObservation) omap"

definition new_output_capture :: OutputCapture where
  "new_output_capture = \<lparr>packet_count = 0, missing_packet_time_count = 0, first_packet_wall_ns = 0,
     observed_packets = [], cts_by_pts = [], packets_by_source_cts = []\<rparr>"

text \<open>Assignment through \<open>operator[]\<close>.\<close>

definition om_assign :: "'k::linorder \<Rightarrow> 'v \<Rightarrow> ('k, 'v) omap \<Rightarrow> ('k, 'v) omap" where
  "om_assign k v m = map (\<lambda>e. if fst e = k then (k, v) else e) (om_emplace k v m)"

text \<open>
  One call of the packet callback: whether it is a video packet, the observation built from it (\<open>None\<close> without a
  packet time) and the wall clock read after it.
\<close>

record probe_packet =
  probe_is_video :: bool
  probe_seen :: "PacketObservation option"
  probe_wall_ns :: u64

definition OnProbePacket :: "probe_packet \<Rightarrow> OutputCapture \<Rightarrow> OutputCapture" where
  "OnProbePacket pk c =
     (if \<not> probe_is_video pk then c
      else
        (let c = c\<lparr>packet_count := packet_count c + 1\<rparr>
         in case probe_seen pk of
              None \<Rightarrow> c\<lparr>missing_packet_time_count := missing_packet_time_count c + 1\<rparr>
            | Some ob \<Rightarrow>
                c\<lparr>observed_packets := observed_packets c @ [ob],
                  cts_by_pts := om_assign (sint (seen_pts ob)) (seen_cts ob) (cts_by_pts c),
                  packets_by_source_cts := om_assign (seen_cts ob) ob (packets_by_source_cts c),
                  first_packet_wall_ns := (if first_packet_wall_ns c = 0 then probe_wall_ns pk
                                           else first_packet_wall_ns c)\<rparr>))"

definition captured :: "probe_packet list \<Rightarrow> OutputCapture" where
  "captured pks = fold OnProbePacket pks new_output_capture"

record RootEpochObservation =
  epoch_cts :: u64
  epoch_frame_count :: u32

record RootEpochCapture =
  tick_stride :: u32
  tick_count :: u32
  epochs :: "RootEpochObservation list"

definition OnRootTick :: "RootEpochObservation \<Rightarrow> RootEpochCapture \<Rightarrow> RootEpochCapture" where
  "OnRootTick ob c =
     (let c = c\<lparr>tick_count := tick_count c + 1\<rparr>
      in if tick_count c mod tick_stride c \<noteq> 0 then c else c\<lparr>epochs := epochs c @ [ob]\<rparr>)"

subsection \<open>Comparison\<close>

fun gaps_after :: "int \<Rightarrow> int list \<Rightarrow> u64 \<Rightarrow> u64" where
  "gaps_after previous [] gaps = gaps"
| "gaps_after previous (current # ks) gaps =
     gaps_after current ks (if current > previous + 1 then gaps + word_of_int (current - previous - 1) else gaps)"

definition CountSourcePtsGaps :: "(int, u64) omap \<Rightarrow> u64" where
  "CountSourcePtsGaps m =
     (case om_keys m of [] \<Rightarrow> 0 | [k] \<Rightarrow> 0 | k # ks \<Rightarrow> gaps_after k ks 0)"

record ExperimentResult =
  packet_timing_available :: bool
  first_observed_cts_equal :: bool
  packet_pts_cts_mapping_equal :: bool
  first_observed_cts_a :: u64
  first_observed_cts_b :: u64
  packet_count_a :: u64
  packet_count_b :: u64
  packet_mapping_mismatches :: u64
  source_cts_mismatches :: u64
  source_pts_gaps :: u64

text \<open>A counting loop over the entries of a map.\<close>

definition count_entries :: "(('k \<times> 'v) \<Rightarrow> bool) \<Rightarrow> ('k, 'v) omap \<Rightarrow> u64 \<Rightarrow> u64" where
  "count_entries P m n = fold (\<lambda>e n. if P e then n + 1 else n) m n"

definition CompareCaptures :: "OutputCapture \<Rightarrow> OutputCapture \<Rightarrow> ExperimentResult" where
  "CompareCaptures a b =
     (let available = missing_packet_time_count a = 0 \<and> missing_packet_time_count b = 0 \<and>
            observed_packets a \<noteq> [] \<and> observed_packets b \<noteq> [];
          source = count_entries (\<lambda>(c, _). om_find (packets_by_source_cts a) c = None) (packets_by_source_cts b)
            (count_entries (\<lambda>(c, _). om_find (packets_by_source_cts b) c = None) (packets_by_source_cts a) 0);
          both = cts_by_pts a \<noteq> [] \<and> cts_by_pts b \<noteq> [];
          first_a = (if both then snd (hd (cts_by_pts a)) else 0);
          first_b = (if both then snd (hd (cts_by_pts b)) else 0);
          mapping = count_entries (\<lambda>(p, _). om_find (cts_by_pts a) p = None) (cts_by_pts b)
            (count_entries (\<lambda>(p, c). om_find (cts_by_pts b) p \<noteq> Some c) (cts_by_pts a) 0)
      in \<lparr>packet_timing_available = available,
          first_observed_cts_equal = (both \<and> first_a = first_b),
          packet_pts_cts_mapping_equal = (mapping = 0 \<and> available),
          first_observed_cts_a = first_a, first_observed_cts_b = first_b,
          packet_count_a = packet_count a, packet_count_b = packet_count b,
          packet_mapping_mismatches = mapping, source_cts_mismatches = source,
          source_pts_gaps = CountSourcePtsGaps (cts_by_pts a) + CountSourcePtsGaps (cts_by_pts b)\<rparr>)"

subsection \<open>Root epochs\<close>

record EpochSummary =
  attempts :: u32
  usable_attempts :: u32
  first_source_cts_equal :: u32
  first_source_cts_exactly_at_epoch :: u32
  common_keyframe_cts :: u32

definition FindFirstPacketAtOrAfter :: "OutputCapture \<Rightarrow> u64 \<Rightarrow> bool \<Rightarrow> PacketObservation option" where
  "FindFirstPacketAtOrAfter c cts keyframe_only =
     find (\<lambda>p. \<not> keyframe_only \<or> seen_keyframe p) (om_values (om_drop_below cts (packets_by_source_cts c)))"

definition analyze_epoch :: "OutputCapture \<Rightarrow> OutputCapture \<Rightarrow> RootEpochObservation \<Rightarrow> EpochSummary \<Rightarrow> EpochSummary" where
  "analyze_epoch a b ob s =
     (case (FindFirstPacketAtOrAfter a (epoch_cts ob) False, FindFirstPacketAtOrAfter b (epoch_cts ob) False) of
        (Some first_a, Some first_b) \<Rightarrow>
          (let s = s\<lparr>usable_attempts := usable_attempts s + 1\<rparr>;
               first_equal = (seen_cts first_a = seen_cts first_b);
               s = (if first_equal then s\<lparr>first_source_cts_equal := first_source_cts_equal s + 1\<rparr> else s);
               s = (if first_equal \<and> seen_cts first_a = epoch_cts ob
                    then s\<lparr>first_source_cts_exactly_at_epoch := first_source_cts_exactly_at_epoch s + 1\<rparr> else s)
           in case (FindFirstPacketAtOrAfter a (epoch_cts ob) True, FindFirstPacketAtOrAfter b (epoch_cts ob) True) of
                (Some key_a, Some key_b) \<Rightarrow>
                  (if seen_cts key_a = seen_cts key_b
                   then s\<lparr>common_keyframe_cts := common_keyframe_cts s + 1\<rparr> else s)
              | _ \<Rightarrow> s)
      | _ \<Rightarrow> s)"

definition AnalyzeRootEpochs :: "RootEpochCapture \<Rightarrow> OutputCapture \<Rightarrow> OutputCapture \<Rightarrow> EpochSummary" where
  "AnalyzeRootEpochs e a b =
     fold (analyze_epoch a b) (epochs e)
       \<lparr>attempts = word_of_nat (length (epochs e)), usable_attempts = 0, first_source_cts_equal = 0,
        first_source_cts_exactly_at_epoch = 0, common_keyframe_cts = 0\<rparr>"

subsection \<open>What a configuration variable means\<close>

lemma digit_char:
  assumes "k < 10"
  shows "is_digit (char_of (48 + k :: nat))" "(of_char (char_of (48 + k :: nat)) :: nat) = 48 + k"
  using assms by (simp_all add: is_digit_def)

lemma dec_digits: "list_all is_digit (dec n) \<and> dec n \<noteq> [] \<and> digits_value (dec n) = n"
proof (induction n rule: dec.induct)
  case (1 n)
  show ?case
  proof (cases "n < 10")
    case True
    then show ?thesis by (subst (1 2 3) dec.simps) (simp add: digits_value_def digit_char)
  next
    case False
    have "n mod 10 < 10" by simp
    with 1 False show ?thesis
      by (subst (1 2 3) dec.simps) (simp add: digits_value_def digit_char)
  qed
qed

lemma digit_is_not: "is_digit c \<Longrightarrow> \<not> is_space c \<and> c \<noteq> CHR ''-'' \<and> c \<noteq> CHR ''+''"
  by (auto simp: is_digit_def is_space_def)

lemma dec_head: "\<exists>c cs. dec n = c # cs \<and> is_digit c"
  using dec_digits [of n] by (cases "dec n") auto

lemma dec_scan: "takeWhile is_digit (dec n) = dec n" "dropWhile is_digit (dec n) = []"
  using dec_digits [of n] by (simp_all add: list_all_iff takeWhile_eq_all_conv dropWhile_eq_Nil_conv)

lemma strtoul_dec: "strtoul (dec n) = (if n \<ge> 2 ^ 32 then - 1 else word_of_nat n, Some [])"
proof -
  obtain c cs where d: "dec n = c # cs" "is_digit c" using dec_head by blast
  then have "dropWhile is_space (dec n) = dec n" "hd (dec n) \<noteq> CHR ''-''" "hd (dec n) \<noteq> CHR ''+''"
    using digit_is_not by simp_all
  then show ?thesis using dec_digits [of n] by (simp add: strtoul_def Let_def dec_scan)
qed

lemma strtoul_minus: "strtoul (CHR ''-'' # dec n) = (if n \<ge> 2 ^ 32 then - 1 else - word_of_nat n, Some [])"
proof -
  have "\<not> is_space (CHR ''-'')" by (simp add: is_space_def)
  then show ?thesis using dec_digits [of n] by (simp add: strtoul_def Let_def dec_scan)
qed

lemma u32_at_most: "uint x \<le> 4294967295"
  for x :: u32
  using uint_bounded [of x] by simp

lemma u32_max: "uint (- 1 :: u32) = 4294967295"
  by (simp add: unsigned_minus_1_eq_mask mask_eq_exp_minus_1)

lemma word_of_nat_u32_zero: "n < 2 ^ 32 \<Longrightarrow> word_of_nat n = (0 :: u32) \<longleftrightarrow> n = 0"
  by (auto simp: word_of_nat_eq_0_iff dest: dvd_imp_le)

lemma read_nonzero: "fallback \<noteq> 0 \<Longrightarrow> ReadEnvironmentUint raw fallback \<noteq> 0"
  by (simp add: ReadEnvironmentUint_def Let_def split: option.split prod.split)

text \<open>C40. A configuration variable of the probe that holds a decimal number is read back as that number when it fits
  in 32 bits and is not zero; zero, and everything that is not a number, gives the fallback, so with a
  fallback that is not zero no value is ever zero. The check that the number fits in 32 bits has no effect: a number that does
  not fit is read as the largest value, and a negative number as its two's complement.\<close>

theorem environment_numbers_are_read:
  "(0 < n \<and> n < 2 ^ 32 \<longrightarrow> unat (ReadEnvironmentUint (Some (dec n)) fallback) = n \<and>
      ReadEnvironmentUint (Some (CHR ''-'' # dec n)) fallback = - word_of_nat n) \<and>
    ReadEnvironmentUint (Some (dec 0)) fallback = fallback \<and>
    (n \<ge> 2 ^ 32 \<longrightarrow> ReadEnvironmentUint (Some (dec n)) fallback = 4294967295) \<and>
    (fallback \<noteq> 0 \<longrightarrow> ReadEnvironmentUint raw fallback \<noteq> 0)"
proof (intro conjI impI)
  have some: "dec k \<noteq> []" for k using dec_digits by blast
  show "unat (ReadEnvironmentUint (Some (dec n)) fallback) = n" if "0 < n \<and> n < 2 ^ 32"
    using that some word_of_nat_u32_zero [of n] u32_at_most [of "word_of_nat n"]
    by (simp add: ReadEnvironmentUint_def strtoul_dec unat_of_nat)
  show "ReadEnvironmentUint (Some (CHR ''-'' # dec n)) fallback = - word_of_nat n" if "0 < n \<and> n < 2 ^ 32"
    using that word_of_nat_u32_zero [of n] u32_at_most [of "- word_of_nat n"]
    by (simp add: ReadEnvironmentUint_def strtoul_minus)
  show "ReadEnvironmentUint (Some (dec 0)) fallback = fallback"
    using some by (simp add: ReadEnvironmentUint_def strtoul_dec)
  show "ReadEnvironmentUint (Some (dec n)) fallback = 4294967295" if "n \<ge> 2 ^ 32"
    using that some u32_max by (simp add: ReadEnvironmentUint_def strtoul_dec)
  show "ReadEnvironmentUint raw fallback \<noteq> 0" if "fallback \<noteq> 0"
    using that by (rule read_nonzero)
qed

theorem environment_numbers_are_read_witness:
  "ReadEnvironmentUint (Some (dec 60)) 5 \<noteq> 5 \<and> ReadEnvironmentUint (Some (dec (2 ^ 32))) 5 = 4294967295"
proof -
  have "unat (ReadEnvironmentUint (Some (dec 60)) 5) = 60"
    "ReadEnvironmentUint (Some (dec (2 ^ 32))) 5 = 4294967295"
    using environment_numbers_are_read [of 60 5 None] environment_numbers_are_read [of "2 ^ 32" 5 None] by simp_all
  then show ?thesis by auto
qed

text \<open>So the branch of the probe for a long run of zero seconds is never taken, and no tick is divided by zero.\<close>

lemma configuration_is_never_zero:
  "long_run_seconds (ReadConfig env) \<noteq> 0" "epoch_tick_stride (ReadConfig env) \<noteq> 0"
  "boundary_cycles (ReadConfig env) \<noteq> 0" "poc_duration_seconds (ReadConfig env) \<noteq> 0"
  by (simp_all add: ReadConfig_def read_nonzero)

subsection \<open>What a capture holds\<close>

definition seen :: "probe_packet list \<Rightarrow> PacketObservation list" where
  "seen pks = concat (map (\<lambda>pk. if probe_is_video pk then (case probe_seen pk of None \<Rightarrow> [] | Some ob \<Rightarrow> [ob]) else []) pks)"

text \<open>The CTS a list of observations last reported for a PTS, and the CTS values in it.\<close>

definition pts_map :: "PacketObservation list \<Rightarrow> int \<Rightarrow> u64 option" where
  "pts_map obs = fold (\<lambda>ob m. m(sint (seen_pts ob) \<mapsto> seen_cts ob)) obs (\<lambda>_. None)"

lemma pts_map_snoc: "pts_map (obs @ [ob]) = (pts_map obs)(sint (seen_pts ob) \<mapsto> seen_cts ob)"
  by (simp add: pts_map_def)

lemma keys_om_assign: "map fst (om_assign k v m) = map fst (om_emplace k v m)"
  by (simp add: om_assign_def)

lemma om_wf_assign: "om_wf m \<Longrightarrow> om_wf (om_assign k v m)"
  using om_wf_emplace [of m k v] by (simp add: om_wf_def keys_om_assign)

lemma length_om_assign: "length (om_assign k v m) \<le> Suc (length m)"
proof -
  have "length (om_emplace k v m) \<le> Suc (length m)" by (induction k v m rule: om_emplace.induct) auto
  then show ?thesis by (simp add: om_assign_def)
qed

lemma map_of_overwrite:
  "map_of (map (\<lambda>e. if fst e = k then (k, v) else e) m) k' = (if k' = k then map_option (\<lambda>_. v) (map_of m k) else map_of m k')"
  by (induction m) auto

lemma find_om_assign: "om_wf m \<Longrightarrow> map_of (om_assign k v m) = (map_of m)(k \<mapsto> v)"
  by (auto simp: fun_eq_iff om_assign_def map_of_overwrite find_om_emplace split: option.split)

definition observation :: "probe_packet \<Rightarrow> PacketObservation option" where
  "observation pk = (if probe_is_video pk then probe_seen pk else None)"

lemma seen_snoc: "seen (pks @ [pk]) = seen pks @ (case observation pk of None \<Rightarrow> [] | Some ob \<Rightarrow> [ob])"
  by (simp add: seen_def observation_def)

lemma probe_fields:
  "cts_by_pts (OnProbePacket pk c) = (case observation pk of None \<Rightarrow> cts_by_pts c
     | Some ob \<Rightarrow> om_assign (sint (seen_pts ob)) (seen_cts ob) (cts_by_pts c))"
  "packets_by_source_cts (OnProbePacket pk c) = (case observation pk of None \<Rightarrow> packets_by_source_cts c
     | Some ob \<Rightarrow> om_assign (seen_cts ob) ob (packets_by_source_cts c))"
  "observed_packets (OnProbePacket pk c) = observed_packets c @ (case observation pk of None \<Rightarrow> [] | Some ob \<Rightarrow> [ob])"
  "missing_packet_time_count (OnProbePacket pk c) = missing_packet_time_count c +
     (if probe_is_video pk \<and> probe_seen pk = None then 1 else 0)"
  by (simp_all add: OnProbePacket_def observation_def Let_def split: option.split)

lemma captured_snoc: "captured (pks @ [pk]) = OnProbePacket pk (captured pks)"
  by (simp add: captured_def)

lemma captured_Nil: "captured [] = new_output_capture"
  by (simp add: captured_def)

lemmas capture_induct = captured_snoc captured_Nil probe_fields seen_snoc new_output_capture_def

lemma captured_pts:
  "om_wf (cts_by_pts (captured pks)) \<and> map_of (cts_by_pts (captured pks)) = pts_map (seen pks) \<and>
   length (cts_by_pts (captured pks)) \<le> length pks"
proof (induction pks rule: rev_induct)
  case Nil
  show ?case by (simp add: capture_induct seen_def pts_map_def)
next
  case (snoc pk pks)
  have "length (om_assign k v (cts_by_pts (captured pks))) \<le> Suc (length pks)" for k v
    by (rule le_trans [OF length_om_assign]) (use snoc in simp)
  with snoc show ?case
    by (cases "observation pk") (simp_all add: capture_induct om_wf_assign find_om_assign pts_map_snoc)
qed

lemma captured_source:
  "om_wf (packets_by_source_cts (captured pks)) \<and>
   dom (map_of (packets_by_source_cts (captured pks))) = seen_cts ` set (seen pks) \<and>
   length (packets_by_source_cts (captured pks)) \<le> length pks"
proof (induction pks rule: rev_induct)
  case Nil
  show ?case by (simp add: capture_induct seen_def)
next
  case (snoc pk pks)
  have "length (om_assign k v (packets_by_source_cts (captured pks))) \<le> Suc (length pks)" for k v
    by (rule le_trans [OF length_om_assign]) (use snoc in simp)
  with snoc show ?case
    by (cases "observation pk") (simp_all add: capture_induct om_wf_assign find_om_assign del: fun_upd_apply)
qed

lemma captured_counts:
  "observed_packets (captured pks) = seen pks"
  "missing_packet_time_count (captured pks) =
     word_of_nat (length (filter (\<lambda>pk. probe_is_video pk \<and> probe_seen pk = None) pks))"
  by (induction pks rule: rev_induct) (simp_all add: capture_induct seen_def [of "[]"])

subsection \<open>What a comparison counts\<close>

lemma count_entries_eq: "count_entries P m n = n + word_of_nat (length (filter P m))"
  unfolding count_entries_def by (induction m arbitrary: n) (simp_all add: ac_simps)

lemma unat_sum: "n < 2 ^ 64 \<Longrightarrow> unat (word_of_nat n :: u64) = n"
  by (simp add: unat_of_nat)

lemma count_filter_card:
  assumes "om_wf m"
  shows "length (filter P m) = card {k. \<exists>v. map_of m k = Some v \<and> P (k, v)}"
proof -
  have dist: "distinct (map fst (filter P m))" using om_wf_distinct [OF assms] by (simp add: distinct_map_filter)
  have "{k. \<exists>v. map_of m k = Some v \<and> P (k, v)} = fst ` set (filter P m)"
    using map_of_eq_Some_iff [OF om_wf_distinct [OF assms]] by force
  also have "card \<dots> = length (map fst (filter P m))"
    using distinct_card [OF dist] by simp
  finally show ?thesis by simp
qed

text \<open>C39. The comparison of two captures measures exactly how they differ. For any packets of the two outputs, the mapping mismatches
  are the PTS values for which one capture holds a CTS that the other does not hold for it, and the source
  mismatches are the CTS values seen by one capture only; the mappings are called equal exactly when they are the same map, no video
  packet came without its time and both captures saw a packet.\<close>

theorem comparison_is_exact:
  assumes "length pa + length pb < 2 ^ 64"
  defines "r \<equiv> CompareCaptures (captured pa) (captured pb)" and "A \<equiv> pts_map (seen pa)" and "B \<equiv> pts_map (seen pb)"
  shows "unat (packet_mapping_mismatches r) = card {p \<in> dom A. B p \<noteq> A p} + card (dom B - dom A) \<and>
    unat (source_cts_mismatches r) = card (seen_cts ` set (seen pa) - seen_cts ` set (seen pb)) +
      card (seen_cts ` set (seen pb) - seen_cts ` set (seen pa)) \<and>
    (packet_pts_cts_mapping_equal r \<longleftrightarrow> A = B \<and> seen pa \<noteq> [] \<and> seen pb \<noteq> [] \<and>
       (\<forall>pk \<in> set pa \<union> set pb. \<not> (probe_is_video pk \<and> probe_seen pk = None)))"
proof -
  let ?ma = "cts_by_pts (captured pa)" and ?mb = "cts_by_pts (captured pb)"
  let ?sa = "packets_by_source_cts (captured pa)" and ?sb = "packets_by_source_cts (captured pb)"
  note pa = captured_pts [of pa, folded A_def] and pb = captured_pts [of pb, folded B_def]
  note sa = captured_source [of pa] and sb = captured_source [of pb]
  let ?only_a = "filter (\<lambda>(p, c). om_find ?mb p \<noteq> Some c) ?ma" and ?only_b = "filter (\<lambda>(p, _). om_find ?ma p = None) ?mb"
  let ?src_a = "filter (\<lambda>(c, _). om_find ?sb c = None) ?sa" and ?src_b = "filter (\<lambda>(c, _). om_find ?sa c = None) ?sb"
  have short: "length (filter P xs) + length (filter Q ys) < 2 ^ 64"
    if "length xs \<le> length pa" "length ys \<le> length pb" for P Q and xs :: "'a list" and ys :: "'b list"
    using that assms(1) length_filter_le [of P xs] length_filter_le [of Q ys] by linarith
  have "card {p \<in> dom A. B p \<noteq> A p} = length ?only_a"
    unfolding count_filter_card [OF conjunct1 [OF pa]] using pa pb
    by (intro arg_cong [of _ _ card]) (auto simp: om_find_def)
  moreover have "card (dom B - dom A) = length ?only_b"
    unfolding count_filter_card [OF conjunct1 [OF pb]] using pa pb
    by (intro arg_cong [of _ _ card]) (auto simp: om_find_def)
  moreover have "packet_mapping_mismatches r = word_of_nat (length ?only_a + length ?only_b)"
    by (simp add: r_def CompareCaptures_def Let_def count_entries_eq)
  moreover have "length ?only_a + length ?only_b < 2 ^ 64" using pa pb by (intro short) simp_all
  ultimately have mapping: "unat (packet_mapping_mismatches r) = card {p \<in> dom A. B p \<noteq> A p} + card (dom B - dom A)"
    by (simp only: unat_sum)
  have "card (seen_cts ` set (seen pa) - seen_cts ` set (seen pb)) = length ?src_a"
    unfolding count_filter_card [OF conjunct1 [OF sa]] using sa sb
    by (intro arg_cong [of _ _ card]) (auto simp: om_find_def)
  moreover have "card (seen_cts ` set (seen pb) - seen_cts ` set (seen pa)) = length ?src_b"
    unfolding count_filter_card [OF conjunct1 [OF sb]] using sa sb
    by (intro arg_cong [of _ _ card]) (auto simp: om_find_def)
  moreover have "source_cts_mismatches r = word_of_nat (length ?src_a + length ?src_b)"
    by (simp add: r_def CompareCaptures_def Let_def count_entries_eq)
  moreover have "length ?src_a + length ?src_b < 2 ^ 64" using sa sb by (intro short) simp_all
  ultimately have source: "unat (source_cts_mismatches r) = card (seen_cts ` set (seen pa) - seen_cts ` set (seen pb)) +
      card (seen_cts ` set (seen pb) - seen_cts ` set (seen pa))"
    by (simp only: unat_sum)
  have "finite (dom A)" "finite (dom B)" using pa pb finite_dom_map_of by metis+
  moreover have "{p \<in> dom A. B p \<noteq> A p} = {} \<and> dom B - dom A = {} \<longleftrightarrow> A = B"
  proof
    assume same: "{p \<in> dom A. B p \<noteq> A p} = {} \<and> dom B - dom A = {}"
    show "A = B"
    proof
      fix p
      from same have "p \<in> dom A \<Longrightarrow> B p = A p" "p \<notin> dom A \<Longrightarrow> p \<notin> dom B" by blast+
      then show "A p = B p" by (cases "p \<in> dom A") (simp_all add: domIff)
    qed
  qed auto
  ultimately have "packet_mapping_mismatches r = 0 \<longleftrightarrow> A = B"
    unfolding unat_eq_0 [symmetric] mapping by simp
  moreover have "missing_packet_time_count (captured pks) = 0 \<longleftrightarrow>
      (\<forall>pk \<in> set pks. \<not> (probe_is_video pk \<and> probe_seen pk = None))" if "length pks < 2 ^ 64" for pks
  proof -
    have "length (filter (\<lambda>pk. probe_is_video pk \<and> probe_seen pk = None) pks) < 2 ^ 64"
      using that le_less_trans [OF length_filter_le] by blast
    then show ?thesis
      unfolding captured_counts by (subst word_of_nat_zero_iff) (auto simp: filter_empty_conv)
  qed
  moreover have "length pa < 2 ^ 64" "length pb < 2 ^ 64" using assms(1) by simp_all
  ultimately show ?thesis
    using mapping source by (auto simp: r_def CompareCaptures_def Let_def captured_counts(1))
qed

subsection \<open>Gaps\<close>

lemma gaps_after_eq:
  "sorted_wrt (<) (k # ks) \<Longrightarrow> gaps_after k ks n = n + word_of_int (last (k # ks) - k - int (length ks))"
proof (induction ks arbitrary: k n)
  case (Cons c ks)
  then have less: "k < c" and sorted: "sorted_wrt (<) (c # ks)" by auto
  have "gaps_after k (c # ks) n = gaps_after c ks (n + word_of_int (c - k - 1))"
    using less by (cases "c = k + 1") simp_all
  also have "\<dots> = n + word_of_int (c - k - 1) + word_of_int (last (c # ks) - c - int (length ks))"
    by (rule Cons.IH [OF sorted])
  also have "\<dots> = n + word_of_int (last (k # c # ks) - k - int (length (c # ks)))"
    by (simp add: algebra_simps)
  finally show ?case .
qed simp

lemma sorted_hd_last: "sorted_wrt (<) ks \<Longrightarrow> k \<in> set ks \<Longrightarrow> hd ks \<le> k \<and> k \<le> last ks"
  for ks :: "int list"
proof (induction ks)
  case (Cons c ks)
  then show ?case by (cases "ks = []") (auto simp: less_imp_le last_in_set)
qed simp

lemma CountSourcePtsGaps_eq:
  assumes "om_wf m" and "m \<noteq> []"
  defines "K \<equiv> fst ` set m"
  shows "CountSourcePtsGaps m = word_of_nat (card ({Min K..Max K} - K))"
proof -
  have sorted: "sorted_wrt (<) (om_keys m)" using assms(1) by (simp add: om_wf_def om_keys_def)
  obtain k ks where ks: "om_keys m = k # ks" using assms(2) by (cases m) (auto simp: om_keys_def)
  have K: "K = set (k # ks)" unfolding ks [symmetric] by (simp add: K_def om_keys_def)
  have bounds: "k \<le> x \<and> x \<le> last (k # ks)" if "x \<in> K" for x
    using sorted_hd_last [OF sorted [unfolded ks]] that K by simp
  have sub: "K \<subseteq> {k..last (k # ks)}" by (meson atLeastAtMost_iff bounds subsetI)
  have "last (k # ks) \<in> K" unfolding K by (rule last_in_set) simp
  moreover have "finite K" "k \<in> K" by (simp_all add: K)
  ultimately have "Min K = k" "Max K = last (k # ks)"
    by (blast intro: Min_eqI Max_eqI dest: bounds [THEN conjunct1] bounds [THEN conjunct2])+
  moreover have "card ({k..last (k # ks)} - K) = nat (last (k # ks) - k + 1) - length (k # ks)"
  proof -
    note sub
    moreover have "card K = length (k # ks)"
      unfolding K using sorted ks strict_sorted_iff by (metis distinct_card)
    ultimately show ?thesis by (subst card_Diff_subset) (auto simp: K)
  qed
  moreover have "int (length (k # ks)) \<le> last (k # ks) - k + 1"
  proof -
    have "card K \<le> card {k..last (k # ks)}" by (rule card_mono [OF _ sub]) simp
    moreover have "card K = length (k # ks)"
      unfolding K using sorted ks strict_sorted_iff by (metis distinct_card)
    ultimately show ?thesis using bounds [of k] by (simp add: K)
  qed
  moreover have gaps: "CountSourcePtsGaps m = word_of_int (last (k # ks) - k - int (length ks))"
    unfolding CountSourcePtsGaps_def ks
    using gaps_after_eq [OF sorted [unfolded ks], of 0] by (cases ks) simp_all
  ultimately have "int (card ({Min K..Max K} - K)) = last (k # ks) - k - int (length ks)" by simp
  then have "word_of_int (last (k # ks) - k - int (length ks)) = (word_of_nat (card ({Min K..Max K} - K)) :: u64)"
    by (metis of_int_of_nat_eq)
  then show ?thesis using gaps by simp
qed

text \<open>Every PTS gap is counted: for packets whose PTS span fits the signed arithmetic, the count of a capture is the
  number of PTS values between its first and its last that no packet carries.\<close>

theorem gaps_are_missing_pts:
  assumes "seen pks \<noteq> []"
  defines "K \<equiv> dom (pts_map (seen pks))"
  assumes "Max K - Min K < 2 ^ 63"
  shows "unat (CountSourcePtsGaps (cts_by_pts (captured pks))) = card ({Min K..Max K} - K)"
proof -
  let ?m = "cts_by_pts (captured pks)"
  note pts = captured_pts [of pks]
  have K: "K = fst ` set ?m"
    unfolding K_def conjunct1 [OF conjunct2 [OF pts], symmetric] by (rule dom_map_of_conv_image_fst)
  obtain obs ob where "seen pks = obs @ [ob]" using assms(1) rev_exhaust by blast
  then have "K \<noteq> {}" by (simp add: K_def pts_map_snoc)
  then have "?m \<noteq> []" using K by auto
  have "card ({Min K..Max K} - K) \<le> card {Min K..Max K}" by (rule card_mono) auto
  also have "\<dots> < 2 ^ 64" using assms(3) by simp
  finally show ?thesis
    unfolding CountSourcePtsGaps_eq [OF conjunct1 [OF pts] \<open>?m \<noteq> []\<close>, folded K] by (simp add: unat_of_nat)
qed

subsection \<open>The analysis of epochs\<close>

lemma captured_filed:
  "map_of (packets_by_source_cts (captured pks)) c = Some ob \<Longrightarrow> seen_cts ob = c \<and> ob \<in> set (seen pks)"
proof (induction pks arbitrary: c ob rule: rev_induct)
  case (snoc pk pks)
  then show ?case
    using captured_source [of pks]
    by (cases "observation pk") (auto simp: capture_induct find_om_assign split: if_splits)
qed (simp add: capture_induct)

text \<open>The first packet at or after a CTS is the one of the least CTS.\<close>

lemma first_packet_is_least:
  assumes "FindFirstPacketAtOrAfter (captured pks) c keys = Some ob"
  shows "ob \<in> set (seen pks) \<and> c \<le> seen_cts ob \<and> (keys \<longrightarrow> seen_keyframe ob) \<and>
    (\<not> keys \<longrightarrow> (\<forall>ob' \<in> set (seen pks). c \<le> seen_cts ob' \<longrightarrow> seen_cts ob \<le> seen_cts ob'))"
proof -
  let ?m = "packets_by_source_cts (captured pks)"
  let ?d = "om_drop_below c ?m"
  have wf: "om_wf ?m" using captured_source by blast
  then have d: "?d = filter (\<lambda>e. c \<le> fst e) ?m" by (rule om_drop_below_filter)
  have wfd: "om_wf ?d" unfolding d by (rule om_wf_filter [OF wf])
  have held: "seen_cts v = k \<and> v \<in> set (seen pks)" if "(k, v) \<in> set ?m" for k v
    using that captured_filed om_wf_distinct [OF wf] by (metis map_of_is_SomeI)
  from assms have found: "find (\<lambda>p. \<not> keys \<or> seen_keyframe p) (map snd ?d) = Some ob"
    by (simp add: FindFirstPacketAtOrAfter_def om_values_def)
  then obtain i where i: "i < length ?d" "ob = snd (?d ! i)" "\<not> keys \<or> seen_keyframe ob"
      "\<forall>j < i. keys \<and> \<not> seen_keyframe (snd (?d ! j))"
    by (auto simp: find_Some_iff)
  have "?d ! i \<in> set ?d" using i(1) by simp
  then have in_m: "(fst (?d ! i), ob) \<in> set ?m" "c \<le> fst (?d ! i)" using i(2) d by (auto simp: prod_eq_iff)
  then have ob: "seen_cts ob = fst (?d ! i)" "ob \<in> set (seen pks)" using held by blast+
  have "seen_cts ob \<le> seen_cts ob'" if "\<not> keys" "ob' \<in> set (seen pks)" "c \<le> seen_cts ob'" for ob'
  proof -
    have "i = 0" using i(4) that(1) by (cases i) auto
    have "seen_cts ob' \<in> fst ` set ?d"
      using that(2,3) captured_source [of pks] unfolding d by (force simp: dom_map_of_conv_image_fst)
    then obtain j where "j < length ?d" "seen_cts ob' = fst (?d ! j)" by (auto simp: in_set_conv_nth)
    then show ?thesis
      using wfd \<open>i = 0\<close> ob(1) by (cases "j = 0") (auto simp: om_wf_def sorted_wrt_iff_nth_less less_imp_le)
  qed
  with ob in_m(2) i(3) show ?thesis by auto
qed

text \<open>The counters of a summary are nested.\<close>

definition nested_counts :: "nat \<Rightarrow> EpochSummary \<Rightarrow> bool" where
  "nested_counts n s \<longleftrightarrow>
     first_source_cts_exactly_at_epoch s \<le> first_source_cts_equal s \<and> first_source_cts_equal s \<le> usable_attempts s \<and>
     common_keyframe_cts s \<le> usable_attempts s \<and> unat (usable_attempts s) \<le> n"

lemma nested_step:
  assumes "nested_counts n s" and "n + 1 < 2 ^ 32"
  shows "nested_counts (n + 1) (analyze_epoch a b ob s)"
proof -
  have next_up: "unat (x + 1) = unat x + 1" if "unat x \<le> n" for x :: u32
    using that assms(2) by (simp add: unat_word_ariths)
  have small: "unat (first_source_cts_exactly_at_epoch s) \<le> n" "unat (first_source_cts_equal s) \<le> n"
    "unat (common_keyframe_cts s) \<le> n" "unat (usable_attempts s) \<le> n"
    using assms(1) by (auto simp: nested_counts_def word_le_nat_alt)
  show ?thesis
    using assms(1) small
    by (auto simp: analyze_epoch_def nested_counts_def Let_def word_le_nat_alt next_up split: option.split)
qed

lemma epoch_counts_nested:
  assumes "length (epochs e) < 2 ^ 32"
  shows "nested_counts (length (epochs e)) (AnalyzeRootEpochs e a b)"
proof -
  have "nested_counts (n + length obs) (fold (analyze_epoch a b) obs s)"
    if "nested_counts n s" "n + length obs < 2 ^ 32" for n obs s
    using that
  proof (induction obs arbitrary: n s)
    case (Cons ob obs)
    with Cons.IH [OF nested_step [OF Cons.prems(1)]] show ?case by simp
  qed simp
  from this [of 0 _ "epochs e"] assms show ?thesis
    unfolding AnalyzeRootEpochs_def by (simp add: nested_counts_def)
qed

subsection \<open>Two captures\<close>

definition demo_observation :: "i64 \<Rightarrow> u64 \<Rightarrow> PacketObservation" where
  "demo_observation p c = \<lparr>seen_pts = p, seen_dts = p, seen_cts = c, seen_fer = 0, seen_ferc = 0, seen_pir = 0,
     callback_wall_ns = 0, callback_root_pts = 0, callback_root_frame_count = 0, callback_root_lagged_frames = 0,
     seen_keyframe = True\<rparr>"

definition demo_probe :: "(i64 \<times> u64) list \<Rightarrow> probe_packet list" where
  "demo_probe xs = map (\<lambda>(p, c). \<lparr>probe_is_video = True, probe_seen = Some (demo_observation p c), probe_wall_ns = 1\<rparr>) xs"

theorem comparison_is_exact_witness:
  "unat (source_cts_mismatches (CompareCaptures (captured (demo_probe [(- 1, 5), (0, 6)])) (captured (demo_probe [(- 1, 5), (0, 7)])))) = 2"
proof -
  let ?a = "demo_probe [(- 1, 5), (0, 6)]" and ?b = "demo_probe [(- 1, 5), (0, 7)]"
  have "length ?a + length ?b < 2 ^ 64" by (simp add: demo_probe_def)
  moreover have "seen_cts ` set (seen ?a) = {5, 6}" "seen_cts ` set (seen ?b) = {5, 7}"
    by (auto simp: demo_probe_def seen_def demo_observation_def)
  then have "seen_cts ` set (seen ?a) - seen_cts ` set (seen ?b) = {6}"
    "seen_cts ` set (seen ?b) - seen_cts ` set (seen ?a) = {7}" by auto
  ultimately show ?thesis using comparison_is_exact [of ?a ?b] by simp
qed

subsection \<open>The life of the probe\<close>

text \<open>
  The objects of the probe's state as flags, and ghost counts of the source references it took and released and of
  the views it made and destroyed.
\<close>

record probe =
  scene_held :: "RecordingStream \<Rightarrow> bool"
  view_held :: "RecordingStream \<Rightarrow> bool"
  video_held :: "RecordingStream \<Rightarrow> bool"
  worker_joinable :: bool
  probe_stop_requested :: bool
  references_taken :: nat
  references_released :: nat
  views_made :: nat
  views_destroyed :: nat

definition new_probe :: probe where
  "new_probe = \<lparr>scene_held = (\<lambda>_. False), view_held = (\<lambda>_. False), video_held = (\<lambda>_. False),
     worker_joinable = False, probe_stop_requested = False, references_taken = 0, references_released = 0,
     views_made = 0, views_destroyed = 0\<rparr>"

definition held :: "(RecordingStream \<Rightarrow> bool) \<Rightarrow> nat" where
  "held h = length (filter h both_streams)"

record probe_answers =
  scene_found :: "RecordingStream \<Rightarrow> bool"
  probe_view_made :: "RecordingStream \<Rightarrow> bool"
  probe_video_made :: "RecordingStream \<Rightarrow> bool"

definition probe_Stop :: "probe \<Rightarrow> probe" where
  "probe_Stop p = p\<lparr>probe_stop_requested := True, worker_joinable := False,
     view_held := (\<lambda>_. False), video_held := (\<lambda>_. False), scene_held := (\<lambda>_. False),
     views_destroyed := views_destroyed p + held (view_held p),
     references_released := references_released p + held (scene_held p)\<rparr>"

definition probe_Start :: "probe_answers \<Rightarrow> probe \<Rightarrow> bool \<times> probe" where
  "probe_Start r p =
     (if worker_joinable p then (False, p)
      else
        (let p = p\<lparr>scene_held := scene_found r,
                   references_taken := references_taken p + held (scene_found r)\<rparr>
         in if \<not> scene_found r StreamA \<or> \<not> scene_found r StreamB then (False, p)
            else
              (let p = p\<lparr>view_held := probe_view_made r, views_made := views_made p + held (probe_view_made r)\<rparr>
               in if \<not> probe_view_made r StreamA \<or> \<not> probe_view_made r StreamB then (False, probe_Stop p)
                  else
                    (let p = p\<lparr>video_held := probe_video_made r\<rparr>
                     in if \<not> probe_video_made r StreamA \<or> \<not> probe_video_made r StreamB then (False, probe_Stop p)
                        else (True, p\<lparr>probe_stop_requested := False, worker_joinable := True\<rparr>)))))"

datatype probe_op = ProbeStart probe_answers | ProbeStop

definition probe_run :: "probe_op list \<Rightarrow> probe \<Rightarrow> probe" where
  "probe_run ops p = fold (\<lambda>op p. case op of ProbeStart r \<Rightarrow> snd (probe_Start r p) | ProbeStop \<Rightarrow> probe_Stop p) ops p"

definition probe_views_ok :: "probe \<Rightarrow> bool" where
  "probe_views_ok p \<longleftrightarrow> views_made p = views_destroyed p + held (view_held p) \<and>
     (\<not> worker_joinable p \<longrightarrow> held (view_held p) = 0)"

lemma held_none [simp]: "held (\<lambda>_. False) = 0"
  by (simp add: held_def)

lemma probe_run_views: "probe_views_ok p \<Longrightarrow> probe_views_ok (probe_run ops p)"
proof (induction ops arbitrary: p)
  case (Cons op ops)
  have "probe_views_ok (probe_Stop p)" using Cons.prems by (simp add: probe_views_ok_def probe_Stop_def)
  moreover have "probe_views_ok (snd (probe_Start r p))" for r
    using Cons.prems by (auto simp: probe_views_ok_def probe_Start_def probe_Stop_def Let_def)
  ultimately show ?case
    using Cons.IH by (simp add: probe_run_def split: probe_op.split)
qed (simp add: probe_run_def)

text \<open>
  The views always balance. The source references do not: a \<open>Start\<close> that found one scene and not the other keeps the
  reference, and the next \<open>Start\<close> writes over it, so it is never released.
\<close>

theorem second_start_leaks_a_reference:
  "views_made (probe_run ops new_probe) =
     views_destroyed (probe_run ops new_probe) + held (view_held (probe_run ops new_probe)) \<and>
   (let failed = \<lparr>scene_found = (\<lambda>st. st = StreamA), probe_view_made = (\<lambda>_. True), probe_video_made = (\<lambda>_. True)\<rparr>;
        p = probe_run [ProbeStart failed, ProbeStart failed, ProbeStop] new_probe
    in references_taken p = 2 \<and> references_released p = 1)"
proof -
  have "probe_views_ok new_probe" by (simp add: probe_views_ok_def new_probe_def)
  from probe_run_views [OF this] show ?thesis
    by (simp add: probe_views_ok_def)
      (simp add: probe_run_def probe_Start_def probe_Stop_def new_probe_def held_def Let_def)
qed

end
