(* ===== verification/ControlsAdapter.thy ===== *)
theory ControlsAdapter
  imports Prelude
begin

text \<open>
  \<open>src/ui/obs-controls-adapter.cpp\<close>: the adapter that puts the plugin's buttons into the places of the
  stock recording and replay buttons of the OBS controls dock, keeps them there, and puts the stock buttons back. Qt is
  not part of the program: it is the record \<open>qt\<close> of functions on its own state, and \<open>qt_laws\<close> states what
  the adapter relies on. Log lines are left out.
\<close>

subsection \<open>Qt\<close>

type_synonym widget = nat
type_synonym layout = nat
type_synonym alignment = nat

datatype layout_entry = EntryWidget widget | EntryLayout layout | EntryOther

text \<open>
  The calls the adapter makes. \<open>q_alive\<close> and \<open>q_layout_alive\<close> tell whether a \<open>QPointer\<close> to the object is
  still non-null; \<open>q_buttons\<close> is \<open>findChildren\<close> of a widget by name; \<open>q_items\<close> are the items of a layout in
  order; \<open>q_depth\<close> bounds the nesting of layouts, which is finite; \<open>q_copy_look\<close> are the setters of
  \<open>CopyNativeAppearance\<close>, which leave the replacement with the name of the stock button and the plugin's mark.
  \<open>q_insert\<close> is \<open>QBoxLayout::insertWidget(index, widget, stretch, alignment)\<close>. The adapter gives it three
  arguments, and the third is the alignment it saved: the value of the flags becomes the stretch factor, and the
  alignment of the new item is the default 0.
\<close>

record 'q qt =
  q_dock :: "'q \<Rightarrow> widget option"
  q_dock_widget :: "'q \<Rightarrow> widget \<Rightarrow> widget option"
  q_alive :: "'q \<Rightarrow> widget \<Rightarrow> bool"
  q_layout_alive :: "'q \<Rightarrow> layout \<Rightarrow> bool"
  q_buttons :: "'q \<Rightarrow> widget \<Rightarrow> string \<Rightarrow> widget list"
  q_is_plugin :: "'q \<Rightarrow> widget \<Rightarrow> bool"
  q_layout :: "'q \<Rightarrow> widget \<Rightarrow> layout option"
  q_items :: "'q \<Rightarrow> layout \<Rightarrow> layout_entry list"
  q_alignment :: "'q \<Rightarrow> layout \<Rightarrow> nat \<Rightarrow> alignment"
  q_is_box :: "'q \<Rightarrow> layout \<Rightarrow> bool"
  q_depth :: "'q \<Rightarrow> nat"
  q_visible :: "'q \<Rightarrow> widget \<Rightarrow> bool"
  q_enabled :: "'q \<Rightarrow> widget \<Rightarrow> bool"
  q_set_visible :: "widget \<Rightarrow> bool \<Rightarrow> 'q \<Rightarrow> 'q"
  q_set_enabled :: "widget \<Rightarrow> bool \<Rightarrow> 'q \<Rightarrow> 'q"
  q_remove :: "layout \<Rightarrow> widget \<Rightarrow> 'q \<Rightarrow> 'q"
  q_insert :: "layout \<Rightarrow> nat \<Rightarrow> widget \<Rightarrow> int \<Rightarrow> alignment \<Rightarrow> 'q \<Rightarrow> 'q"
  q_copy_look :: "widget \<Rightarrow> widget \<Rightarrow> 'q \<Rightarrow> 'q"

subsection \<open>Data\<close>

record Replacement =
  repl_layout :: layout
  repl_native :: widget
  repl_button :: widget
  repl_index :: nat
  repl_alignment :: alignment
  repl_visible :: bool
  repl_enabled :: bool

record NativeRestoration =
  rest_layout :: layout
  rest_native :: widget
  rest_index :: nat
  rest_alignment :: alignment
  rest_visible :: bool
  rest_enabled :: bool

record ObsControlsAdapter =
  frontend_window :: "widget option"
  controls_dock :: "widget option"
  controls_parent :: "widget option"
  native_recording_button :: "widget option"
  native_replay_button :: "widget option"
  native_save_replay_button :: "widget option"
  replacements :: "Replacement list"
  extra_native_controls :: "NativeRestoration list"
  located :: bool
  installed :: bool

definition new_adapter :: "widget option \<Rightarrow> ObsControlsAdapter" where
  "new_adapter window = \<lparr>frontend_window = window, controls_dock = None, controls_parent = None,
     native_recording_button = None, native_replay_button = None, native_save_replay_button = None,
     replacements = [], extra_native_controls = [], located = False, installed = False\<rparr>"

record control_buttons =
  recording_button :: "widget option"
  replay_button :: "widget option"
  save_replay_button :: "widget option"

text \<open>Reading a \<open>QPointer\<close>.\<close>

definition deref :: "'q qt \<Rightarrow> 'q \<Rightarrow> widget option \<Rightarrow> widget option" where
  "deref qt q p = (case p of Some w \<Rightarrow> if q_alive qt q w then Some w else None | None \<Rightarrow> None)"

subsection \<open>Finding\<close>

text \<open>The answer of a scan of a layout: the first entry that decides, in order.\<close>

fun FindContainingLayout :: "'q qt \<Rightarrow> 'q \<Rightarrow> nat \<Rightarrow> layout option \<Rightarrow> widget \<Rightarrow> layout option"
  and scan_entries :: "'q qt \<Rightarrow> 'q \<Rightarrow> nat \<Rightarrow> layout \<Rightarrow> layout_entry list \<Rightarrow> widget \<Rightarrow> layout option" where
  "FindContainingLayout qt q 0 root target = None"
| "FindContainingLayout qt q (Suc n) None target = None"
| "FindContainingLayout qt q (Suc n) (Some root) target = scan_entries qt q n root (q_items qt q root) target"
| "scan_entries qt q n root [] target = None"
| "scan_entries qt q n root (e # es) target =
     (case e of
        EntryWidget w \<Rightarrow>
          (if w = target then (if q_is_box qt q root then Some root else None)
           else (case FindContainingLayout qt q n (q_layout qt q w) target of
                   Some l \<Rightarrow> Some l
                 | None \<Rightarrow> scan_entries qt q n root es target))
      | EntryLayout child \<Rightarrow>
          (case FindContainingLayout qt q n (Some child) target of
             Some l \<Rightarrow> Some l
           | None \<Rightarrow> scan_entries qt q n root es target)
      | EntryOther \<Rightarrow> scan_entries qt q n root es target)"

definition containing :: "'q qt \<Rightarrow> 'q \<Rightarrow> widget \<Rightarrow> widget \<Rightarrow> layout option" where
  "containing qt q parent target = FindContainingLayout qt q (q_depth qt q) (q_layout qt q parent) target"

text \<open>The stable sort puts the buttons that are in a layout first.\<close>

definition FindNativeButtons :: "'q qt \<Rightarrow> 'q \<Rightarrow> ObsControlsAdapter \<Rightarrow> string \<Rightarrow> widget list" where
  "FindNativeButtons qt q ad name =
     (case deref qt q (controls_parent ad) of
        None \<Rightarrow> []
      | Some parent \<Rightarrow>
          (let buttons = filter (\<lambda>b. \<not> q_is_plugin qt q b) (q_buttons qt q parent name);
               in_layout = (\<lambda>b. containing qt q parent b \<noteq> None)
           in filter in_layout buttons @ filter (\<lambda>b. \<not> in_layout b) buttons))"

definition IsTrackedExtraNative :: "ObsControlsAdapter \<Rightarrow> widget \<Rightarrow> bool" where
  "IsTrackedExtraNative ad native \<longleftrightarrow> list_ex (\<lambda>r. rest_native r = native) (extra_native_controls ad)"

definition first_of :: "'a list \<Rightarrow> 'a option" where
  "first_of xs = (case xs of [] \<Rightarrow> None | x # _ \<Rightarrow> Some x)"

definition Locate :: "'q qt \<Rightarrow> 'q \<Rightarrow> ObsControlsAdapter \<Rightarrow> bool \<times> ObsControlsAdapter" where
  "Locate qt q ad =
     (if located ad
      then (deref qt q (controls_dock ad) \<noteq> None \<and> deref qt q (controls_parent ad) \<noteq> None \<and>
            deref qt q (native_recording_button ad) \<noteq> None \<and> deref qt q (native_replay_button ad) \<noteq> None \<and>
            deref qt q (native_save_replay_button ad) \<noteq> None, ad)
      else
        (let ad = ad\<lparr>located := True\<rparr>
         in if frontend_window ad = None then (False, ad)
            else
              (case q_dock qt q of
                 None \<Rightarrow> (False, ad\<lparr>controls_dock := None\<rparr>)
               | Some dock \<Rightarrow>
                   (let ad = ad\<lparr>controls_dock := Some dock\<rparr>
                    in case q_dock_widget qt q dock of
                         None \<Rightarrow> (False, ad)
                       | Some parent \<Rightarrow>
                           (let ad = ad\<lparr>controls_parent := Some parent\<rparr>;
                                ad = ad\<lparr>native_recording_button := first_of (FindNativeButtons qt q ad ''recordButton''),
                                        native_replay_button := first_of (FindNativeButtons qt q ad ''replayBufferButton''),
                                        native_save_replay_button := first_of (FindNativeButtons qt q ad ''saveReplayButton'')\<rparr>
                            in (native_recording_button ad \<noteq> None \<and> native_replay_button ad \<noteq> None \<and>
                                native_save_replay_button ad \<noteq> None, ad))))))"

subsection \<open>Replacing and restoring\<close>

definition index_of :: "layout_entry \<Rightarrow> layout_entry list \<Rightarrow> nat option" where
  "index_of e es = (if e \<in> set es then Some (length (takeWhile (\<lambda>x. x \<noteq> e) es)) else None)"

definition Replace :: "'q qt \<Rightarrow> widget option \<Rightarrow> widget option \<Rightarrow> ObsControlsAdapter \<times> 'q \<Rightarrow>
    bool \<times> ObsControlsAdapter \<times> 'q" where
  "Replace qt native replacement = (\<lambda>(ad, q).
     (case (native, replacement, deref qt q (controls_parent ad)) of
        (Some n, Some b, Some parent) \<Rightarrow>
          (case containing qt q parent n of
             None \<Rightarrow> (False, ad, q)
           | Some l \<Rightarrow>
               (case index_of (EntryWidget n) (q_items qt q l) of
                  None \<Rightarrow> (False, ad, q)
                | Some i \<Rightarrow>
                    (let r = \<lparr>repl_layout = l, repl_native = n, repl_button = b, repl_index = i,
                              repl_alignment = q_alignment qt q l i, repl_visible = q_visible qt q n,
                              repl_enabled = q_enabled qt q n\<rparr>;
                         q = q_set_visible qt n False q;
                         q = q_set_enabled qt n False q;
                         q = q_remove qt l n q;
                         q = q_insert qt l i b (int (repl_alignment r)) 0 q;
                         q = q_set_visible qt b True q
                     in (True, ad\<lparr>replacements := replacements ad @ [r]\<rparr>, q))))
      | _ \<Rightarrow> (False, ad, q)))"

definition CopyNativeAppearance :: "'q qt \<Rightarrow> widget option \<Rightarrow> widget option \<Rightarrow> 'q \<Rightarrow> 'q" where
  "CopyNativeAppearance qt native replacement q =
     (case (native, replacement) of (Some n, Some b) \<Rightarrow> q_copy_look qt n b q | _ \<Rightarrow> q)"

definition restore_replacement :: "'q qt \<Rightarrow> Replacement \<Rightarrow> 'q \<Rightarrow> 'q" where
  "restore_replacement qt r q =
     (let q = (if q_layout_alive qt q (repl_layout r) \<and> q_alive qt q (repl_button r)
               then q_remove qt (repl_layout r) (repl_button r) q else q)
      in if q_layout_alive qt q (repl_layout r) \<and> q_alive qt q (repl_native r)
         then q_set_enabled qt (repl_native r) (repl_enabled r)
                (q_set_visible qt (repl_native r) (repl_visible r)
                   (q_insert qt (repl_layout r) (repl_index r) (repl_native r) (int (repl_alignment r)) 0 q))
         else q)"

definition restore_extra :: "'q qt \<Rightarrow> NativeRestoration \<Rightarrow> 'q \<Rightarrow> 'q" where
  "restore_extra qt r q =
     (if q_layout_alive qt q (rest_layout r) \<and> q_alive qt q (rest_native r) \<and>
         index_of (EntryWidget (rest_native r)) (q_items qt q (rest_layout r)) = None
      then q_set_enabled qt (rest_native r) (rest_enabled r)
             (q_set_visible qt (rest_native r) (rest_visible r)
                (q_insert qt (rest_layout r) (rest_index r) (rest_native r) (int (rest_alignment r)) 0 q))
      else q)"

definition Restore :: "'q qt \<Rightarrow> ObsControlsAdapter \<times> 'q \<Rightarrow> ObsControlsAdapter \<times> 'q" where
  "Restore qt = (\<lambda>(ad, q).
     (ad\<lparr>replacements := [], extra_native_controls := [], installed := False\<rparr>,
      fold (restore_extra qt) (rev (extra_native_controls ad))
        (fold (restore_replacement qt) (rev (replacements ad)) q)))"

definition Install :: "'q qt \<Rightarrow> control_buttons \<Rightarrow> ObsControlsAdapter \<times> 'q \<Rightarrow>
    bool \<times> ObsControlsAdapter \<times> 'q" where
  "Install qt cs = (\<lambda>(ad, q).
     (if installed ad then (True, ad, q)
      else
        (let (found, ad) = Locate qt q ad
         in if \<not> found then (False, ad, q)
            else
              (let (a, y) = Replace qt (deref qt q (native_recording_button ad)) (recording_button cs) (ad, q);
                   (b, y) = (if a then Replace qt (deref qt (snd y) (native_replay_button (fst y))) (replay_button cs) y
                             else (False, y));
                   (c, y) = (if b then Replace qt (deref qt (snd y) (native_save_replay_button (fst y)))
                                         (save_replay_button cs) y
                             else (False, y))
               in if \<not> c then (False, Restore qt y)
                  else
                    (let (ad, q) = y;
                         q = CopyNativeAppearance qt (deref qt q (native_recording_button ad)) (recording_button cs) q;
                         q = CopyNativeAppearance qt (deref qt q (native_replay_button ad)) (replay_button cs) q;
                         q = CopyNativeAppearance qt (deref qt q (native_save_replay_button ad)) (save_replay_button cs) q
                     in (True, ad\<lparr>installed := True\<rparr>, q))))))"

subsection \<open>Keeping the plugin's buttons in place\<close>

text \<open>One stock button of the name, in the loop of \<open>ReconcileNativeControl\<close>.\<close>

definition reconcile_button :: "'q qt \<Rightarrow> widget option \<Rightarrow> widget option \<Rightarrow> widget \<Rightarrow>
    bool \<times> ObsControlsAdapter \<times> 'q \<Rightarrow> bool \<times> ObsControlsAdapter \<times> 'q" where
  "reconcile_button qt primary replacement native = (\<lambda>(done, ad, q).
     (if Some native = replacement then (done, ad, q)
      else
        (let l = (case controls_parent ad of None \<Rightarrow> None | Some parent \<Rightarrow> containing qt q parent native);
             hide = (\<lambda>q. q_set_enabled qt native False (q_set_visible qt native False q))
         in if Some native = primary \<or> IsTrackedExtraNative ad native
            then (let q = hide (case l of Some l \<Rightarrow> q_remove qt l native q | None \<Rightarrow> q)
                  in (True, ad, if Some native = primary then CopyNativeAppearance qt primary replacement q else q))
            else
              (case l of
                 None \<Rightarrow> (True, ad, hide q)
               | Some l \<Rightarrow>
                   (case index_of (EntryWidget native) (q_items qt q l) of
                      None \<Rightarrow> (done, ad, q)
                    | Some i \<Rightarrow>
                        (let r = \<lparr>rest_layout = l, rest_native = native, rest_index = i,
                                  rest_alignment = q_alignment qt q l i, rest_visible = q_visible qt q native,
                                  rest_enabled = q_enabled qt q native\<rparr>
                         in (True, ad\<lparr>extra_native_controls := extra_native_controls ad @ [r]\<rparr>,
                             hide (q_remove qt l native q))))))))"

definition ReconcileNativeControl :: "'q qt \<Rightarrow> string \<Rightarrow> widget option \<Rightarrow> widget option \<Rightarrow>
    ObsControlsAdapter \<times> 'q \<Rightarrow> bool \<times> ObsControlsAdapter \<times> 'q" where
  "ReconcileNativeControl qt name primary replacement = (\<lambda>(ad, q).
     fold (reconcile_button qt primary replacement) (FindNativeButtons qt q ad name) (False, ad, q))"

definition Reconcile :: "'q qt \<Rightarrow> control_buttons \<Rightarrow> ObsControlsAdapter \<times> 'q \<Rightarrow> bool \<times> ObsControlsAdapter \<times> 'q" where
  "Reconcile qt cs = (\<lambda>(ad, q).
     (if \<not> installed ad then (False, ad, q)
      else if deref qt q (controls_parent ad) = None \<or> recording_button cs = None \<or> replay_button cs = None \<or>
         save_replay_button cs = None
      then (False, ad, q)
      else
        (let y = snd (ReconcileNativeControl qt ''recordButton'' (deref qt q (native_recording_button ad))
                   (recording_button cs) (ad, q));
             y = snd (ReconcileNativeControl qt ''replayBufferButton'' (deref qt (snd y) (native_replay_button (fst y)))
                   (replay_button cs) y);
             y = snd (ReconcileNativeControl qt ''saveReplayButton'' (deref qt (snd y) (native_save_replay_button (fst y)))
                   (save_replay_button cs) y)
         in (True, y))))"

subsection \<open>What the adapter relies on\<close>

text \<open>
  The documented behaviour of Qt, over observations that the adapter does not read: whether a widget
  itself is shown, whether it is itself enabled, whether all that the controls lie in is shown and enabled, and
  the stretch factor and the alignment of the item a widget lies in. \<open>isVisible\<close> and \<open>isEnabled\<close> also ask what a
  widget lies in; a layout keeps its items in order; taking a widget out or putting one in at a valid place
  moves nothing else and changes no other item.
\<close>

record 'q qt_state =
  is_shown :: "'q \<Rightarrow> widget \<Rightarrow> bool"
  is_on :: "'q \<Rightarrow> widget \<Rightarrow> bool"
  outer_shown :: "'q \<Rightarrow> bool"
  outer_on :: "'q \<Rightarrow> bool"
  place_of :: "'q \<Rightarrow> widget \<Rightarrow> int \<times> alignment"

definition unplaced :: "'q qt \<Rightarrow> 'q \<Rightarrow> widget \<Rightarrow> bool" where
  "unplaced qt q w \<longleftrightarrow> (\<forall>l. EntryWidget w \<notin> set (q_items qt q l))"

definition qt_quiet :: "'q qt \<Rightarrow> 'q qt_state \<Rightarrow> ('q \<Rightarrow> 'q) \<Rightarrow> bool" where
  "qt_quiet qt v f \<longleftrightarrow> (\<forall>q. q_alive qt (f q) = q_alive qt q \<and> q_layout_alive qt (f q) = q_layout_alive qt q \<and>
     outer_shown v (f q) = outer_shown v q \<and> outer_on v (f q) = outer_on v q)"

definition qt_laws :: "'q qt \<Rightarrow> 'q qt_state \<Rightarrow> bool" where
  "qt_laws qt v \<longleftrightarrow>
     (\<forall>q w. q_visible qt q w = (is_shown v q w \<and> outer_shown v q) \<and> q_enabled qt q w = (is_on v q w \<and> outer_on v q)) \<and>
     (\<forall>w b. qt_quiet qt v (q_set_visible qt w b) \<and> qt_quiet qt v (q_set_enabled qt w b)) \<and>
     (\<forall>q l i w. i < length (q_items qt q l) \<and> q_items qt q l ! i = EntryWidget w \<longrightarrow>
        q_alignment qt q l i = snd (place_of v q w)) \<and>
     (\<forall>l w i t a. qt_quiet qt v (q_remove qt l w) \<and> qt_quiet qt v (q_insert qt l i w t a) \<and> qt_quiet qt v (q_copy_look qt l w)) \<and>
     (\<forall>q w b. q_items qt (q_set_visible qt w b q) = q_items qt q \<and> is_on v (q_set_visible qt w b q) = is_on v q \<and>
        is_shown v (q_set_visible qt w b q) = (is_shown v q)(w := b) \<and>
        place_of v (q_set_visible qt w b q) = place_of v q) \<and>
     (\<forall>q w b. q_items qt (q_set_enabled qt w b q) = q_items qt q \<and> is_shown v (q_set_enabled qt w b q) = is_shown v q \<and>
        is_on v (q_set_enabled qt w b q) = (is_on v q)(w := b) \<and>
        place_of v (q_set_enabled qt w b q) = place_of v q) \<and>
     (\<forall>q l w. q_items qt (q_remove qt l w q) = (q_items qt q)(l := remove1 (EntryWidget w) (q_items qt q l)) \<and>
        is_shown v (q_remove qt l w q) = is_shown v q \<and> is_on v (q_remove qt l w q) = is_on v q \<and>
        (\<forall>u. u \<noteq> w \<longrightarrow> place_of v (q_remove qt l w q) u = place_of v q u)) \<and>
     (\<forall>q l i w t a. is_shown v (q_insert qt l i w t a q) = is_shown v q \<and> is_on v (q_insert qt l i w t a q) = is_on v q \<and>
        (i \<le> length (q_items qt q l) \<and> unplaced qt q w \<longrightarrow>
         q_items qt (q_insert qt l i w t a q) =
           (q_items qt q)(l := take i (q_items qt q l) @ EntryWidget w # drop i (q_items qt q l)) \<and>
         place_of v (q_insert qt l i w t a q) = (place_of v q)(w := (t, a)))) \<and>
     (\<forall>q n b. q_items qt (q_copy_look qt n b q) = q_items qt q \<and> is_shown v (q_copy_look qt n b q) = is_shown v q \<and>
        is_on v (q_copy_look qt n b q) = is_on v q \<and> place_of v (q_copy_look qt n b q) = place_of v q)"

text \<open>Every widget lies at one place at most, and nothing the adapter holds a pointer to has been destroyed.\<close>

definition well_placed :: "'q qt \<Rightarrow> 'q \<Rightarrow> bool" where
  "well_placed qt q \<longleftrightarrow> (\<forall>w l. count_list (q_items qt q l) (EntryWidget w) \<le> 1) \<and>
     (\<forall>w l l'. EntryWidget w \<in> set (q_items qt q l) \<and> EntryWidget w \<in> set (q_items qt q l') \<longrightarrow> l = l')"

definition all_alive :: "'q qt \<Rightarrow> 'q \<Rightarrow> bool" where
  "all_alive qt q \<longleftrightarrow> (\<forall>w. q_alive qt q w) \<and> (\<forall>l. q_layout_alive qt q l)"

text \<open>
  What is left of the place of a widget that was put back: the alignment has become the stretch factor. Two states with the
  same items in every layout that differ only in whether the plugin's own buttons are shown and enabled and in the
  places of the widgets \<open>moved\<close>, which are what is left of the old ones.
\<close>

definition put_back :: "int \<times> alignment \<Rightarrow> int \<times> alignment" where
  "put_back p = (int (snd p), 0)"

definition same_ui :: "'q qt \<Rightarrow> 'q qt_state \<Rightarrow> widget set \<Rightarrow> widget set \<Rightarrow> 'q \<Rightarrow> 'q \<Rightarrow> bool" where
  "same_ui qt v own moved q q' \<longleftrightarrow> q_items qt q' = q_items qt q \<and> all_alive qt q' \<and>
     (\<forall>w. w \<notin> own \<longrightarrow> is_shown v q' w = is_shown v q w \<and> is_on v q' w = is_on v q w \<and>
        (\<not> unplaced qt q w \<longrightarrow>
           place_of v q' w = (if w \<in> moved then put_back (place_of v q w) else place_of v q w)))"

lemma index_of_split:
  assumes "index_of e es = Some i"
  obtains xs ys where "es = xs @ e # ys" "e \<notin> set xs" "i = length xs"
proof -
  have e: "e \<in> set es" and i: "i = length (takeWhile (\<lambda>x. x \<noteq> e) es)"
    using assms by (auto simp: index_of_def split: if_splits)
  obtain xs ys where es: "es = xs @ e # ys" "e \<notin> set xs" using e by (meson split_list_first)
  then have "takeWhile (\<lambda>x. x \<noteq> e) es = xs" by (auto simp: takeWhile_append)
  with es i that show thesis by simp
qed

lemma index_of_nth: "index_of e es = Some i \<Longrightarrow> i < length es \<and> es ! i = e"
  by (erule index_of_split) simp

lemma set_put: "set (take i xs @ x # drop i xs) = insert x (set xs)"
proof -
  have "set xs = set (take i xs) \<union> set (drop i xs)" by (metis append_take_drop_id set_append)
  then show ?thesis by auto
qed

text \<open>What the swap of two entries does to the items of a layout, and that it is undone by the swap back.\<close>

lemma swapped_items:
  assumes "index_of n es = Some i" and "b \<notin> set es" and "count_list es n \<le> 1"
  defines "out \<equiv> remove1 n es"
  defines "swapped \<equiv> take i out @ b # drop i out"
  shows "i \<le> length out" "n \<notin> set out" "b \<notin> set out" "remove1 b swapped = out"
    "take i out @ n # drop i out = es" "set out = set es - {n}" "count_list swapped x = (if x = b then 1 else count_list out x)"
    "n \<in> set es"
proof -
  obtain xs ys where es: "es = xs @ n # ys" "n \<notin> set xs" "i = length xs" using index_of_split [OF assms(1)] .
  then have "n \<notin> set ys" using assms(3) by (auto simp: count_list_0_iff)
  moreover from es have out: "out = xs @ ys" by (simp add: out_def remove1_append)
  moreover have "swapped = xs @ b # ys" by (simp add: swapped_def out es(3))
  moreover have "b \<notin> set xs" "b \<notin> set ys" using assms(2) es(1) by auto
  ultimately show "i \<le> length out" "n \<notin> set out" "b \<notin> set out" "remove1 b swapped = out"
    "take i out @ n # drop i out = es" "set out = set es - {n}" "count_list swapped x = (if x = b then 1 else count_list out x)"
    "n \<in> set es"
    using es by (auto simp: remove1_append count_list_0_iff)
qed

lemma count_le_remove1: "count_list (remove1 y xs) x \<le> count_list xs x"
  by (induction xs) auto

lemma laws:
  assumes "qt_laws qt v"
  shows "q_visible qt q w = (is_shown v q w \<and> outer_shown v q)" "q_enabled qt q w = (is_on v q w \<and> outer_on v q)"
    "qt_quiet qt v (q_set_visible qt w b)" "qt_quiet qt v (q_set_enabled qt w b)" "qt_quiet qt v (q_remove qt l w)"
    "qt_quiet qt v (q_insert qt l i w t a)" "qt_quiet qt v (q_copy_look qt w w')"
    "q_items qt (q_set_visible qt w b q) = q_items qt q" "is_on v (q_set_visible qt w b q) = is_on v q"
    "is_shown v (q_set_visible qt w b q) = (is_shown v q)(w := b)"
    "q_items qt (q_set_enabled qt w b q) = q_items qt q" "is_shown v (q_set_enabled qt w b q) = is_shown v q"
    "is_on v (q_set_enabled qt w b q) = (is_on v q)(w := b)"
    "q_items qt (q_remove qt l w q) = (q_items qt q)(l := remove1 (EntryWidget w) (q_items qt q l))"
    "is_shown v (q_remove qt l w q) = is_shown v q" "is_on v (q_remove qt l w q) = is_on v q"
    "is_shown v (q_insert qt l i w t a q) = is_shown v q" "is_on v (q_insert qt l i w t a q) = is_on v q"
    "i \<le> length (q_items qt q l) \<Longrightarrow> unplaced qt q w \<Longrightarrow> q_items qt (q_insert qt l i w t a q) =
       (q_items qt q)(l := take i (q_items qt q l) @ EntryWidget w # drop i (q_items qt q l))"
    "q_items qt (q_copy_look qt w w' q) = q_items qt q" "is_shown v (q_copy_look qt w w' q) = is_shown v q"
    "is_on v (q_copy_look qt w w' q) = is_on v q"
    "place_of v (q_set_visible qt w b q) = place_of v q" "place_of v (q_set_enabled qt w b q) = place_of v q"
    "place_of v (q_copy_look qt w w' q) = place_of v q"
    "u \<noteq> w \<Longrightarrow> place_of v (q_remove qt l w q) u = place_of v q u"
    "i \<le> length (q_items qt q l) \<Longrightarrow> unplaced qt q w \<Longrightarrow>
       place_of v (q_insert qt l i w t a q) = (place_of v q)(w := (t, a))"
    "i < length (q_items qt q l) \<Longrightarrow> q_items qt q l ! i = EntryWidget w \<Longrightarrow>
       q_alignment qt q l i = snd (place_of v q w)"
  using assms by (simp_all add: qt_laws_def)

lemma quiet:
  assumes "qt_quiet qt v f"
  shows "q_alive qt (f q) = q_alive qt q" "q_layout_alive qt (f q) = q_layout_alive qt q"
    "outer_shown v (f q) = outer_shown v q" "outer_on v (f q) = outer_on v q" "all_alive qt (f q) = all_alive qt q"
  using assms by (simp_all add: qt_quiet_def all_alive_def)

lemmas quiet_laws = laws(3) [THEN quiet(1)] laws(3) [THEN quiet(2)] laws(3) [THEN quiet(3)] laws(3) [THEN quiet(4)]
  laws(3) [THEN quiet(5)] laws(4) [THEN quiet(1)] laws(4) [THEN quiet(2)] laws(4) [THEN quiet(3)] laws(4) [THEN quiet(4)]
  laws(4) [THEN quiet(5)] laws(5) [THEN quiet(1)] laws(5) [THEN quiet(2)] laws(5) [THEN quiet(3)] laws(5) [THEN quiet(4)]
  laws(5) [THEN quiet(5)] laws(6) [THEN quiet(1)] laws(6) [THEN quiet(2)] laws(6) [THEN quiet(3)] laws(6) [THEN quiet(4)]
  laws(6) [THEN quiet(5)] laws(7) [THEN quiet(1)] laws(7) [THEN quiet(2)] laws(7) [THEN quiet(3)] laws(7) [THEN quiet(4)]
  laws(7) [THEN quiet(5)]

text \<open>
  A replacement that succeeds puts the plugin's button where the stock button was, and restoring it from any
  state that shows the same gives the state before back.
\<close>

definition ready :: "'q qt \<Rightarrow> 'q qt_state \<Rightarrow> widget set \<Rightarrow> 'q \<Rightarrow> bool" where
  "ready qt v own q \<longleftrightarrow> well_placed qt q \<and> all_alive qt q \<and> outer_shown v q \<and> outer_on v q \<and>
     (\<forall>b \<in> own. unplaced qt q b)"

definition undoes :: "'q qt \<Rightarrow> 'q qt_state \<Rightarrow> widget set \<Rightarrow> 'q \<Rightarrow> Replacement list \<Rightarrow> 'q \<Rightarrow> bool" where
  "undoes qt v own q0 rs q \<longleftrightarrow> (\<forall>q' moved. same_ui qt v own moved q q' \<longrightarrow>
     same_ui qt v own (moved \<union> repl_native ` set rs) q0 (fold (restore_replacement qt) (rev rs) q'))"

lemma undo_replace:
  assumes L: "qt_laws qt v" and ready: "ready qt v todo q" and b: "b \<in> todo" "todo \<subseteq> own"
    and run: "Replace qt native (Some b) (ad, q) = (True, ad', q')"
  obtains r where "replacements ad' = replacements ad @ [r]" "extra_native_controls ad' = extra_native_controls ad"
    "ready qt v (todo - {b}) q'" "\<And>u moved. same_ui qt v own moved q' u \<Longrightarrow>
      same_ui qt v own (insert (repl_native r) moved) q (restore_replacement qt r u)"
proof -
  obtain n parent l i where n: "native = Some n" "deref qt q (controls_parent ad) = Some parent"
      "containing qt q parent n = Some l" "index_of (EntryWidget n) (q_items qt q l) = Some i"
    using run by (auto simp: Replace_def split: option.splits)
  let ?es = "q_items qt q l" and ?n = "EntryWidget n" and ?b = "EntryWidget b"
  let ?out = "remove1 ?n ?es"
  let ?a = "q_alignment qt q l i"
  let ?r = "\<lparr>repl_layout = l, repl_native = n, repl_button = b, repl_index = i, repl_alignment = ?a,
      repl_visible = q_visible qt q n, repl_enabled = q_enabled qt q n\<rparr>"
  let ?q2 = "q_remove qt l n (q_set_enabled qt n False (q_set_visible qt n False q))"
  have q': "q' = q_set_visible qt b True (q_insert qt l i b (int ?a) 0 ?q2)" and ad': "ad' = ad\<lparr>replacements := replacements ad @ [?r]\<rparr>"
    using run n by (simp_all add: Replace_def Let_def)
  have free: "?b \<notin> set (q_items qt q l')" for l' using ready b by (auto simp: ready_def unplaced_def)
  have once: "count_list (q_items qt q l') (EntryWidget w) \<le> 1" for l' w using ready by (simp add: ready_def well_placed_def)
  note sw = swapped_items [OF n(4) free once]
  have bn: "b \<noteq> n" using free sw(8) by auto
  have elsewhere: "?n \<notin> set (q_items qt q l')" if "l' \<noteq> l" for l'
    using ready sw(8) that unfolding ready_def well_placed_def by blast
  have items2: "q_items qt ?q2 = (q_items qt q)(l := ?out)" by (simp add: laws [OF L])
  have unplaced2: "unplaced qt ?q2 b" using free sw(3) by (simp add: unplaced_def items2)
  have items': "q_items qt q' = (q_items qt q)(l := take i ?out @ ?b # drop i ?out)"
    using sw(1) laws(19) [OF L, of i ?q2 l b "int ?a" 0] unplaced2 by (simp add: q' laws [OF L] items2)
  have set': "set (q_items qt q' l') = (if l' = l then insert ?b (set ?es - {?n}) else set (q_items qt q l'))" for l'
    using sw(6) set_put [of i ?out ?b] by (simp add: items' del: set_append)
  have place': "place_of v q' w = place_of v q w" if "w \<noteq> b" "w \<noteq> n" for w
    using that sw(1) laws(27) [OF L _ unplaced2, of i l "int ?a" 0] by (simp add: q' laws [OF L] items2)
  have aligned: "?a = snd (place_of v q n)" using index_of_nth [OF n(4)] laws(28) [OF L] by blast
  have restore: "same_ui qt v own (insert (repl_native ?r) moved) q (restore_replacement qt ?r u)"
    if u: "same_ui qt v own moved q' u" for u moved
  proof -
    let ?u1 = "q_remove qt l b u"
    have alive: "all_alive qt u" using u by (simp add: same_ui_def)
    then have alive1: "all_alive qt ?u1" by (simp add: quiet_laws [OF L])
    have items_u: "q_items qt u = (q_items qt q)(l := take i ?out @ ?b # drop i ?out)"
      using u items' by (simp add: same_ui_def)
    then have items1: "q_items qt ?u1 = (q_items qt q)(l := ?out)" using sw(4) by (simp add: laws(14) [OF L])
    have free_n: "unplaced qt ?u1 n" using sw(2) elsewhere by (simp add: unplaced_def items1)
    have at: "i \<le> length (q_items qt ?u1 l)" using sw(1) by (simp add: items1)
    have run: "restore_replacement qt ?r u = q_set_enabled qt n (q_enabled qt q n)
        (q_set_visible qt n (q_visible qt q n) (q_insert qt l i n (int ?a) 0 ?u1))"
      using alive alive1 by (simp add: restore_replacement_def all_alive_def)
    have "q_items qt (restore_replacement qt ?r u) = q_items qt q"
      unfolding run laws(8,11) [OF L] laws(19) [OF L at free_n] items1 using sw(5) by simp
    moreover have "all_alive qt (restore_replacement qt ?r u)"
      unfolding run using alive1 by (simp add: quiet_laws [OF L])
    moreover have "is_shown v (restore_replacement qt ?r u) w = is_shown v q w \<and>
        is_on v (restore_replacement qt ?r u) w = is_on v q w" if "w \<notin> own" for w
    proof -
      have "w \<noteq> b" using that b by auto
      with u that have "is_shown v u w = (if w = n then False else is_shown v q w)"
        "is_on v u w = (if w = n then False else is_on v q w)"
        by (simp_all add: same_ui_def q' laws [OF L])
      then show ?thesis
        unfolding run using ready by (simp add: laws [OF L] ready_def)
    qed
    moreover have "place_of v (restore_replacement qt ?r u) w =
        (if w = n \<or> w \<in> moved then put_back (place_of v q w) else place_of v q w)"
      if w: "w \<notin> own" "\<not> unplaced qt q w" for w
    proof (cases "w = n")
      case True
      with aligned show ?thesis
        unfolding run laws(23,24) [OF L] laws(27) [OF L at free_n] by (simp add: put_back_def)
    next
      case False
      have "w \<noteq> b" using w(1) b by auto
      moreover from w(2) False have "\<not> unplaced qt q' w" by (auto simp: unplaced_def set')
      ultimately have "place_of v u w = (if w \<in> moved then put_back (place_of v q w) else place_of v q w)"
        using u w(1) place' [of w] False by (simp add: same_ui_def)
      with False \<open>w \<noteq> b\<close> show ?thesis
        unfolding run laws(23,24) [OF L] laws(27) [OF L at free_n] by (simp add: laws(26) [OF L])
    qed
    ultimately show ?thesis by (simp add: same_ui_def)
  qed
  have "well_placed qt q'"
    unfolding well_placed_def
  proof (intro conjI allI impI)
    fix w l'
    show "count_list (q_items qt q' l') (EntryWidget w) \<le> 1"
      using once [of l' w] once [of l w] count_le_remove1 [of ?n ?es "EntryWidget w"] sw(7) [of "EntryWidget w"]
      by (simp add: items')
  next
    fix w l1 l2
    assume "EntryWidget w \<in> set (q_items qt q' l1) \<and> EntryWidget w \<in> set (q_items qt q' l2)"
    then show "l1 = l2"
      using ready free sw(6) unfolding ready_def well_placed_def items' by (auto split: if_splits dest!: in_set_takeD in_set_dropD)
  qed
  moreover have "unplaced qt q' c" if "c \<in> todo - {b}" for c
    using that ready sw(6) by (auto simp: ready_def unplaced_def items' dest!: in_set_takeD in_set_dropD)
  ultimately have "ready qt v (todo - {b}) q'"
    using ready by (simp add: ready_def q' quiet_laws [OF L])
  with ad' restore that show thesis by simp
qed

lemma replace_step:
  assumes L: "qt_laws qt v" and ready: "ready qt v todo q" and b: "b \<in> todo" "todo \<subseteq> own"
    and run: "Replace qt native (Some b) (ad, q) = (ok, ad', q')"
    and undo: "undoes qt v own q0 (replacements ad) q"
  shows "undoes qt v own q0 (replacements ad') q'" "ready qt v (todo - {b}) q'"
    "extra_native_controls ad' = extra_native_controls ad"
proof -
  have "undoes qt v own q0 (replacements ad') q' \<and> ready qt v (todo - {b}) q' \<and>
      extra_native_controls ad' = extra_native_controls ad"
  proof (cases ok)
    case False
    then have "ad' = ad" "q' = q" using run by (auto simp: Replace_def Let_def split: option.splits)
    with ready undo show ?thesis by (auto simp: ready_def)
  next
    case True
    obtain r where r: "replacements ad' = replacements ad @ [r]" "extra_native_controls ad' = extra_native_controls ad"
      "ready qt v (todo - {b}) q'" "\<And>u moved. same_ui qt v own moved q' u \<Longrightarrow>
      same_ui qt v own (insert (repl_native r) moved) q (restore_replacement qt r u)"
      using undo_replace [OF L ready b run [unfolded True [THEN eqTrueI]]] by blast
    have "same_ui qt v own (moved \<union> repl_native ` set (replacements ad')) q0
        (fold (restore_replacement qt) (rev (replacements ad')) u)" if "same_ui qt v own moved q' u" for u moved
    proof -
      have "same_ui qt v own (insert (repl_native r) moved \<union> repl_native ` set (replacements ad)) q0
          (fold (restore_replacement qt) (rev (replacements ad)) (restore_replacement qt r u))"
        using undo r(4) [OF that] unfolding undoes_def by blast
      then show ?thesis by (simp add: r(1))
    qed
    with r show ?thesis by (simp add: undoes_def)
  qed
  then show "undoes qt v own q0 (replacements ad') q'" "ready qt v (todo - {b}) q'"
    "extra_native_controls ad' = extra_native_controls ad" by simp_all
qed

lemma guarded_replace:
  assumes "qt_laws qt v" and ready: "ready qt v todo q" and "b \<in> todo" "todo \<subseteq> own"
    and run: "(if go then Replace qt native (Some b) (ad, q) else (False, ad, q)) = (ok, ad', q')"
    and undo: "undoes qt v own q0 (replacements ad) q"
  shows "undoes qt v own q0 (replacements ad') q'" "ready qt v (todo - {b}) q'"
    "extra_native_controls ad' = extra_native_controls ad"
proof -
  have "undoes qt v own q0 (replacements ad') q' \<and> ready qt v (todo - {b}) q' \<and>
      extra_native_controls ad' = extra_native_controls ad"
  proof (cases go)
    case True
    with replace_step [OF assms(1-4) _ undo] run show ?thesis by simp
  next
    case False
    with run undo ready show ?thesis by (auto simp: ready_def)
  qed
  then show "undoes qt v own q0 (replacements ad') q'" "ready qt v (todo - {b}) q'"
    "extra_native_controls ad' = extra_native_controls ad" by simp_all
qed

lemma same_ui_refl: "all_alive qt q \<Longrightarrow> same_ui qt v own {} q q"
  by (simp add: same_ui_def)

lemma same_ui_copy: "qt_laws qt v \<Longrightarrow> same_ui qt v own moved q u \<Longrightarrow>
    same_ui qt v own moved q (CopyNativeAppearance qt n b u)"
  by (auto simp: CopyNativeAppearance_def same_ui_def laws quiet_laws split: option.split)

lemma restored:
  assumes "undoes qt v own q (replacements ad) u" and "extra_native_controls ad = []"
    and "same_ui qt v own {} u w"
  shows "same_ui qt v own (repl_native ` set (replacements ad)) q (snd (Restore qt (ad, w)))"
  using assms by (fastforce simp: Restore_def undoes_def)

lemma Locate_keeps:
  "Locate qt q ad = (ok, ad') \<Longrightarrow> replacements ad' = replacements ad \<and> extra_native_controls ad' = extra_native_controls ad"
  by (auto simp: Locate_def Let_def split: if_splits option.splits)

lemma same_ui_plain:
  assumes "same_ui qt v own moved q u" and "\<forall>w \<in> moved. place_of v q w = (0, 0)"
  shows "same_ui qt v own {} q u"
proof -
  have "put_back (place_of v q w) = place_of v q w" if "w \<in> moved" for w using assms(2) that by (simp add: put_back_def)
  with assms(1) show ?thesis by (simp add: same_ui_def)
qed

text \<open>The stock buttons the adapter has found, and which of them a replacement records.\<close>

definition stock_buttons :: "ObsControlsAdapter \<Rightarrow> widget set" where
  "stock_buttons ad = set_option (native_recording_button ad) \<union> set_option (native_replay_button ad) \<union>
     set_option (native_save_replay_button ad)"

lemma deref_Some: "deref qt q p = Some w \<Longrightarrow> p = Some w"
  by (auto simp: deref_def split: option.splits if_splits)

lemma Replace_records:
  assumes "(if go then Replace qt (deref qt u p) b (ad, q) else (False, ad, q)) = (ok, ad', q')"
  obtains rs where "ad' = ad\<lparr>replacements := replacements ad @ rs\<rparr>" "repl_native ` set rs \<subseteq> set_option p"
    "ok \<Longrightarrow> go \<and> repl_native ` set rs = set_option p"
proof (cases ok)
  case False
  with assms have "ad' = ad" by (auto simp: Replace_def Let_def split: if_splits option.splits)
  with False that [of "[]"] show thesis by simp
next
  case True
  with assms have go: "go" by (auto split: if_splits)
  with assms True have "\<exists>r. ad' = ad\<lparr>replacements := replacements ad @ [r]\<rparr> \<and> deref qt u p = Some (repl_native r)"
    by (auto simp: Replace_def Let_def split: option.splits intro!: exI conjI refl)
  then obtain r where r: "ad' = ad\<lparr>replacements := replacements ad @ [r]\<rparr>" "deref qt u p = Some (repl_native r)" by blast
  from deref_Some [OF r(2)] r(1) go that [of "[r]"] show thesis by simp
qed

text \<open>C17. Installing the plugin's controls and restoring gives the dock back, but for the alignment of the stock buttons.
  Whatever the dock holds, whether all three replacements succeed or some do and the installation is undone, after \<open>Restore\<close> every
  layout has the items it had, in their order, every widget but the plugin's own is shown and enabled as it was, when the dock was
  visible and enabled at the installation, and every item but those of the stock buttons that were put back (all three after an
  installation that succeeded) has its stretch factor and its alignment. A stock button that was put back has the default alignment, and the
  flags of its old alignment as the stretch factor; so everything is back when the stock buttons had neither.\<close>

theorem restore_undoes_install:
  assumes "qt_laws qt v" and "well_placed qt q" and "all_alive qt q" and "outer_shown v q" and "outer_on v q"
    and "recording_button cs = Some a" and "replay_button cs = Some b" and "save_replay_button cs = Some c"
    and "distinct [a, b, c]" and "\<forall>w \<in> {a, b, c}. unplaced qt q w"
    and "replacements ad = []" and "extra_native_controls ad = []"
    and "Install qt cs (ad, q) = (ok, y)"
  shows "(\<exists>moved \<subseteq> stock_buttons (fst y). same_ui qt v {a, b, c} moved q (snd (Restore qt y)) \<and>
      (ok \<and> \<not> installed ad \<longrightarrow> moved = stock_buttons (fst y)) \<and> (\<not> ok \<longrightarrow> same_ui qt v {a, b, c} moved q (snd y))) \<and>
    ((\<forall>w \<in> stock_buttons (fst y). place_of v q w = (0, 0)) \<longrightarrow> same_ui qt v {a, b, c} {} q (snd (Restore qt y)))"
proof -
  let ?own = "{a, b, c}"
  let ?good = "\<lambda>moved. moved \<subseteq> stock_buttons (fst y) \<and> same_ui qt v ?own moved q (snd (Restore qt y)) \<and>
      (ok \<and> \<not> installed ad \<longrightarrow> moved = stock_buttons (fst y)) \<and> (\<not> ok \<longrightarrow> same_ui qt v ?own moved q (snd y))"
  note L = assms(1)
  have alive: "same_ui qt v ?own {} q q" by (rule same_ui_refl) (rule assms(3))
  have again: "snd (Restore qt (fst (Restore qt u), w)) = w" for u w
    by (cases u) (simp add: Restore_def)
  obtain found ad1 where loc: "Locate qt q ad = (found, ad1)" by fastforce
  have start: "undoes qt v ?own q (replacements ad1) q" "extra_native_controls ad1 = []"
    using Locate_keeps [OF loc] assms(11,12) by (simp_all add: undoes_def)
  have ready: "ready qt v ?own q" using assms(2-5,10) by (simp add: ready_def)
  obtain oka ada qa where ra: "Replace qt (deref qt q (native_recording_button ad1)) (Some a) (ad1, q) = (oka, ada, qa)"
    by (metis prod_cases3)
  have "a \<in> ?own" by simp
  note sa = replace_step [OF L ready this subset_refl ra start(1)]
  obtain okb adb qb where rb: "(if oka then Replace qt (deref qt qa (native_replay_button ada)) (Some b) (ada, qa)
      else (False, ada, qa)) = (okb, adb, qb)" by (metis prod_cases3)
  have subs: "?own - {a} \<subseteq> ?own" "?own - {a} - {b} \<subseteq> ?own" and ins: "b \<in> ?own - {a}" "c \<in> ?own - {a} - {b}"
    using assms(9) by auto
  note sb = guarded_replace [OF L sa(2) ins(1) subs(1) rb sa(1)]
  obtain okc adc qc where rc: "(if okb then Replace qt (deref qt qb (native_save_replay_button adb)) (Some c) (adb, qb)
      else (False, adb, qb)) = (okc, adc, qc)" by (metis prod_cases3)
  note sc = guarded_replace [OF L sb(2) ins(2) subs(2) rc sb(1)]
  have extra: "extra_native_controls adc = []" using sa(3) sb(3) sc(3) start(2) by simp
  have alive_c: "all_alive qt qc" using sc(2) by (simp add: ready_def)
  have none: "replacements ad1 = []" using Locate_keeps [OF loc] assms(11) by simp
  obtain rsa where rsa: "ada = ad1\<lparr>replacements := rsa\<rparr>" "repl_native ` set rsa \<subseteq> set_option (native_recording_button ad1)"
    "oka \<Longrightarrow> repl_native ` set rsa = set_option (native_recording_button ad1)"
    using Replace_records [of True, simplified, OF ra] none by auto
  obtain rsb where rsb: "adb = ada\<lparr>replacements := rsa @ rsb\<rparr>" "repl_native ` set rsb \<subseteq> set_option (native_replay_button ada)"
    "okb \<Longrightarrow> oka \<and> repl_native ` set rsb = set_option (native_replay_button ada)"
    using Replace_records [OF rb] rsa(1) by auto
  obtain rsc where rsc: "adc = adb\<lparr>replacements := rsa @ rsb @ rsc\<rparr>"
    "repl_native ` set rsc \<subseteq> set_option (native_save_replay_button adb)"
    "okc \<Longrightarrow> okb \<and> repl_native ` set rsc = set_option (native_save_replay_button adb)"
    using Replace_records [OF rc] rsb(1) by auto
  let ?moved = "repl_native ` set (replacements adc)"
  have moved: "?moved \<subseteq> stock_buttons adc" "okc \<Longrightarrow> ?moved = stock_buttons adc"
    using rsa rsb rsc by (auto simp: stock_buttons_def)
  have "\<exists>moved. ?good moved"
  proof (cases "installed ad \<or> \<not> found")
    case True
    then have "installed ad \<and> y = (ad, q) \<or> \<not> ok \<and> y = (ad1, q)"
      using assms(13) loc by (auto simp: Install_def split: if_splits)
    then have "?good {}" using restored [OF start alive] restored [of qt v ?own q ad q q] alive assms(11,12) none True
      by (auto simp: undoes_def)
    then show ?thesis ..
  next
    case False
    note run = assms(13) [unfolded Install_def prod.case, simplified loc assms(6-8) Let_def prod.case fst_conv snd_conv ra rb rc]
    show ?thesis
    proof (cases okc)
      case True
      define qd where "qd = CopyNativeAppearance qt (deref qt qc (native_recording_button adc)) (Some a) qc"
      define qe where "qe = CopyNativeAppearance qt (deref qt qd (native_replay_button adc)) (Some b) qd"
      define qf where "qf = CopyNativeAppearance qt (deref qt qe (native_save_replay_button adc)) (Some c) qe"
      have y: "ok" "y = (adc\<lparr>installed := True\<rparr>, qf)"
        using run False True by (simp_all add: qd_def qe_def qf_def)
      have "same_ui qt v ?own {} qc qf"
        unfolding qd_def qe_def qf_def by (intro same_ui_copy [OF L] same_ui_refl [OF alive_c])
      then have "same_ui qt v ?own ?moved q (snd (Restore qt (adc\<lparr>installed := True\<rparr>, qf)))"
        using restored [of qt v ?own q "adc\<lparr>installed := True\<rparr>" qc qf] sc(1) extra by simp
      moreover have "stock_buttons (fst y) = stock_buttons adc" by (simp add: y stock_buttons_def)
      ultimately have "?good ?moved" using moved(2) [OF True] y by simp
      then show ?thesis ..
    next
      case False
      then have y: "y = Restore qt (adc, qc)" using run \<open>\<not> (installed ad \<or> \<not> found)\<close> by simp
      then have "same_ui qt v ?own ?moved q (snd y)" using restored [OF sc(1) extra same_ui_refl [OF alive_c]] by simp
      moreover have "snd (Restore qt y) = snd y" using again [of "(adc, qc)" "snd y"] y by simp
      moreover have "stock_buttons (fst y) = stock_buttons adc" by (simp add: y Restore_def stock_buttons_def)
      moreover have "\<not> ok" using run False \<open>\<not> (installed ad \<or> \<not> found)\<close> by simp
      ultimately have "?good ?moved" using moved(1) by simp
      then show ?thesis ..
    qed
  qed
  then obtain moved where m: "?good moved" by (elim exE)
  have "same_ui qt v ?own {} q (snd (Restore qt y))" if plain: "\<forall>w \<in> stock_buttons (fst y). place_of v q w = (0, 0)"
  proof (rule same_ui_plain)
    show "same_ui qt v ?own moved q (snd (Restore qt y))" using m by (elim conjE)
    show "\<forall>w \<in> moved. place_of v q w = (0, 0)" using m plain by (elim conjE) (rule ballI, drule (1) subsetD, erule (1) bspec)
  qed
  then show ?thesis using exI [of ?good, OF m] by (intro conjI impI)
qed

subsection \<open>A dock\<close>

text \<open>Layouts as lists of items, flags as functions: one implementation of what \<open>qt_laws\<close> asks.\<close>

record desk =
  desk_items :: "layout \<Rightarrow> layout_entry list"
  desk_shown :: "widget \<Rightarrow> bool"
  desk_on :: "widget \<Rightarrow> bool"
  desk_outer :: bool
  desk_place :: "widget \<Rightarrow> int \<times> alignment"

definition desk_qt :: "desk qt" where
  "desk_qt = \<lparr>q_dock = (\<lambda>_. Some 1), q_dock_widget = (\<lambda>_ _. Some 2), q_alive = (\<lambda>_ _. True),
     q_layout_alive = (\<lambda>_ _. True),
     q_buttons = (\<lambda>_ _ name. if name = ''recordButton'' then [10] else if name = ''replayBufferButton'' then [11] else [12]),
     q_is_plugin = (\<lambda>_ _. False), q_layout = (\<lambda>_ w. if w = 2 then Some 0 else None), q_items = desk_items,
     q_alignment = (\<lambda>q l i. case desk_items q l ! i of EntryWidget w \<Rightarrow> snd (desk_place q w) | _ \<Rightarrow> 0), q_is_box = (\<lambda>_ _. True), q_depth = (\<lambda>_. 3),
     q_visible = (\<lambda>q w. desk_shown q w \<and> desk_outer q), q_enabled = (\<lambda>q w. desk_on q w),
     q_set_visible = (\<lambda>w b q. q\<lparr>desk_shown := (desk_shown q)(w := b)\<rparr>),
     q_set_enabled = (\<lambda>w b q. q\<lparr>desk_on := (desk_on q)(w := b)\<rparr>),
     q_remove = (\<lambda>l w q. q\<lparr>desk_items := (desk_items q)(l := remove1 (EntryWidget w) (desk_items q l))\<rparr>),
     q_insert = (\<lambda>l i w t a q. q\<lparr>desk_items :=
       (desk_items q)(l := take i (desk_items q l) @ EntryWidget w # drop i (desk_items q l)),
       desk_place := (desk_place q)(w := (t, a))\<rparr>),
     q_copy_look = (\<lambda>_ _ q. q)\<rparr>"

definition desk_view :: "desk qt_state" where
  "desk_view = \<lparr>is_shown = desk_shown, is_on = desk_on, outer_shown = desk_outer, outer_on = (\<lambda>_. True),
     place_of = desk_place\<rparr>"

lemma desk_laws: "qt_laws desk_qt desk_view"
  by (simp add: qt_laws_def qt_quiet_def desk_qt_def desk_view_def)

text \<open>The second stock button is aligned to the right, \<open>Qt::AlignRight\<close>, and has the stretch factor 1.\<close>

definition demo_desk :: "bool \<Rightarrow> desk" where
  "demo_desk visible = \<lparr>desk_items = (\<lambda>l. if l = 0 then [EntryWidget 10, EntryWidget 11, EntryOther, EntryWidget 12] else []),
     desk_shown = (\<lambda>_. True), desk_on = (\<lambda>_. True), desk_outer = visible,
     desk_place = (\<lambda>w. if w = 11 then (1, 2) else (0, 0))\<rparr>"

definition demo_buttons :: control_buttons where
  "demo_buttons = \<lparr>recording_button = Some 20, replay_button = Some 21, save_replay_button = Some 22\<rparr>"

definition demo_install :: "bool \<Rightarrow> bool \<times> ObsControlsAdapter \<times> desk" where
  "demo_install visible = Install desk_qt demo_buttons (new_adapter (Some 0), demo_desk visible)"

lemmas desk_eval = demo_install_def Install_def Locate_def Replace_def FindNativeButtons_def first_of_def containing_def
  deref_def index_of_def CopyNativeAppearance_def demo_buttons_def new_adapter_def demo_desk_def desk_qt_def numeral_3_eq_3

theorem restore_undoes_install_witness:
  "fst (demo_install True) \<and>
   desk_items (snd (snd (demo_install True))) 0 = [EntryWidget 20, EntryWidget 21, EntryOther, EntryWidget 22] \<and>
   desk_items (snd (Restore desk_qt (snd (demo_install True)))) = desk_items (demo_desk True) \<and>
   desk_shown (snd (Restore desk_qt (snd (demo_install True)))) 11 \<and>
   desk_place (demo_desk True) 11 = (1, 2) \<and> desk_place (snd (Restore desk_qt (snd (demo_install True)))) 11 = (2, 0)"
proof -
  have shown: "fst (demo_install True)"
    "desk_items (snd (snd (demo_install True))) 0 = [EntryWidget 20, EntryWidget 21, EntryOther, EntryWidget 22]"
    by (simp_all add: desk_eval Let_def)
  have stock: "11 \<in> stock_buttons (fst (snd (demo_install True)))" "\<not> installed (new_adapter (Some 0))"
    "\<not> unplaced desk_qt (demo_desk True) 11"
    by (auto simp: desk_eval Let_def stock_buttons_def unplaced_def intro!: exI [of _ 0])
  have "well_placed desk_qt (demo_desk True)"
    by (simp add: well_placed_def desk_qt_def demo_desk_def)
  moreover have "all_alive desk_qt (demo_desk True)" "outer_shown desk_view (demo_desk True)" "outer_on desk_view (demo_desk True)"
    by (simp_all add: all_alive_def desk_qt_def desk_view_def demo_desk_def)
  moreover have "\<forall>w \<in> {20, 21, 22}. unplaced desk_qt (demo_desk True) w"
    by (simp add: unplaced_def desk_qt_def demo_desk_def)
  moreover have "recording_button demo_buttons = Some 20" "replay_button demo_buttons = Some 21"
    "save_replay_button demo_buttons = Some 22" by (simp_all add: demo_buttons_def)
  moreover have "replacements (new_adapter (Some 0)) = []" "extra_native_controls (new_adapter (Some 0)) = []"
    by (simp_all add: new_adapter_def)
  moreover have "Install desk_qt demo_buttons (new_adapter (Some 0), demo_desk True) =
      (fst (demo_install True), snd (demo_install True))" by (simp add: demo_install_def)
  ultimately obtain moved where "moved \<subseteq> stock_buttons (fst (snd (demo_install True)))"
    "same_ui desk_qt desk_view {20, 21, 22} moved (demo_desk True) (snd (Restore desk_qt (snd (demo_install True))))"
    "moved = stock_buttons (fst (snd (demo_install True)))"
    using restore_undoes_install [OF desk_laws, of "demo_desk True" demo_buttons 20 21 22 "new_adapter (Some 0)"
      "fst (demo_install True)" "snd (demo_install True)"] stock(2) shown(1) by auto
  then have "desk_items (snd (Restore desk_qt (snd (demo_install True)))) = desk_items (demo_desk True)"
    "desk_shown (snd (Restore desk_qt (snd (demo_install True)))) 11 = desk_shown (demo_desk True) 11"
    "desk_place (snd (Restore desk_qt (snd (demo_install True)))) 11 = put_back (desk_place (demo_desk True) 11)"
    using stock(1,3) unfolding same_ui_def desk_view_def desk_qt_def qt.simps qt_state.simps by auto
  with shown show ?thesis by (simp add: demo_desk_def put_back_def)
qed

text \<open>
  With the dock hidden at the installation, \<open>isVisible\<close> answers false for every stock button, and \<open>Restore\<close> hides the
  buttons that were shown: they stay away when the dock is opened again.
\<close>

theorem hidden_dock_loses_the_buttons:
  "fst (demo_install False) \<and> (\<forall>w \<in> {10, 11, 12}. desk_shown (demo_desk False) w \<and>
     \<not> desk_shown (snd (Restore desk_qt (snd (demo_install False)))) w)"
proof -
  have undo: "desk_shown (restore_replacement desk_qt r q) = (desk_shown q)(repl_native r := repl_visible r)" for r q
    by (simp add: restore_replacement_def desk_qt_def)
  obtain ok ad q where run: "demo_install False = (ok, ad, q)" by (metis prod_cases3)
  have "fst (demo_install False)"
    "map (\<lambda>r. (repl_native r, repl_visible r)) (replacements (fst (snd (demo_install False)))) =
       [(10, False), (11, False), (12, False)]"
    "extra_native_controls (fst (snd (demo_install False))) = []"
    by (simp_all add: desk_eval Let_def)
  then have ad: "ok" "map (\<lambda>r. (repl_native r, repl_visible r)) (replacements ad) = [(10, False), (11, False), (12, False)]"
    "extra_native_controls ad = []" using run by simp_all
  from ad(2) obtain r s t where rs: "replacements ad = [r, s, t]" by (auto simp: Cons_eq_map_conv)
  show ?thesis
    using ad rs by (simp add: run Restore_def undo demo_desk_def)
qed

end
