(* ===== verification/HelpButton.thy ===== *)
theory HelpButton
  imports Prelude
begin

text \<open>
  \<open>src/ui/plugin-owned-help-indicator.hpp\<close> and \<open>src/ui/plugin-owned-help-button.cpp\<close>: a push button with a small
  help mark inside, which shows a tooltip and takes the presses on it away from the button. Coordinates are pixels,
  far from the limits of \<open>int\<close>, and are integers here. Painting is left out.
\<close>

subsection \<open>The geometry of the mark\<close>

record PluginOwnedHelpIndicatorGeometry =
  indicator_x :: int
  indicator_y :: int
  indicator_width :: int
  indicator_height :: int
  hit_x :: int
  hit_y :: int
  hit_width :: int
  hit_height :: int

definition indicator_Contains :: "PluginOwnedHelpIndicatorGeometry \<Rightarrow> int \<Rightarrow> int \<Rightarrow> bool" where
  "indicator_Contains g x y \<longleftrightarrow> x \<ge> hit_x g \<and> x < hit_x g + hit_width g \<and> y \<ge> hit_y g \<and> y < hit_y g + hit_height g"

text \<open>\<open>std::clamp\<close> between zero and a bound that is not negative; the division of C++ rounds towards zero.\<close>

definition clamp0 :: "int \<Rightarrow> int \<Rightarrow> int" where
  "clamp0 x hi = (if x < 0 then 0 else if hi < x then hi else x)"

definition half :: "int \<Rightarrow> int" where
  "half x = (if x < 0 then - ((- x) div 2) else x div 2)"

definition MakePluginOwnedHelpIndicatorGeometry :: "int \<Rightarrow> int \<Rightarrow> int \<Rightarrow> int \<Rightarrow> int \<Rightarrow> int \<Rightarrow>
    PluginOwnedHelpIndicatorGeometry" where
  "MakePluginOwnedHelpIndicatorGeometry button_width button_height iwidth iheight right_margin hit_padding =
     (let width = max 0 button_width; height = max 0 button_height;
          icon_width = clamp0 iwidth width; icon_height = clamp0 iheight height;
          margin = max 0 right_margin; padding = max 0 hit_padding;
          x = max 0 (width - margin - icon_width); y = max 0 (half (height - icon_height));
          hx = max 0 (x - padding); hy = max 0 (y - padding);
          hit_right = min width (x + icon_width + padding); hit_bottom = min height (y + icon_height + padding)
      in \<lparr>indicator_x = x, indicator_y = y, indicator_width = icon_width, indicator_height = icon_height,
          hit_x = hx, hit_y = hy, hit_width = max 0 (hit_right - hx), hit_height = max 0 (hit_bottom - hy)\<rparr>)"

subsection \<open>The button\<close>

text \<open>
  The state of the button and what the style answers. A handler returns the new state and whether it hands the
  event on to \<open>QPushButton\<close>; only a press that reaches it can become a click.
\<close>

record PluginOwnedHelpButton =
  help_tooltip :: string
  help_press_active :: bool
  button_width :: int
  button_height :: int
  small_icon_size :: int
  style_margin :: int
  margins_right :: int
  tooltip_shown :: bool

definition Geometry :: "PluginOwnedHelpButton \<Rightarrow> PluginOwnedHelpIndicatorGeometry" where
  "Geometry b =
     (let side = max 1 (small_icon_size b);
          square = max 0 (half (button_height b - side));
          style = max 0 (style_margin b);
          explicit = max 0 (margins_right b);
          right = max (max square style) explicit
      in MakePluginOwnedHelpIndicatorGeometry (button_width b) (button_height b) side side right (half right))"

text \<open>\<open>QRect::contains\<close> of the hit rectangle, which has the geometry's corner and size.\<close>

definition HitRect_contains :: "PluginOwnedHelpButton \<Rightarrow> int \<times> int \<Rightarrow> bool" where
  "HitRect_contains b pos = indicator_Contains (Geometry b) (fst pos) (snd pos)"

datatype mouse_button = LeftButton | OtherButton

datatype help_event =
    MousePress mouse_button "int \<times> int" | MouseRelease mouse_button | MouseMove "int \<times> int" | Leave
  | SetTooltip string

definition SetPluginOwnedHelpTooltip :: "string \<Rightarrow> PluginOwnedHelpButton \<Rightarrow> PluginOwnedHelpButton" where
  "SetPluginOwnedHelpTooltip tip b =
     (let b = b\<lparr>help_tooltip := tip\<rparr> in if tip = [] then b\<lparr>tooltip_shown := False\<rparr> else b)"

definition ShowHelpTooltip :: "PluginOwnedHelpButton \<Rightarrow> PluginOwnedHelpButton" where
  "ShowHelpTooltip b = (if help_tooltip b = [] then b else b\<lparr>tooltip_shown := True\<rparr>)"

definition leaveEvent :: "PluginOwnedHelpButton \<Rightarrow> bool \<times> PluginOwnedHelpButton" where
  "leaveEvent b = (True, b\<lparr>tooltip_shown := False, help_press_active := False\<rparr>)"

definition mouseMoveEvent :: "int \<times> int \<Rightarrow> PluginOwnedHelpButton \<Rightarrow> bool \<times> PluginOwnedHelpButton" where
  "mouseMoveEvent pos b =
     (True, if HitRect_contains b pos then ShowHelpTooltip b else b\<lparr>tooltip_shown := False\<rparr>)"

definition mousePressEvent :: "mouse_button \<Rightarrow> int \<times> int \<Rightarrow> PluginOwnedHelpButton \<Rightarrow> bool \<times> PluginOwnedHelpButton" where
  "mousePressEvent m pos b =
     (if help_tooltip b \<noteq> [] \<and> m = LeftButton \<and> HitRect_contains b pos then (False, b\<lparr>help_press_active := True\<rparr>)
      else (True, b))"

definition mouseReleaseEvent :: "PluginOwnedHelpButton \<Rightarrow> bool \<times> PluginOwnedHelpButton" where
  "mouseReleaseEvent b = (if help_press_active b then (False, b\<lparr>help_press_active := False\<rparr>) else (True, b))"

definition help_step :: "help_event \<Rightarrow> PluginOwnedHelpButton \<Rightarrow> bool \<times> PluginOwnedHelpButton" where
  "help_step ev b = (case ev of
       MousePress m pos \<Rightarrow> mousePressEvent m pos b
     | MouseRelease m \<Rightarrow> mouseReleaseEvent b
     | MouseMove pos \<Rightarrow> mouseMoveEvent pos b
     | Leave \<Rightarrow> leaveEvent b
     | SetTooltip tip \<Rightarrow> (False, SetPluginOwnedHelpTooltip tip b))"

text \<open>The mouse events that reach \<open>QPushButton\<close>.\<close>

fun handed_on :: "help_event list \<Rightarrow> PluginOwnedHelpButton \<Rightarrow> help_event list" where
  "handed_on [] b = []"
| "handed_on (ev # evs) b =
     (let (on, b') = help_step ev b in (if on then [ev] else []) @ handed_on evs b')"

subsection \<open>Properties\<close>

lemma half_mono: "0 \<le> x \<Longrightarrow> 0 \<le> half x \<and> half x \<le> x"
  by (simp add: half_def)

lemma padded_span:
  fixes x :: int
  assumes "0 \<le> x" and "0 \<le> i" and "x + i \<le> w" and "0 \<le> p"
  shows "0 \<le> max 0 (x - p) \<and> max 0 (x - p) \<le> x \<and>
    x + i \<le> max 0 (x - p) + max 0 (min w (x + i + p) - max 0 (x - p)) \<and>
    max 0 (x - p) + max 0 (min w (x + i + p) - max 0 (x - p)) \<le> w"
  using assms by linarith

text \<open>The help mark lies inside the rectangle that is sensitive to it, and that lies inside the button, for every size of
  the button and whatever the style and the margins are, negative values included.\<close>

theorem help_geometry_is_nested:
  fixes w h iw ih margin padding :: int
  defines "g \<equiv> MakePluginOwnedHelpIndicatorGeometry w h iw ih margin padding"
  shows "0 \<le> hit_x g \<and> hit_x g \<le> indicator_x g \<and> indicator_x g + indicator_width g \<le> hit_x g + hit_width g \<and>
    hit_x g + hit_width g \<le> max 0 w \<and>
    0 \<le> hit_y g \<and> hit_y g \<le> indicator_y g \<and> indicator_y g + indicator_height g \<le> hit_y g + hit_height g \<and>
    hit_y g + hit_height g \<le> max 0 h \<and> 0 \<le> indicator_width g \<and> 0 \<le> indicator_height g"
proof -
  have icon: "0 \<le> clamp0 x (max 0 y) \<and> clamp0 x (max 0 y) \<le> max 0 y" for x y
    by (cases "max 0 y < x") (simp_all add: clamp0_def not_less del: max_less_iff_conj less_max_iff_disj le_max_iff_disj)
  have right: "max 0 (max 0 w - max 0 margin - clamp0 iw (max 0 w)) + clamp0 iw (max 0 w) \<le> max 0 w"
    using icon [of iw w] by linarith
  have middle: "max 0 (half (max 0 h - clamp0 ih (max 0 h))) + clamp0 ih (max 0 h) \<le> max 0 h"
    using half_mono [of "max 0 h - clamp0 ih (max 0 h)"] icon [of ih h] by linarith
  note horizontal = padded_span [OF max.cobounded1 icon [THEN conjunct1] right max.cobounded1 [of 0 padding]]
  note vertical = padded_span [OF max.cobounded1 icon [THEN conjunct1] middle max.cobounded1 [of 0 padding]]
  show ?thesis
    unfolding g_def MakePluginOwnedHelpIndicatorGeometry_def Let_def PluginOwnedHelpIndicatorGeometry.simps
    using horizontal vertical icon by blast
qed

definition pressed :: "help_event \<Rightarrow> bool" where
  "pressed ev \<longleftrightarrow> (case ev of MousePress _ _ \<Rightarrow> True | _ \<Rightarrow> False)"

definition on_mark :: "PluginOwnedHelpButton \<Rightarrow> help_event \<Rightarrow> bool" where
  "on_mark b ev \<longleftrightarrow> (case ev of MousePress m pos \<Rightarrow> m = LeftButton \<and> HitRect_contains b pos | _ \<Rightarrow> False)"

definition same_place :: "PluginOwnedHelpButton \<Rightarrow> PluginOwnedHelpButton \<Rightarrow> bool" where
  "same_place b c \<longleftrightarrow> Geometry c = Geometry b \<and> (help_tooltip c = [] \<longleftrightarrow> help_tooltip b = [])"

lemma same_placeI:
  assumes "button_width c = button_width b" and "button_height c = button_height b"
    and "small_icon_size c = small_icon_size b" and "style_margin c = style_margin b"
    and "margins_right c = margins_right b" and "help_tooltip c = [] \<longleftrightarrow> help_tooltip b = []"
  shows "same_place b c"
  unfolding same_place_def Geometry_def assms by (rule conjI [OF refl refl])

lemma help_step_place:
  assumes "\<forall>tip. ev = SetTooltip tip \<longrightarrow> tip \<noteq> [] \<and> help_tooltip b \<noteq> []"
  shows "same_place b (snd (help_step ev b))"
proof (cases ev)
  case (SetTooltip tip)
  then show ?thesis using assms
    by (intro same_placeI) (simp_all add: help_step_def SetPluginOwnedHelpTooltip_def)
qed (intro same_placeI; simp add: help_step_def mousePressEvent_def mouseReleaseEvent_def
    mouseMoveEvent_def leaveEvent_def ShowHelpTooltip_def)+

lemma help_step_keeps_presses:
  assumes "help_tooltip b \<noteq> []" and "pressed ev"
  shows "fst (help_step ev b) \<longleftrightarrow> \<not> on_mark b ev"
  using assms by (cases ev) (simp_all add: pressed_def on_mark_def help_step_def mousePressEvent_def)

text \<open>
  While the button has a help text, whatever the pointer does, exactly the left presses on the mark are kept from
  the button: the presses that reach it are the others, in their order.
\<close>

theorem presses_on_the_mark_are_kept:
  assumes "help_tooltip b \<noteq> []" and "SetTooltip [] \<notin> set evs"
  shows "filter pressed (handed_on evs b) = filter (\<lambda>ev. pressed ev \<and> \<not> on_mark b ev) evs"
  using assms
proof (induction evs arbitrary: b)
  case (Cons ev evs)
  obtain passed c where step: "help_step ev b = (passed, c)" by fastforce
  have "\<forall>tip. ev = SetTooltip tip \<longrightarrow> tip \<noteq> [] \<and> help_tooltip b \<noteq> []" using Cons.prems by auto
  from help_step_place [OF this] step have place: "same_place b c" by simp
  then have "HitRect_contains c = HitRect_contains b"
    by (intro ext) (simp add: HitRect_contains_def same_place_def)
  then have mark: "on_mark c = on_mark b" by (intro ext) (simp add: on_mark_def split: help_event.split)
  have "help_tooltip c \<noteq> []" using place Cons.prems(1) by (simp add: same_place_def)
  moreover have "SetTooltip [] \<notin> set evs" using Cons.prems(2) by simp
  ultimately have rest: "filter pressed (handed_on evs c) = filter (\<lambda>ev. pressed ev \<and> \<not> on_mark b ev) evs"
    using Cons.IH [of c] mark by simp
  show ?case
  proof (cases "pressed ev")
    case True
    from help_step_keeps_presses [OF Cons.prems(1) this] step have "passed \<longleftrightarrow> \<not> on_mark b ev" by simp
    with True rest step show ?thesis by simp
  qed (simp add: step rest)
qed simp

theorem presses_on_the_mark_are_kept_witness:
  "filter pressed (handed_on [MousePress LeftButton (95, 10), MouseRelease LeftButton, MousePress LeftButton (5, 5)]
     \<lparr>help_tooltip = ''help'', help_press_active = False, button_width = 100, button_height = 20, small_icon_size = 16,
      style_margin = 2, margins_right = 0, tooltip_shown = False\<rparr>) = [MousePress LeftButton (5, 5)]"
  (is "filter pressed (handed_on ?evs ?b) = _")
proof -
  have "filter pressed (handed_on ?evs ?b) = filter (\<lambda>ev. pressed ev \<and> \<not> on_mark ?b ev) ?evs"
    by (rule presses_on_the_mark_are_kept) simp_all
  also have "\<dots> = [MousePress LeftButton (5, 5)]" by code_simp
  finally show ?thesis .
qed

end
