(* ===== verification/Spec2Isabelle.thy ===== *)
theory Spec2Isabelle
  imports MasterTimeline RecordingProperties SyncRenderer CaptureProperties MkvRecording ReplayConsumer
    RecordingConsumerProperties ReplayConfig TopologyProperties CaptureControlProperties RecordingHistory PluginMain
    TimelineProbe ControlsAdapter HelpButton
begin

text \<open>
  A verification library for \<open>obs-sync-replay\<close>, an OBS Studio plugin that records and replays the program
  output (Master) and every scene as separate streams that are synchronized frame by frame. Streams are
  matched by source CTS, the composition timestamp that libobs gives all encoders of one frame.

  The program. Under \<open>src/\<close>:
  \<^item> \<open>timeline/\<close> numbers the master frames; \<open>rendering/\<close> and \<open>pipeline/\<close> render both outputs of a frame and keep
    the textures in a queue.
  \<^item> \<open>recording/encoded-packet-buffer\<close>, \<open>sync/common-packet-range\<close> and \<open>recording/synchronized-recording-session\<close>
    are a two-stream recording session: two packet buffers, the selection of common ranges, and a state
    machine that flushes common prefixes to two packet sinks.
  \<^item> \<open>capture/synchronized-capture-session\<close> takes the encoded packets of all streams, keeps a byte-bounded ring for
    replays, hands every packet to the subscribed consumers and cuts snapshots over a common range.
  \<^item> \<open>recording/synchronized-recording-consumer\<close> (a queue, a worker thread, one MKV writer per stream) and
    \<open>replay/synchronized-replay-consumer\<close> (one save at a time, on a thread) are the consumers;
    \<open>muxing/mkv-packet-writer\<close> writes their files through libav.
  \<^item> \<open>config/\<close> derives the replay configuration from the OBS profile, \<open>topology/\<close> the streams from the scenes.
  \<^item> \<open>control/capture-control\<close> is the engine: recording and replay as independent consumers of one capture, with
    encoders on demand. \<open>control/plugin-capture-runtime\<close> builds it from the topology and rebuilds it between
    capture epochs; its encoder controller owns the libobs encoders.
  \<^item> \<open>ui/capture-controls\<close> are the plugin's buttons, \<open>plugin/plugin-main.cpp\<close> the module: frontend events,
    hotkeys, start and stop of the runtime. \<open>ui/obs-controls-adapter\<close> puts the buttons into the places of the
    stock ones.
  \<^item> \<open>recording/obs-synchronized-recording\<close> drives one recording session over two OBS views and is called by
    \<open>experiment/stock-encoder-timeline-probe\<close>, an experiment that compares what two stock encoders report; the
    plugin starts neither.

  The theories, each importing what its part calls:
  \<^item> \<open>Prelude\<close>: machine integers, \<open>std::vector\<close> sizes, shared lemmas. \<open>OrderedMap\<close>: \<open>std::map\<close> as a sorted
    association list, with the locale \<open>ordered_map\<close> of its laws and its extension for maps filed under a key.
  \<^item> \<open>PacketBuffer\<close>, \<open>CommonRange\<close>: the packet buffer and the range selection. Accounting, the round trip of
    pushes and snapshots, and that the selected ranges are the greatest and least ones.
  \<^item> \<open>PacketSink\<close>, \<open>SinkContract\<close>: the sink interface as a record of operations and a locale of its laws.
    \<open>RecordingSession\<close>, \<open>RecordingInvariant\<close>, \<open>RecordingProperties\<close>: every operation of the session over any sink
    of the contract, the invariant all its steps keep, and what a recording commits.
  \<^item> \<open>MasterTimeline\<close>, \<open>FrameQueue\<close>, \<open>FramePipeline\<close>, \<open>SceneRender\<close>, \<open>SyncRenderer\<close>: timeline, queue (with its
    refinement to a bounded list), pipeline with the ownership of textures, renderer and composition.
  \<^item> \<open>CaptureSession\<close>, \<open>CaptureInvariant\<close>, \<open>CaptureProperties\<close>: the capture session, its ring and its snapshots.
  \<^item> \<open>MkvWriter\<close>, \<open>MkvProperties\<close>, \<open>MkvRecording\<close>: the writer and its sink over libav, which interprets the sink
    contract, so that the theorems of the session hold of real files.
  \<^item> \<open>ReplayConsumer\<close>, \<open>RecordingConsumer\<close>, \<open>RecordingConsumerProperties\<close>: the consumers; capture threads,
    controller and worker interleave as steps of \<open>rc_step\<close>. \<open>RecordingFiles\<close>: the paths of the files of a recording.
  \<^item> \<open>ReplayConfig\<close>, \<open>Topology\<close>, \<open>TopologyProperties\<close>: configuration, topology and its epochs.
  \<^item> \<open>CaptureConfig\<close>, \<open>CaptureControl\<close>: the engine, \<open>system_step\<close> and \<open>system_run\<close>, the steps and runs of engine and threads.
    \<open>EncoderDemand\<close> states what the engine needs of an encoder controller as the locale \<open>encoder_controller\<close> and
    what its passes over the streams do; \<open>CaptureControlInvariant\<close> proves, inside the locale, that every command
    and every step keeps the engine's invariant; \<open>PluginEncoders\<close> models the plugin's controller over libobs and
    interprets the locale; \<open>CaptureControlProperties\<close> draws the conclusions for it. \<open>RecordingHistory\<close> follows each
    recording of a run from its start to the result the engine reports.
  \<^item> \<open>PluginRuntime\<close>, \<open>PluginRuntimeInvariant\<close>, \<open>PluginRuntimeProperties\<close>: the runtime, \<open>runtime_step\<close> and
    \<open>runtime_run\<close>, that every step keeps the engine in line with the topology, and when a build succeeds.
  \<^item> \<open>CaptureControlsUi\<close>, \<open>PluginMain\<close>: the buttons and the module. \<open>plugin_run\<close> is the outermost relation: a
    runtime it holds is in \<open>runtime_run\<close>, the engine of that in \<open>system_run\<close>, a consumer of that in
    \<open>rc_reachable\<close>, so that what is proved of a part holds inside the whole.
  \<^item> \<open>ControlsAdapter\<close>: the adapter over Qt, which is a record of functions with the laws \<open>qt_laws\<close>, and that
    restoring undoes installing but for the alignment of the stock buttons. \<open>HelpButton\<close>: the help mark in a button, which takes exactly the presses on it.
  \<^item> \<open>ObsPacket\<close>: what libobs hands to a packet callback. \<open>RecordingDriver\<close>: the recording driver as a function of
    what libobs, the clock and the packet threads do; every run of it is a run of the session, so that the theorems
    of \<open>MkvRecording\<close> hold of its files. \<open>TimelineProbe\<close>: the comparison and the configuration of the experiment.

  Conventions. A class is a record of its fields, an operation a function from the state to its answer and
  the new state, named as in the source (with a prefix where two classes share a name). \<open>uint64_t\<close>,
  \<open>size_t\<close>, \<open>uint8_t\<close> and the like are words of their width, with the wrap-around of the code. An error is a
  constructor of the code's result type, or \<open>None\<close> for a loop that does not return. Pointers to consumers are
  64-bit addresses. What libobs, libav, Qt, the profile, the file system or a clock answers is an argument
  (\<open>mkv_env\<close>, \<open>obs_encoders\<close>, \<open>readings\<close>, \<open>start_answers\<close>, \<open>driver_world\<close>, \<open>qt\<close>) that the theorems quantify over.

  Threads. A block under a mutex is one step; steps interleave freely. Ingest hands over outside its lock:
  the packets it still has to hand over are the \<open>in_flight\<close> list of a system, and a hand-over to a consumer
  that is gone has no step, as the code is undefined there (\<open>fan_out_may_outlive_consumer\<close>). The commands
  of the engine are called under the runtime's mutex; while one of them waits for the recording worker or
  for a save, only that worker runs in the model.

  Bounds and fuel. \<open>join_turns\<close> is the number of worker turns a stopped recording needs: two for each queued
  packet, one for a packet in hand and the finish; \<open>stop_returns_with_a_result\<close> shows that the worker has
  exited after them, in the call of \<open>Stop\<close> that finds it joinable; every other call returns without waiting. \<open>all_ids\<close> takes fuel because its loop over 8-bit ids does not end for 256 streams;
  \<open>all_streams_snapshot_termination\<close> states both sides. The loops of the recording driver run over the schedule
  of their rounds and answer \<open>None\<close> when it runs out; \<open>poll_loop_returns\<close> says when they return.
  \<open>FindContainingLayout\<close> takes the nesting depth of the layouts, which is finite. Every other loop is structural or has a measure.

  What the properties show, by part. A recording session commits the same packets to both sinks, completes
  them over one common range and moves along its state machine. The capture ring is bounded, evicts by one
  common cut, and its snapshots hold one common range. A successful recording or save has written every
  packet of its range exactly once to every file. The stop that joins the recording worker returns with its result. The engine rests in well-formed
  states, encoders follow demand, and a success it reports is that of its last recording, with complete files. The runtime captures exactly one
  topology per epoch. The findings listed beside the theories name the theorems that show them.

  Not modelled. The worker of the probe (\<open>StockEncoderTimelineProbe::Run\<close>), a schedule of libobs calls whose results
  are only logged; the painting of the help button; \<open>plugin/plugin-log.hpp\<close>, which formats log
  lines. Inside the modelled parts: log lines, the settings of encoders, the reference counts of libobs
  sources, exceptions of Qt and of memory allocation, the artificial delay of a save used by tests, and the casts
  of sizes to \<open>int\<close> where the MKV writer calls libav. The snapshot of all streams takes its mutex twice, once for the ids
  and once for the snapshot, and is one step here.
\<close>

end
